(* ===== verification/Poker_Prelude.thy ===== *)
theory Poker_Prelude
  imports Main "HOL-Library.Multiset"
begin

text \<open>
  Shared vocabulary of the development.

  The model writes a C++ \<open>int\<close> as \<open>int\<close> (signed overflow is undefined behaviour in C++ and is
  not given a meaning here), an \<open>unsigned\<close> as a natural number with the reduction modulo
  \<open>2^32\<close> written where the source casts to \<open>unsigned\<close>, and a \<open>switch\<close> with constant labels as
  the table lookup \<open>switch\<close>. A \<open>for\<close> loop that returns from its body is \<open>first_some\<close> over the
  list of its index values; a loop that only updates state is a \<open>fold\<close>.
\<close>

named_theorems loop_simps "evaluation of the loop combinators"

section \<open>Switch tables\<close>

definition switch :: "int \<Rightarrow> (int \<times> 'a) list \<Rightarrow> 'a \<Rightarrow> 'a" where
  "switch v cases dflt = (case map_of cases v of Some r \<Rightarrow> r | None \<Rightarrow> dflt)"

lemma switch_Nil [simp]: "switch v [] d = d"
  by (simp add: switch_def)

lemma switch_Cons [simp]: "switch v ((k, r) # cs) d = (if v = k then r else switch v cs d)"
  by (simp add: switch_def)

section \<open>Loops that return early\<close>

fun first_some :: "('a \<Rightarrow> 'b option) \<Rightarrow> 'a list \<Rightarrow> 'b option" where
  "first_some f [] = None"
| "first_some f (x # xs) = (case f x of Some r \<Rightarrow> Some r | None \<Rightarrow> first_some f xs)"

lemma first_some_None_iff: "first_some f xs = None \<longleftrightarrow> (\<forall>x \<in> set xs. f x = None)"
  by (induction xs) (auto split: option.splits)

lemma first_some_NoneI [intro]: "(\<And>x. x \<in> set xs \<Longrightarrow> f x = None) \<Longrightarrow> first_some f xs = None"
  by (simp add: first_some_None_iff)

lemma first_some_SomeD: "first_some f xs = Some r \<Longrightarrow> \<exists>x \<in> set xs. f x = Some r"
  by (induction xs) (auto split: option.splits)

lemma first_some_append:
  "first_some f (xs @ ys) = (case first_some f xs of Some r \<Rightarrow> Some r | None \<Rightarrow> first_some f ys)"
  by (induction xs) (auto split: option.splits)

lemma first_some_map: "first_some f (map g xs) = first_some (\<lambda>x. f (g x)) xs"
  by (induction xs) (auto split: option.splits)

lemma first_some_nested:
  "first_some (\<lambda>x. first_some (f x) (g x)) xs =
   first_some (\<lambda>(x, y). f x y) (concat (map (\<lambda>x. map (Pair x) (g x)) xs))"
  by (induction xs) (simp_all add: first_some_append first_some_map split: option.splits)

lemma first_some_cong [fundef_cong]:
  "xs = ys \<Longrightarrow> (\<And>x. x \<in> set ys \<Longrightarrow> f x = g x) \<Longrightarrow> first_some f xs = first_some g ys"
  by (induction ys arbitrary: xs) (auto split: option.splits)

lemma first_some_unique:
  assumes "x \<in> set xs" and "f x = Some r"
    and "\<And>y s. y \<in> set xs \<Longrightarrow> f y = Some s \<Longrightarrow> s = r"
  shows "first_some f xs = Some r"
proof (cases "first_some f xs")
  case None
  with assms(1,2) show ?thesis by (auto simp: first_some_None_iff)
next
  case (Some s)
  then obtain y where "y \<in> set xs" "f y = Some s" by (blast dest: first_some_SomeD)
  with assms(3) Some show ?thesis by simp
qed

section \<open>Descending lists\<close>

abbreviation descending :: "'a::linorder list \<Rightarrow> bool" where
  "descending xs \<equiv> sorted_wrt (\<ge>) xs"

lemma descending_rev: "descending xs \<longleftrightarrow> sorted (rev xs)"
  by (simp add: sorted_wrt_rev)

lemma descending_unique:
  assumes "descending xs" "descending ys" "mset xs = mset ys"
  shows "xs = ys"
proof -
  have "sorted (rev xs)" and "sorted (rev ys)" and "mset (rev xs) = mset (rev ys)"
    using assms by (simp_all add: descending_rev)
  then have "rev xs = rev ys" by (metis properties_for_sort)
  then show ?thesis by simp
qed

lemma descending_eq_rev_sort: "descending xs \<Longrightarrow> xs = rev (sort xs)"
  by (rule descending_unique) (simp_all add: descending_rev)

section \<open>Sums over updated lists\<close>

lemma sum_list_update_int:
  fixes xs :: "int list"
  assumes "k < length xs"
  shows "sum_list (xs[k := v]) = sum_list xs - xs ! k + v"
  using assms by (induction xs arbitrary: k) (auto split: nat.split)

lemma sum_list_map_update_int:
  fixes f :: "'a \<Rightarrow> int"
  assumes "k < length xs"
  shows "sum_list (map f (xs[k := v])) = sum_list (map f xs) - f (xs ! k) + f v"
  using assms by (simp add: map_update sum_list_update_int)

end
