(* ===== verification/Exchange_Sort.thy ===== *)
theory Exchange_Sort
  imports Poker_Prelude
begin

text \<open>
  The exchange sort that \<open>CardsValue::cardsValue\<close> (and the two board evaluators of
  \<open>LocalPlayer\<close>) spell out four times with different comparisons: two nested index loops,
  \<open>k2\<close> running from \<open>k1 + 1\<close>, that swap the entries at \<open>k1\<close> and \<open>k2\<close> whenever the first is
  smaller. The locale states when such a loop nest sorts; the comparisons of the code
  interpret it in \<open>Cards_Value\<close>.
\<close>

definition exch :: "('a \<Rightarrow> 'a \<Rightarrow> bool) \<Rightarrow> nat \<Rightarrow> nat \<Rightarrow> 'a list \<Rightarrow> 'a list" where
  "exch lt k1 k2 xs = (if lt (xs ! k1) (xs ! k2) then xs[k1 := xs ! k2, k2 := xs ! k1] else xs)"

definition exch_inner :: "('a \<Rightarrow> 'a \<Rightarrow> bool) \<Rightarrow> nat \<Rightarrow> nat \<Rightarrow> 'a list \<Rightarrow> 'a list" where
  "exch_inner lt n k1 xs = fold (exch lt k1) [Suc k1..<n] xs"

definition exchange_sort :: "('a \<Rightarrow> 'a \<Rightarrow> bool) \<Rightarrow> nat \<Rightarrow> 'a list \<Rightarrow> 'a list" where
  "exchange_sort lt n xs = fold (exch_inner lt n) [0..<n] xs"

section \<open>Permutation\<close>

lemma length_exch [simp]: "length (exch lt k1 k2 xs) = length xs"
  by (simp add: exch_def)

lemma mset_exch: "k1 < length xs \<Longrightarrow> k2 < length xs \<Longrightarrow> mset (exch lt k1 k2 xs) = mset xs"
  by (simp add: exch_def mset_swap)

lemma fold_exch_perm:
  assumes "k1 < length xs" and "\<forall>k \<in> set ks. k < length xs"
  shows "length (fold (exch lt k1) ks xs) = length xs \<and> mset (fold (exch lt k1) ks xs) = mset xs"
  using assms by (induction ks arbitrary: xs) (simp_all add: mset_exch)

lemma exch_inner_perm:
  "k1 < n \<Longrightarrow> n \<le> length xs \<Longrightarrow>
     length (exch_inner lt n k1 xs) = length xs \<and> mset (exch_inner lt n k1 xs) = mset xs"
  unfolding exch_inner_def by (rule fold_exch_perm) auto

lemma fold_exch_inner_perm:
  assumes "\<forall>k \<in> set ks. k < n" and "n \<le> length xs"
  shows "length (fold (exch_inner lt n) ks xs) = length xs \<and>
         mset (fold (exch_inner lt n) ks xs) = mset xs"
  using assms by (induction ks arbitrary: xs) (simp_all add: exch_inner_perm)

lemma length_exchange_sort [simp]: "n \<le> length xs \<Longrightarrow> length (exchange_sort lt n xs) = length xs"
  by (simp add: exchange_sort_def fold_exch_inner_perm)

lemma mset_exchange_sort: "n \<le> length xs \<Longrightarrow> mset (exchange_sort lt n xs) = mset xs"
  by (simp add: exchange_sort_def fold_exch_inner_perm)

lemma set_exchange_sort: "n \<le> length xs \<Longrightarrow> set (exchange_sort lt n xs) = set xs"
  by (metis mset_exchange_sort set_mset_mset)

section \<open>Sortedness\<close>

locale exchange_order =
  fixes lt :: "'a \<Rightarrow> 'a \<Rightarrow> bool"
  assumes lt_irrefl: "\<not> lt a a"
    and lt_neg_trans: "\<not> lt a b \<Longrightarrow> \<not> lt b c \<Longrightarrow> \<not> lt a c"
    and lt_asym: "lt a b \<Longrightarrow> \<not> lt b a"
begin

lemma inner_head_max:
  assumes "k1 < m" "m \<le> length xs"
  shows "(\<forall>j \<in> {k1..<m}. \<not> lt (fold (exch lt k1) [Suc k1..<m] xs ! k1)
                                   (fold (exch lt k1) [Suc k1..<m] xs ! j)) \<and>
         (\<forall>j. j < k1 \<or> m \<le> j \<longrightarrow> fold (exch lt k1) [Suc k1..<m] xs ! j = xs ! j)"
  using assms
proof (induction "m - Suc k1" arbitrary: m)
  case 0
  then have "m = Suc k1" by simp
  then show ?case using lt_irrefl by simp
next
  case (Suc d)
  then obtain m' where m: "m = Suc m'" and lt: "k1 < m'" by (cases m) auto
  let ?ys = "fold (exch lt k1) [Suc k1..<m'] xs"
  have len: "length ?ys = length xs"
    using lt m Suc.prems by (intro fold_exch_perm [THEN conjunct1]) auto
  have IH: "\<forall>j \<in> {k1..<m'}. \<not> lt (?ys ! k1) (?ys ! j)"
    "\<forall>j. j < k1 \<or> m' \<le> j \<longrightarrow> ?ys ! j = xs ! j"
    using Suc.hyps(1) [of m'] Suc.hyps(2) Suc.prems m lt by auto
  have step: "fold (exch lt k1) [Suc k1..<m] xs = exch lt k1 m' ?ys"
    using m lt by simp
  have bound: "k1 < length ?ys" "m' < length ?ys" using len m lt Suc.prems by auto
  show ?case
  proof (cases "lt (?ys ! k1) (?ys ! m')")
    case True
    let ?zs = "exch lt k1 m' ?ys"
    have at: "?zs ! k1 = ?ys ! m'" "?zs ! m' = ?ys ! k1"
      "\<And>j. j \<noteq> k1 \<Longrightarrow> j \<noteq> m' \<Longrightarrow> ?zs ! j = ?ys ! j"
      using True bound lt by (simp_all add: exch_def)
    have below: "\<not> lt (?ys ! m') (?ys ! j)" if "j \<in> {k1..<m'}" for j
      using lt_neg_trans [OF lt_asym [OF True]] IH(1) that by blast
    have "\<not> lt (?zs ! k1) (?zs ! j)" if "j \<in> {k1..<m}" for j
      using that below at lt_irrefl lt_asym [OF True] m
      by (cases "j = k1"; cases "j = m'") auto
    moreover have "?zs ! j = xs ! j" if "j < k1 \<or> m \<le> j" for j
      using that at(3) IH(2) m lt by auto
    ultimately show ?thesis unfolding step by blast
  next
    case False
    with IH bound m show ?thesis
      unfolding step by (auto simp: exch_def less_Suc_eq)
  qed
qed

lemma inner_preserves_le:
  assumes "k1 < length xs" "n \<le> length xs" "k1 < n"
    and "i < k1" "\<forall>j \<in> {i..<n}. \<not> lt (xs ! i) (xs ! j)"
  shows "\<forall>j \<in> {i..<n}. \<not> lt (exch_inner lt n k1 xs ! i) (exch_inner lt n k1 xs ! j)"
proof -
  have same: "\<And>j. j < k1 \<or> n \<le> j \<Longrightarrow> exch_inner lt n k1 xs ! j = xs ! j"
    using inner_head_max [of k1 n xs] assms by (auto simp: exch_inner_def)
  have "set (drop i (take n (exch_inner lt n k1 xs))) = set (drop i (take n xs))"
  proof -
    let ?ys = "exch_inner lt n k1 xs"
    have len: "length ?ys = length xs" and ms: "mset ?ys = mset xs"
      using exch_inner_perm assms by blast+
    have t: "take i ?ys = take i xs" and d: "drop n ?ys = drop n xs"
      using same len assms(4) by (auto intro!: nth_equalityI)
    have split: "zs = take i zs @ drop i (take n zs) @ drop n zs" if "i \<le> n" for zs :: "'a list"
      using that by (metis append.assoc append_take_drop_id min.absorb1 take_take)
    have "mset ?ys = mset (take i ?ys) + mset (drop i (take n ?ys)) + mset (drop n ?ys)"
      using split [of ?ys] assms by (metis mset_append add.assoc less_imp_le order.strict_trans)
    moreover have "mset xs = mset (take i xs) + mset (drop i (take n xs)) + mset (drop n xs)"
      using split [of xs] assms by (metis mset_append add.assoc less_imp_le order.strict_trans)
    ultimately have "mset (drop i (take n ?ys)) = mset (drop i (take n xs))"
      using ms t d by simp
    then show ?thesis by (metis set_mset_mset)
  qed
  moreover have "\<forall>y \<in> set (drop i (take n xs)). \<not> lt (xs ! i) y"
    using assms by (auto simp: in_set_conv_nth)
  ultimately have "\<forall>y \<in> set (drop i (take n (exch_inner lt n k1 xs))). \<not> lt (xs ! i) y"
    by simp
  moreover have "exch_inner lt n k1 xs ! j \<in> set (drop i (take n (exch_inner lt n k1 xs)))"
    if "j \<in> {i..<n}" for j
    using that assms exch_inner_perm [of k1 n xs lt]
    by (auto simp: in_set_conv_nth intro!: exI [of _ "j - i"])
  ultimately show ?thesis using same assms(4) by auto
qed

lemma outer_sorted_prefix:
  assumes "m \<le> n" "n \<le> length xs"
  shows "\<forall>i < m. \<forall>j \<in> {i..<n}. \<not> lt (fold (exch_inner lt n) [0..<m] xs ! i)
                                           (fold (exch_inner lt n) [0..<m] xs ! j)"
  using assms(1)
proof (induction m)
  case 0
  then show ?case by simp
next
  case (Suc m)
  let ?ys = "fold (exch_inner lt n) [0..<m] xs"
  have len: "length ?ys = length xs"
    using Suc.prems assms(2) by (intro fold_exch_inner_perm [THEN conjunct1]) auto
  have IH: "\<forall>i < m. \<forall>j \<in> {i..<n}. \<not> lt (?ys ! i) (?ys ! j)" using Suc by simp
  have m: "m < n" "n \<le> length ?ys" using Suc.prems len assms by auto
  have "\<forall>j \<in> {m..<n}. \<not> lt (exch_inner lt n m ?ys ! m) (exch_inner lt n m ?ys ! j)"
    using inner_head_max [of m n ?ys] m by (auto simp: exch_inner_def)
  moreover have "\<forall>j \<in> {i..<n}. \<not> lt (exch_inner lt n m ?ys ! i) (exch_inner lt n m ?ys ! j)"
    if "i < m" for i
    using that m IH by (intro inner_preserves_le) auto
  ultimately show ?case by (auto simp: less_Suc_eq)
qed

theorem exchange_sort_sorted:
  assumes "length xs = n"
  shows "sorted_wrt (\<lambda>a b. \<not> lt a b) (exchange_sort lt n xs)"
  using outer_sorted_prefix [of n n xs] assms
  by (simp add: sorted_wrt_iff_nth_less exchange_sort_def [symmetric])

end

section \<open>Two comparisons that agree\<close>

text \<open>
  A later pass of the code compares only entries that agree in the earlier key. On a list
  already ordered by that key it swaps exactly what the lexicographic comparison would.
\<close>

lemma exch_cong_key:
  assumes "k1 < k2" "k2 < length xs" "sorted_wrt (\<lambda>a b. \<not> key_lt a b) xs"
    and "\<And>a b. key_lt a b \<Longrightarrow> \<not> lt2 a b"
    and "\<And>a b. lt2 a b \<Longrightarrow> \<not> key_lt b a"
    and "\<And>a b c. lt2 a b \<Longrightarrow> key_lt a c = key_lt b c \<and> key_lt c a = key_lt c b"
  shows "exch (\<lambda>a b. key_lt a b \<or> lt2 a b) k1 k2 xs = exch lt2 k1 k2 xs \<and>
         sorted_wrt (\<lambda>a b. \<not> key_lt a b) (exch lt2 k1 k2 xs)"
proof -
  have "\<not> key_lt (xs ! k1) (xs ! k2)"
    using assms(1-3) by (auto simp: sorted_wrt_iff_nth_less)
  then have "exch (\<lambda>a b. key_lt a b \<or> lt2 a b) k1 k2 xs = exch lt2 k1 k2 xs"
    by (simp add: exch_def)
  moreover have "sorted_wrt (\<lambda>a b. \<not> key_lt a b) (exch lt2 k1 k2 xs)"
  proof (cases "lt2 (xs ! k1) (xs ! k2)")
    case True
    note same = assms(6) [OF True]
    have "\<not> key_lt (xs[k1 := xs ! k2, k2 := xs ! k1] ! i) (xs[k1 := xs ! k2, k2 := xs ! k1] ! j)"
      if "i < j" "j < length xs" for i j
    proof -
      have *: "\<not> key_lt (xs ! i) (xs ! j)"
        using assms(3) that by (auto simp: sorted_wrt_iff_nth_less)
      have "key_lt (xs[k1 := xs ! k2, k2 := xs ! k1] ! p) c = key_lt (xs ! p) c \<and>
            key_lt c (xs[k1 := xs ! k2, k2 := xs ! k1] ! p) = key_lt c (xs ! p)"
        if "p < length xs" for p c
        using same assms(1,2) that by (auto simp: nth_list_update)
      with * that show ?thesis by auto
    qed
    with True show ?thesis by (auto simp: exch_def sorted_wrt_iff_nth_less)
  next
    case False
    with assms(3) show ?thesis by (simp add: exch_def)
  qed
  ultimately show ?thesis by simp
qed

lemma fold_exch_cong_key:
  assumes "\<forall>k \<in> set ks. k1 < k \<and> k < length xs" "sorted_wrt (\<lambda>a b. \<not> key_lt a b) xs"
    and "\<And>a b. key_lt a b \<Longrightarrow> \<not> lt2 a b"
    and "\<And>a b. lt2 a b \<Longrightarrow> \<not> key_lt b a"
    and "\<And>a b c. lt2 a b \<Longrightarrow> key_lt a c = key_lt b c \<and> key_lt c a = key_lt c b"
  shows "fold (exch (\<lambda>a b. key_lt a b \<or> lt2 a b) k1) ks xs = fold (exch lt2 k1) ks xs \<and>
         sorted_wrt (\<lambda>a b. \<not> key_lt a b) (fold (exch lt2 k1) ks xs)"
  using assms(1,2)
proof (induction ks arbitrary: xs)
  case Nil
  then show ?case by simp
next
  case (Cons k ks)
  have "exch (\<lambda>a b. key_lt a b \<or> lt2 a b) k1 k xs = exch lt2 k1 k xs \<and>
        sorted_wrt (\<lambda>a b. \<not> key_lt a b) (exch lt2 k1 k xs)"
    using Cons.prems by (intro exch_cong_key assms(3-5)) auto
  with Cons show ?case by simp
qed

lemma exchange_sort_cong_key:
  assumes "n \<le> length xs" "sorted_wrt (\<lambda>a b. \<not> key_lt a b) xs"
    and keys: "\<And>a b. key_lt a b \<Longrightarrow> \<not> lt2 a b"
      "\<And>a b. lt2 a b \<Longrightarrow> \<not> key_lt b a"
      "\<And>a b c. lt2 a b \<Longrightarrow> key_lt a c = key_lt b c \<and> key_lt c a = key_lt c b"
  shows "exchange_sort lt2 n xs = exchange_sort (\<lambda>a b. key_lt a b \<or> lt2 a b) n xs"
proof -
  have "fold (exch_inner (\<lambda>a b. key_lt a b \<or> lt2 a b) n) ks xs = fold (exch_inner lt2 n) ks xs \<and>
        sorted_wrt (\<lambda>a b. \<not> key_lt a b) (fold (exch_inner lt2 n) ks xs)"
    if "\<forall>k \<in> set ks. k < n" for ks
    using that assms(1,2)
  proof (induction ks arbitrary: xs)
    case Nil
    then show ?case by simp
  next
    case (Cons k ks)
    have "exch_inner (\<lambda>a b. key_lt a b \<or> lt2 a b) n k xs = exch_inner lt2 n k xs \<and>
          sorted_wrt (\<lambda>a b. \<not> key_lt a b) (exch_inner lt2 n k xs)"
      unfolding exch_inner_def using Cons.prems by (intro fold_exch_cong_key keys) auto
    with Cons show ?case by (simp add: exch_inner_perm)
  qed
  then show ?thesis by (simp add: exchange_sort_def)
qed

end
