(* ===== verification/Cards_Value.thy ===== *)
theory Cards_Value
  imports Exchange_Sort
begin

text \<open>
  The static class \<open>CardsValue\<close> (\<open>src/src/engine/local_engine/cardsvalue.cpp\<close>): the seven-card
  evaluator \<open>cardsValue\<close>, the hole-card rating \<open>holeCardsClass\<close> and the hole-card code
  \<open>holeCardsToIntCode\<close>. A card is an \<open>int\<close> in \<open>0..51\<close>; \<open>card div 13\<close> is its suit and
  \<open>card mod 13\<close> its rank (0 the deuce, 12 the ace). On these non-negative values C++ \<open>/\<close> and
  \<open>%\<close> are \<open>div\<close> and \<open>mod\<close>.

  \<open>cardsValue\<close> returns the value and the contents of the output array \<open>position\<close>; a null
  \<open>position\<close> only suppresses the second component.
\<close>

section \<open>Hole cards\<close>

definition holeCardsClass :: "int \<Rightarrow> int \<Rightarrow> int" where
  "holeCardsClass one0 two0 =
    (let one = (if one0 mod 13 < two0 mod 13 then two0 else one0);
         two = (if one0 mod 13 < two0 mod 13 then one0 else two0);
         d = one mod 13 - two mod 13;
         suited = (one div 13 = two div 13)
     in if one mod 13 = two mod 13 then
          (if one mod 13 + 2 > 10 then 10
           else switch (one mod 13 + 2) [(10, 9), (9, 8), (8, 7), (7, 6)] 5)
        else switch (one mod 13 + 2)
          [(14, if suited then switch d [(1, 10), (2, 9), (3, 9), (4, 8)] 7
                else switch d [(1, 9), (2, 8), (3, 7), (4, 7)] 4),
           (13, if suited then switch d [(1, 9), (2, 8), (3, 8), (4, 6)] 5
                else switch d [(1, 7), (2, 6), (3, 6)] 4),
           (12, if suited then switch d [(1, 8), (2, 7), (3, 6), (4, 5)] 4
                else switch d [(1, 6), (2, 6), (3, 4)] 3),
           (11, if suited then switch d [(1, 7), (2, 6), (3, 5), (4, 4)] 3
                else switch d [(1, 6), (2, 5), (3, 4)] 2),
           (10, if suited then switch d [(1, 6), (2, 5)] 2
                else switch d [(1, 5), (2, 4)] 1)]
          (if d \<le> 2 then (if suited then 5 else 3)
           else (if d = 3 then 2 else 1)))"

definition holeCardsToIntCode :: "int \<Rightarrow> int \<Rightarrow> int" where
  "holeCardsToIntCode c0 c1 =
    (if c0 mod 13 = c1 mod 13 then (c0 mod 13) * 1000 + (c0 mod 13) * 10
     else if c0 mod 13 < c1 mod 13 then
       (if c0 div 13 = c1 div 13 then (c0 mod 13) * 1000 + (c1 mod 13) * 10 + 1
        else (c0 mod 13) * 1000 + (c1 mod 13) * 10)
     else
       (if c0 div 13 = c1 div 13 then (c1 mod 13) * 1000 + (c0 mod 13) * 10 + 1
        else (c1 mod 13) * 1000 + (c0 mod 13) * 10))"

section \<open>The card array and its orders\<close>

record card_entry =
  suit :: int
  rank :: int
  cpos :: int

definition card_array :: "nat \<Rightarrow> int list \<Rightarrow> card_entry list" where
  "card_array n cards =
     map (\<lambda>j. \<lparr>suit = cards ! j div 13, rank = cards ! j mod 13, cpos = int j\<rparr>) [0..<n]"

definition suit_lt :: "card_entry \<Rightarrow> card_entry \<Rightarrow> bool" where
  "suit_lt a b \<longleftrightarrow> suit a < suit b"

definition rank_in_suit_lt :: "card_entry \<Rightarrow> card_entry \<Rightarrow> bool" where
  "rank_in_suit_lt a b \<longleftrightarrow> suit a = suit b \<and> rank a < rank b"

definition rank_lt :: "card_entry \<Rightarrow> card_entry \<Rightarrow> bool" where
  "rank_lt a b \<longleftrightarrow> rank a < rank b"

definition pos_in_rank_lt :: "card_entry \<Rightarrow> card_entry \<Rightarrow> bool" where
  "pos_in_rank_lt a b \<longleftrightarrow> rank a = rank b \<and> cpos a < cpos b"

definition sort_by_suit :: "card_entry list \<Rightarrow> card_entry list" where
  "sort_by_suit a = exchange_sort rank_in_suit_lt 7 (exchange_sort suit_lt 7 a)"

definition sort_by_rank :: "card_entry list \<Rightarrow> card_entry list" where
  "sort_by_rank a = exchange_sort pos_in_rank_lt 7 (exchange_sort rank_lt 7 a)"

definition positions :: "card_entry list \<Rightarrow> nat list \<Rightarrow> int list" where
  "positions a js = map (\<lambda>j. cpos (a ! j)) js"

section \<open>Royal flush and straight flush\<close>

function group_end :: "card_entry list \<Rightarrow> nat \<Rightarrow> nat \<Rightarrow> nat" where
  "group_end a s e =
     (if e + 1 < 7 \<and> suit (a ! (e + 1)) = suit (a ! s) then group_end a s (e + 1) else e)"
  by pat_completeness auto
termination
  by (relation "measure (\<lambda>(a, s, e). 7 - e)") auto

declare group_end.simps [simp del]

definition straight_flush_run :: "card_entry list \<Rightarrow> nat \<Rightarrow> nat \<Rightarrow> (int \<times> int list) option" where
  "straight_flush_run a s e = first_some (\<lambda>si.
     if rank (a ! si) - 1 = rank (a ! (si + 1)) \<and> rank (a ! (si + 1)) - 1 = rank (a ! (si + 2))
        \<and> rank (a ! (si + 2)) - 1 = rank (a ! (si + 3))
        \<and> rank (a ! (si + 3)) - 1 = rank (a ! (si + 4))
     then (if rank (a ! si) = 12
           then Some (900000000, positions a [si..<si + 5])
           else Some (800000000 + rank (a ! si) * 1000000, positions a [si..<si + 5]))
     else None) [s..<e - 3]"

definition straight_flush_wheel :: "card_entry list \<Rightarrow> nat \<Rightarrow> nat \<Rightarrow> (int \<times> int list) option" where
  "straight_flush_wheel a s e = first_some (\<lambda>si.
     if rank (a ! si) \<noteq> 12 then None
     else first_some (\<lambda>sj.
       if rank (a ! si) - 9 = rank (a ! sj)
          \<and> rank (a ! sj) - 1 = rank (a ! (sj + 1))
          \<and> rank (a ! (sj + 1)) - 1 = rank (a ! (sj + 2))
          \<and> rank (a ! (sj + 2)) - 1 = rank (a ! (sj + 3))
          \<and> suit (a ! si) = suit (a ! sj) \<and> suit (a ! si) = suit (a ! (sj + 3))
       then Some (800000000 + 3 * 1000000, positions a (si # [sj..<sj + 4]))
       else None) [s..<e - 2]) [s..<e + 1]"

lemma group_end_ge: "e \<le> group_end a s e"
proof (induction a s e rule: group_end.induct)
  case (1 a s e)
  then show ?case by (subst group_end.simps) auto
qed

lemma group_end_decreases: "s < 7 \<Longrightarrow> 7 - (group_end a s s + 1) < 7 - s"
  using group_end_ge [of s a s] by arith

function straight_flush :: "card_entry list \<Rightarrow> nat \<Rightarrow> (int \<times> int list) option" where
  "straight_flush a s =
     (if s < 7 then
        (let e = group_end a s s
         in if e - s + 1 \<ge> 5 then
              (case straight_flush_run a s e of
                 Some r \<Rightarrow> Some r
               | None \<Rightarrow> (case straight_flush_wheel a s e of
                   Some r \<Rightarrow> Some r
                 | None \<Rightarrow> straight_flush a (e + 1)))
            else straight_flush a (e + 1))
      else None)"
  by pat_completeness auto
termination
  by (relation "measure (\<lambda>(a, s). 7 - s)") (simp_all only: in_measure prod.case wf_measure
     group_end_decreases)

declare straight_flush.simps [simp del]

section \<open>Flush\<close>

definition flush :: "card_entry list \<Rightarrow> (int \<times> int list) option" where
  "flush a = first_some (\<lambda>j1.
     if suit (a ! j1) = suit (a ! (j1 + 1)) \<and> suit (a ! j1) = suit (a ! (j1 + 2))
        \<and> suit (a ! j1) = suit (a ! (j1 + 3)) \<and> suit (a ! j1) = suit (a ! (j1 + 4))
     then Some (500000000 + rank (a ! j1) * 1000000 + rank (a ! (j1 + 1)) * 10000
                + rank (a ! (j1 + 2)) * 100 + rank (a ! (j1 + 3)) * 10 + rank (a ! (j1 + 4)),
                positions a [j1..<j1 + 5])
     else None) [0..<3]"

section \<open>Four of a kind\<close>

definition four_of_a_kind :: "card_entry list \<Rightarrow> (int \<times> int list) option" where
  "four_of_a_kind a = first_some (\<lambda>j1.
     if rank (a ! j1) = rank (a ! (j1 + 1)) \<and> rank (a ! j1) = rank (a ! (j1 + 2))
        \<and> rank (a ! j1) = rank (a ! (j1 + 3))
     then (if j1 = 0
           then Some (700000000 + rank (a ! j1) * 1000000 + rank (a ! (j1 + 4)) * 10000,
                      positions a [0..<5])
           else Some (700000000 + rank (a ! j1) * 1000000 + rank (a ! 0) * 10000,
                      positions a ([j1..<j1 + 4] @ [0])))
     else None) [0..<4]"

section \<open>Straight and full house\<close>

text \<open>The five nested loops \<open>j1 < j2 < j3 < j4 < j5\<close> visit the index tuples in this order.\<close>

definition index_tuples :: "(nat \<times> nat \<times> nat \<times> nat \<times> nat) list" where
  "index_tuples =
     [(j1, j2, j3, j4, j5). j1 \<leftarrow> [0..<7], j2 \<leftarrow> [j1 + 1..<7], j3 \<leftarrow> [j2 + 1..<7],
                            j4 \<leftarrow> [j3 + 1..<7], j5 \<leftarrow> [j4 + 1..<7]]"

definition straight_or_full_house :: "card_entry list \<Rightarrow> (int \<times> int list) option" where
  "straight_or_full_house a = first_some (\<lambda>(j1, j2, j3, j4, j5).
     if rank (a ! j1) - 1 = rank (a ! j2) \<and> rank (a ! j2) - 1 = rank (a ! j3)
        \<and> rank (a ! j3) - 1 = rank (a ! j4) \<and> rank (a ! j4) - 1 = rank (a ! j5)
     then Some (400000000 + rank (a ! j1) * 1000000, positions a [j1, j2, j3, j4, j5])
     else if (rank (a ! j1) = rank (a ! j2) \<and> rank (a ! j1) = rank (a ! j3)
              \<and> rank (a ! j4) = rank (a ! j5))
           \<or> (rank (a ! j3) = rank (a ! j4) \<and> rank (a ! j3) = rank (a ! j5)
              \<and> rank (a ! j1) = rank (a ! j2))
     then (let drei = (if rank (a ! j3) = rank (a ! j1) then rank (a ! j1) else rank (a ! j4));
               zwei = (if rank (a ! j3) = rank (a ! j1) then rank (a ! j4) else rank (a ! j1))
           in Some (600000000 + drei * 1000000 + zwei * 10000,
                    positions a [j1, j2, j3, j4, j5]))
     else None) index_tuples"

definition straight_wheel :: "card_entry list \<Rightarrow> (int \<times> int list) option" where
  "straight_wheel a = first_some (\<lambda>(j1, j2, j3, j4, j5).
     if rank (a ! j1) - 9 = rank (a ! j2) \<and> rank (a ! j2) - 1 = rank (a ! j3)
        \<and> rank (a ! j3) - 1 = rank (a ! j4) \<and> rank (a ! j4) - 1 = rank (a ! j5)
     then Some (400000000 + rank (a ! j2) * 1000000, positions a [j1, j2, j3, j4, j5])
     else None) index_tuples"

section \<open>Three of a kind, two pairs, one pair, high card\<close>

definition three_of_a_kind :: "card_entry list \<Rightarrow> (int \<times> int list) option" where
  "three_of_a_kind a = first_some (\<lambda>j1.
     if rank (a ! j1) = rank (a ! (j1 + 1)) \<and> rank (a ! j1) = rank (a ! (j1 + 2))
     then (if j1 = 0 then
             Some (300000000 + rank (a ! j1) * 1000000 + rank (a ! (j1 + 3)) * 10000
                   + rank (a ! (j1 + 4)) * 100, positions a [0..<5])
           else if j1 = 1 then
             Some (300000000 + rank (a ! j1) * 1000000 + rank (a ! (j1 - 1)) * 10000
                   + rank (a ! (j1 + 3)) * 100, positions a [0..<5])
           else
             Some (300000000 + rank (a ! j1) * 1000000 + rank (a ! 0) * 10000
                   + rank (a ! 1) * 100, positions a ([j1..<j1 + 3] @ [0, 1])))
     else None) [0..<5]"

definition two_pair :: "card_entry list \<Rightarrow> (int \<times> int list) option" where
  "two_pair a = first_some (\<lambda>j1. first_some (\<lambda>j2.
     if rank (a ! j1) = rank (a ! (j1 + 1)) \<and> rank (a ! j2) = rank (a ! (j2 + 1))
     then (if j1 = 0 then
             (if j2 = 2 then
                Some (200000000 + rank (a ! j1) * 1000000 + rank (a ! j2) * 10000
                      + rank (a ! (j2 + 2)) * 100,
                      positions a [j1, j1 + 1, j2, j2 + 1, j2 + 2])
              else
                Some (200000000 + rank (a ! j1) * 1000000 + rank (a ! j2) * 10000
                      + rank (a ! (j1 + 2)) * 100,
                      positions a [j1, j1 + 1, j2, j2 + 1, j1 + 2]))
           else
             Some (200000000 + rank (a ! j1) * 1000000 + rank (a ! j2) * 10000
                   + rank (a ! 0) * 100, positions a [j1, j1 + 1, j2, j2 + 1, 0]))
     else None) [j1 + 2..<6]) [0..<4]"

definition one_pair :: "card_entry list \<Rightarrow> (int \<times> int list) option" where
  "one_pair a = first_some (\<lambda>j1.
     if rank (a ! j1) = rank (a ! (j1 + 1))
     then (if j1 = 0 then
             Some (100000000 + rank (a ! j1) * 1000000 + rank (a ! (j1 + 2)) * 10000
                   + rank (a ! (j1 + 3)) * 100 + rank (a ! (j1 + 4)), positions a [0..<5])
           else if j1 = 1 then
             Some (100000000 + rank (a ! j1) * 1000000 + rank (a ! (j1 - 1)) * 10000
                   + rank (a ! (j1 + 2)) * 100 + rank (a ! (j1 + 3)), positions a [0..<5])
           else if j1 = 2 then
             Some (100000000 + rank (a ! j1) * 1000000 + rank (a ! (j1 - 2)) * 10000
                   + rank (a ! (j1 - 1)) * 100 + rank (a ! (j1 + 2)), positions a [0..<5])
           else
             Some (100000000 + rank (a ! j1) * 1000000 + rank (a ! 0) * 10000
                   + rank (a ! 1) * 100 + rank (a ! 2), positions a [j1, j1 + 1, 0, 1, 2]))
     else None) [0..<6]"

definition high_card :: "card_entry list \<Rightarrow> int \<times> int list" where
  "high_card a =
     (rank (a ! 0) * 1000000 + rank (a ! 1) * 10000 + rank (a ! 2) * 100 + rank (a ! 3) * 10
      + rank (a ! 4), positions a [0..<5])"

section \<open>The evaluator\<close>

definition rank_value :: "card_entry list \<Rightarrow> int \<times> int list" where
  "rank_value b =
    (case four_of_a_kind b of Some r \<Rightarrow> r
     | None \<Rightarrow> (case straight_or_full_house b of Some r \<Rightarrow> r
     | None \<Rightarrow> (case straight_wheel b of Some r \<Rightarrow> r
     | None \<Rightarrow> (case three_of_a_kind b of Some r \<Rightarrow> r
     | None \<Rightarrow> (case two_pair b of Some r \<Rightarrow> r
     | None \<Rightarrow> (case one_pair b of Some r \<Rightarrow> r
     | None \<Rightarrow> high_card b))))))"

definition cardsValue :: "int list \<Rightarrow> int \<times> int list" where
  "cardsValue cards =
    (let a = sort_by_suit (card_array 7 cards)
     in case straight_flush a 0 of Some r \<Rightarrow> r
        | None \<Rightarrow> (case flush a of Some r \<Rightarrow> r
        | None \<Rightarrow> rank_value (sort_by_rank a)))"

section \<open>The comparisons interpret the exchange sort\<close>

definition suit_rank_lt :: "card_entry \<Rightarrow> card_entry \<Rightarrow> bool" where
  "suit_rank_lt a b \<longleftrightarrow> suit_lt a b \<or> rank_in_suit_lt a b"

definition rank_pos_lt :: "card_entry \<Rightarrow> card_entry \<Rightarrow> bool" where
  "rank_pos_lt a b \<longleftrightarrow> rank_lt a b \<or> pos_in_rank_lt a b"

lemmas entry_orders =
  suit_lt_def rank_in_suit_lt_def rank_lt_def pos_in_rank_lt_def suit_rank_lt_def rank_pos_lt_def

interpretation by_suit: exchange_order suit_lt
  by unfold_locales (auto simp: entry_orders)

interpretation by_suit_rank: exchange_order suit_rank_lt
  by unfold_locales (auto simp: entry_orders)

interpretation by_rank: exchange_order rank_lt
  by unfold_locales (auto simp: entry_orders)

interpretation by_rank_pos: exchange_order rank_pos_lt
  by unfold_locales (auto simp: entry_orders)

lemma length_card_array [simp]: "length (card_array n cards) = n"
  by (simp add: card_array_def)

lemma length_sort_by_suit [simp]: "length a = 7 \<Longrightarrow> length (sort_by_suit a) = 7"
  by (simp add: sort_by_suit_def)

lemma length_sort_by_rank [simp]: "length a = 7 \<Longrightarrow> length (sort_by_rank a) = 7"
  by (simp add: sort_by_rank_def)

lemma mset_sort_by_suit: "length a = 7 \<Longrightarrow> mset (sort_by_suit a) = mset a"
  by (simp add: sort_by_suit_def mset_exchange_sort)

lemma mset_sort_by_rank: "length a = 7 \<Longrightarrow> mset (sort_by_rank a) = mset a"
  by (simp add: sort_by_rank_def mset_exchange_sort)

lemma set_sort_by_suit: "length a = 7 \<Longrightarrow> set (sort_by_suit a) = set a"
  by (metis mset_sort_by_suit set_mset_mset)

lemma set_sort_by_rank: "length a = 7 \<Longrightarrow> set (sort_by_rank a) = set a"
  by (metis mset_sort_by_rank set_mset_mset)

lemma sort_by_suit_sorted:
  assumes "length a = 7"
  shows "sorted_wrt (\<lambda>x y. \<not> suit_rank_lt x y) (sort_by_suit a)"
proof -
  have "sorted_wrt (\<lambda>x y. \<not> suit_lt x y) (exchange_sort suit_lt 7 a)"
    using assms by (rule by_suit.exchange_sort_sorted)
  then have "sort_by_suit a = exchange_sort (\<lambda>x y. suit_lt x y \<or> rank_in_suit_lt x y) 7
                                (exchange_sort suit_lt 7 a)"
    unfolding sort_by_suit_def using assms
    by (intro exchange_sort_cong_key) (auto simp: entry_orders)
  then have "sort_by_suit a = exchange_sort suit_rank_lt 7 (exchange_sort suit_lt 7 a)"
    by (simp add: suit_rank_lt_def [abs_def])
  then show ?thesis using assms by (simp add: by_suit_rank.exchange_sort_sorted)
qed

lemma sort_by_rank_sorted:
  assumes "length a = 7"
  shows "sorted_wrt (\<lambda>x y. \<not> rank_pos_lt x y) (sort_by_rank a)"
proof -
  have "sorted_wrt (\<lambda>x y. \<not> rank_lt x y) (exchange_sort rank_lt 7 a)"
    using assms by (rule by_rank.exchange_sort_sorted)
  then have "sort_by_rank a = exchange_sort (\<lambda>x y. rank_lt x y \<or> pos_in_rank_lt x y) 7
                                (exchange_sort rank_lt 7 a)"
    unfolding sort_by_rank_def using assms
    by (intro exchange_sort_cong_key) (auto simp: entry_orders)
  then have "sort_by_rank a = exchange_sort rank_pos_lt 7 (exchange_sort rank_lt 7 a)"
    by (simp add: rank_pos_lt_def [abs_def])
  then show ?thesis using assms by (simp add: by_rank_pos.exchange_sort_sorted)
qed

end
