(* ===== verification/Hand_Reference.thy ===== *)
theory Hand_Reference
  imports Cards_Value
begin

text \<open>
  The rules of poker as a reference evaluator, independent of the positional tests of
  \<open>CardsValue::cardsValue\<close>: a hand is a category together with its tie-breaking ranks, read off
  by counting how often each rank occurs. It is defined for any number of cards, so the same
  definition ranks a five-card hand and the seven cards of a player and the board.
\<close>

type_synonym poker_hand = "int \<times> int list"

definition suit_of :: "int \<Rightarrow> int" where
  "suit_of c = c div 13"

definition rank_of :: "int \<Rightarrow> int" where
  "rank_of c = c mod 13"

definition ranks_desc :: "int list \<Rightarrow> int list" where
  "ranks_desc cs = rev (sort (map rank_of cs))"

text \<open>The ranks that occur at least \<open>n\<close> times in a descending list, highest first, and the
  \<open>k\<close> highest cards whose rank is not in \<open>used\<close>.\<close>

definition ranks_with :: "nat \<Rightarrow> 'a list \<Rightarrow> 'a list" where
  "ranks_with n rs = remdups (filter (\<lambda>r. n \<le> count_list rs r) rs)"

definition kickers :: "nat \<Rightarrow> 'a list \<Rightarrow> 'a list \<Rightarrow> 'a list" where
  "kickers k used rs = take k (filter (\<lambda>r. r \<notin> set used) rs)"

definition run_at :: "int list \<Rightarrow> int \<Rightarrow> bool" where
  "run_at rs t \<longleftrightarrow> list_all (\<lambda>d. t - d \<in> set rs) [0, 1, 2, 3, 4]"

definition wheel_in :: "int list \<Rightarrow> bool" where
  "wheel_in rs \<longleftrightarrow> list_all (\<lambda>r. r \<in> set rs) [12, 3, 2, 1, 0]"

definition best_run :: "int list \<Rightarrow> int option" where
  "best_run rs = find (run_at rs) [12, 11, 10, 9, 8, 7, 6, 5, 4]"

definition straight_top :: "int list \<Rightarrow> int option" where
  "straight_top rs =
     (case best_run rs of
        Some t \<Rightarrow> Some t
      | None \<Rightarrow> if wheel_in rs then Some 3 else None)"

definition ref_four :: "int list \<Rightarrow> poker_hand option" where
  "ref_four rs = (case ranks_with 4 rs of [] \<Rightarrow> None | q # _ \<Rightarrow> Some (7, q # kickers 1 [q] rs))"

definition ref_full_house :: "int list \<Rightarrow> poker_hand option" where
  "ref_full_house rs =
     (case ranks_with 3 rs of
        [] \<Rightarrow> None
      | d # _ \<Rightarrow> (case filter (\<lambda>r. r \<noteq> d) (ranks_with 2 rs) of
          [] \<Rightarrow> None
        | z # _ \<Rightarrow> Some (6, [d, z])))"

definition ref_straight :: "int list \<Rightarrow> poker_hand option" where
  "ref_straight rs = map_option (\<lambda>t. (4, [t])) (straight_top rs)"

definition ref_three :: "int list \<Rightarrow> poker_hand option" where
  "ref_three rs = (case ranks_with 3 rs of [] \<Rightarrow> None | d # _ \<Rightarrow> Some (3, d # kickers 2 [d] rs))"

definition ref_two_pair :: "int list \<Rightarrow> poker_hand option" where
  "ref_two_pair rs =
     (case ranks_with 2 rs of
        p # q # _ \<Rightarrow> Some (2, p # q # kickers 1 [p, q] rs)
      | _ \<Rightarrow> None)"

definition ref_pair :: "int list \<Rightarrow> poker_hand option" where
  "ref_pair rs = (case ranks_with 2 rs of [] \<Rightarrow> None | p # _ \<Rightarrow> Some (1, p # kickers 3 [p] rs))"

definition ref_high :: "int list \<Rightarrow> poker_hand" where
  "ref_high rs = (0, take 5 rs)"

text \<open>The ranks, descending, of the suit that has at least five cards.\<close>

definition flush_ranks :: "int list \<Rightarrow> int list option" where
  "flush_ranks cs =
     (case find (\<lambda>s. 5 \<le> length (filter (\<lambda>c. suit_of c = s) cs)) [3, 2, 1, 0] of
        Some s \<Rightarrow> Some (ranks_desc (filter (\<lambda>c. suit_of c = s) cs))
      | None \<Rightarrow> None)"

definition ref_straight_flush :: "int list \<Rightarrow> poker_hand option" where
  "ref_straight_flush cs =
     (case flush_ranks cs of
        None \<Rightarrow> None
      | Some fs \<Rightarrow> map_option (\<lambda>t. if t = 12 then (9, []) else (8, [t])) (straight_top fs))"

definition ref_flush :: "int list \<Rightarrow> poker_hand option" where
  "ref_flush cs = map_option (\<lambda>fs. (5, take 5 fs)) (flush_ranks cs)"

text \<open>The categories are tried in order of strength.\<close>

definition reference_hand :: "int list \<Rightarrow> poker_hand" where
  "reference_hand cs =
    (let rs = ranks_desc cs
     in case first_some (\<lambda>h. h)
               [ref_straight_flush cs, ref_four rs, ref_full_house rs, ref_flush cs,
                ref_straight rs, ref_three rs, ref_two_pair rs, ref_pair rs] of
          Some h \<Rightarrow> h
        | None \<Rightarrow> ref_high rs)"

text \<open>The decimal encoding that \<open>cardsValue\<close> uses: the category times \<open>10^8\<close> plus the
  tie-breaking ranks with these weights.\<close>

definition weights :: "int \<Rightarrow> int list" where
  "weights c = (if c = 5 \<or> c = 0 then [1000000, 10000, 100, 10, 1] else [1000000, 10000, 100, 1])"

definition encode :: "poker_hand \<Rightarrow> int" where
  "encode h = fst h * 100000000 + sum_list (map2 (*) (snd h) (weights (fst h)))"

end
