(* ===== verification/Rank_Patterns.thy ===== *)
theory Rank_Patterns
  imports Hand_Reference
begin

text \<open>
  The multiplicity tests of \<open>cardsValue\<close> against the counting reference. The tests look only
  at which neighbours of the sorted array are equal, so they are compared on lists over an
  arbitrary type whose equal elements are adjacent, one equality pattern at a time; the
  arithmetic of the encoding enters only when a result is read off.
\<close>

section \<open>Seven grouped elements\<close>

definition apart :: "'a list \<Rightarrow> 'a list \<Rightarrow> bool" where
  "apart xs ys \<longleftrightarrow> (\<forall>x \<in> set xs. \<forall>y \<in> set ys. x \<noteq> y \<and> y \<noteq> x)"

text \<open>Equal elements are adjacent and no element occurs five times.\<close>

definition grouped7 :: "'a list \<Rightarrow> bool" where
  "grouped7 rs \<longleftrightarrow> length rs = 7 \<and>
     (\<forall>i < 6. rs ! i = rs ! Suc i \<or> apart (take (Suc i) rs) (drop (Suc i) rs)) \<and>
     (\<forall>i < 3. rs ! i \<noteq> rs ! (i + 4))"

definition no_block :: "nat \<Rightarrow> 'a list \<Rightarrow> bool" where
  "no_block n rs \<longleftrightarrow> (\<forall>i < 8 - n. rs ! i \<noteq> rs ! (i + n - 1))"

lemma length_7_obtain:
  assumes "length b = 7"
  obtains e0 e1 e2 e3 e4 e5 e6 where "b = [e0, e1, e2, e3, e4, e5, e6]"
  using assms by (auto simp: numeral_eq_Suc length_Suc_conv)

lemma grouped7_gaps:
  assumes "grouped7 [r0, r1, r2, r3, r4, r5, r6]"
  shows "r0 = r1 \<or> apart [r0] [r1, r2, r3, r4, r5, r6]"
    and "r1 = r2 \<or> apart [r0, r1] [r2, r3, r4, r5, r6]"
    and "r2 = r3 \<or> apart [r0, r1, r2] [r3, r4, r5, r6]"
    and "r3 = r4 \<or> apart [r0, r1, r2, r3] [r4, r5, r6]"
    and "r4 = r5 \<or> apart [r0, r1, r2, r3, r4] [r5, r6]"
    and "r5 = r6 \<or> apart [r0, r1, r2, r3, r4, r5] [r6]"
    and "r0 \<noteq> r4" and "r1 \<noteq> r5" and "r2 \<noteq> r6"
  using assms unfolding grouped7_def by (simp_all add: All_less_Suc numeral_eq_Suc)

lemma no_block_4:
  "no_block 4 [r0, r1, r2, r3, r4, r5, r6] \<longleftrightarrow> r0 \<noteq> r3 \<and> r1 \<noteq> r4 \<and> r2 \<noteq> r5 \<and> r3 \<noteq> r6"
  by (simp add: no_block_def All_less_Suc numeral_eq_Suc) blast

lemma no_block_3:
  "no_block 3 [r0, r1, r2, r3, r4, r5, r6] \<longleftrightarrow>
     r0 \<noteq> r2 \<and> r1 \<noteq> r3 \<and> r2 \<noteq> r4 \<and> r3 \<noteq> r5 \<and> r4 \<noteq> r6"
  by (simp add: no_block_def All_less_Suc numeral_eq_Suc) blast

lemma nth7:
  "[r0, r1, r2, r3, r4, r5, r6] ! 0 = r0" "[r0, r1, r2, r3, r4, r5, r6] ! 1 = r1"
  "[r0, r1, r2, r3, r4, r5, r6] ! 2 = r2" "[r0, r1, r2, r3, r4, r5, r6] ! 3 = r3"
  "[r0, r1, r2, r3, r4, r5, r6] ! 4 = r4" "[r0, r1, r2, r3, r4, r5, r6] ! 5 = r5"
  "[r0, r1, r2, r3, r4, r5, r6] ! 6 = r6"
  by simp_all

lemma upt_unroll:
  "[0..<3] = [0, 1, 2]" "[0..<4] = [0, 1, 2, 3]" "[0..<5] = [0, 1, 2, 3, 4]"
  "[0..<6] = [0, 1, 2, 3, 4, 5]" "[2..<6] = [2, 3, 4, 5]" "[3..<6] = [3, 4, 5]"
  "[4..<6] = [4, 5]" "[5..<6] = [5]" "[0..<7] = [0, 1, 2, 3, 4, 5, 6]"
  by code_simp+

lemma index_tuples_eq: "index_tuples =
  [(0, 1, 2, 3, 4), (0, 1, 2, 3, 5), (0, 1, 2, 3, 6), (0, 1, 2, 4, 5), (0, 1, 2, 4, 6),
   (0, 1, 2, 5, 6), (0, 1, 3, 4, 5), (0, 1, 3, 4, 6), (0, 1, 3, 5, 6), (0, 1, 4, 5, 6),
   (0, 2, 3, 4, 5), (0, 2, 3, 4, 6), (0, 2, 3, 5, 6), (0, 2, 4, 5, 6), (0, 3, 4, 5, 6),
   (1, 2, 3, 4, 5), (1, 2, 3, 4, 6), (1, 2, 3, 5, 6), (1, 2, 4, 5, 6), (1, 3, 4, 5, 6),
   (2, 3, 4, 5, 6)]"
  by code_simp

lemma first_some_if:
  "(case (if c then Some x else None) of Some r \<Rightarrow> Some r | None \<Rightarrow> y) = (if c then Some x else y)"
  by simp

lemmas seven_eval =
  index_tuples_eq upt_unroll list.set ball_simps prod.case nth7 first_some.simps first_some_if
  simp_thms option.case

section \<open>The tests on ranks\<close>

definition four_ranks :: "'a list \<Rightarrow> ('a \<times> 'a) option" where
  "four_ranks rs =
    (if rs ! 0 = rs ! 1 \<and> rs ! 0 = rs ! 2 \<and> rs ! 0 = rs ! 3 then Some (rs ! 0, rs ! 4)
     else if rs ! 1 = rs ! 2 \<and> rs ! 1 = rs ! 3 \<and> rs ! 1 = rs ! 4 then Some (rs ! 1, rs ! 0)
     else if rs ! 2 = rs ! 3 \<and> rs ! 2 = rs ! 4 \<and> rs ! 2 = rs ! 5 then Some (rs ! 2, rs ! 0)
     else if rs ! 3 = rs ! 4 \<and> rs ! 3 = rs ! 5 \<and> rs ! 3 = rs ! 6 then Some (rs ! 3, rs ! 0)
     else None)"

definition full_house_at :: "'a list \<Rightarrow> nat \<times> nat \<times> nat \<times> nat \<times> nat \<Rightarrow> ('a \<times> 'a) option" where
  "full_house_at rs = (\<lambda>(j1, j2, j3, j4, j5).
     if (rs ! j1 = rs ! j2 \<and> rs ! j1 = rs ! j3 \<and> rs ! j4 = rs ! j5)
        \<or> (rs ! j3 = rs ! j4 \<and> rs ! j3 = rs ! j5 \<and> rs ! j1 = rs ! j2)
     then Some (if rs ! j3 = rs ! j1 then (rs ! j1, rs ! j4) else (rs ! j4, rs ! j1))
     else None)"

definition three_ranks :: "'a list \<Rightarrow> ('a \<times> 'a \<times> 'a) option" where
  "three_ranks rs =
    (if rs ! 0 = rs ! 1 \<and> rs ! 0 = rs ! 2 then Some (rs ! 0, rs ! 3, rs ! 4)
     else if rs ! 1 = rs ! 2 \<and> rs ! 1 = rs ! 3 then Some (rs ! 1, rs ! 0, rs ! 4)
     else if rs ! 2 = rs ! 3 \<and> rs ! 2 = rs ! 4 then Some (rs ! 2, rs ! 0, rs ! 1)
     else if rs ! 3 = rs ! 4 \<and> rs ! 3 = rs ! 5 then Some (rs ! 3, rs ! 0, rs ! 1)
     else if rs ! 4 = rs ! 5 \<and> rs ! 4 = rs ! 6 then Some (rs ! 4, rs ! 0, rs ! 1)
     else None)"

definition two_pair_at :: "'a list \<Rightarrow> nat \<Rightarrow> nat \<Rightarrow> ('a \<times> 'a \<times> 'a) option" where
  "two_pair_at rs j1 j2 =
    (if rs ! j1 = rs ! (j1 + 1) \<and> rs ! j2 = rs ! (j2 + 1) then
       Some (rs ! j1, rs ! j2,
             if j1 = 0 then (if j2 = 2 then rs ! (j2 + 2) else rs ! (j1 + 2)) else rs ! 0)
     else None)"

definition pair_ranks :: "'a list \<Rightarrow> ('a \<times> 'a \<times> 'a \<times> 'a) option" where
  "pair_ranks rs =
    (if rs ! 0 = rs ! 1 then Some (rs ! 0, rs ! 2, rs ! 3, rs ! 4)
     else if rs ! 1 = rs ! 2 then Some (rs ! 1, rs ! 0, rs ! 3, rs ! 4)
     else if rs ! 2 = rs ! 3 then Some (rs ! 2, rs ! 0, rs ! 1, rs ! 4)
     else if rs ! 3 = rs ! 4 then Some (rs ! 3, rs ! 0, rs ! 1, rs ! 2)
     else if rs ! 4 = rs ! 5 then Some (rs ! 4, rs ! 0, rs ! 1, rs ! 2)
     else if rs ! 5 = rs ! 6 then Some (rs ! 5, rs ! 0, rs ! 1, rs ! 2)
     else None)"

text \<open>The same results by counting.\<close>

definition count_four :: "'a list \<Rightarrow> ('a \<times> 'a) option" where
  "count_four rs = (case ranks_with 4 rs of [] \<Rightarrow> None | q # _ \<Rightarrow> Some (q, hd (kickers 1 [q] rs)))"

definition count_full_house :: "'a list \<Rightarrow> ('a \<times> 'a) option" where
  "count_full_house rs =
     (case ranks_with 3 rs of
        [] \<Rightarrow> None
      | d # _ \<Rightarrow> (case filter (\<lambda>r. r \<noteq> d) (ranks_with 2 rs) of
          [] \<Rightarrow> None
        | z # _ \<Rightarrow> Some (d, z)))"

text \<open>Case analysis on the equality pattern of seven grouped elements.\<close>

lemma four_ranks_count:
  assumes "grouped7 [r0, r1, r2, r3, r4, r5, r6]"
  shows "map_option (\<lambda>(q, k). [q, k]) (four_ranks [r0, r1, r2, r3, r4, r5, r6]) =
         (case ranks_with 4 [r0, r1, r2, r3, r4, r5, r6] of
            [] \<Rightarrow> None
          | q # _ \<Rightarrow> Some (q # kickers 1 [q] [r0, r1, r2, r3, r4, r5, r6]))"
  unfolding four_ranks_def nth7 using grouped7_gaps [OF assms]
  by (elim disjE conjE; simp only: apart_def list.set ball_simps simp_thms)
     (simp_all add: ranks_with_def kickers_def)

lemma four_ranks_None:
  assumes "four_ranks [r0, r1, r2, r3, r4, r5, r6] = None" "grouped7 [r0, r1, r2, r3, r4, r5, r6]"
  shows "no_block 4 [r0, r1, r2, r3, r4, r5, r6]"
  using assms(1) grouped7_gaps(1-6) [OF assms(2)] unfolding four_ranks_def nth7 no_block_4
  by (elim disjE [of "_ = _"]; simp only: apart_def list.set ball_simps simp_thms)
     (simp_all split: if_splits)

lemma full_house_count:
  assumes "grouped7 [r0, r1, r2, r3, r4, r5, r6]" "no_block 4 [r0, r1, r2, r3, r4, r5, r6]"
  shows "first_some (full_house_at [r0, r1, r2, r3, r4, r5, r6]) index_tuples =
         count_full_house [r0, r1, r2, r3, r4, r5, r6]"
  unfolding full_house_at_def seven_eval
  using grouped7_gaps(1-6) [OF assms(1)] assms(2) [unfolded no_block_4]
  by (elim disjE conjE; simp only: apart_def list.set ball_simps simp_thms)
     (simp_all add: count_full_house_def ranks_with_def)

text \<open>A full house leaves at most four different ranks, so no five indices see five.\<close>

lemma full_house_no_five:
  assumes "grouped7 [r0, r1, r2, r3, r4, r5, r6]" "no_block 4 [r0, r1, r2, r3, r4, r5, r6]"
    and "count_full_house [r0, r1, r2, r3, r4, r5, r6] \<noteq> None"
  shows "\<forall>t \<in> set index_tuples. case t of (j1, j2, j3, j4, j5) \<Rightarrow>
           (let rs = [r0, r1, r2, r3, r4, r5, r6]
            in rs ! j1 = rs ! j2 \<or> rs ! j2 = rs ! j3 \<or> rs ! j3 = rs ! j4 \<or> rs ! j4 = rs ! j5)"
  unfolding Let_def seven_eval
  using grouped7_gaps(1-6) [OF assms(1)] assms(2) [unfolded no_block_4] assms(3)
  by (elim disjE conjE; simp only: apart_def list.set ball_simps simp_thms)
     (simp_all add: count_full_house_def ranks_with_def)

lemma three_ranks_count:
  assumes "grouped7 [r0, r1, r2, r3, r4, r5, r6]" "no_block 4 [r0, r1, r2, r3, r4, r5, r6]"
  shows "map_option (\<lambda>(d, k1, k2). [d, k1, k2]) (three_ranks [r0, r1, r2, r3, r4, r5, r6]) =
         (case ranks_with 3 [r0, r1, r2, r3, r4, r5, r6] of
            [] \<Rightarrow> None
          | d # _ \<Rightarrow> Some (d # kickers 2 [d] [r0, r1, r2, r3, r4, r5, r6]))"
  unfolding three_ranks_def nth7
  using grouped7_gaps(1-6) [OF assms(1)] assms(2) [unfolded no_block_4]
  by (elim disjE conjE; simp only: apart_def list.set ball_simps simp_thms)
     (simp_all add: ranks_with_def kickers_def)

lemma three_ranks_None:
  assumes "three_ranks [r0, r1, r2, r3, r4, r5, r6] = None" "grouped7 [r0, r1, r2, r3, r4, r5, r6]"
  shows "no_block 3 [r0, r1, r2, r3, r4, r5, r6]"
  using assms(1) grouped7_gaps(1-6) [OF assms(2)] unfolding three_ranks_def nth7 no_block_3
  by (elim disjE [of "_ = _"]; simp only: apart_def list.set ball_simps simp_thms)
     (simp_all split: if_splits)

lemma two_pair_eval:
  "first_some (\<lambda>j1. first_some (f j1) [j1 + 2..<6]) [0..<4] =
   first_some (\<lambda>(j1, j2). f j1 j2)
     [(0, 2), (0, 3), (0, 4), (0, 5), (1, 3), (1, 4), (1, 5), (2, 4), (2, 5), (3, 5)]"
proof -
  have "concat (map (\<lambda>j1. map (Pair j1) [j1 + 2..<6]) [0..<4]) =
    [(0, 2), (0, 3), (0, 4), (0, 5), (1, 3), (1, 4), (1, 5), (2, 4), (2, 5), (3, 5)]"
    by code_simp
  then show ?thesis by (simp only: first_some_nested)
qed

lemma two_pair_at_eval:
  "two_pair_at [r0, r1, r2, r3, r4, r5, r6] 0 2 = (if r0 = r1 \<and> r2 = r3 then Some (r0, r2, r4) else None)"
  "two_pair_at [r0, r1, r2, r3, r4, r5, r6] 0 3 = (if r0 = r1 \<and> r3 = r4 then Some (r0, r3, r2) else None)"
  "two_pair_at [r0, r1, r2, r3, r4, r5, r6] 0 4 = (if r0 = r1 \<and> r4 = r5 then Some (r0, r4, r2) else None)"
  "two_pair_at [r0, r1, r2, r3, r4, r5, r6] 0 5 = (if r0 = r1 \<and> r5 = r6 then Some (r0, r5, r2) else None)"
  "two_pair_at [r0, r1, r2, r3, r4, r5, r6] 1 3 = (if r1 = r2 \<and> r3 = r4 then Some (r1, r3, r0) else None)"
  "two_pair_at [r0, r1, r2, r3, r4, r5, r6] 1 4 = (if r1 = r2 \<and> r4 = r5 then Some (r1, r4, r0) else None)"
  "two_pair_at [r0, r1, r2, r3, r4, r5, r6] 1 5 = (if r1 = r2 \<and> r5 = r6 then Some (r1, r5, r0) else None)"
  "two_pair_at [r0, r1, r2, r3, r4, r5, r6] 2 4 = (if r2 = r3 \<and> r4 = r5 then Some (r2, r4, r0) else None)"
  "two_pair_at [r0, r1, r2, r3, r4, r5, r6] 2 5 = (if r2 = r3 \<and> r5 = r6 then Some (r2, r5, r0) else None)"
  "two_pair_at [r0, r1, r2, r3, r4, r5, r6] 3 5 = (if r3 = r4 \<and> r5 = r6 then Some (r3, r5, r0) else None)"
  by (simp_all add: two_pair_at_def)

lemma two_pair_count:
  assumes "grouped7 [r0, r1, r2, r3, r4, r5, r6]" "no_block 3 [r0, r1, r2, r3, r4, r5, r6]"
  shows "map_option (\<lambda>(p, q, k). [p, q, k])
           (first_some (\<lambda>j1. first_some (two_pair_at [r0, r1, r2, r3, r4, r5, r6] j1) [j1 + 2..<6])
             [0..<4]) =
         (case ranks_with 2 [r0, r1, r2, r3, r4, r5, r6] of
            p # q # _ \<Rightarrow> Some (p # q # kickers 1 [p, q] [r0, r1, r2, r3, r4, r5, r6])
          | _ \<Rightarrow> None)"
  unfolding two_pair_eval first_some.simps prod.case two_pair_at_eval first_some_if
  using grouped7_gaps(1-6) [OF assms(1)] assms(2) [unfolded no_block_3]
  by (elim disjE conjE; simp only: apart_def list.set ball_simps simp_thms)
     (simp_all add: ranks_with_def kickers_def)

lemma pair_ranks_count:
  assumes "grouped7 [r0, r1, r2, r3, r4, r5, r6]" "no_block 3 [r0, r1, r2, r3, r4, r5, r6]"
  shows "map_option (\<lambda>(p, k1, k2, k3). [p, k1, k2, k3]) (pair_ranks [r0, r1, r2, r3, r4, r5, r6]) =
         (case ranks_with 2 [r0, r1, r2, r3, r4, r5, r6] of
            [] \<Rightarrow> None
          | p # _ \<Rightarrow> Some (p # kickers 3 [p] [r0, r1, r2, r3, r4, r5, r6]))"
  unfolding pair_ranks_def nth7
  using grouped7_gaps(1-6) [OF assms(1)] assms(2) [unfolded no_block_3]
  by (elim disjE conjE; simp only: apart_def list.set ball_simps simp_thms)
     (simp_all add: ranks_with_def kickers_def)

text \<open>Four of a kind or a full house leave at most four different ranks.\<close>

lemma strong_few_ranks:
  assumes "grouped7 [r0, r1, r2, r3, r4, r5, r6]"
    and "ranks_with 4 [r0, r1, r2, r3, r4, r5, r6] \<noteq> [] \<or>
         count_full_house [r0, r1, r2, r3, r4, r5, r6] \<noteq> None"
  shows "length (remdups [r0, r1, r2, r3, r4, r5, r6]) \<le> 4"
  using grouped7_gaps(1-6) [OF assms(1)] assms(2)
  by (elim disjE [of "_ = _"]; simp only: apart_def list.set ball_simps simp_thms)
     (simp_all add: count_full_house_def ranks_with_def split: list.splits)

end
