(* ===== verification/Cards_Correct.thy ===== *)
theory Cards_Correct
  imports Rank_Patterns
begin

text \<open>
  \<open>cardsValue\<close> computes the reference hand. The rank part of the evaluator is compared with
  the counting reference category by category (through \<open>Rank_Patterns\<close>), straights by the
  order of the index tuples, and the suit part by cutting the suit-sorted array into its suits.
\<close>

section \<open>The categories decided by multiplicity\<close>

lemma map_option_first_some:
  "map_option h (first_some f xs) = first_some (\<lambda>x. map_option h (f x)) xs"
  by (induction xs) (auto split: option.splits)

lemma small_index:
  "0 + n = (n::nat)" "1 + 1 = (2::nat)" "1 + 2 = (3::nat)" "1 + 3 = (4::nat)"
  "2 + 1 = (3::nat)" "2 + 2 = (4::nat)" "2 + 3 = (5::nat)"
  "3 + 1 = (4::nat)" "3 + 2 = (5::nat)" "3 + 3 = (6::nat)"
  "4 + 1 = (5::nat)" "4 + 2 = (6::nat)" "5 + 1 = (6::nat)"
  by simp_all

lemma small_index_eq:
  "((0::nat) = 0) = True" "((1::nat) = 0) = False" "((2::nat) = 0) = False" "((3::nat) = 0) = False"
  "((4::nat) = 0) = False" "((5::nat) = 0) = False" "((1::nat) = 1) = True" "((2::nat) = 1) = False"
  "((3::nat) = 1) = False" "((4::nat) = 1) = False" "((5::nat) = 1) = False"
  "((2::nat) = 2) = True" "((3::nat) = 2) = False" "((4::nat) = 2) = False"
  "((5::nat) = 2) = False"
  by simp_all

lemmas unroll_tests =
  upt_unroll first_some.simps first_some_if small_index small_index_eq if_True if_False

lemma four_ranks_first_some:
  "four_ranks rs = first_some (\<lambda>j.
     if rs ! j = rs ! (j + 1) \<and> rs ! j = rs ! (j + 2) \<and> rs ! j = rs ! (j + 3)
     then Some (rs ! j, if j = 0 then rs ! 4 else rs ! 0) else None) [0..<4]"
  by (simp only: unroll_tests four_ranks_def)

lemma three_ranks_first_some:
  "three_ranks rs = first_some (\<lambda>j.
     if rs ! j = rs ! (j + 1) \<and> rs ! j = rs ! (j + 2)
     then Some (rs ! j, if j = 0 then (rs ! 3, rs ! 4) else if j = 1 then (rs ! 0, rs ! 4)
                        else (rs ! 0, rs ! 1)) else None) [0..<5]"
  by (simp only: unroll_tests three_ranks_def)

lemma pair_ranks_first_some:
  "pair_ranks rs = first_some (\<lambda>j.
     if rs ! j = rs ! (j + 1)
     then Some (rs ! j, if j = 0 then (rs ! 2, rs ! 3, rs ! 4)
                        else if j = 1 then (rs ! 0, rs ! 3, rs ! 4)
                        else if j = 2 then (rs ! 0, rs ! 1, rs ! 4)
                        else (rs ! 0, rs ! 1, rs ! 2)) else None) [0..<6]"
  by (simp only: unroll_tests pair_ranks_def)

lemma four_of_a_kind_ranks:
  assumes "length b = 7"
  shows "map_option fst (four_of_a_kind b) =
         map_option (\<lambda>(q, k). 700000000 + q * 1000000 + k * 10000) (four_ranks (map rank b))"
  unfolding four_of_a_kind_def four_ranks_first_some map_option_first_some
  by (intro first_some_cong refl) (use assms in \<open>simp add: nth_append\<close>)

lemma three_of_a_kind_ranks:
  assumes "length b = 7"
  shows "map_option fst (three_of_a_kind b) =
         map_option (\<lambda>(d, k1, k2). 300000000 + d * 1000000 + k1 * 10000 + k2 * 100)
           (three_ranks (map rank b))"
  unfolding three_of_a_kind_def three_ranks_first_some map_option_first_some
  by (intro first_some_cong refl) (use assms in simp)

lemma one_pair_ranks:
  assumes "length b = 7"
  shows "map_option fst (one_pair b) =
         map_option (\<lambda>(p, k1, k2, k3). 100000000 + p * 1000000 + k1 * 10000 + k2 * 100 + k3)
           (pair_ranks (map rank b))"
  unfolding one_pair_def pair_ranks_first_some map_option_first_some
  by (intro first_some_cong refl) (use assms in \<open>auto simp: upt_unroll eval_nat_numeral\<close>)

lemma two_pair_ranks:
  assumes "length b = 7"
  shows "map_option fst (two_pair b) =
         map_option (\<lambda>(p, q, k). 200000000 + p * 1000000 + q * 10000 + k * 100)
           (first_some (\<lambda>j1. first_some (two_pair_at (map rank b) j1) [j1 + 2..<6]) [0..<4])"
  unfolding two_pair_def map_option_first_some using assms
  by (intro first_some_cong refl) (auto simp: two_pair_at_def)

text \<open>The tuple test of the combined loop, straight first.\<close>

definition straight_at :: "int list \<Rightarrow> nat \<times> nat \<times> nat \<times> nat \<times> nat \<Rightarrow> int option" where
  "straight_at rs = (\<lambda>(j1, j2, j3, j4, j5).
     if rs ! j1 - 1 = rs ! j2 \<and> rs ! j2 - 1 = rs ! j3 \<and> rs ! j3 - 1 = rs ! j4
        \<and> rs ! j4 - 1 = rs ! j5
     then Some (rs ! j1) else None)"

lemma index_tuples_iff:
  "(j1, j2, j3, j4, j5) \<in> set index_tuples \<longleftrightarrow> j1 < j2 \<and> j2 < j3 \<and> j3 < j4 \<and> j4 < j5 \<and> j5 < 7"
proof -
  have "(j1, j2, j3, j4, j5) \<in> set index_tuples \<longleftrightarrow>
     j1 \<in> {0..<7} \<and> j2 \<in> {j1 + 1..<7} \<and> j3 \<in> {j2 + 1..<7} \<and> j4 \<in> {j3 + 1..<7} \<and> j5 \<in> {j4 + 1..<7}"
    unfolding index_tuples_def
    by (simp only: set_concat set_map set_upt image_image UN_iff image_iff bex_simps) blast
  then show ?thesis by auto
qed

lemma straight_or_full_house_ranks:
  assumes "length b = 7"
  shows "map_option fst (straight_or_full_house b) =
    first_some (\<lambda>t. case straight_at (map rank b) t of
        Some r \<Rightarrow> Some (400000000 + r * 1000000)
      | None \<Rightarrow> map_option (\<lambda>(d, z). 600000000 + d * 1000000 + z * 10000)
                  (full_house_at (map rank b) t)) index_tuples"
  unfolding straight_or_full_house_def map_option_first_some
proof (intro first_some_cong refl)
  fix t assume "t \<in> set index_tuples"
  moreover obtain j1 j2 j3 j4 j5 where t: "t = (j1, j2, j3, j4, j5)" by (cases t) auto
  ultimately have "j1 < 7" "j2 < 7" "j3 < 7" "j4 < 7" "j5 < 7" by (auto simp: index_tuples_iff)
  then show "map_option fst (case t of (j1, j2, j3, j4, j5) \<Rightarrow>
       if rank (b ! j1) - 1 = rank (b ! j2) \<and> rank (b ! j2) - 1 = rank (b ! j3) \<and>
          rank (b ! j3) - 1 = rank (b ! j4) \<and> rank (b ! j4) - 1 = rank (b ! j5)
       then Some (400000000 + rank (b ! j1) * 1000000, positions b [j1, j2, j3, j4, j5])
       else if (rank (b ! j1) = rank (b ! j2) \<and> rank (b ! j1) = rank (b ! j3) \<and>
               rank (b ! j4) = rank (b ! j5)) \<or>
              (rank (b ! j3) = rank (b ! j4) \<and> rank (b ! j3) = rank (b ! j5) \<and>
               rank (b ! j1) = rank (b ! j2))
       then let drei = if rank (b ! j3) = rank (b ! j1) then rank (b ! j1) else rank (b ! j4);
                zwei = if rank (b ! j3) = rank (b ! j1) then rank (b ! j4) else rank (b ! j1)
            in Some (600000000 + drei * 1000000 + zwei * 10000, positions b [j1, j2, j3, j4, j5])
       else None) =
      (case straight_at (map rank b) t of
        Some r \<Rightarrow> Some (400000000 + r * 1000000)
      | None \<Rightarrow> map_option (\<lambda>(d, z). 600000000 + d * 1000000 + z * 10000)
                  (full_house_at (map rank b) t))"
    using assms unfolding t prod.case straight_at_def full_house_at_def by (simp add: Let_def)
qed

section \<open>Straights\<close>

lemma first_some_least:
  assumes "sorted_wrt R xs" "first_some f xs = Some r"
  shows "\<exists>x \<in> set xs. f x = Some r \<and> (\<forall>y \<in> set xs. f y \<noteq> None \<longrightarrow> y = x \<or> R x y)"
  using assms
proof (induction xs)
  case Nil
  then show ?case by simp
next
  case (Cons x xs)
  then show ?case by (cases "f x") auto
qed

lemma descending_nth_less:
  assumes "descending rs" "i < length rs" "j < length rs" "rs ! j < rs ! i"
  shows "i < j"
proof (rule ccontr)
  assume "\<not> i < j"
  then have "rs ! i \<le> rs ! j"
    using assms(1,2) by (cases "i = j") (auto simp: sorted_wrt_iff_nth_less)
  with assms(4) show False by simp
qed

lemma straight_at_run:
  assumes "length rs = 7" "t \<in> set index_tuples" "straight_at rs t = Some r"
  shows "run_at rs r \<and> r = rs ! fst t"
proof -
  obtain j1 j2 j3 j4 j5 where t: "t = (j1, j2, j3, j4, j5)" by (cases t) auto
  have lt: "j1 < 7" "j2 < 7" "j3 < 7" "j4 < 7" "j5 < 7"
    using assms(2) unfolding t by (auto simp: index_tuples_iff)
  have r: "r = rs ! j1" and eqs: "rs ! j2 = r - 1" "rs ! j3 = r - 2" "rs ! j4 = r - 3" "rs ! j5 = r - 4"
    using assms(3) unfolding t by (auto simp: straight_at_def split: if_splits)
  have "rs ! j1 \<in> set rs" "rs ! j2 \<in> set rs" "rs ! j3 \<in> set rs" "rs ! j4 \<in> set rs" "rs ! j5 \<in> set rs"
    using lt assms(1) by (simp_all add: nth_mem)
  then show ?thesis using r unfolding eqs by (simp add: run_at_def t)
qed

lemma run_at_straight:
  assumes "length rs = 7" "descending rs" "run_at rs r"
  shows "\<exists>t \<in> set index_tuples. straight_at rs t = Some r"
proof -
  have "\<exists>j < 7. rs ! j = r - d" if "d \<in> {0, 1, 2, 3, 4}" for d
    using assms(1,3) that by (auto simp: run_at_def in_set_conv_nth)
  note at = this
  obtain j1 where 1: "j1 < 7" "rs ! j1 = r" using at [of 0] by auto
  obtain j2 where 2: "j2 < 7" "rs ! j2 = r - 1" using at [of 1] by auto
  obtain j3 where 3: "j3 < 7" "rs ! j3 = r - 2" using at [of 2] by auto
  obtain j4 where 4: "j4 < 7" "rs ! j4 = r - 3" using at [of 3] by auto
  obtain j5 where 5: "j5 < 7" "rs ! j5 = r - 4" using at [of 4] by auto
  note j = 1 2 3 4 5
  note less = descending_nth_less [OF assms(2)]
  have "j1 < j2" "j2 < j3" "j3 < j4" "j4 < j5"
    using less [of j1 j2] less [of j2 j3] less [of j3 j4] less [of j4 j5] j assms(1) by simp_all
  then have "(j1, j2, j3, j4, j5) \<in> set index_tuples"
    using j by (simp add: index_tuples_iff)
  moreover have "straight_at rs (j1, j2, j3, j4, j5) = Some r"
    using j by (simp add: straight_at_def)
  ultimately show ?thesis by blast
qed

lemma find_descending:
  fixes xs :: "int list"
  assumes "descending xs" "P x" "x \<in> set xs" "\<And>y. y \<in> set xs \<Longrightarrow> P y \<Longrightarrow> y \<le> x"
  shows "find P xs = Some x"
  using assms
proof (induction xs)
  case Nil
  then show ?case by simp
next
  case (Cons y ys)
  show ?case
  proof (cases "P y")
    case True
    with Cons.prems have "y \<le> x" "x \<le> y" by auto
    with True show ?thesis by simp
  next
    case False
    with Cons show ?thesis by auto
  qed
qed

abbreviation run_tops :: "int list" where
  "run_tops \<equiv> [12, 11, 10, 9, 8, 7, 6, 5, 4]"

lemma run_at_bounds:
  assumes "set rs \<subseteq> {0..12}" "run_at rs r"
  shows "r \<in> set run_tops"
proof -
  have "r \<in> set rs" "r - 4 \<in> set rs" using assms(2) by (auto simp: run_at_def)
  then have "r \<in> {0..12}" "r - 4 \<in> {0..12}" using assms(1) by blast+
  then have "4 \<le> r" "r \<le> 12" by simp_all
  then have "r = 4 \<or> r = 5 \<or> r = 6 \<or> r = 7 \<or> r = 8 \<or> r = 9 \<or> r = 10 \<or> r = 11 \<or> r = 12"
    by linarith
  then show ?thesis by auto
qed

text \<open>A loop that visits candidate runs from the highest down finds the best run.\<close>

lemma first_some_best_run:
  assumes "set rs \<subseteq> {0..12}" "sorted_wrt (\<lambda>s t. g t \<le> g s) ts"
    and sound: "\<And>t r. t \<in> set ts \<Longrightarrow> f t = Some r \<Longrightarrow> run_at rs r \<and> r = g t"
    and complete: "\<And>r. run_at rs r \<Longrightarrow> \<exists>t \<in> set ts. f t = Some r"
  shows "first_some f ts = best_run rs"
proof (cases "first_some f ts")
  case None
  then have "\<not> run_at rs r" for r
    using complete by (auto simp: first_some_None_iff)
  then show ?thesis using None by (simp add: best_run_def)
next
  case (Some r)
  from first_some_least [OF assms(2) this]
  obtain t where t: "t \<in> set ts" "f t = Some r"
    and least: "\<forall>u \<in> set ts. f u \<noteq> None \<longrightarrow> u = t \<or> g u \<le> g t"
    by (elim bexE conjE)
  note r = sound [OF t, THEN conjunct1] sound [OF t, THEN conjunct2]
  have "y \<le> r" if run: "run_at rs y" for y
  proof -
    obtain u where u: "u \<in> set ts" "f u = Some y" using complete [OF run] by blast
    then have "y = g u" using sound by simp
    then show ?thesis using least u r(2) by auto
  qed
  then have "find (run_at rs) run_tops = Some r"
    using r(1) run_at_bounds [OF assms(1)] by (intro find_descending) auto
  with Some show ?thesis by (simp add: best_run_def)
qed

lemma straight_loop:
  assumes "length rs = 7" "descending rs" "set rs \<subseteq> {0..12}"
  shows "first_some (straight_at rs) index_tuples = best_run rs"
proof (rule first_some_best_run [where g = "\<lambda>t. rs ! fst t"])
  have "rs ! j \<le> rs ! i" if "i \<le> j" "j < 7" for i j
    using that assms(1,2) by (cases "i = j") (auto simp: sorted_wrt_iff_nth_less)
  then show "sorted_wrt (\<lambda>s t. rs ! fst t \<le> rs ! fst s) index_tuples"
    unfolding index_tuples_eq by simp
qed (use assms straight_at_run run_at_straight in blast)+

lemma first_some_orelse:
  assumes "\<And>t. t \<in> set ts \<Longrightarrow> g t = None"
  shows "first_some (\<lambda>t. case f t of Some r \<Rightarrow> Some (h r) | None \<Rightarrow> g t) ts =
         map_option h (first_some f ts)"
  using assms by (induction ts) (auto split: option.splits)

lemma first_some_orelse':
  assumes "\<And>t. t \<in> set ts \<Longrightarrow> f t = None"
  shows "first_some (\<lambda>t. case f t of Some r \<Rightarrow> Some (h r) | None \<Rightarrow> g t) ts = first_some g ts"
  using assms by (intro first_some_cong refl) simp

lemma straight_or_full_house_value:
  assumes len: "length b = 7" and desc: "descending (map rank b)"
    and ranks: "set (map rank b) \<subseteq> {0..12}"
    and grp: "grouped7 (map rank b)" "no_block 4 (map rank b)"
  shows "map_option fst (straight_or_full_house b) =
    (case count_full_house (map rank b) of
       Some (d, z) \<Rightarrow> Some (600000000 + d * 1000000 + z * 10000)
     | None \<Rightarrow> map_option (\<lambda>r. 400000000 + r * 1000000) (best_run (map rank b)))"
proof -
  let ?rs = "map rank b"
  have "length ?rs = 7" using len by simp
  then obtain r0 r1 r2 r3 r4 r5 r6 where rs: "?rs = [r0, r1, r2, r3, r4, r5, r6]"
    by (rule length_7_obtain)
  have fh: "first_some (full_house_at ?rs) index_tuples = count_full_house ?rs"
    using grp unfolding rs by (rule full_house_count)
  show ?thesis
  proof (cases "count_full_house ?rs")
    case None
    then have "full_house_at ?rs t = None" if "t \<in> set index_tuples" for t
      using fh that by (simp add: first_some_None_iff)
    then show ?thesis
      using None straight_loop [OF \<open>length ?rs = 7\<close> desc ranks] len
      by (simp add: straight_or_full_house_ranks first_some_orelse)
  next
    case (Some dz)
    have "straight_at ?rs t = None" if "t \<in> set index_tuples" for t
      using full_house_no_five [of r0 r1 r2 r3 r4 r5 r6] grp Some that unfolding rs
      by (cases t) (fastforce simp: straight_at_def Let_def)
    then show ?thesis
      using Some fh len
      by (simp add: straight_or_full_house_ranks first_some_orelse'
          map_option_first_some [symmetric] split: prod.splits)
  qed
qed

lemma wheel_test:
  fixes x1 :: int
  assumes "{x1, x2, x3, x4, x5} \<subseteq> {0..12}"
  shows "x1 - 9 = x2 \<and> x2 - 1 = x3 \<and> x3 - 1 = x4 \<and> x4 - 1 = x5 \<longleftrightarrow>
         x1 = 12 \<and> x2 = 3 \<and> x3 = 2 \<and> x4 = 1 \<and> x5 = 0"
  using assms by auto

lemma wheel_indices:
  assumes "length rs = 7" "descending rs" "wheel_in rs"
  obtains j1 j2 j3 j4 j5 where "(j1, j2, j3, j4, j5) \<in> set index_tuples"
    "rs ! j1 = 12" "rs ! j2 = 3" "rs ! j3 = 2" "rs ! j4 = 1" "rs ! j5 = 0"
proof -
  have at: "\<exists>j < 7. rs ! j = v" if "v \<in> {12, 3, 2, 1, 0}" for v
    using assms(1,3) that by (auto simp: wheel_in_def in_set_conv_nth)
  obtain j1 where 1: "j1 < 7" "rs ! j1 = 12" using at [of 12] by auto
  obtain j2 where 2: "j2 < 7" "rs ! j2 = 3" using at [of 3] by auto
  obtain j3 where 3: "j3 < 7" "rs ! j3 = 2" using at [of 2] by auto
  obtain j4 where 4: "j4 < 7" "rs ! j4 = 1" using at [of 1] by auto
  obtain j5 where 5: "j5 < 7" "rs ! j5 = 0" using at [of 0] by auto
  note j = 1 2 3 4 5 and less = descending_nth_less [OF assms(2)]
  have "j1 < j2" "j2 < j3" "j3 < j4" "j4 < j5"
    using less [of j1 j2] less [of j2 j3] less [of j3 j4] less [of j4 j5] j assms(1) by simp_all
  then have "(j1, j2, j3, j4, j5) \<in> set index_tuples"
    using j by (simp add: index_tuples_iff)
  with j that show ?thesis by blast
qed

lemma straight_wheel_value:
  assumes len: "length b = 7" and desc: "descending (map rank b)"
    and ranks: "set (map rank b) \<subseteq> {0..12}"
  shows "map_option fst (straight_wheel b) = (if wheel_in (map rank b) then Some 403000000 else None)"
proof -
  let ?rs = "map rank b"
  let ?f = "\<lambda>(j1, j2, j3, j4, j5).
     if rank (b ! j1) = 12 \<and> rank (b ! j2) = 3 \<and> rank (b ! j3) = 2 \<and> rank (b ! j4) = 1
        \<and> rank (b ! j5) = 0
     then Some (403000000 :: int) else None"
  have mem: "rank (b ! j) \<in> {0..12}" if "j < 7" for j
    using that ranks len by (force simp: in_set_conv_nth)
  have "map_option fst (straight_wheel b) = first_some ?f index_tuples"
    unfolding straight_wheel_def map_option_first_some
  proof (intro first_some_cong refl)
    fix t assume "t \<in> set index_tuples"
    moreover obtain j1 j2 j3 j4 j5 where t: "t = (j1, j2, j3, j4, j5)" by (cases t) auto
    ultimately have "j1 < 7" "j2 < 7" "j3 < 7" "j4 < 7" "j5 < 7" by (auto simp: index_tuples_iff)
    then have "{rank (b ! j1), rank (b ! j2), rank (b ! j3), rank (b ! j4), rank (b ! j5)} \<subseteq> {0..12}"
      using mem by blast
    note test = wheel_test [OF this]
    show "map_option fst (case t of (j1, j2, j3, j4, j5) \<Rightarrow>
        if rank (b ! j1) - 9 = rank (b ! j2) \<and> rank (b ! j2) - 1 = rank (b ! j3) \<and>
           rank (b ! j3) - 1 = rank (b ! j4) \<and> rank (b ! j4) - 1 = rank (b ! j5)
        then Some (400000000 + rank (b ! j2) * 1000000, positions b [j1, j2, j3, j4, j5])
        else None) = ?f t"
      unfolding t prod.case test by simp
  qed
  also have "\<dots> = (if wheel_in ?rs then Some 403000000 else None)"
  proof (cases "wheel_in ?rs")
    case True
    obtain j1 j2 j3 j4 j5 where j: "(j1, j2, j3, j4, j5) \<in> set index_tuples"
      "?rs ! j1 = 12" "?rs ! j2 = 3" "?rs ! j3 = 2" "?rs ! j4 = 1" "?rs ! j5 = 0"
      by (rule wheel_indices [OF _ desc True, unfolded length_map, OF len])
    then have "?f (j1, j2, j3, j4, j5) = Some 403000000"
      using len by (simp add: index_tuples_iff)
    then have "first_some ?f index_tuples = Some 403000000"
      by (rule first_some_unique [OF j(1)]) (auto split: if_splits)
    with True show ?thesis by simp
  next
    case False
    have "?f t = None" if "t \<in> set index_tuples" for t
    proof (rule ccontr)
      assume "?f t \<noteq> None"
      moreover obtain j1 j2 j3 j4 j5 where t: "t = (j1, j2, j3, j4, j5)" by (cases t) auto
      moreover have "j1 < 7" "j2 < 7" "j3 < 7" "j4 < 7" "j5 < 7"
        using that t by (auto simp: index_tuples_iff)
      ultimately have "12 \<in> set ?rs" "3 \<in> set ?rs" "2 \<in> set ?rs" "1 \<in> set ?rs" "0 \<in> set ?rs"
        using len by (force simp: in_set_conv_nth split: if_splits)+
      then show False using False by (simp add: wheel_in_def)
    qed
    then have "first_some ?f index_tuples = None" by (simp add: first_some_None_iff)
    with False show ?thesis by simp
  qed
  finally show ?thesis .
qed

section \<open>The rank part of the evaluator\<close>

lemma map_option_encode:
  assumes "map_option g x = map_option snd y" "\<And>h. y = Some h \<Longrightarrow> fst h = c"
  shows "map_option encode y = map_option (\<lambda>v. encode (c, g v)) x"
proof (cases y)
  case None
  with assms(1) show ?thesis by simp
next
  case (Some h)
  then have "h = (c, snd h)" using assms(2) by (cases h) simp
  then show ?thesis using assms(1) Some by (cases x) simp_all
qed

lemma encode_simps:
  "encode (7, [q, k]) = 700000000 + q * 1000000 + k * 10000"
  "encode (6, [q, k]) = 600000000 + q * 1000000 + k * 10000"
  "encode (4, [q]) = 400000000 + q * 1000000"
  "encode (3, [q, k, l]) = 300000000 + q * 1000000 + k * 10000 + l * 100"
  "encode (2, [q, k, l]) = 200000000 + q * 1000000 + k * 10000 + l * 100"
  "encode (1, [q, k, l, m]) = 100000000 + q * 1000000 + k * 10000 + l * 100 + m"
  "encode (8, [q]) = 800000000 + q * 1000000"
  "encode (9, []) = 900000000"
  "encode (5, [q, k, l, m, n]) = 500000000 + q * 1000000 + k * 10000 + l * 100 + m * 10 + n"
  "encode (0, [q, k, l, m, n]) = q * 1000000 + k * 10000 + l * 100 + m * 10 + n"
  by (simp_all add: encode_def weights_def)

lemma four_reference:
  assumes "length b = 7" "grouped7 (map rank b)"
  shows "map_option fst (four_of_a_kind b) = map_option encode (ref_four (map rank b))"
    and "four_of_a_kind b = None \<Longrightarrow> no_block 4 (map rank b)"
proof -
  obtain r0 r1 r2 r3 r4 r5 r6 where rs: "map rank b = [r0, r1, r2, r3, r4, r5, r6]"
    using assms(1) by (metis length_7_obtain length_map)
  have "map_option (\<lambda>(q, k). [q, k]) (four_ranks (map rank b)) =
        map_option snd (ref_four (map rank b))"
    using assms(2) unfolding rs ref_four_def by (simp only: four_ranks_count) (simp split: list.split)
  then have "map_option encode (ref_four (map rank b)) =
             map_option (\<lambda>v. encode (7, (\<lambda>(q, k). [q, k]) v)) (four_ranks (map rank b))"
    by (rule map_option_encode) (auto simp: ref_four_def split: list.splits)
  then show "map_option fst (four_of_a_kind b) = map_option encode (ref_four (map rank b))"
    by (simp add: four_of_a_kind_ranks [OF assms(1)] case_prod_unfold encode_simps)
  show "no_block 4 (map rank b)" if "four_of_a_kind b = None"
    using four_of_a_kind_ranks [OF assms(1)] that four_ranks_None assms(2) unfolding rs by simp
qed

lemma full_house_reference:
  assumes "length b = 7" "descending (map rank b)" "set (map rank b) \<subseteq> {0..12}"
    and "grouped7 (map rank b)" "no_block 4 (map rank b)"
  shows "map_option fst (straight_or_full_house b) =
    map_option encode (case ref_full_house (map rank b) of Some h \<Rightarrow> Some h
      | None \<Rightarrow> map_option (\<lambda>t. (4, [t])) (best_run (map rank b)))"
proof -
  have "ref_full_house (map rank b) =
        map_option (\<lambda>(d, z). (6, [d, z])) (count_full_house (map rank b))"
    by (simp add: ref_full_house_def count_full_house_def split: list.split)
  then show ?thesis
    using straight_or_full_house_value [OF assms]
    by (cases "count_full_house (map rank b)";
        cases "best_run (map rank b)") (auto simp: encode_simps)
qed

lemma three_reference:
  assumes "length b = 7" "grouped7 (map rank b)" "no_block 4 (map rank b)"
  shows "map_option fst (three_of_a_kind b) = map_option encode (ref_three (map rank b))"
    and "three_of_a_kind b = None \<Longrightarrow> no_block 3 (map rank b)"
proof -
  obtain r0 r1 r2 r3 r4 r5 r6 where rs: "map rank b = [r0, r1, r2, r3, r4, r5, r6]"
    using assms(1) by (metis length_7_obtain length_map)
  have "map_option (\<lambda>(d, k1, k2). [d, k1, k2]) (three_ranks (map rank b)) =
        map_option snd (ref_three (map rank b))"
    using assms(2,3) unfolding rs ref_three_def
    by (simp only: three_ranks_count) (simp split: list.split)
  then have "map_option encode (ref_three (map rank b)) =
             map_option (\<lambda>v. encode (3, (\<lambda>(d, k1, k2). [d, k1, k2]) v)) (three_ranks (map rank b))"
    by (rule map_option_encode) (auto simp: ref_three_def split: list.splits)
  then show "map_option fst (three_of_a_kind b) = map_option encode (ref_three (map rank b))"
    by (simp add: three_of_a_kind_ranks [OF assms(1)] case_prod_unfold encode_simps)
  show "no_block 3 (map rank b)" if "three_of_a_kind b = None"
    using three_of_a_kind_ranks [OF assms(1)] that three_ranks_None assms(2) unfolding rs by simp
qed

lemma two_pair_reference:
  assumes "length b = 7" "grouped7 (map rank b)" "no_block 3 (map rank b)"
  shows "map_option fst (two_pair b) = map_option encode (ref_two_pair (map rank b))"
proof -
  obtain r0 r1 r2 r3 r4 r5 r6 where rs: "map rank b = [r0, r1, r2, r3, r4, r5, r6]"
    using assms(1) by (metis length_7_obtain length_map)
  let ?x = "first_some (\<lambda>j1. first_some (two_pair_at (map rank b) j1) [j1 + 2..<6]) [0..<4]"
  have "map_option (\<lambda>(p, q, k). [p, q, k]) ?x = map_option snd (ref_two_pair (map rank b))"
    using assms(2,3) unfolding rs ref_two_pair_def
    by (simp only: two_pair_count) (simp split: list.split)
  then have "map_option encode (ref_two_pair (map rank b)) =
             map_option (\<lambda>v. encode (2, (\<lambda>(p, q, k). [p, q, k]) v)) ?x"
    by (rule map_option_encode) (auto simp: ref_two_pair_def split: list.splits)
  then show ?thesis
    by (simp only: two_pair_ranks [OF assms(1)] case_prod_unfold encode_simps)
qed

lemma pair_reference:
  assumes "length b = 7" "grouped7 (map rank b)" "no_block 3 (map rank b)"
  shows "map_option fst (one_pair b) = map_option encode (ref_pair (map rank b))"
proof -
  obtain r0 r1 r2 r3 r4 r5 r6 where rs: "map rank b = [r0, r1, r2, r3, r4, r5, r6]"
    using assms(1) by (metis length_7_obtain length_map)
  have "map_option (\<lambda>(p, k1, k2, k3). [p, k1, k2, k3]) (pair_ranks (map rank b)) =
        map_option snd (ref_pair (map rank b))"
    using assms(2,3) unfolding rs ref_pair_def
    by (simp only: pair_ranks_count) (simp split: list.split)
  then have "map_option encode (ref_pair (map rank b)) =
       map_option (\<lambda>v. encode (1, (\<lambda>(p, k1, k2, k3). [p, k1, k2, k3]) v)) (pair_ranks (map rank b))"
    by (rule map_option_encode) (auto simp: ref_pair_def split: list.splits)
  then show ?thesis
    by (simp only: one_pair_ranks [OF assms(1)] case_prod_unfold encode_simps)
qed

lemma high_reference:
  assumes "length b = 7"
  shows "fst (high_card b) = encode (ref_high (map rank b))"
proof -
  obtain e0 e1 e2 e3 e4 e5 e6 where b: "b = [e0, e1, e2, e3, e4, e5, e6]"
    using assms by (rule length_7_obtain)
  show ?thesis unfolding b by (simp add: high_card_def ref_high_def encode_simps)
qed

definition reference_ranks :: "int list \<Rightarrow> poker_hand" where
  "reference_ranks rs =
     (case first_some (\<lambda>h. h) [ref_four rs, ref_full_house rs, ref_straight rs, ref_three rs,
                               ref_two_pair rs, ref_pair rs] of
        Some h \<Rightarrow> h | None \<Rightarrow> ref_high rs)"

lemma Some_eq_map_option_iff: "Some x = map_option f y \<longleftrightarrow> (\<exists>z. y = Some z \<and> x = f z)"
  by (cases y) auto

theorem rank_value_reference:
  assumes "length b = 7" "descending (map rank b)" "set (map rank b) \<subseteq> {0..12}"
    and "grouped7 (map rank b)"
  shows "fst (rank_value b) = encode (reference_ranks (map rank b))"
proof (cases "four_of_a_kind b")
  case (Some r)
  then show ?thesis
    using four_reference(1) [OF assms(1,4)]
    by (auto simp: rank_value_def reference_ranks_def Some_eq_map_option_iff)
next
  case no_four: None
  note four = four_reference [OF assms(1,4)]
  have nb4: "no_block 4 (map rank b)" and rf: "ref_four (map rank b) = None"
    using four no_four by simp_all
  note house = full_house_reference [OF assms nb4]
    and wheel = straight_wheel_value [OF assms(1-3)]
    and three = three_reference [OF assms(1,4) nb4]
  show ?thesis
  proof (cases "straight_or_full_house b")
    case (Some r)
    have "fst (rank_value b) = fst r" using no_four Some by (simp add: rank_value_def)
    moreover have "fst r = encode (reference_ranks (map rank b))"
      using house unfolding Some
      by (cases "ref_full_house (map rank b)"; cases "best_run (map rank b)")
         (simp_all add: reference_ranks_def rf ref_straight_def straight_top_def)
    ultimately show ?thesis by simp
  next
    case no_house: None
    then have rh: "ref_full_house (map rank b) = None" "best_run (map rank b) = None"
      using house by (auto split: option.splits)
    have st: "map_option fst (straight_wheel b) = map_option encode (ref_straight (map rank b))"
      using wheel rh(2) by (simp add: ref_straight_def straight_top_def encode_simps)
    show ?thesis
    proof (cases "straight_wheel b")
      case (Some r)
      then show ?thesis using st no_four no_house rf rh
        by (auto simp: rank_value_def reference_ranks_def Some_eq_map_option_iff)
    next
      case no_wheel: None
      then have rst: "ref_straight (map rank b) = None" using st by simp
      show ?thesis
      proof (cases "three_of_a_kind b")
        case (Some r)
        then show ?thesis using three(1) no_four no_house no_wheel rf rh rst
          by (auto simp: rank_value_def reference_ranks_def Some_eq_map_option_iff)
      next
        case no_three: None
        then have nb3: "no_block 3 (map rank b)" and rt: "ref_three (map rank b) = None"
          using three by simp_all
        show ?thesis
          using two_pair_reference [OF assms(1,4) nb3] pair_reference [OF assms(1,4) nb3]
            high_reference [OF assms(1)] no_four no_house no_wheel no_three rf rh rst rt
          by (cases "two_pair b"; cases "one_pair b") (auto simp: rank_value_def reference_ranks_def Some_eq_map_option_iff)
      qed
    qed
  qed
qed

end
