(* ===== verification/Suit_Correct.thy ===== *)
theory Suit_Correct
  imports Cards_Correct
begin

text \<open>
  The suit part of \<open>cardsValue\<close>: the suit-sorted array is cut into the cards above, in and below
  a suit; a suit with five cards is found by the group scan and by the flush test, and its strictly
  descending ranks decide the straight flush. Together with the rank part this gives the
  correctness of the evaluator on seven different cards.
\<close>

section \<open>The suit-sorted array\<close>

lemma suit_split:
  assumes "sorted_wrt (\<lambda>x y. suit y \<le> suit x) a"
  shows "a = filter (\<lambda>e. c < suit e) a @ filter (\<lambda>e. suit e = c) a @ filter (\<lambda>e. suit e < c) a"
  using assms
proof (induction a)
  case Nil
  then show ?case by simp
next
  case (Cons e a)
  then have le: "\<forall>x \<in> set a. suit x \<le> suit e"
    and IH: "a = filter (\<lambda>e. c < suit e) a @ filter (\<lambda>e. suit e = c) a @ filter (\<lambda>e. suit e < c) a"
    by simp_all
  show ?case
  proof (cases "suit e" c rule: linorder_cases)
    case less
    with le have "filter (\<lambda>e. c < suit e) a = []" "filter (\<lambda>e. suit e = c) a = []"
      by (auto simp: filter_empty_conv)
    then show ?thesis using IH less by simp
  next
    case equal
    with le have "filter (\<lambda>e. c < suit e) a = []" by (auto simp: filter_empty_conv)
    then show ?thesis using IH equal by simp
  next
    case greater
    then show ?thesis using IH by simp
  qed
qed

definition five_suited ::
  "card_entry list \<Rightarrow> card_entry list \<Rightarrow> card_entry list \<Rightarrow> card_entry list \<Rightarrow> int \<Rightarrow> bool" where
  "five_suited a x g y c \<longleftrightarrow> a = x @ g @ y \<and> length a = 7 \<and> 5 \<le> length g \<and>
     (\<forall>e \<in> set g. suit e = c) \<and> (\<forall>e \<in> set x. c < suit e) \<and> (\<forall>e \<in> set y. suit e < c)"

lemma five_suited_total:
  "five_suited a x g y c \<Longrightarrow> length x + length g + length y = 7 \<and> length x \<le> 2 \<and> 5 \<le> length g"
  by (auto simp: five_suited_def)

lemma nth_inside: "five_suited a x g y c \<Longrightarrow> k < length g \<Longrightarrow> a ! (length x + k) = g ! k"
  by (simp add: five_suited_def nth_append)

lemma suit_inside:
  "five_suited a x g y c \<Longrightarrow> length x \<le> i \<Longrightarrow> i < length x + length g \<Longrightarrow> suit (a ! i) = c"
  by (auto simp: five_suited_def nth_append)

lemma suit_above: "five_suited a x g y c \<Longrightarrow> i < length x \<Longrightarrow> c < suit (a ! i)"
  by (simp add: five_suited_def nth_append)

lemma suit_below:
  "five_suited a x g y c \<Longrightarrow> length x + length g \<le> i \<Longrightarrow> i < 7 \<Longrightarrow> suit (a ! i) < c"
  by (auto simp: five_suited_def nth_append)

section \<open>The group scan\<close>

lemma group_end_step:
  "e + 1 < 7 \<and> suit (a ! (e + 1)) = suit (a ! s) \<Longrightarrow> group_end a s e = group_end a s (e + 1)"
  by (subst group_end.simps) simp

lemma group_end_stop:
  "\<not> (e + 1 < 7 \<and> suit (a ! (e + 1)) = suit (a ! s)) \<Longrightarrow> group_end a s e = e"
  by (subst group_end.simps) (rule if_not_P)

lemma group_end_same:
  assumes "s \<le> e" "\<forall>i \<in> {s..e}. suit (a ! i) = c" "e < 7"
  shows "group_end a s e < 7 \<and> (\<forall>i \<in> {s..group_end a s e}. suit (a ! i) = c)"
  using assms
proof (induction a s e rule: group_end.induct)
  case (1 a s e)
  have s: "suit (a ! s) = c" using "1.prems" by simp
  show ?case
  proof (cases "e + 1 < 7 \<and> suit (a ! (e + 1)) = suit (a ! s)")
    case True
    with "1.prems" s have "\<forall>i \<in> {s..e + 1}. suit (a ! i) = c"
      by (simp add: atLeastAtMostSuc_conv)
    with True "1.prems"(1) show ?thesis
      unfolding group_end_step [OF True] by (intro "1.IH" [OF True]) simp_all
  next
    case False
    with "1.prems" show ?thesis unfolding group_end_stop [OF False] by blast
  qed
qed

lemma group_end_run:
  assumes "s \<le> e" "e \<le> f" "f < 7" "\<forall>i \<in> {s..f}. suit (a ! i) = c"
    and "f + 1 < 7 \<Longrightarrow> suit (a ! (f + 1)) \<noteq> c"
  shows "group_end a s e = f"
  using assms
proof (induction a s e rule: group_end.induct)
  case (1 a s e)
  have s: "suit (a ! s) = c" using "1.prems" by simp
  show ?case
  proof (cases "e = f")
    case True
    with "1.prems"(5) s show ?thesis by (intro trans [OF group_end_stop]) auto
  next
    case False
    with "1.prems"(1-3) have le: "e + 1 \<le> f" "s \<le> e + 1" "e + 1 < 7" by auto
    with "1.prems"(4) s have step: "e + 1 < 7 \<and> suit (a ! (e + 1)) = suit (a ! s)" by simp
    show ?thesis
      unfolding group_end_step [OF step]
      by (rule "1.IH" [OF step le(2,1) "1.prems"(3-5)])
  qed
qed

text \<open>Groups of fewer than five cards are skipped.\<close>

lemma straight_flush_skip:
  assumes "s < 7" "group_end a s s < s + 4"
  shows "straight_flush a s = straight_flush a (group_end a s s + 1)"
proof -
  have "\<not> group_end a s s - s + 1 \<ge> 5"
    using assms(2) group_end_ge [of s a s] by arith
  then show ?thesis
    using assms(1) by (subst straight_flush.simps) (simp only: Let_def if_False if_True)
qed

lemma straight_flush_group:
  assumes "s < 7" "group_end a s s = e" "s + 4 \<le> e"
  shows "straight_flush a s = (case straight_flush_run a s e of
       Some r \<Rightarrow> Some r
     | None \<Rightarrow> (case straight_flush_wheel a s e of
         Some r \<Rightarrow> Some r
       | None \<Rightarrow> straight_flush a (e + 1)))"
proof -
  have "e - s + 1 \<ge> 5" using assms(3) by arith
  then show ?thesis
    using assms(1,2) by (subst straight_flush.simps) (simp only: Let_def if_True)
qed

lemma straight_flush_none:
  assumes "\<forall>t. s \<le> t \<and> t + 4 < 7 \<longrightarrow> suit (a ! t) \<noteq> suit (a ! (t + 4))"
  shows "straight_flush a s = None"
  using assms
proof (induction "7 - s" arbitrary: s rule: less_induct)
  case less
  show ?case
  proof (cases "s < 7")
    case True
    have small: "group_end a s s < s + 4"
    proof (rule ccontr)
      assume "\<not> group_end a s s < s + 4"
      then have ge: "s + 4 \<le> group_end a s s" by simp
      have same: "group_end a s s < 7 \<and> (\<forall>i \<in> {s..group_end a s s}. suit (a ! i) = suit (a ! s))"
        using True by (intro group_end_same) auto
      have "s + 4 < 7" using ge same by (meson le_less_trans)
      moreover have "suit (a ! (s + 4)) = suit (a ! s)"
        using ge same by (meson atLeastAtMost_iff le_add1)
      ultimately show False using less.prems by (metis le_refl)
    qed
    have "straight_flush a (group_end a s s + 1) = None"
      using less.prems group_end_ge [of s a s] True by (intro less.hyps) auto
    with straight_flush_skip [OF True small] show ?thesis by simp
  next
    case False
    then show ?thesis by (subst straight_flush.simps) simp
  qed
qed

lemma straight_flush_none_late: "3 \<le> s \<Longrightarrow> straight_flush a s = None"
  by (rule straight_flush_none) auto

lemma straight_flush_at_group:
  assumes "five_suited a x g y c"
  shows "straight_flush a (length x) =
    (case straight_flush_run a (length x) (length x + length g - 1) of
       Some r \<Rightarrow> Some r
     | None \<Rightarrow> straight_flush_wheel a (length x) (length x + length g - 1))"
proof -
  let ?s = "length x" and ?e = "length x + length g - 1"
  have n: "length x + length g \<le> 7" "5 \<le> length g" using five_suited_total [OF assms] by auto
  have same: "suit (a ! i) = c" if "?s \<le> i" "i \<le> ?e" for i
    using that n suit_inside [OF assms, of i] by simp
  have "group_end a ?s ?s = ?e"
  proof (rule group_end_run)
    show "suit (a ! (?e + 1)) \<noteq> suit (a ! ?s)" if "?e + 1 < 7"
    proof -
      have "suit (a ! (?e + 1)) < c" using that n by (intro suit_below [OF assms]) auto
      moreover have "suit (a ! ?s) = c" using n by (intro same) auto
      ultimately show ?thesis by simp
    qed
  qed (use n same in auto)
  moreover have "straight_flush a (?e + 1) = None"
    using n by (intro straight_flush_none_late) simp
  ultimately show ?thesis
    using n straight_flush_group [of ?s a ?e] by (simp split: option.split)
qed

lemma straight_flush_to_group:
  assumes "five_suited a x g y c" "s \<le> length x"
  shows "straight_flush a s = straight_flush a (length x)"
  using assms(2)
proof (induction "length x - s" arbitrary: s rule: less_induct)
  case less
  show ?case
  proof (cases "s = length x")
    case True
    then show ?thesis by simp
  next
    case False
    with less.prems have s: "s < length x" by simp
    have n: "length x \<le> 2" "5 \<le> length g" using five_suited_total [OF assms(1)] by auto
    have "group_end a s s < 7 \<and> (\<forall>i \<in> {s..group_end a s s}. suit (a ! i) = suit (a ! s))"
      using s n by (intro group_end_same) auto
    moreover have "suit (a ! length x) = c"
      using n by (intro suit_inside [OF assms(1)]) auto
    then have "suit (a ! length x) \<noteq> suit (a ! s)"
      using suit_above [OF assms(1) s] by simp
    ultimately have le: "group_end a s s < length x" using s by (meson atLeastAtMost_iff less_imp_le not_le)
    then have "straight_flush a s = straight_flush a (group_end a s s + 1)"
      using s n by (intro straight_flush_skip) auto
    also have "\<dots> = straight_flush a (length x)"
      using le s group_end_ge [of s a s] by (intro less.hyps) auto
    finally show ?thesis .
  qed
qed

section \<open>Strictly descending ranks\<close>

abbreviation strictly_descending :: "int list \<Rightarrow> bool" where
  "strictly_descending \<equiv> sorted_wrt (>)"

lemma strict_successor:
  assumes "strictly_descending gs" "k < length gs" "gs ! k - 1 \<in> set gs"
  shows "k + 1 < length gs \<and> gs ! (k + 1) = gs ! k - 1"
proof -
  obtain m where m: "m < length gs" "gs ! m = gs ! k - 1"
    using assms(3) by (auto simp: in_set_conv_nth)
  have lt: "gs ! j < gs ! i" if "i < j" "j < length gs" for i j
    using that assms(1) by (auto simp: sorted_wrt_iff_nth_less)
  have "k < m"
  proof (rule ccontr)
    assume "\<not> k < m"
    then have "m = k \<or> gs ! k < gs ! m" using lt [of m k] assms(2) by (meson linorder_neqE_nat)
    with m(2) show False by auto
  qed
  moreover have "m = k + 1"
  proof (rule ccontr)
    assume "m \<noteq> k + 1"
    with \<open>k < m\<close> have "k + 1 < m" by simp
    then have "gs ! m < gs ! (k + 1)" "gs ! (k + 1) < gs ! k" using lt m(1) by simp_all
    with m(2) show False by simp
  qed
  ultimately show ?thesis using m by simp
qed

lemma strict_window:
  assumes "strictly_descending gs" "k < length gs"
    and "\<forall>d \<in> {1..int n}. gs ! k - d \<in> set gs"
  shows "\<forall>d \<le> n. k + d < length gs \<and> gs ! (k + d) = gs ! k - int d"
  using assms(3)
proof (induction n)
  case 0
  then show ?case using assms(2) by simp
next
  case (Suc n)
  then have IH: "\<forall>d \<le> n. k + d < length gs \<and> gs ! (k + d) = gs ! k - int d" by simp
  then have at: "k + n < length gs" "gs ! (k + n) = gs ! k - int n" by simp_all
  have "gs ! k - (1 + int n) \<in> set gs" using Suc.prems by simp
  moreover have "gs ! k - (1 + int n) = gs ! (k + n) - 1" using at(2) by simp
  ultimately have "gs ! (k + n) - 1 \<in> set gs" by simp
  then have "k + Suc n < length gs \<and> gs ! (k + Suc n) = gs ! k - int (Suc n)"
    using strict_successor [OF assms(1) at(1)] at(2) by simp
  with IH show ?case by (auto simp: le_Suc_eq)
qed

lemma upt_shift: "[s..<s + m] = map (\<lambda>k. s + k) [0..<m]"
  by (induction m) simp_all

definition run_value :: "int \<Rightarrow> int" where
  "run_value r = (if r = 12 then 900000000 else 800000000 + r * 1000000)"

lemma straight_flush_run_value:
  assumes fs: "five_suited a x g y c"
    and strict: "strictly_descending (map rank g)" and ranks: "set (map rank g) \<subseteq> {0..12}"
  shows "map_option fst (straight_flush_run a (length x) (length x + length g - 1)) =
         map_option run_value (best_run (map rank g))"
proof -
  let ?gs = "map rank g"
  let ?f = "\<lambda>k. if ?gs ! k - 1 = ?gs ! (k + 1) \<and> ?gs ! (k + 1) - 1 = ?gs ! (k + 2)
      \<and> ?gs ! (k + 2) - 1 = ?gs ! (k + 3) \<and> ?gs ! (k + 3) - 1 = ?gs ! (k + 4)
      then Some (?gs ! k) else None"
  have n: "5 \<le> length g" using five_suited_total [OF fs] by simp
  have shift: "[length x..<length x + length g - 1 - 3] = map (\<lambda>k. length x + k) [0..<length g - 4]"
    using n by (simp add: map_add_upt add.commute)
  have at: "rank (a ! (length x + k)) = ?gs ! k" if "k < length g" for k
    using nth_inside [OF fs that] that by simp
  have "map_option fst (straight_flush_run a (length x) (length x + length g - 1)) =
        first_some (\<lambda>k. map_option run_value (?f k)) [0..<length g - 4]"
    unfolding straight_flush_run_def map_option_first_some shift first_some_map o_def
  proof (intro first_some_cong refl)
    fix k assume "k \<in> set [0..<length g - 4]"
    then have "rank (a ! (length x + k)) = ?gs ! k" "rank (a ! (length x + k + 1)) = ?gs ! (k + 1)"
      "rank (a ! (length x + k + 2)) = ?gs ! (k + 2)" "rank (a ! (length x + k + 3)) = ?gs ! (k + 3)"
      "rank (a ! (length x + k + 4)) = ?gs ! (k + 4)"
      using at [of k] at [of "k + 1"] at [of "k + 2"] at [of "k + 3"] at [of "k + 4"]
      by (simp_all add: add.assoc)
    note eqs = this
    show "map_option fst
       (if rank (a ! (length x + k)) - 1 = rank (a ! (length x + k + 1)) \<and>
           rank (a ! (length x + k + 1)) - 1 = rank (a ! (length x + k + 2)) \<and>
           rank (a ! (length x + k + 2)) - 1 = rank (a ! (length x + k + 3)) \<and>
           rank (a ! (length x + k + 3)) - 1 = rank (a ! (length x + k + 4))
        then if rank (a ! (length x + k)) = 12
             then Some (900000000, positions a [length x + k..<length x + k + 5])
             else Some (800000000 + rank (a ! (length x + k)) * 1000000,
                        positions a [length x + k..<length x + k + 5])
        else None) = map_option run_value (?f k)"
      unfolding eqs by (simp add: run_value_def)
  qed
  also have "\<dots> = map_option run_value (first_some ?f [0..<length g - 4])"
    by (simp add: map_option_first_some)
  also have "first_some ?f [0..<length g - 4] = best_run ?gs"
  proof (rule first_some_best_run [OF ranks, where g = "\<lambda>k. ?gs ! k"])
    show "sorted_wrt (\<lambda>s t. ?gs ! t \<le> ?gs ! s) [0..<length g - 4]"
      using strict by (auto simp: sorted_wrt_iff_nth_less intro!: less_imp_le)
    show "run_at ?gs r \<and> r = ?gs ! k" if "k \<in> set [0..<length g - 4]" "?f k = Some r" for k r
    proof -
      have r: "?gs ! k = r" "?gs ! (k + 1) = r - 1" "?gs ! (k + 2) = r - 2" "?gs ! (k + 3) = r - 3"
        "?gs ! (k + 4) = r - 4" using that(2) by (auto split: if_splits)
      have "?gs ! (k + d) \<in> set ?gs" if "d \<le> 4" for d
        using that \<open>k \<in> set [0..<length g - 4]\<close> by (intro nth_mem) auto
      from this [of 0] this [of 1] this [of 2] this [of 3] this [of 4]
      show ?thesis unfolding r run_at_def by (simp add: r)
    qed
    show "\<exists>k \<in> set [0..<length g - 4]. ?f k = Some r" if run: "run_at ?gs r" for r
    proof -
      have mem: "\<forall>d \<in> {1..int 4}. r - d \<in> set ?gs"
      proof
        fix d assume "d \<in> {1..int 4}"
        then have "d = 1 \<or> d = 2 \<or> d = 3 \<or> d = 4" by auto
        with run show "r - d \<in> set ?gs" by (auto simp: run_at_def)
      qed
      have "r \<in> set ?gs" using run by (simp add: run_at_def)
      then obtain k where k: "k < length ?gs" "?gs ! k = r" by (metis in_set_conv_nth)
      have w: "\<forall>d \<le> 4. k + d < length ?gs \<and> ?gs ! (k + d) = r - int d"
        using strict_window [OF strict k(1), of 4] mem unfolding k(2) by blast
      note at4 = w [rule_format]
      have "k + 4 < length g" "?gs ! (k + 1) = r - 1" "?gs ! (k + 2) = r - 2"
        "?gs ! (k + 3) = r - 3" "?gs ! (k + 4) = r - 4"
        using at4 [of 1] at4 [of 2] at4 [of 3] at4 [of 4] by (simp_all del: nth_map)
      then have "k \<in> set [0..<length g - 4]" "?f k = Some r" using k(2) by auto
      then show ?thesis by blast
    qed
  qed
  finally show ?thesis .
qed

text \<open>The wheel test on the ranks of the suit.\<close>

definition wheel_at :: "int list \<Rightarrow> nat \<times> nat \<Rightarrow> int option" where
  "wheel_at gs = (\<lambda>(i, j). if gs ! i = 12 \<and> gs ! i - 9 = gs ! j \<and> gs ! j - 1 = gs ! (j + 1)
      \<and> gs ! (j + 1) - 1 = gs ! (j + 2) \<and> gs ! (j + 2) - 1 = gs ! (j + 3)
      then Some 803000000 else None)"

lemma straight_flush_wheel_ranks:
  assumes fs: "five_suited a x g y c"
  shows "map_option fst (straight_flush_wheel a (length x) (length x + length g - 1)) =
    first_some (\<lambda>i. first_some (\<lambda>j. wheel_at (map rank g) (i, j)) [0..<length g - 3]) [0..<length g]"
proof -
  let ?gs = "map rank g" and ?s = "length x" and ?n = "length g"
  have n: "5 \<le> ?n" using five_suited_total [OF fs] by simp
  have at: "rank (a ! (?s + k)) = ?gs ! k" if "k < ?n" for k
    using nth_inside [OF fs that] that by simp
  have suit_at: "suit (a ! (?s + k)) = c" if "k < ?n" for k
    using that by (intro suit_inside [OF fs]) auto
  have "?s + ?n - 1 + 1 = ?s + ?n" "?s + ?n - 1 - 2 = ?s + (?n - 3)" using n by arith+
  then have shift: "[?s..<?s + ?n - 1 + 1] = map (\<lambda>k. ?s + k) [0..<?n]"
    "[?s..<?s + ?n - 1 - 2] = map (\<lambda>k. ?s + k) [0..<?n - 3]"
    by (simp_all only: upt_shift)
  have inner: "map_option fst (if rank (a ! (?s + i)) - 9 = rank (a ! (?s + j)) \<and>
         rank (a ! (?s + j)) - 1 = rank (a ! (?s + j + 1)) \<and>
         rank (a ! (?s + j + 1)) - 1 = rank (a ! (?s + j + 2)) \<and>
         rank (a ! (?s + j + 2)) - 1 = rank (a ! (?s + j + 3)) \<and>
         suit (a ! (?s + i)) = suit (a ! (?s + j)) \<and> suit (a ! (?s + i)) = suit (a ! (?s + j + 3))
       then Some (800000000 + 3 * 1000000, positions a ((?s + i) # [?s + j..<?s + j + 4]))
       else None) = wheel_at ?gs (i, j)"
    if "i < ?n" "?gs ! i = 12" "j < ?n - 3" for i j
  proof -
    have j: "j < ?n" "j + 1 < ?n" "j + 2 < ?n" "j + 3 < ?n" using that by auto
    show ?thesis
      using j that(1) by (simp only: add.assoc at suit_at simp_thms) (simp add: wheel_at_def that)
  qed
  have "map_option fst (if rank (a ! (?s + i)) \<noteq> 12 then None else first_some f [0..<?n - 3]) =
        first_some (\<lambda>j. wheel_at ?gs (i, j)) [0..<?n - 3]"
    if "i < ?n" "\<And>j. ?gs ! i = 12 \<Longrightarrow> j < ?n - 3 \<Longrightarrow> map_option fst (f j) = wheel_at ?gs (i, j)"
    for i and f :: "nat \<Rightarrow> (int \<times> int list) option"
  proof (cases "?gs ! i = 12")
    case True
    then have "first_some (\<lambda>j. map_option fst (f j)) [0..<?n - 3] =
        first_some (\<lambda>j. wheel_at ?gs (i, j)) [0..<?n - 3]"
      using that(2) by (intro first_some_cong refl) simp
    with True show ?thesis
      using at [OF that(1)] by (simp add: map_option_first_some)
  next
    case False
    then show ?thesis using at [OF that(1)] by (simp add: first_some_NoneI wheel_at_def)
  qed
  then show ?thesis
    unfolding straight_flush_wheel_def map_option_first_some shift first_some_map o_def
    using inner by (intro first_some_cong refl) simp
qed

lemma wheel_at_some:
  assumes "strictly_descending gs" "wheel_in gs"
  shows "\<exists>i j. i < length gs \<and> j < length gs - 3 \<and> wheel_at gs (i, j) = Some 803000000"
proof -
  obtain i j where i: "i < length gs" "gs ! i = 12" and j: "j < length gs" "gs ! j = 3"
    using assms(2) by (auto simp: wheel_in_def in_set_conv_nth)
  have "\<forall>d \<in> {1..int 3}. gs ! j - d \<in> set gs"
  proof
    fix d assume "d \<in> {1..int 3}"
    then have "d = 1 \<or> d = 2 \<or> d = 3" by auto
    with assms(2) show "gs ! j - d \<in> set gs" unfolding j(2) by (auto simp: wheel_in_def)
  qed
  then have w: "\<forall>d \<le> 3. j + d < length gs \<and> gs ! (j + d) = 3 - int d"
    using strict_window [OF assms(1) j(1), of 3] unfolding j(2) by simp
  note at3 = w [rule_format]
  have "j + 3 < length gs" "gs ! (j + 1) = 2" "gs ! (j + 2) = 1" "gs ! (j + 3) = 0"
    using at3 [of 1] at3 [of 2] at3 [of 3] by simp_all
  with i j show ?thesis
    by (intro exI [of _ i] exI [of _ j]) (auto simp: wheel_at_def)
qed

lemma wheel_at_wheel:
  assumes "i < length gs" "j < length gs - 3" "wheel_at gs (i, j) \<noteq> None"
  shows "wheel_in gs"
proof -
  have eq: "gs ! i = 12" "gs ! j = 3" "gs ! (j + 1) = 2" "gs ! (j + 2) = 1" "gs ! (j + 3) = 0"
    using assms(3) by (simp_all add: wheel_at_def split: if_splits)
  have mem: "gs ! k \<in> set gs" if "k < length gs" for k using that by (intro nth_mem)
  show ?thesis
    using mem [of i] mem [of j] mem [of "j + 1"] mem [of "j + 2"] mem [of "j + 3"] assms(1,2)
    unfolding eq wheel_in_def by simp
qed

lemma straight_flush_wheel_value:
  assumes fs: "five_suited a x g y c" and strict: "strictly_descending (map rank g)"
  shows "map_option fst (straight_flush_wheel a (length x) (length x + length g - 1)) =
         (if wheel_in (map rank g) then Some 803000000 else None)"
proof -
  let ?gs = "map rank g"
  let ?ps = "concat (map (\<lambda>i. map (Pair i) [0..<length ?gs - 3]) [0..<length ?gs])"
  have "map_option fst (straight_flush_wheel a (length x) (length x + length g - 1)) =
        first_some (wheel_at ?gs) ?ps"
    unfolding straight_flush_wheel_ranks [OF fs] first_some_nested length_map by simp
  also have "\<dots> = (if wheel_in ?gs then Some 803000000 else None)"
  proof (cases "wheel_in ?gs")
    case True
    obtain i j where ij: "i < length ?gs" "j < length ?gs - 3" "wheel_at ?gs (i, j) = Some 803000000"
      using wheel_at_some [OF strict True] by blast
    then have "(i, j) \<in> set ?ps" by (auto simp: image_iff)
    from this ij(3) have "first_some (wheel_at ?gs) ?ps = Some 803000000"
      by (rule first_some_unique) (auto simp: wheel_at_def split: if_splits)
    with True show ?thesis by simp
  next
    case False
    then have "first_some (wheel_at ?gs) ?ps = None"
      using wheel_at_wheel [of _ ?gs] by (fastforce simp: first_some_None_iff)
    with False show ?thesis by simp
  qed
  finally show ?thesis .
qed

section \<open>The flush test\<close>

lemma first_some_hit:
  "map_option h (f x) = Some v \<Longrightarrow> map_option h (first_some f (x # xs)) = Some v"
  by (auto split: option.splits)

lemma flush_value:
  assumes fs: "five_suited a x g y c"
  shows "map_option fst (flush a) = Some (encode (5, take 5 (map rank g)))"
proof -
  have n: "length x \<le> 2" "5 \<le> length g" "length x + length g \<le> 7"
    using five_suited_total [OF fs] by auto
  obtain g0 g1 g2 g3 g4 gr where g: "g = g0 # g1 # g2 # g3 # g4 # gr"
    using n(2) by (auto simp: numeral_eq_Suc Suc_le_length_iff)
  have at: "a ! (length x + k) = g ! k" if "k < 5" for k
    using nth_inside [OF fs] that n by simp
  have early: "suit (a ! j) \<noteq> suit (a ! (j + 4))" if "j < length x" for j
  proof -
    have "suit (a ! (j + 4)) = c" using that n by (intro suit_inside [OF fs]) auto
    then show ?thesis using suit_above [OF fs that] by simp
  qed
  have c: "suit g0 = c" "suit g1 = c" "suit g2 = c" "suit g3 = c" "suit g4 = c"
    using fs g by (auto simp: five_suited_def)
  let ?t = "\<lambda>j1. if suit (a ! j1) = suit (a ! (j1 + 1)) \<and> suit (a ! j1) = suit (a ! (j1 + 2))
        \<and> suit (a ! j1) = suit (a ! (j1 + 3)) \<and> suit (a ! j1) = suit (a ! (j1 + 4))
     then Some (500000000 + rank (a ! j1) * 1000000 + rank (a ! (j1 + 1)) * 10000
                + rank (a ! (j1 + 2)) * 100 + rank (a ! (j1 + 3)) * 10 + rank (a ! (j1 + 4)),
                positions a [j1..<j1 + 5])
     else None"
  have hit: "map_option fst (?t (length x)) = Some (encode (5, take 5 (map rank g)))"
    using at [of 0] at [of 1] at [of 2] at [of 3] at [of 4] unfolding g
    by (simp add: c encode_simps)
  have "[0..<3] = [0..<length x] @ length x # [length x + 1..<3]"
    using n upt_add_eq_append [of 0 "length x" "3 - length x"] by (simp add: upt_conv_Cons)
  moreover have "first_some ?t [0..<length x] = None"
    using early by (simp add: first_some_None_iff)
  ultimately have "flush a = first_some ?t (length x # [length x + 1..<3])"
    unfolding flush_def by (simp only: first_some_append option.case)
  then show ?thesis using first_some_hit [of fst ?t "length x", OF hit] by simp
qed

lemma flush_none:
  assumes "\<forall>t. t + 4 < 7 \<longrightarrow> suit (a ! t) \<noteq> suit (a ! (t + 4))"
  shows "flush a = None"
  using assms by (simp add: flush_def first_some_None_iff)

section \<open>Seven different cards\<close>

definition valid_cards :: "int list \<Rightarrow> bool" where
  "valid_cards cs \<longleftrightarrow> length cs = 7 \<and> distinct cs \<and> set cs \<subseteq> {0..<52}"

lemma suit_range:
  assumes "valid_cards cs" "c \<in> set cs"
  shows "suit_of c \<in> {0..<4}"
proof -
  have "c \<in> {0..<52}" using assms unfolding valid_cards_def by blast
  then show ?thesis by (auto simp: suit_of_def div_int_pos_iff)
qed

lemma card_array_filter:
  assumes "length cs = n"
  shows "map rank (filter (\<lambda>e. suit e = c) (card_array n cs)) =
         map rank_of (filter (\<lambda>x. suit_of x = c) cs)"
proof -
  have cs: "cs = map ((!) cs) [0..<n]" using assms by (metis map_nth)
  have "map rank_of (filter (\<lambda>x. suit_of x = c) (map ((!) cs) [0..<n])) =
        map rank (filter (\<lambda>e. suit e = c) (card_array n cs))"
    by (simp add: card_array_def filter_map o_def suit_of_def rank_of_def)
  then show ?thesis by (simp only: cs [symmetric])
qed

lemma card_array_ranks: "length cs = n \<Longrightarrow> map rank (card_array n cs) = map rank_of cs"
  by (auto simp: card_array_def rank_of_def intro!: nth_equalityI)

lemma card_array_suits: "length cs = n \<Longrightarrow> map suit (card_array n cs) = map suit_of cs"
  by (auto simp: card_array_def suit_of_def intro!: nth_equalityI)

lemma ranks_desc_mset: "mset (ranks_desc cs) = image_mset rank_of (mset cs)"
  by (simp add: ranks_desc_def)

lemma descending_ranks_desc: "descending (ranks_desc cs)"
  by (simp add: ranks_desc_def descending_rev)

lemma suit_sorted:
  assumes "length a = 7"
  shows "sorted_wrt (\<lambda>x y. suit y \<le> suit x) (sort_by_suit a)"
    and "descending (map rank (filter (\<lambda>e. suit e = c) (sort_by_suit a)))"
proof -
  note sorted = sort_by_suit_sorted [OF assms]
  show "sorted_wrt (\<lambda>x y. suit y \<le> suit x) (sort_by_suit a)"
    by (rule sorted_wrt_mono_rel [OF _ sorted]) (auto simp: entry_orders)
  have "sorted_wrt (\<lambda>x y. \<not> suit_rank_lt x y) (filter (\<lambda>e. suit e = c) (sort_by_suit a))"
    using sorted by (rule sorted_wrt_filter)
  then show "descending (map rank (filter (\<lambda>e. suit e = c) (sort_by_suit a)))"
    unfolding sorted_wrt_map by (rule sorted_wrt_mono_rel [rotated]) (auto simp: entry_orders)
qed

text \<open>The cards of one suit appear in the array with strictly descending ranks.\<close>

lemma suit_group_ranks:
  assumes "length cs = 7"
  shows "map rank (filter (\<lambda>e. suit e = c) (sort_by_suit (card_array 7 cs))) =
         ranks_desc (filter (\<lambda>x. suit_of x = c) cs)"
proof (rule descending_unique)
  have "mset (map rank (filter (\<lambda>e. suit e = c) (sort_by_suit (card_array 7 cs)))) =
        mset (map rank (filter (\<lambda>e. suit e = c) (card_array 7 cs)))"
    by (simp add: mset_sort_by_suit mset_filter)
  also have "\<dots> = mset (ranks_desc (filter (\<lambda>x. suit_of x = c) cs))"
    using assms by (simp only: card_array_filter) (simp add: ranks_desc_mset)
  finally show "mset (map rank (filter (\<lambda>e. suit e = c) (sort_by_suit (card_array 7 cs)))) =
      mset (ranks_desc (filter (\<lambda>x. suit_of x = c) cs))" .
qed (simp_all add: suit_sorted(2) descending_ranks_desc)

lemma rank_suit_inj: "suit_of x = suit_of y \<Longrightarrow> rank_of x = rank_of y \<Longrightarrow> x = y"
  unfolding suit_of_def rank_of_def by (metis div_mult_mod_eq)

lemma strict_of_distinct: "descending gs \<Longrightarrow> distinct gs \<Longrightarrow> strictly_descending gs"
  by (induction gs) (auto simp: less_le)

lemma suit_ranks_strict:
  assumes "distinct cs"
  shows "strictly_descending (ranks_desc (filter (\<lambda>x. suit_of x = c) cs))"
proof -
  have "distinct (map rank_of (filter (\<lambda>x. suit_of x = c) cs))"
    using assms by (auto simp: distinct_map inj_on_def intro: rank_suit_inj)
  then have "distinct (ranks_desc (filter (\<lambda>x. suit_of x = c) cs))"
    by (simp add: ranks_desc_def)
  then show ?thesis by (intro strict_of_distinct descending_ranks_desc)
qed

lemma ranks_desc_range: "set (ranks_desc cs) \<subseteq> {0..12}"
  unfolding ranks_desc_def rank_of_def by (auto simp: pos_mod_bound [where l = "13 :: int", simplified] zle_diff1_eq)

lemma reference_hand_eq:
  "reference_hand cs =
    (case ref_straight_flush cs of Some h \<Rightarrow> h | None \<Rightarrow>
     (case ref_flush cs of None \<Rightarrow> reference_ranks (ranks_desc cs)
      | Some f \<Rightarrow> (case ref_four (ranks_desc cs) of Some h \<Rightarrow> h | None \<Rightarrow>
          (case ref_full_house (ranks_desc cs) of Some h \<Rightarrow> h | None \<Rightarrow> f))))"
  by (simp add: reference_hand_def reference_ranks_def Let_def split: option.split)

lemma length_filter_suits:
  assumes "s \<noteq> (t :: int)"
  shows "length (filter (\<lambda>c. suit_of c = s) cs) + length (filter (\<lambda>c. suit_of c = t) cs) \<le> length cs"
  using assms by (induction cs) auto

lemma find_unique:
  assumes "P s" "\<And>t. P t \<Longrightarrow> t = s" "s \<in> set xs"
  shows "find P xs = Some s"
  using assms(3)
proof (induction xs)
  case Nil
  then show ?case by simp
next
  case (Cons x xs)
  show ?case
  proof (cases "P x")
    case True
    then show ?thesis using assms(2) [of x] by simp
  next
    case False
    with assms(1) have "x \<noteq> s" by blast
    with False Cons show ?thesis by simp
  qed
qed

lemma flush_ranks_iff:
  assumes "valid_cards cs"
  shows "flush_ranks cs = Some gs \<longleftrightarrow>
    (\<exists>s. 5 \<le> length (filter (\<lambda>c. suit_of c = s) cs) \<and>
         gs = ranks_desc (filter (\<lambda>c. suit_of c = s) cs))"
proof -
  let ?n = "\<lambda>s. length (filter (\<lambda>c. suit_of c = s) cs)"
  have one: "s = t" if "5 \<le> ?n s" "5 \<le> ?n t" for s t
    using length_filter_suits [of s t cs] that assms by (auto simp: valid_cards_def)
  have range: "s \<in> set [3, 2, 1, 0]" if "5 \<le> ?n s" for s
  proof -
    have "filter (\<lambda>c. suit_of c = s) cs \<noteq> []" using that by auto
    then obtain c where "c \<in> set cs" "suit_of c = s" by (auto simp: filter_empty_conv)
    then have "0 \<le> s" "s < 4" using suit_range [OF assms] by auto
    then show ?thesis by auto
  qed
  have find: "find (\<lambda>s. 5 \<le> ?n s) [3, 2, 1, 0] = Some s" if "5 \<le> ?n s" for s
    using that range [OF that] one by (intro find_unique) blast+
  show ?thesis
  proof (cases "find (\<lambda>s. 5 \<le> ?n s) [3, 2, 1, 0]")
    case None
    then have "\<not> 5 \<le> ?n s" for s using find [of s] by (metis option.distinct(1))
    with None show ?thesis unfolding flush_ranks_def by simp
  next
    case (Some s)
    then have "5 \<le> ?n s" unfolding find_Some_iff by auto
    moreover have "flush_ranks cs = Some (ranks_desc (filter (\<lambda>c. suit_of c = s) cs))"
      unfolding flush_ranks_def Some by simp
    ultimately show ?thesis using one [of s] by (metis option.inject)
  qed
qed

section \<open>The evaluator computes the reference hand\<close>

lemma five_suited_of_flush:
  assumes "length cs = 7" "5 \<le> length (filter (\<lambda>x. suit_of x = c) cs)"
  defines "a \<equiv> sort_by_suit (card_array 7 cs)"
  shows "five_suited a (filter (\<lambda>e. c < suit e) a) (filter (\<lambda>e. suit e = c) a)
           (filter (\<lambda>e. suit e < c) a) c"
proof -
  have "a = filter (\<lambda>e. c < suit e) a @ filter (\<lambda>e. suit e = c) a @ filter (\<lambda>e. suit e < c) a"
    unfolding a_def by (intro suit_split suit_sorted(1)) simp
  moreover have "length (filter (\<lambda>e. suit e = c) a) = length (filter (\<lambda>x. suit_of x = c) cs)"
    using arg_cong [OF suit_group_ranks [OF assms(1), of c], of length]
    by (simp add: a_def ranks_desc_def)
  ultimately show ?thesis
    using assms(2) unfolding five_suited_def by (auto simp: a_def)
qed

lemma no_five_of_no_flush:
  assumes "valid_cards cs" "flush_ranks cs = None"
  defines "a \<equiv> sort_by_suit (card_array 7 cs)"
  shows "\<forall>t. t + 4 < 7 \<longrightarrow> suit (a ! t) \<noteq> suit (a ! (t + 4))"
proof (intro allI impI notI)
  fix t assume t: "t + 4 < (7 :: nat)" "suit (a ! t) = suit (a ! (t + 4))"
  have len: "length a = 7" by (simp add: a_def)
  have sorted: "sorted_wrt (\<lambda>x y. suit y \<le> suit x) a"
    unfolding a_def by (intro suit_sorted(1)) simp
  let ?c = "suit (a ! t)"
  have "suit (a ! k) = ?c" if "t \<le> k" "k \<le> t + 4" for k
  proof -
    have "k < length a" using that t(1) len by simp
    then have "suit (a ! k) \<le> suit (a ! t)"
      using sorted_wrt_nth_less [OF sorted, of t k] that by (cases "t = k") auto
    moreover have "suit (a ! (t + 4)) \<le> suit (a ! k)"
      using sorted_wrt_nth_less [OF sorted, of k "t + 4"] that t(1) len by (cases "k = t + 4") auto
    ultimately show ?thesis unfolding t(2) by (rule order_antisym)
  qed
  note same = this
  have "\<forall>e \<in> set (take 5 (drop t a)). suit e = ?c"
  proof
    fix e assume "e \<in> set (take 5 (drop t a))"
    then obtain i where "i < 5" "e = a ! (t + i)" by (auto simp: in_set_conv_nth)
    with same [of "t + i"] show "suit e = ?c" by simp
  qed
  then have "filter (\<lambda>e. suit e = ?c) (take 5 (drop t a)) = take 5 (drop t a)" by simp
  moreover have "length (take 5 (drop t a)) = 5" using t len by simp
  moreover have "a = take t a @ take 5 (drop t a) @ drop 5 (drop t a)"
    by (metis append_take_drop_id)
  then have "length (filter (\<lambda>e. suit e = ?c) (take 5 (drop t a))) \<le> length (filter (\<lambda>e. suit e = ?c) a)"
    by (metis filter_append length_append le_add1 le_add2 order_trans)
  moreover have "length (filter (\<lambda>e. suit e = ?c) a) = length (filter (\<lambda>x. suit_of x = ?c) cs)"
    using arg_cong [OF suit_group_ranks [of cs ?c], of length] assms(1)
    by (simp add: a_def ranks_desc_def valid_cards_def)
  ultimately have "5 \<le> length (filter (\<lambda>x. suit_of x = ?c) cs)" by simp
  then show False using flush_ranks_iff [OF assms(1)] assms(2) by (metis option.distinct(1))
qed

lemma straight_flush_reference:
  assumes "valid_cards cs"
  defines "a \<equiv> sort_by_suit (card_array 7 cs)"
  shows "map_option fst (straight_flush a 0) = map_option encode (ref_straight_flush cs)"
    and "map_option fst (flush a) = map_option encode (ref_flush cs)"
proof -
  have "map_option fst (straight_flush a 0) = map_option encode (ref_straight_flush cs) \<and>
        map_option fst (flush a) = map_option encode (ref_flush cs)"
  proof (cases "flush_ranks cs")
    case None
    then show ?thesis
      using no_five_of_no_flush [OF assms(1) None]
      by (simp add: a_def straight_flush_none flush_none ref_straight_flush_def ref_flush_def)
  next
    case (Some gs)
    then obtain c where c: "5 \<le> length (filter (\<lambda>x. suit_of x = c) cs)"
      "gs = ranks_desc (filter (\<lambda>x. suit_of x = c) cs)"
      using flush_ranks_iff [OF assms(1)] by blast
    have len: "length cs = 7" and dist: "distinct cs" using assms(1) by (auto simp: valid_cards_def)
    let ?x = "filter (\<lambda>e. c < suit e) a" and ?g = "filter (\<lambda>e. suit e = c) a"
    note fs = five_suited_of_flush [OF len c(1), folded a_def]
    have gs: "map rank ?g = gs" unfolding a_def c(2) by (rule suit_group_ranks [OF len])
    have strict: "strictly_descending (map rank ?g)"
      unfolding gs c(2) by (rule suit_ranks_strict [OF dist])
    have range: "set (map rank ?g) \<subseteq> {0..12}" unfolding gs c(2) by (rule ranks_desc_range)
    have "map_option fst (straight_flush a 0) = map_option encode (ref_straight_flush cs)"
      using straight_flush_run_value [OF fs strict range] straight_flush_wheel_value [OF fs strict]
      unfolding straight_flush_to_group [OF fs le0] straight_flush_at_group [OF fs] gs
      by (auto simp: ref_straight_flush_def Some straight_top_def run_value_def encode_simps
          split: option.splits if_splits)
    moreover have "map_option fst (flush a) = map_option encode (ref_flush cs)"
      using flush_value [OF fs] by (simp add: ref_flush_def Some gs)
    ultimately show ?thesis by simp
  qed
  then show "map_option fst (straight_flush a 0) = map_option encode (ref_straight_flush cs)"
    and "map_option fst (flush a) = map_option encode (ref_flush cs)" by simp_all
qed

section \<open>The rank array\<close>

lemma rank_array:
  assumes "length cs = 7"
  defines "b \<equiv> sort_by_rank (sort_by_suit (card_array 7 cs))"
  shows "length b = 7" and "map rank b = ranks_desc cs"
proof -
  show "length b = 7" by (simp add: b_def)
  show "map rank b = ranks_desc cs"
  proof (rule descending_unique)
    have "sorted_wrt (\<lambda>x y. \<not> rank_pos_lt x y) b"
      unfolding b_def by (intro sort_by_rank_sorted) simp
    then show "descending (map rank b)"
      unfolding sorted_wrt_map by (rule sorted_wrt_mono_rel [rotated]) (auto simp: entry_orders)
    have "mset (map rank b) = mset (map rank (card_array 7 cs))"
      by (simp add: b_def mset_sort_by_rank mset_sort_by_suit)
    also have "\<dots> = mset (ranks_desc cs)"
      using assms(1) by (simp only: card_array_ranks) (simp add: ranks_desc_mset)
    finally show "mset (map rank b) = mset (ranks_desc cs)" .
  qed (rule descending_ranks_desc)
qed

text \<open>A rank occurs at most four times, once in each suit.\<close>

lemma rank_at_most_four:
  assumes "valid_cards cs"
  shows "count_list (ranks_desc cs) r \<le> 4"
proof -
  let ?same = "filter (\<lambda>c. rank_of c = r) cs"
  have "distinct (map suit_of ?same)"
    using assms by (auto simp: valid_cards_def distinct_map inj_on_def intro: rank_suit_inj)
  moreover have "set (map suit_of ?same) \<subseteq> {0..<4}"
    using suit_range [OF assms] by auto
  then have "card (set (map suit_of ?same)) \<le> card {0..<4 :: int}" by (intro card_mono) simp_all
  ultimately have "length ?same \<le> 4" using distinct_card [of "map suit_of ?same"] by simp
  moreover have "count_list (ranks_desc cs) r = count_list (map rank_of cs) r"
    by (simp add: ranks_desc_def flip: count_mset)
  then have "count_list (ranks_desc cs) r = length ?same"
    by (simp add: count_list_eq_length_filter filter_map o_def eq_commute [of r])
  ultimately show ?thesis by simp
qed

lemma grouped7_ranks:
  assumes "valid_cards cs"
  shows "grouped7 (ranks_desc cs)"
  unfolding grouped7_def
proof (intro conjI allI impI)
  let ?rs = "ranks_desc cs"
  show len: "length ?rs = 7" using assms by (simp add: valid_cards_def ranks_desc_def)
  have le: "?rs ! j \<le> ?rs ! i" if "i \<le> j" "j < 7" for i j
    using sorted_wrt_nth_less [OF descending_ranks_desc, of i j cs] that len by (cases "i = j") auto
  show "?rs ! i = ?rs ! Suc i \<or> apart (take (Suc i) ?rs) (drop (Suc i) ?rs)" if "i < 6" for i
  proof (cases "?rs ! i = ?rs ! Suc i")
    case False
    have "x > y" if xy: "x \<in> set (take (Suc i) ?rs)" "y \<in> set (drop (Suc i) ?rs)" for x y
    proof -
      obtain k where k: "k \<le> i" "x = ?rs ! k" using xy(1) by (auto simp: in_set_conv_nth less_Suc_eq_le)
      obtain l where "l < 7 - Suc i" "y = ?rs ! (Suc i + l)"
        using xy(2) len by (auto simp: in_set_conv_nth)
      then have l: "Suc i + l < 7" "y = ?rs ! (Suc i + l)" by auto
      have "?rs ! i \<le> x" "y \<le> ?rs ! Suc i" "?rs ! Suc i \<le> ?rs ! i"
        using k l le [of k i] le [of "Suc i" "Suc i + l"] le [of i "Suc i"] \<open>i < 6\<close> by auto
      with False show ?thesis by simp
    qed
    then show ?thesis by (force simp: apart_def)
  qed simp
  show "?rs ! i \<noteq> ?rs ! (i + 4)" if "i < 3" for i
  proof
    assume eq: "?rs ! i = ?rs ! (i + 4)"
    have "x = ?rs ! i" if x: "x \<in> set (take 5 (drop i ?rs))" for x
    proof -
      obtain m where "m < 5" "x = ?rs ! (i + m)" using x by (auto simp: in_set_conv_nth)
      then show ?thesis
        using le [of i "i + m"] le [of "i + m" "i + 4"] eq \<open>i < 3\<close> by simp
    qed
    then have "filter ((=) (?rs ! i)) (take 5 (drop i ?rs)) = take 5 (drop i ?rs)"
      by (intro filter_True) (metis (full_types))
    then have "count_list (take 5 (drop i ?rs)) (?rs ! i) = 5"
      using len \<open>i < 3\<close> by (simp add: count_list_eq_length_filter)
    moreover have "?rs = take i ?rs @ take 5 (drop i ?rs) @ drop 5 (drop i ?rs)"
      by (metis append_take_drop_id)
    then have "count_list (take 5 (drop i ?rs)) (?rs ! i) \<le> count_list ?rs (?rs ! i)"
      by (metis count_list_append le_add1 le_add2 order_trans)
    ultimately show False using rank_at_most_four [OF assms, of "?rs ! i"] by simp
  qed
qed

text \<open>A flush needs five different ranks, so it excludes four of a kind and a full house.\<close>

lemma flush_excludes_strong:
  assumes "valid_cards cs" "flush_ranks cs = Some gs"
  shows "ref_four (ranks_desc cs) = None" and "ref_full_house (ranks_desc cs) = None"
proof -
  obtain c where c: "5 \<le> length (filter (\<lambda>x. suit_of x = c) cs)"
    "gs = ranks_desc (filter (\<lambda>x. suit_of x = c) cs)"
    using flush_ranks_iff [OF assms(1)] assms(2) by blast
  have "strictly_descending gs"
    unfolding c(2) using assms(1) by (intro suit_ranks_strict) (simp add: valid_cards_def)
  then have "distinct gs" by (induction gs) auto
  have "length gs = card (set gs)" using distinct_card [OF \<open>distinct gs\<close>] by simp
  also have "\<dots> \<le> card (set (ranks_desc cs))"
    by (intro card_mono) (auto simp: c(2) ranks_desc_def)
  finally have "\<not> length (remdups (ranks_desc cs)) \<le> 4"
    using c by (simp add: length_remdups_card_conv ranks_desc_def)
  moreover have "length (ranks_desc cs) = 7" using assms(1) by (simp add: valid_cards_def ranks_desc_def)
  then obtain r0 r1 r2 r3 r4 r5 r6 where rs: "ranks_desc cs = [r0, r1, r2, r3, r4, r5, r6]"
    by (rule length_7_obtain)
  ultimately have "ranks_with 4 (ranks_desc cs) = [] \<and> count_full_house (ranks_desc cs) = None"
    using strong_few_ranks [of r0 r1 r2 r3 r4 r5 r6, folded rs] grouped7_ranks [OF assms(1)] by blast
  then show "ref_four (ranks_desc cs) = None" and "ref_full_house (ranks_desc cs) = None"
    by (auto simp: ref_four_def ref_full_house_def count_full_house_def split: list.splits)
qed

lemma cardsValue_correct:
  assumes "valid_cards cs"
  shows "fst (cardsValue cs) = encode (reference_hand cs)"
proof -
  let ?a = "sort_by_suit (card_array 7 cs)"
  have len: "length cs = 7" using assms by (simp add: valid_cards_def)
  note sf = straight_flush_reference [OF assms]
  have rv: "fst (rank_value (sort_by_rank ?a)) = encode (reference_ranks (ranks_desc cs))"
    using rank_value_reference [OF rank_array(1) [OF len]] descending_ranks_desc ranks_desc_range
      grouped7_ranks [OF assms] by (simp add: rank_array(2) [OF len])
  show ?thesis
  proof (cases "flush_ranks cs")
    case None
    then have "straight_flush ?a 0 = None" "flush ?a = None"
      using sf by (simp_all add: ref_straight_flush_def ref_flush_def)
    then show ?thesis
      using None rv
      by (simp add: cardsValue_def reference_hand_eq ref_straight_flush_def ref_flush_def)
  next
    case (Some gs)
    note none = flush_excludes_strong [OF assms Some]
    show ?thesis
      using sf none Some unfolding cardsValue_def Let_def reference_hand_eq
      by (cases "ref_straight_flush cs"; cases "straight_flush ?a 0"; cases "flush ?a")
         (auto simp: ref_flush_def)
  qed
qed

end
