(* ===== verification/Hand_Order.thy ===== *)
theory Hand_Order
  imports Suit_Correct
begin

text \<open>
  What the value of \<open>cardsValue\<close> means: the reference hand of seven different cards is well formed
  (the category fixes the number and the range of the tie-breaking ranks), and on well-formed hands
  the decimal encoding is an order embedding of the lexicographic order. Comparing two values is
  therefore comparing two hands.
\<close>

section \<open>Well-formed hands\<close>

definition ranks_ok :: "int list \<Rightarrow> bool" where
  "ranks_ok ks \<longleftrightarrow> set ks \<subseteq> {0..12}"

definition wf_hand :: "poker_hand \<Rightarrow> bool" where
  "wf_hand h = (case h of (c, ks) \<Rightarrow>
      c = 9 \<and> ks = [] \<or>
      c = 8 \<and> length ks = 1 \<and> set ks \<subseteq> {3..11} \<or>
      c = 7 \<and> length ks = 2 \<and> ranks_ok ks \<or>
      c = 6 \<and> length ks = 2 \<and> ranks_ok ks \<or>
      c = 5 \<and> length ks = 5 \<and> ranks_ok ks \<and> strictly_descending ks \<or>
      c = 4 \<and> length ks = 1 \<and> set ks \<subseteq> {3..12} \<or>
      c = 3 \<and> length ks = 3 \<and> ranks_ok ks \<or>
      c = 2 \<and> length ks = 3 \<and> ranks_ok ks \<or>
      c = 1 \<and> length ks = 4 \<and> ranks_ok ks \<or>
      c = 0 \<and> length ks = 5 \<and> ranks_ok ks \<and> strictly_descending ks)"

lemma ranks_with_subset: "set (ranks_with n rs) \<subseteq> set rs"
  by (auto simp: ranks_with_def)

lemma kickers_subset: "set (kickers k used rs) \<subseteq> set rs"
  unfolding kickers_def by (metis filter_is_subset order_trans set_take_subset)

lemma grouped7_shape:
  assumes "grouped7 rs"
  obtains r0 r1 r2 r3 r4 r5 r6 where "rs = [r0, r1, r2, r3, r4, r5, r6]"
  using assms by (auto simp: grouped7_def elim: length_7_obtain)

lemma map_option_length:
  assumes "map_option g x = y" "y = Some l" "\<And>v. length (g v) = n"
  shows "length l = n"
  using assms by (cases x) auto

lemma wf_ref_four:
  assumes "grouped7 rs" "ranks_ok rs" "ref_four rs = Some h"
  shows "wf_hand h"
proof -
  obtain r0 r1 r2 r3 r4 r5 r6 where rs: "rs = [r0, r1, r2, r3, r4, r5, r6]"
    using assms(1) by (rule grouped7_shape)
  obtain q qs where q: "ranks_with 4 rs = q # qs" "h = (7, q # kickers 1 [q] rs)"
    using assms(3) by (auto simp: ref_four_def split: list.splits)
  have "length (q # kickers 1 [q] rs) = 2"
    by (rule map_option_length [OF four_ranks_count [OF assms(1) [unfolded rs]]])
       (use q(1) in \<open>auto simp: rs split: prod.splits\<close>)
  moreover have "ranks_ok (q # kickers 1 [q] rs)"
    using assms(2) ranks_with_subset [of 4 rs] kickers_subset [of 1 "[q]" rs] q(1)
    by (auto simp: ranks_ok_def)
  ultimately show ?thesis by (simp add: wf_hand_def q(2))
qed

lemma wf_ref_full_house:
  assumes "ranks_ok rs" "ref_full_house rs = Some h"
  shows "wf_hand h"
proof -
  obtain d ds z zs where "ranks_with 3 rs = d # ds" "filter (\<lambda>r. r \<noteq> d) (ranks_with 2 rs) = z # zs"
    "h = (6, [d, z])"
    using assms(2) by (auto simp: ref_full_house_def split: list.splits)
  moreover from this have "d \<in> set rs" "z \<in> set rs"
    using ranks_with_subset [of 3 rs] ranks_with_subset [of 2 rs]
    by (auto dest!: filter_eq_ConsD)
  ultimately show ?thesis using assms(1) by (auto simp: wf_hand_def ranks_ok_def)
qed

lemma wf_ref_three:
  assumes "grouped7 rs" "no_block 4 rs" "ranks_ok rs" "ref_three rs = Some h"
  shows "wf_hand h"
proof -
  obtain r0 r1 r2 r3 r4 r5 r6 where rs: "rs = [r0, r1, r2, r3, r4, r5, r6]"
    using assms(1) by (rule grouped7_shape)
  obtain d ds where d: "ranks_with 3 rs = d # ds" "h = (3, d # kickers 2 [d] rs)"
    using assms(4) by (auto simp: ref_three_def split: list.splits)
  have "length (d # kickers 2 [d] rs) = 3"
    by (rule map_option_length [OF three_ranks_count [OF assms(1,2) [unfolded rs]]])
       (use d(1) in \<open>auto simp: rs split: prod.splits\<close>)
  moreover have "ranks_ok (d # kickers 2 [d] rs)"
    using assms(3) ranks_with_subset [of 3 rs] kickers_subset [of 2 "[d]" rs] d(1)
    by (auto simp: ranks_ok_def)
  ultimately show ?thesis by (simp add: wf_hand_def d(2))
qed

lemma wf_ref_two_pair:
  assumes "grouped7 rs" "no_block 3 rs" "ranks_ok rs" "ref_two_pair rs = Some h"
  shows "wf_hand h"
proof -
  obtain r0 r1 r2 r3 r4 r5 r6 where rs: "rs = [r0, r1, r2, r3, r4, r5, r6]"
    using assms(1) by (rule grouped7_shape)
  obtain p q ps where p: "ranks_with 2 rs = p # q # ps" "h = (2, p # q # kickers 1 [p, q] rs)"
    using assms(4) by (auto simp: ref_two_pair_def split: list.splits)
  have "length (p # q # kickers 1 [p, q] rs) = 3"
    by (rule map_option_length [OF two_pair_count [OF assms(1,2) [unfolded rs]]])
       (use p(1) in \<open>auto simp: rs split: prod.splits\<close>)
  moreover have "ranks_ok (p # q # kickers 1 [p, q] rs)"
    using assms(3) ranks_with_subset [of 2 rs] kickers_subset [of 1 "[p, q]" rs] p(1)
    by (auto simp: ranks_ok_def)
  ultimately show ?thesis by (simp add: wf_hand_def p(2))
qed

lemma wf_ref_pair:
  assumes "grouped7 rs" "no_block 3 rs" "ranks_ok rs" "ref_pair rs = Some h"
  shows "wf_hand h"
proof -
  obtain r0 r1 r2 r3 r4 r5 r6 where rs: "rs = [r0, r1, r2, r3, r4, r5, r6]"
    using assms(1) by (rule grouped7_shape)
  obtain p ps where p: "ranks_with 2 rs = p # ps" "h = (1, p # kickers 3 [p] rs)"
    using assms(4) by (auto simp: ref_pair_def split: list.splits)
  have "length (p # kickers 3 [p] rs) = 4"
    by (rule map_option_length [OF pair_ranks_count [OF assms(1,2) [unfolded rs]]])
       (use p(1) in \<open>auto simp: rs split: prod.splits\<close>)
  moreover have "ranks_ok (p # kickers 3 [p] rs)"
    using assms(3) ranks_with_subset [of 2 rs] kickers_subset [of 3 "[p]" rs] p(1)
    by (auto simp: ranks_ok_def)
  ultimately show ?thesis by (simp add: wf_hand_def p(2))
qed

lemma ref_four_None:
  assumes "grouped7 rs" "ref_four rs = None"
  shows "no_block 4 rs"
proof -
  obtain r0 r1 r2 r3 r4 r5 r6 where rs: "rs = [r0, r1, r2, r3, r4, r5, r6]"
    using assms(1) by (rule grouped7_shape)
  have "ranks_with 4 rs = []" using assms(2) by (simp add: ref_four_def split: list.splits)
  then have "four_ranks rs = None"
    using four_ranks_count [OF assms(1) [unfolded rs]] unfolding rs by simp
  then show ?thesis using four_ranks_None [OF _ assms(1) [unfolded rs]] unfolding rs by blast
qed

lemma ref_three_None:
  assumes "grouped7 rs" "no_block 4 rs" "ref_three rs = None"
  shows "no_block 3 rs"
proof -
  obtain r0 r1 r2 r3 r4 r5 r6 where rs: "rs = [r0, r1, r2, r3, r4, r5, r6]"
    using assms(1) by (rule grouped7_shape)
  have "ranks_with 3 rs = []" using assms(3) by (simp add: ref_three_def split: list.splits)
  then have "three_ranks rs = None"
    using three_ranks_count [OF assms(1,2) [unfolded rs]] unfolding rs by simp
  then show ?thesis using three_ranks_None [OF _ assms(1) [unfolded rs]] unfolding rs by blast
qed

lemma count_list_distinct: "(\<And>r. r \<in> set rs \<Longrightarrow> count_list rs r < 2) \<Longrightarrow> distinct rs"
proof (induction rs)
  case Nil
  then show ?case by simp
next
  case (Cons r rs)
  have "count_list rs r = 0" using Cons.prems [of r] by simp
  then have "r \<notin> set rs" by (simp add: count_list_0_iff)
  moreover have "distinct rs"
  proof (rule Cons.IH)
    fix x assume "x \<in> set rs"
    then show "count_list rs x < 2" using Cons.prems [of x] by (auto split: if_splits)
  qed
  ultimately show ?case by simp
qed

lemma ref_pair_None:
  assumes "descending rs" "ref_pair rs = None"
  shows "strictly_descending rs"
proof -
  have "ranks_with 2 rs = []" using assms(2) by (simp add: ref_pair_def split: list.splits)
  then have "\<forall>r \<in> set rs. \<not> 2 \<le> count_list rs r"
    by (simp add: ranks_with_def filter_empty_conv)
  then have "distinct rs" by (intro count_list_distinct) (simp add: not_le)
  with assms(1) show ?thesis by (rule strict_of_distinct)
qed

lemma find_mem: "find P xs = Some x \<Longrightarrow> x \<in> set xs"
  by (induction xs) (auto split: if_splits)

lemma straight_top_range:
  assumes "straight_top rs = Some t"
  shows "3 \<le> t \<and> t \<le> 12"
proof (cases "best_run rs")
  case None
  with assms show ?thesis by (simp add: straight_top_def split: if_splits)
next
  case (Some r)
  then have "r \<in> set run_tops" unfolding best_run_def by (rule find_mem)
  moreover have "r = t" using assms Some by (simp add: straight_top_def)
  ultimately show ?thesis by auto
qed

lemma five_wf:
  assumes "strictly_descending rs" "ranks_ok rs" "5 \<le> length rs" "c = 5 \<or> c = 0"
  shows "wf_hand (c, take 5 rs)"
proof -
  have "strictly_descending (take 5 rs)" using assms(1) by (rule sorted_wrt_take)
  moreover have "ranks_ok (take 5 rs)"
    using assms(2) set_take_subset [of 5 rs] by (auto simp: ranks_ok_def)
  ultimately show ?thesis using assms(3,4) by (auto simp: wf_hand_def)
qed

lemma wf_flush_ranks:
  assumes "valid_cards cs" "flush_ranks cs = Some gs"
  shows "strictly_descending gs" "ranks_ok gs" "5 \<le> length gs"
proof -
  obtain s where s: "5 \<le> length (filter (\<lambda>c. suit_of c = s) cs)"
    "gs = ranks_desc (filter (\<lambda>c. suit_of c = s) cs)"
    using flush_ranks_iff [OF assms(1)] assms(2) by blast
  show "strictly_descending gs"
    unfolding s(2) using assms(1) by (intro suit_ranks_strict) (simp add: valid_cards_def)
  show "ranks_ok gs" unfolding s(2) ranks_ok_def by (rule ranks_desc_range)
  show "5 \<le> length gs" using s by (simp add: ranks_desc_def)
qed

lemma wf_ref_straight_flush:
  assumes "valid_cards cs" "ref_straight_flush cs = Some h"
  shows "wf_hand h"
proof -
  obtain gs t where gs: "flush_ranks cs = Some gs" "straight_top gs = Some t"
    "h = (if t = 12 then (9, []) else (8, [t]))"
    using assms(2) by (auto simp: ref_straight_flush_def split: option.splits)
  have "3 \<le> t \<and> t \<le> 12"
    using straight_top_range gs(2) by simp
  then show ?thesis by (auto simp: gs(3) wf_hand_def)
qed

lemma reference_ranks_wf:
  assumes "grouped7 rs" "descending rs" "ranks_ok rs"
  shows "wf_hand (reference_ranks rs)"
proof (cases "ref_four rs")
  case (Some h)
  then show ?thesis using wf_ref_four [OF assms(1,3)] by (simp add: reference_ranks_def)
next
  case no_four: None
  then have nb4: "no_block 4 rs" by (rule ref_four_None [OF assms(1)])
  consider (house) h where "ref_full_house rs = Some h"
    | (straight) h where "ref_full_house rs = None" "ref_straight rs = Some h"
    | (three) h where "ref_full_house rs = None" "ref_straight rs = None" "ref_three rs = Some h"
    | (low) "ref_full_house rs = None" "ref_straight rs = None" "ref_three rs = None"
    by fastforce
  then show ?thesis
  proof cases
    case house
    then show ?thesis using no_four wf_ref_full_house assms(3) by (simp add: reference_ranks_def)
  next
    case straight
    then obtain t where "straight_top rs = Some t" "h = (4, [t])" by (auto simp: ref_straight_def)
    moreover have "3 \<le> t \<and> t \<le> 12"
      using straight_top_range calculation(1) by simp
    ultimately show ?thesis
      using straight no_four by (simp add: reference_ranks_def wf_hand_def)
  next
    case three
    then show ?thesis using no_four wf_ref_three [OF assms(1) nb4 assms(3)]
      by (simp add: reference_ranks_def)
  next
    case low
    then have nb3: "no_block 3 rs" by (intro ref_three_None [OF assms(1) nb4])
    have "5 \<le> length rs" using assms(1) by (simp add: grouped7_def)
    then show ?thesis
      using low no_four wf_ref_two_pair [OF assms(1) nb3 assms(3)]
        wf_ref_pair [OF assms(1) nb3 assms(3)]
        five_wf [OF ref_pair_None [OF assms(2)] assms(3), of 0]
      by (cases "ref_two_pair rs"; cases "ref_pair rs") (simp_all add: reference_ranks_def ref_high_def)
  qed
qed

lemma reference_hand_wf:
  assumes "valid_cards cs"
  shows "wf_hand (reference_hand cs)"
proof (cases "ref_straight_flush cs")
  case (Some h)
  then show ?thesis using wf_ref_straight_flush [OF assms] by (simp add: reference_hand_eq)
next
  case none: None
  show ?thesis
  proof (cases "flush_ranks cs")
    case None
    have "wf_hand (reference_ranks (ranks_desc cs))"
      using grouped7_ranks [OF assms] descending_ranks_desc ranks_desc_range
      by (intro reference_ranks_wf) (simp_all add: ranks_ok_def)
    then show ?thesis using none None by (simp add: reference_hand_eq ref_flush_def)
  next
    case (Some gs)
    have "wf_hand (5, take 5 gs)" using wf_flush_ranks [OF assms Some] by (intro five_wf) simp_all
    then show ?thesis using none Some flush_excludes_strong [OF assms Some]
      by (simp add: reference_hand_eq ref_flush_def)
  qed
qed

section \<open>The encoding is an order embedding\<close>

fun lex_less :: "int list \<Rightarrow> int list \<Rightarrow> bool" where
  "lex_less (x # xs) (y # ys) \<longleftrightarrow> x < y \<or> x = y \<and> lex_less xs ys"
| "lex_less _ _ \<longleftrightarrow> False"

definition hand_less :: "poker_hand \<Rightarrow> poker_hand \<Rightarrow> bool" where
  "hand_less h h' \<longleftrightarrow> fst h < fst h' \<or> fst h = fst h' \<and> lex_less (snd h) (snd h')"

lemma length_obtain:
  "length ks = Suc 0 \<Longrightarrow> \<exists>a. ks = [a]" "length ks = 2 \<Longrightarrow> \<exists>a b. ks = [a, b]"
  "length ks = 3 \<Longrightarrow> \<exists>a b c. ks = [a, b, c]" "length ks = 4 \<Longrightarrow> \<exists>a b c d. ks = [a, b, c, d]"
  "length ks = 5 \<Longrightarrow> \<exists>a b c d e. ks = [a, b, c, d, e]"
  by (auto simp: numeral_eq_Suc length_Suc_conv)

text \<open>The tie-breaking part of the encoding.\<close>

definition tie_value :: "poker_hand \<Rightarrow> int" where
  "tie_value h = sum_list (map2 (*) (snd h) (weights (fst h)))"

lemma tie_value_range:
  assumes "wf_hand h"
  shows "0 \<le> tie_value h \<and> tie_value h < 100000000"
  using assms
  by (cases h) (auto simp: wf_hand_def ranks_ok_def tie_value_def weights_def
      dest!: length_obtain)

lemma encode_split: "encode h = fst h * 100000000 + tie_value h"
  by (simp add: encode_def tie_value_def)

lemma digit_less:
  fixes w :: int
  assumes "0 \<le> r" "r < w" "0 \<le> r'" "r' < w"
  shows "a * w + r < a' * w + r' \<longleftrightarrow> a < a' \<or> a = a' \<and> r < r'"
proof (cases a a' rule: linorder_cases)
  case less
  then have "(a + 1) * w \<le> a' * w" using assms by (intro mult_right_mono) auto
  with less assms show ?thesis by (simp add: distrib_right)
next
  case equal
  then show ?thesis by simp
next
  case greater
  then have "(a' + 1) * w \<le> a * w" using assms by (intro mult_right_mono) auto
  with greater assms show ?thesis by (simp add: distrib_right)
qed

lemma lex_pairs:
  assumes "b \<in> {0..12}" "c \<in> {0..12}" "d \<in> {0..12}" "b' \<in> {0..12}" "c' \<in> {0..12}" "d' \<in> {0..12 :: int}"
  shows "a * 1000000 + b * 10000 + c * 100 + d < a' * 1000000 + b' * 10000 + c' * 100 + d' \<longleftrightarrow>
         lex_less [a, b, c, d] [a', b', c', d']"
proof -
  have "c * 100 + d < c' * 100 + d' \<longleftrightarrow> c < c' \<or> c = c' \<and> d < d'"
    using assms by (intro digit_less) auto
  moreover have "b * 10000 + (c * 100 + d) < b' * 10000 + (c' * 100 + d') \<longleftrightarrow>
      b < b' \<or> b = b' \<and> c * 100 + d < c' * 100 + d'"
    using assms by (intro digit_less) auto
  moreover have "a * 1000000 + (b * 10000 + (c * 100 + d)) < a' * 1000000 + (b' * 10000 + (c' * 100 + d')) \<longleftrightarrow>
      a < a' \<or> a = a' \<and> b * 10000 + (c * 100 + d) < b' * 10000 + (c' * 100 + d')"
    using assms by (intro digit_less) auto
  ultimately show ?thesis by (simp add: add.assoc)
qed

lemma lex_strict:
  assumes "{a, b, c, d, e, a', b', c', d', e'} \<subseteq> {0..12 :: int}"
    and "a > b" "b > c" "c > d" "d > e" "a' > b'" "b' > c'" "c' > d'" "d' > e'"
  shows "a * 1000000 + b * 10000 + c * 100 + d * 10 + e
         < a' * 1000000 + b' * 10000 + c' * 100 + d' * 10 + e' \<longleftrightarrow>
         lex_less [a, b, c, d, e] [a', b', c', d', e']"
proof -
  have "d * 10 + e < d' * 10 + e' \<longleftrightarrow> d < d' \<or> d = d' \<and> e < e'"
    using assms by (intro digit_less) auto
  moreover have "c * 100 + (d * 10 + e) < c' * 100 + (d' * 10 + e') \<longleftrightarrow>
      c < c' \<or> c = c' \<and> d * 10 + e < d' * 10 + e'"
    using assms by (intro digit_less) auto
  moreover have "b * 10000 + (c * 100 + (d * 10 + e)) < b' * 10000 + (c' * 100 + (d' * 10 + e')) \<longleftrightarrow>
      b < b' \<or> b = b' \<and> c * 100 + (d * 10 + e) < c' * 100 + (d' * 10 + e')"
    using assms by (intro digit_less) auto
  moreover have "a * 1000000 + (b * 10000 + (c * 100 + (d * 10 + e)))
      < a' * 1000000 + (b' * 10000 + (c' * 100 + (d' * 10 + e'))) \<longleftrightarrow>
      a < a' \<or> a = a' \<and> b * 10000 + (c * 100 + (d * 10 + e)) < b' * 10000 + (c' * 100 + (d' * 10 + e'))"
    using assms by (intro digit_less) auto
  ultimately show ?thesis by (simp add: add.assoc)
qed

lemma wf_hand_five:
  "wf_hand (c, ks) \<Longrightarrow> c = 5 \<or> c = 0 \<Longrightarrow> length ks = 5 \<and> ranks_ok ks \<and> strictly_descending ks"
  by (auto simp: wf_hand_def)

definition tie_length :: "int \<Rightarrow> nat" where
  "tie_length c = (if c = 9 then 0 else if c = 8 \<or> c = 4 then 1 else if c = 7 \<or> c = 6 then 2
     else if c = 3 \<or> c = 2 then 3 else if c = 1 then 4 else 5)"

lemma wf_hand_length: "wf_hand (c, ks) \<Longrightarrow> length ks = tie_length c \<and> ranks_ok ks"
  by (auto simp: wf_hand_def tie_length_def ranks_ok_def)

lemma tie_value_less_strict:
  assumes "c = 5 \<or> c = 0" "wf_hand (c, ks)" "wf_hand (c, ls)"
  shows "tie_value (c, ks) < tie_value (c, ls) \<longleftrightarrow> lex_less ks ls"
proof -
  have wf: "length ks = 5" "ranks_ok ks" "strictly_descending ks"
    "length ls = 5" "ranks_ok ls" "strictly_descending ls"
    using wf_hand_five [OF assms(2,1)] wf_hand_five [OF assms(3,1)] by simp_all
  obtain a b d e f where ks: "ks = [a, b, d, e, f]" using length_obtain(5) wf(1) by blast
  obtain a' b' d' e' f' where ls: "ls = [a', b', d', e', f']" using length_obtain(5) wf(4) by blast
  have tie: "tie_value (c, ks) = a * 1000000 + b * 10000 + d * 100 + e * 10 + f"
    "tie_value (c, ls) = a' * 1000000 + b' * 10000 + d' * 100 + e' * 10 + f'"
    using assms(1) by (auto simp: tie_value_def weights_def ks ls)
  have "{a, b, d, e, f, a', b', d', e', f'} \<subseteq> {0..12}"
    using wf(2,5) by (simp add: ks ls ranks_ok_def)
  moreover have "a > b" "b > d" "d > e" "e > f" "a' > b'" "b' > d'" "d' > e'" "e' > f'"
    using wf(3,6) by (simp_all add: ks ls)
  ultimately show ?thesis unfolding tie [unfolded ks ls] ks ls by (rule lex_strict)
qed

lemma tie_value_less:
  assumes "wf_hand (c, ks)" "wf_hand (c, ls)"
  shows "tie_value (c, ks) < tie_value (c, ls) \<longleftrightarrow> lex_less ks ls"
proof (cases "c = 5 \<or> c = 0")
  case True
  then show ?thesis using assms by (rule tie_value_less_strict)
next
  case False
  have "tie_length c \<le> 4" using False assms(1) by (auto simp: wf_hand_def tie_length_def)
  then have wf: "length ks \<le> 4" "length ls = length ks" "ranks_ok ks" "ranks_ok ls"
    using wf_hand_length [OF assms(1)] wf_hand_length [OF assms(2)] by simp_all
  have tie: "tie_value (c, ks) = sum_list (map2 (*) ks [1000000, 10000, 100, 1])"
    "tie_value (c, ls) = sum_list (map2 (*) ls [1000000, 10000, 100, 1])"
    using False by (auto simp: tie_value_def weights_def)
  consider "ks = []" "ls = []" | x x' where "ks = [x]" "ls = [x']"
    | x y x' y' where "ks = [x, y]" "ls = [x', y']"
    | x y z x' y' z' where "ks = [x, y, z]" "ls = [x', y', z']"
    | x y z u x' y' z' u' where "ks = [x, y, z, u]" "ls = [x', y', z', u']"
  proof -
    have "length ks = 0 \<or> length ks = Suc 0 \<or> length ks = 2 \<or> length ks = 3 \<or> length ks = 4"
      using wf(1) by linarith
    then show ?thesis
      using that wf(2) by (elim disjE; simp; metis length_obtain(1-4))
  qed
  then show ?thesis
  proof cases
    case 1
    then show ?thesis using tie by simp
  next
    case 2
    then show ?thesis using tie by simp
  next
    case (3 x y x' y')
    then show ?thesis using tie wf lex_pairs [of y 0 0 y' 0 0 x x'] by (simp add: ranks_ok_def)
  next
    case (4 x y z x' y' z')
    then show ?thesis using tie wf lex_pairs [of y z 0 y' z' 0 x x']
      by (simp add: ranks_ok_def add.assoc)
  next
    case (5 x y z u x' y' z' u')
    then show ?thesis using tie wf lex_pairs [of y z u y' z' u' x x']
      by (simp add: ranks_ok_def add.assoc)
  qed
qed

lemma encode_less_iff:
  assumes "wf_hand h" "wf_hand h'"
  shows "encode h < encode h' \<longleftrightarrow> hand_less h h'"
proof -
  obtain c ks c' ks' where h: "h = (c, ks)" "h' = (c', ks')" by fastforce
  show ?thesis
  proof (cases "c = c'")
    case True
    then show ?thesis
      using assms tie_value_less [of c ks ks'] by (simp add: h encode_split hand_less_def)
  next
    case False
    then show ?thesis
      using tie_value_range [OF assms(1)] tie_value_range [OF assms(2)]
      by (auto simp: h encode_split hand_less_def)
  qed
qed

section \<open>The evaluator\<close>

lemma reference_hand_perm:
  assumes "valid_cards cs" "mset ds = mset cs"
  shows "reference_hand ds = reference_hand cs"
proof -
  have ms: "mset (filter P ds) = mset (filter P cs)" for P using assms(2) by (simp add: mset_filter)
  have ranks: "ranks_desc xs = ranks_desc ys" if "mset xs = mset ys" for xs ys
    unfolding ranks_desc_def by (metis mset_map properties_for_sort sorted_sort mset_sort that)
  have "length (filter P ds) = length (filter P cs)" for P using ms by (metis size_mset)
  then have "flush_ranks ds = flush_ranks cs"
    using ranks [OF ms] by (simp add: flush_ranks_def split: option.split)
  then show ?thesis
    using ranks [OF assms(2)]
    by (simp add: reference_hand_def ref_straight_flush_def ref_flush_def)
qed

lemma valid_cards_perm: "valid_cards cs \<Longrightarrow> mset ds = mset cs \<Longrightarrow> valid_cards ds"
  unfolding valid_cards_def by (metis mset_eq_imp_distinct_iff set_mset_mset size_mset)

text \<open>C1: On seven different cards \<open>cardsValue\<close> returns the decimal encoding of the hand that the
  rules of poker assign to them: the strongest category the cards contain, with its tie-breaking
  ranks, as determined by counting ranks and suits. That hand is well formed: its category has as
  many ranks as it needs, each between 0 and 12, and those of a flush or a high card descend.\<close>

theorem evaluator_correct:
  assumes "valid_cards cs"
  shows "fst (cardsValue cs) = encode (reference_hand cs) \<and> wf_hand (reference_hand cs)"
  using cardsValue_correct [OF assms] reference_hand_wf [OF assms] by simp

theorem evaluator_correct_witness:
  "fst (cardsValue [12, 25, 38, 11, 24, 3, 17]) = 612110000 \<and> wf_hand (6, [12, 11])"
proof -
  have "valid_cards [12, 25, 38, 11, 24, 3, 17]" by (simp add: valid_cards_def)
  moreover have "reference_hand [12, 25, 38, 11, 24, 3, 17] = (6, [12, 11])" by code_simp
  ultimately show ?thesis
    using evaluator_correct [of "[12, 25, 38, 11, 24, 3, 17]"] by (simp add: encode_def weights_def)
qed

text \<open>C2: Comparing the values of two sets of seven cards decides which hand wins: the values are
  ordered exactly as the hands are, by category and then by the tie-breaking ranks from the highest
  down, and equal values mean a split.\<close>

theorem evaluator_compares_hands:
  assumes "valid_cards cs" "valid_cards ds"
  shows "fst (cardsValue cs) < fst (cardsValue ds) \<longleftrightarrow> hand_less (reference_hand cs) (reference_hand ds)"
  using encode_less_iff [OF reference_hand_wf reference_hand_wf] assms
  by (simp add: cardsValue_correct)

theorem evaluator_compares_hands_witness:
  "fst (cardsValue [12, 25, 3, 17, 34, 8, 20]) < fst (cardsValue [12, 25, 3, 17, 34, 8, 22])"
proof -
  have "valid_cards [12, 25, 3, 17, 34, 8, 20]" "valid_cards [12, 25, 3, 17, 34, 8, 22]"
    by (simp_all add: valid_cards_def)
  moreover have "hand_less (reference_hand [12, 25, 3, 17, 34, 8, 20])
      (reference_hand [12, 25, 3, 17, 34, 8, 22])"
    by code_simp
  ultimately show ?thesis using evaluator_compares_hands by blast
qed

text \<open>The value does not depend on the order in which the cards are passed.\<close>

theorem evaluator_order_irrelevant:
  assumes "valid_cards cs" "mset ds = mset cs"
  shows "fst (cardsValue ds) = fst (cardsValue cs)"
  using cardsValue_correct [OF assms(1)] cardsValue_correct [OF valid_cards_perm [OF assms]]
    reference_hand_perm [OF assms] by simp

theorem evaluator_order_irrelevant_witness:
  "fst (cardsValue [6, 5, 4, 3, 2, 1, 0]) = fst (cardsValue [0, 1, 2, 3, 4, 5, 6])"
  by (rule evaluator_order_irrelevant) (simp_all add: valid_cards_def)

text \<open>The value of seven different cards lies between 0 and 900000000, and its leading digit,
  which the callers read with a division by 100000000, is the category 0 to 9.\<close>

theorem evaluator_range:
  assumes "valid_cards cs"
  shows "0 \<le> fst (cardsValue cs) \<and> fst (cardsValue cs) \<le> 900000000 \<and>
         fst (cardsValue cs) div 100000000 = fst (reference_hand cs) \<and>
         fst (reference_hand cs) \<in> {0..9}"
proof -
  let ?h = "reference_hand cs"
  have wf: "wf_hand ?h" by (rule reference_hand_wf [OF assms])
  have cat: "fst ?h \<in> {0..9}" "fst ?h = 9 \<Longrightarrow> tie_value ?h = 0"
    using wf by (auto simp: wf_hand_def tie_value_def split: prod.splits)
  have "fst (cardsValue cs) = fst ?h * 100000000 + tie_value ?h"
    by (simp add: cardsValue_correct [OF assms] encode_split)
  then show ?thesis using cat tie_value_range [OF wf] by (cases "fst ?h = 9") auto
qed

theorem evaluator_range_witness: "fst (reference_hand [51, 50, 49, 48, 47, 0, 13]) = 9 \<and>
    fst (cardsValue [51, 50, 49, 48, 47, 0, 13]) div 100000000 = 9"
proof -
  have "valid_cards [51, 50, 49, 48, 47, 0, 13]" by (simp add: valid_cards_def)
  moreover have "fst (reference_hand [51, 50, 49, 48, 47, 0, 13]) = 9" by code_simp
  ultimately show ?thesis using evaluator_range by auto
qed

end
