(* ===== verification/Player.thy ===== *)
theory Player
  imports Poker_Prelude "HOL-Library.Signed_Division"
begin

text \<open>
  The player of the local engine (\<open>LocalPlayer\<close>, \<open>src/src/engine/local_engine/localplayer.h\<close> and
  \<open>.cpp\<close>) with the enumerations of \<open>src/src/game_defs.h\<close>, the fields of a betting round that the
  player's bet evaluation reads and writes (\<open>LocalBeRo\<close>), and \<open>checkMyAction\<close>. The computer
  player's engines (floating point odds and random numbers) only choose an action and an amount;
  what they do to the game is \<open>evaluation\<close>.
\<close>

section \<open>Enumerations\<close>

datatype PlayerAction =
    PLAYER_ACTION_NONE
  | PLAYER_ACTION_FOLD
  | PLAYER_ACTION_CHECK
  | PLAYER_ACTION_CALL
  | PLAYER_ACTION_BET
  | PLAYER_ACTION_RAISE
  | PLAYER_ACTION_ALLIN

definition action_code :: "PlayerAction \<Rightarrow> int" where
  "action_code a = (case a of
     PLAYER_ACTION_NONE \<Rightarrow> 0 | PLAYER_ACTION_FOLD \<Rightarrow> 1 | PLAYER_ACTION_CHECK \<Rightarrow> 2
   | PLAYER_ACTION_CALL \<Rightarrow> 3 | PLAYER_ACTION_BET \<Rightarrow> 4 | PLAYER_ACTION_RAISE \<Rightarrow> 5
   | PLAYER_ACTION_ALLIN \<Rightarrow> 6)"

datatype GameState =
    GAME_STATE_PREFLOP
  | GAME_STATE_FLOP
  | GAME_STATE_TURN
  | GAME_STATE_RIVER
  | GAME_STATE_POST_RIVER
  | GAME_STATE_PREFLOP_SMALL_BLIND
  | GAME_STATE_PREFLOP_BIG_BLIND

definition state_code :: "GameState \<Rightarrow> nat" where
  "state_code s = (case s of
     GAME_STATE_PREFLOP \<Rightarrow> 0 | GAME_STATE_FLOP \<Rightarrow> 1 | GAME_STATE_TURN \<Rightarrow> 2
   | GAME_STATE_RIVER \<Rightarrow> 3 | GAME_STATE_POST_RIVER \<Rightarrow> 4
   | GAME_STATE_PREFLOP_SMALL_BLIND \<Rightarrow> 240 | GAME_STATE_PREFLOP_BIG_BLIND \<Rightarrow> 241)"

text \<open>The order of the enumeration, as \<open>currentRound < GAME_STATE_RIVER\<close> uses it.\<close>

instantiation GameState :: linorder
begin

definition less_eq_GameState :: "GameState \<Rightarrow> GameState \<Rightarrow> bool" where
  "less_eq_GameState s t \<longleftrightarrow> state_code s \<le> state_code t"

definition less_GameState :: "GameState \<Rightarrow> GameState \<Rightarrow> bool" where
  "less_GameState s t \<longleftrightarrow> state_code s < state_code t"

instance
  by standard (auto simp: less_eq_GameState_def less_GameState_def state_code_def
      split: GameState.splits)

end

datatype PlayerType = PLAYER_TYPE_COMPUTER | PLAYER_TYPE_HUMAN

datatype Button = BUTTON_NONE | BUTTON_DEALER | BUTTON_SMALL_BLIND | BUTTON_BIG_BLIND

section \<open>The player\<close>

record local_player =
  myID :: int
  myUniqueID :: nat
  myType :: PlayerType
  myName :: string
  myCardsValueInt :: int
  myBestHandPosition :: "int list"
  myCards :: "int list"
  myCash :: int
  mySet :: int
  myLastRelativeSet :: int
  myAction :: PlayerAction
  myButton :: Button
  myActiveStatus :: bool
  myStayOnTableStatus :: bool
  myTurn :: bool
  myCardsFlip :: bool
  myRoundStartCash :: int
  myLastMoneyWon :: int
  myAverageSets :: "int list"
  myAverageSetsCount :: int
  myAggressive :: "bool list"
  myIsSessionActive :: bool
  myIsKicked :: bool
  myIsMuted :: bool
  myGuid :: string

definition new_player ::
  "int \<Rightarrow> nat \<Rightarrow> PlayerType \<Rightarrow> string \<Rightarrow> int \<Rightarrow> bool \<Rightarrow> bool \<Rightarrow> Button \<Rightarrow> local_player" where
  "new_player ident uniqueId type name sC aS sotS mB =
     \<lparr> myID = ident, myUniqueID = uniqueId, myType = type, myName = name, myCardsValueInt = 0, myBestHandPosition = replicate 5 0,
       myCards = replicate 2 0, myCash = sC, mySet = 0, myLastRelativeSet = 0,
       myAction = PLAYER_ACTION_NONE, myButton = mB, myActiveStatus = aS,
       myStayOnTableStatus = sotS, myTurn = False, myCardsFlip = False, myRoundStartCash = 0,
       myLastMoneyWon = 0, myAverageSets = replicate 4 0, myAverageSetsCount = 0,
       myAggressive = replicate 7 False, myIsSessionActive = False, myIsKicked = False,
       myIsMuted = False, myGuid = '''' \<rparr>"

definition setMySet :: "int \<Rightarrow> local_player \<Rightarrow> local_player" where
  "setMySet theValue p =
    (let v1 = (if theValue > myCash p then myCash p else theValue);
         v = (if v1 < 0 then 0 else v1);
         p1 = p\<lparr>myLastRelativeSet := v, mySet := mySet p + v, myCash := myCash p - v\<rparr>
     in if myCash p1 < 0 then p1\<lparr>myCash := 0\<rparr> else p1)"

definition setMySetNull :: "local_player \<Rightarrow> local_player" where
  "setMySetNull p = p\<lparr>mySet := 0, myLastRelativeSet := 0\<rparr>"

definition setMyAverageSets :: "int \<Rightarrow> local_player \<Rightarrow> local_player" where
  "setMyAverageSets theValue p =
    p\<lparr>myAverageSets := [myAverageSets p ! 1, myAverageSets p ! 2, myAverageSets p ! 3, theValue],
      myAverageSetsCount := (if myAverageSetsCount p < 4 then myAverageSetsCount p + 1
                             else myAverageSetsCount p)\<rparr>"

definition getMyAverageSets :: "local_player \<Rightarrow> int" where
  "getMyAverageSets p =
    (myAverageSets p ! 0 + myAverageSets p ! 1 + myAverageSets p ! 2 + myAverageSets p ! 3)
    sdiv (if myAverageSetsCount p > 0 then myAverageSetsCount p else 1)"

definition setMyAggressive :: "bool \<Rightarrow> local_player \<Rightarrow> local_player" where
  "setMyAggressive theValue p =
    p\<lparr>myAggressive := (fold (\<lambda>i l. l[i := l ! (i + 1)]) [0..<6] (myAggressive p))[6 := theValue]\<rparr>"

definition getMyAggressive :: "local_player \<Rightarrow> int" where
  "getMyAggressive p = fold (\<lambda>b sum. sum + (if b then 1 else 0)) (myAggressive p) 0"

text \<open>\<open>checkMyAction\<close> returns 0 for a legal move and 1 otherwise; the action is the integer of
  the request.\<close>

definition checkMyAction :: "int \<Rightarrow> int \<Rightarrow> int \<Rightarrow> int \<Rightarrow> int \<Rightarrow> local_player \<Rightarrow> int" where
  "checkMyAction targetAction targetBet highestSet minimumRaise smallBlind p =
    (if targetAction = action_code PLAYER_ACTION_FOLD then 0
     else if targetAction = action_code PLAYER_ACTION_CHECK then
       (if mySet p \<ge> highestSet then 0 else 1)
     else if targetAction = action_code PLAYER_ACTION_CALL then
       (if mySet p \<ge> highestSet \<and> myCash p > 0 then 0
        else if myCash p > 0 \<and> targetBet \<le> myCash p then
          (if myCash p + mySet p \<ge> highestSet \<and> targetBet = highestSet - mySet p then 0
           else if myCash p + mySet p \<le> highestSet \<and> targetBet = myCash p then 0
           else 1)
        else 1)
     else if targetAction = action_code PLAYER_ACTION_BET then
       (if highestSet = 0 \<and> targetBet \<le> myCash p \<and> targetBet \<ge> 2 * smallBlind then 0 else 1)
     else if targetAction = action_code PLAYER_ACTION_RAISE then
       (if highestSet > 0 \<and> mySet p + targetBet \<ge> highestSet + minimumRaise
           \<and> targetBet \<le> myCash p then 0 else 1)
     else if targetAction = action_code PLAYER_ACTION_ALLIN then
       (if targetBet = myCash p \<and> myCash p > 0 then 0 else 1)
     else 1)"

section \<open>The betting round a player sees\<close>

record bero =
  myBeRoID :: GameState
  beroDealerPosition :: nat
  beroSmallBlind :: int
  smallBlindPositionId :: nat
  bigBlindPositionId :: nat
  highestSet :: int
  minimumRaise :: int
  fullBetRule :: bool
  firstRound :: bool
  firstRunGui :: bool
  currentPlayersTurnId :: nat
  firstRoundLastPlayersTurnId :: nat

text \<open>The result of \<open>evaluation\<close>: the player, the round, and the last-action player that
  \<open>setLastActionPlayerID\<close> stored, if it was called. The local variable \<open>highestSet\<close> is written back
  at the end.\<close>

definition all_in_raise ::
  "int \<Rightarrow> local_player \<Rightarrow> bero \<Rightarrow> local_player \<times> bero \<times> nat option" where
  "all_in_raise hs p b =
    (let p1 = setMySet (myCash p) p;
         b1 = (if mySet p1 - hs > 0 then b\<lparr>minimumRaise := mySet p1 - hs\<rparr> else b)
     in (p1\<lparr>myAction := PLAYER_ACTION_ALLIN\<rparr>, b1\<lparr>highestSet := mySet p1\<rparr>, Some (myUniqueID p)))"

definition evaluate_call :: "local_player \<Rightarrow> bero \<Rightarrow> local_player" where
  "evaluate_call p b =
    (if highestSet b \<ge> myCash p + mySet p
     then (setMySet (myCash p) p)\<lparr>myAction := PLAYER_ACTION_ALLIN\<rparr>
     else setMySet (highestSet b - mySet p) p)"

definition evaluate_bet :: "int \<Rightarrow> int \<Rightarrow> local_player \<Rightarrow> bero \<Rightarrow> local_player \<times> bero" where
  "evaluate_bet smallBlind bet p b =
    (if bet \<ge> myCash p then
       (let b1 = (if myCash p < 2 * smallBlind then b\<lparr>fullBetRule := True\<rparr> else b);
            b2 = b1\<lparr>minimumRaise := myCash p\<rparr>;
            p1 = (setMySet (myCash p) p)\<lparr>myAction := PLAYER_ACTION_ALLIN\<rparr>
        in (p1, b2\<lparr>highestSet := mySet p1\<rparr>))
     else
       (let p1 = setMySet bet p in (p1, b\<lparr>minimumRaise := bet, highestSet := mySet p1\<rparr>)))"

definition evaluate_raise ::
  "int \<Rightarrow> local_player \<Rightarrow> bero \<Rightarrow> local_player \<times> bero \<times> nat option" where
  "evaluate_raise raise0 p b =
    (let hs = highestSet b in
     if fullBetRule b then
       (if hs \<ge> myCash p + mySet p
        then ((setMySet (myCash p) p)\<lparr>myAction := PLAYER_ACTION_ALLIN\<rparr>, b, None)
        else ((setMySet (hs - mySet p) p)\<lparr>myAction := PLAYER_ACTION_CALL\<rparr>, b, None))
     else
       (let raise = (if raise0 < minimumRaise b then minimumRaise b else raise0) in
        if hs + raise \<ge> myCash p + mySet p then
          (if hs + minimumRaise b > myCash p + mySet p then
             (if hs \<ge> myCash p + mySet p
              then ((setMySet (myCash p) p)\<lparr>myAction := PLAYER_ACTION_ALLIN\<rparr>, b, None)
              else all_in_raise hs p (b\<lparr>fullBetRule := True\<rparr>))
           else all_in_raise hs p b)
        else
          (let p1 = setMySet (hs + raise - mySet p) p
           in (p1, b\<lparr>minimumRaise := raise, highestSet := mySet p1\<rparr>, Some (myUniqueID p)))))"

definition evaluation ::
  "int \<Rightarrow> int \<Rightarrow> int \<Rightarrow> local_player \<Rightarrow> bero \<Rightarrow> local_player \<times> bero \<times> nat option" where
  "evaluation smallBlind bet raise p b =
    (case myAction p of
       PLAYER_ACTION_CALL \<Rightarrow> (evaluate_call p b, b, None)
     | PLAYER_ACTION_BET \<Rightarrow>
         (let (p1, b1) = evaluate_bet smallBlind bet p b in (p1, b1, Some (myUniqueID p)))
     | PLAYER_ACTION_RAISE \<Rightarrow> evaluate_raise raise p b
     | _ \<Rightarrow> (p, b, None))"

section \<open>Chips of a player\<close>

definition chips :: "local_player \<Rightarrow> int" where
  "chips p = myCash p + mySet p"

lemma setMySet_eq:
  assumes "0 \<le> myCash p"
  shows "setMySet v p = p\<lparr>myLastRelativeSet := max 0 (min v (myCash p)),
           mySet := mySet p + max 0 (min v (myCash p)), myCash := myCash p - max 0 (min v (myCash p))\<rparr>"
  using assms by (auto simp: setMySet_def Let_def max_def min_def)

lemma setMySet_fields [simp]:
  "myAction (setMySet v p) = myAction p" "myUniqueID (setMySet v p) = myUniqueID p"
  "myButton (setMySet v p) = myButton p" "myActiveStatus (setMySet v p) = myActiveStatus p"
  "myCardsValueInt (setMySet v p) = myCardsValueInt p"
  "myRoundStartCash (setMySet v p) = myRoundStartCash p"
  by (simp_all add: setMySet_def Let_def)

lemma setMySet_chips:
  assumes "0 \<le> myCash p"
  shows "chips (setMySet v p) = chips p" "0 \<le> myCash (setMySet v p)"
    "mySet p \<le> mySet (setMySet v p)" "myCash (setMySet v p) \<le> myCash p"
  using assms by (simp_all add: setMySet_eq chips_def)

lemma setMySet_set:
  assumes "0 \<le> v" "v \<le> myCash p"
  shows "mySet (setMySet v p) = mySet p + v" "myCash (setMySet v p) = myCash p - v"
  using assms by (simp_all add: setMySet_eq)

lemma setMySet_all_in:
  assumes "0 \<le> myCash p"
  shows "mySet (setMySet (myCash p) p) = chips p" "myCash (setMySet (myCash p) p) = 0"
  using assms by (simp_all add: setMySet_eq chips_def)

lemmas setMySet_simps = setMySet_chips setMySet_set setMySet_all_in

lemmas evaluation_defs =
  evaluation_def evaluate_call_def evaluate_bet_def evaluate_raise_def all_in_raise_def

text \<open>What a step at the table keeps of the chips. Operations that only move chips between the
  cash and the set of a player satisfy the contract, and so does every sequence of them.\<close>

locale chip_mover =
  fixes move :: "'m \<Rightarrow> local_player \<Rightarrow> local_player"
  assumes move_chips: "0 \<le> myCash p \<Longrightarrow> chips (move m p) = chips p"
    and move_cash: "0 \<le> myCash p \<Longrightarrow> 0 \<le> myCash (move m p)"
    and move_set: "0 \<le> myCash p \<Longrightarrow> mySet p \<le> mySet (move m p)"
begin

lemma moves_keep:
  assumes "0 \<le> myCash p"
  shows "chips (fold move ms p) = chips p \<and> 0 \<le> myCash (fold move ms p) \<and>
         mySet p \<le> mySet (fold move ms p)"
  using assms
proof (induction ms arbitrary: p)
  case Nil
  then show ?case by simp
next
  case (Cons m ms)
  have "0 \<le> myCash (move m p)" using Cons.prems by (rule move_cash)
  from Cons.IH [OF this] show ?case
    using move_chips [OF Cons.prems] move_set [OF Cons.prems, of m] by force
qed

lemma moves_bounded:
  assumes "0 \<le> myCash p" "0 \<le> mySet p"
  shows "mySet (fold move ms p) \<le> chips p"
  using moves_keep [OF assms(1), of ms] by (simp add: chips_def)

end

interpretation betting: chip_mover setMySet
  by unfold_locales (simp_all add: setMySet_chips)

lemma evaluation_moves:
  assumes "0 \<le> myCash p"
  shows "chips (fst (evaluation sb bet raise p b)) = chips p \<and>
         0 \<le> myCash (fst (evaluation sb bet raise p b)) \<and>
         mySet p \<le> mySet (fst (evaluation sb bet raise p b))"
  using assms setMySet_chips [OF assms]
  by (cases "myAction p") (simp_all add: evaluation_defs Let_def chips_def)

text \<open>A player's whole turn, for any action, amounts and betting round.\<close>

definition player_turn ::
  "PlayerAction \<times> int \<times> int \<times> int \<times> bero \<Rightarrow> local_player \<Rightarrow> local_player" where
  "player_turn m p = (case m of (a, sb, bet, raise, b) \<Rightarrow>
     fst (evaluation sb bet raise (p\<lparr>myAction := a\<rparr>) b))"

interpretation turns: chip_mover player_turn
  by unfold_locales
     (use evaluation_moves [where p = "p\<lparr>myAction := a\<rparr>" for p a] in
       \<open>force simp: player_turn_def chips_def split: prod.splits\<close>)+

section \<open>The betting rules\<close>

definition round_ok :: "local_player \<Rightarrow> bero \<Rightarrow> bool" where
  "round_ok p b \<longleftrightarrow> 0 \<le> myCash p \<and> 0 \<le> mySet p \<and> mySet p \<le> highestSet b \<and> 0 \<le> minimumRaise b"

text \<open>A move of the round: a call, a raise, or a bet of something that opens a round without sets.\<close>

definition round_move :: "int \<Rightarrow> local_player \<Rightarrow> bero \<Rightarrow> bool" where
  "round_move bet p b \<longleftrightarrow> myAction p \<in> {PLAYER_ACTION_CALL, PLAYER_ACTION_RAISE} \<or>
     (myAction p = PLAYER_ACTION_BET \<and> highestSet b = 0 \<and> 0 < bet \<and> 0 < myCash p)"

lemma evaluate_raise_rules:
  assumes "round_ok p b" "evaluate_raise raise p b = (p', b', l)" "myAction p = PLAYER_ACTION_RAISE"
  shows "highestSet b \<le> highestSet b' \<and> mySet p' \<le> highestSet b' \<and>
    (mySet p' = highestSet b' \<or> myAction p' = PLAYER_ACTION_ALLIN) \<and>
    (myAction p' = PLAYER_ACTION_RAISE \<longrightarrow> highestSet b + minimumRaise b \<le> mySet p') \<and>
    (0 < minimumRaise b \<longrightarrow> 0 < minimumRaise b')"
  using assms
  by (auto simp: round_ok_def evaluation_defs Let_def setMySet_eq split: if_splits)

lemma evaluate_bet_rules:
  assumes "round_ok p b" "evaluate_bet sb bet p b = (p', b')" "highestSet b = 0" "0 < bet" "0 < myCash p"
  shows "0 < highestSet b' \<and> mySet p' = highestSet b' \<and> 0 < minimumRaise b'"
  using assms
  by (auto simp: round_ok_def evaluate_bet_def Let_def setMySet_eq split: if_splits)

text \<open>A player's turn moves chips only from his cash to his set: whatever the action, the
  bet, the raise and the state of the betting round, cash plus set stays the same, the cash does
  not become negative and the set does not shrink, for any sequence of turns.\<close>

theorem player_turns_conserve:
  assumes "0 \<le> myCash p"
  shows "chips (fold player_turn ms p) = chips p \<and> 0 \<le> myCash (fold player_turn ms p) \<and>
         mySet p \<le> mySet (fold player_turn ms p)"
  by (rule turns.moves_keep [OF assms])

definition sample_player :: local_player where
  "sample_player = new_player 1 1 PLAYER_TYPE_HUMAN ''A'' 1000 True True BUTTON_BIG_BLIND"

definition sample_round :: bero where
  "sample_round = \<lparr> myBeRoID = GAME_STATE_PREFLOP, beroDealerPosition = 0,
     beroSmallBlind = 10, smallBlindPositionId = 0,
     bigBlindPositionId = 1, highestSet = 20, minimumRaise = 20, fullBetRule = False,
     firstRound = True, firstRunGui = True, currentPlayersTurnId = 0,
     firstRoundLastPlayersTurnId = 1 \<rparr>"

lemmas sample_defs = sample_player_def sample_round_def new_player_def

theorem player_turns_conserve_witness:
  "chips (fold player_turn [(PLAYER_ACTION_RAISE, 10, 0, 40, sample_round)] sample_player) = 1000"
  using player_turns_conserve [of sample_player "[(PLAYER_ACTION_RAISE, 10, 0, 40, sample_round)]"]
  by (simp add: sample_defs chips_def)

text \<open>C35: The betting rules of a computed move, a call, a raise or a bet that opens the round: the
  highest set never drops and is never below the player's set; the move ends exactly at the highest
  set unless the player is all in; a move that is still a raise afterwards is at least the minimum
  raise above the old highest set; and a minimum raise that is positive stays positive.\<close>

theorem evaluation_betting_rules:
  assumes "round_ok p b" "evaluation sb bet raise p b = (p', b', l)" "round_move bet p b"
  shows "highestSet b \<le> highestSet b' \<and> mySet p' \<le> highestSet b' \<and>
    (mySet p' = highestSet b' \<or> myAction p' = PLAYER_ACTION_ALLIN) \<and>
    (myAction p' = PLAYER_ACTION_RAISE \<longrightarrow> highestSet b + minimumRaise b \<le> mySet p') \<and>
    (0 < minimumRaise b \<longrightarrow> 0 < minimumRaise b')"
proof -
  consider "myAction p = PLAYER_ACTION_RAISE" | "myAction p = PLAYER_ACTION_CALL"
    | "myAction p = PLAYER_ACTION_BET" "highestSet b = 0" "0 < bet" "0 < myCash p"
    using assms(3) by (auto simp: round_move_def)
  then show ?thesis
  proof cases
    case 1
    then show ?thesis using evaluate_raise_rules [OF assms(1)] assms(2) by (simp add: evaluation_def)
  next
    case 2
    then show ?thesis
      using assms by (auto simp: round_ok_def evaluation_def evaluate_call_def setMySet_eq split: if_splits)
  next
    case 3
    then obtain q where q: "evaluate_bet sb bet p b = (p', b')"
      using assms(2) by (auto simp: evaluation_def split: prod.splits)
    have "myAction p' \<noteq> PLAYER_ACTION_RAISE" using q 3(1) by (auto simp: evaluate_bet_def Let_def split: if_splits)
    then show ?thesis using evaluate_bet_rules [OF assms(1) q 3(2-4)] 3(2) by simp
  qed
qed

theorem evaluation_betting_rules_witness:
  "mySet (fst (evaluation 10 0 5 (sample_player\<lparr>myAction := PLAYER_ACTION_RAISE\<rparr>) sample_round)) = 40
   \<and> highestSet (fst (snd (evaluation 10 0 5 (sample_player\<lparr>myAction := PLAYER_ACTION_RAISE\<rparr>) sample_round))) = 40
   \<and> highestSet sample_round + minimumRaise sample_round \<le> 40"
proof -
  obtain p' b' l where e:
    "evaluation 10 0 5 (sample_player\<lparr>myAction := PLAYER_ACTION_RAISE\<rparr>) sample_round = (p', b', l)"
    by (cases "evaluation 10 0 5 (sample_player\<lparr>myAction := PLAYER_ACTION_RAISE\<rparr>) sample_round") auto
  have "round_ok (sample_player\<lparr>myAction := PLAYER_ACTION_RAISE\<rparr>) sample_round"
    by (simp add: round_ok_def sample_defs)
  from evaluation_betting_rules [OF this e] show ?thesis
    using e by (auto simp: round_move_def evaluation_defs sample_defs Let_def setMySet_eq)
qed

section \<open>Moving windows\<close>

lemma average_shift:
  assumes "myAverageSetsCount p \<le> 4"
  shows "myAverageSets (fold setMyAverageSets [a, b, c, d] p) = [a, b, c, d]"
    and "0 \<le> myAverageSetsCount p \<Longrightarrow>
         myAverageSetsCount (fold setMyAverageSets [a, b, c, d] p) = 4"
  using assms by (auto simp: setMyAverageSets_def)

lemma average_count:
  "0 \<le> myAverageSetsCount p \<Longrightarrow> myAverageSetsCount p \<le> 4 \<Longrightarrow>
     0 \<le> myAverageSetsCount (fold setMyAverageSets xs p) \<and>
     myAverageSetsCount (fold setMyAverageSets xs p) \<le> 4"
  by (induction xs arbitrary: p) (auto simp: setMyAverageSets_def)

text \<open>\<open>getMyAverageSets\<close> is the mean, rounded towards zero, of the last four sets recorded
  with \<open>setMyAverageSets\<close>, however many were recorded before.\<close>

lemma average_of_last_four:
  "getMyAverageSets (fold setMyAverageSets (xs @ [a, b, c, d]) (new_player ident uid ty nm cash act stay btn)) =
     (a + b + c + d) sdiv 4"
proof -
  let ?p = "fold setMyAverageSets xs (new_player ident uid ty nm cash act stay btn)"
  have "0 \<le> myAverageSetsCount ?p" "myAverageSetsCount ?p \<le> 4"
    using average_count [of "new_player ident uid ty nm cash act stay btn" xs] by (simp_all add: new_player_def)
  then have "myAverageSets (fold setMyAverageSets [a, b, c, d] ?p) = [a, b, c, d]"
    "myAverageSetsCount (fold setMyAverageSets [a, b, c, d] ?p) = 4"
    by (simp_all only: average_shift)
  then show ?thesis by (simp only: fold_append o_apply getMyAverageSets_def) simp
qed

lemma aggressive_shift:
  assumes "length (myAggressive p) = 7"
  shows "myAggressive (setMyAggressive v p) = tl (myAggressive p) @ [v]"
proof -
  obtain b0 b1 b2 b3 b4 b5 b6 where "myAggressive p = [b0, b1, b2, b3, b4, b5, b6]"
    using assms by (auto simp: numeral_eq_Suc length_Suc_conv)
  moreover have "[0..<6] = [0, 1, 2, 3, 4, 5]" by code_simp
  ultimately show ?thesis by (simp add: setMyAggressive_def)
qed

lemma aggressive_window:
  assumes "length (myAggressive p) = 7"
  shows "myAggressive (fold setMyAggressive vs p) = drop (length vs) (myAggressive p @ vs)"
  using assms
proof (induction vs arbitrary: p)
  case Nil
  then show ?case by simp
next
  case (Cons v vs)
  have tl: "myAggressive (setMyAggressive v p) = tl (myAggressive p) @ [v]"
    by (rule aggressive_shift [OF Cons.prems])
  moreover have "length (myAggressive (setMyAggressive v p)) = 7"
    using tl Cons.prems by simp
  ultimately show ?case
    using Cons.IH [of "setMyAggressive v p"] Cons.prems by (cases "myAggressive p") simp_all
qed

lemma getMyAggressive_eq: "getMyAggressive p = int (length (filter id (myAggressive p)))"
proof -
  have "fold (\<lambda>b sum. sum + (if b then 1 else 0)) bs n = n + int (length (filter id bs))"
    for bs :: "bool list" and n by (induction bs arbitrary: n) auto
  then show ?thesis by (simp add: getMyAggressive_def)
qed

text \<open>\<open>getMyAggressive\<close> counts the aggressive hands among the last seven that were recorded.\<close>

lemma aggressive_last_seven:
  assumes "7 \<le> length vs"
  shows "getMyAggressive (fold setMyAggressive vs (new_player ident uid ty nm cash act stay btn)) =
         int (length (filter id (drop (length vs - 7) vs)))"
proof -
  have "length (myAggressive (new_player ident uid ty nm cash act stay btn)) = 7" by (simp add: new_player_def)
  from aggressive_window [OF this, of vs] assms show ?thesis
    by (simp add: getMyAggressive_eq new_player_def)
qed

theorem aggressive_last_seven_witness:
  "getMyAggressive (fold setMyAggressive [True, True, False, True, False, False, False, True, False]
     (new_player 0 0 PLAYER_TYPE_HUMAN ''A'' 1000 True True BUTTON_NONE)) = 2"
  using aggressive_last_seven
    [of "[True, True, False, True, False, False, False, True, False]" 0 0 PLAYER_TYPE_HUMAN
        "''A''" 1000 True True BUTTON_NONE]
  by simp

end
