(* ===== verification/Hand_Name.thy ===== *)
theory Hand_Name
  imports Hand_Order Player
begin

text \<open>
  The texts that describe a hand: \<open>CardsValue::translateCardsValueCode\<close> and
  \<open>CardsValue::determineHandName\<close>. The code of a hand is non-negative, so C++ division is \<open>div\<close>.
  The list of strings is indexed where the source advances an iterator over it.
\<close>

section \<open>The tables of names\<close>

definition rank_names :: "(int \<times> string) list" where
  "rank_names = [(12, ''Ace''), (11, ''King''), (10, ''Queen''), (9, ''Jack''), (8, ''Ten''),
     (7, ''Nine''), (6, ''Eight''), (5, ''Seven''), (4, ''Six''), (3, ''Five''), (2, ''Four''),
     (1, ''Three''), (0, ''Deuce'')]"

definition plural_names :: "(int \<times> string) list" where
  "plural_names = [(12, ''Aces''), (11, ''Kings''), (10, ''Queens''), (9, ''Jacks''), (8, ''Tens''),
     (7, ''Nines''), (6, ''Eights''), (5, ''Sevens''), (4, ''Sixes''), (3, ''Fives''),
     (2, ''Fours''), (1, ''Threes''), (0, ''Deuces'')]"

definition with_suffix :: "string \<Rightarrow> (int \<times> string) list \<Rightarrow> (int \<times> string) list" where
  "with_suffix s names = map (\<lambda>(v, n). (v, n @ s)) names"

text \<open>The labels of a \<open>switch\<close> that does not list every rank.\<close>

definition between :: "int \<Rightarrow> int \<Rightarrow> (int \<times> string) list \<Rightarrow> (int \<times> string) list" where
  "between lo hi names = filter (\<lambda>(v, n). lo \<le> v \<and> v \<le> hi) names"

abbreviation error_text :: string where
  "error_text \<equiv> ''ERROR''"

section \<open>translateCardsValueCode\<close>

definition straight_flush_strings :: "int \<Rightarrow> string list" where
  "straight_flush_strings secondPart =
     [''Straight Flush, '', switch secondPart (with_suffix '' high'' (between 3 11 rank_names)) error_text]"

definition four_strings :: "int \<Rightarrow> int \<Rightarrow> string list" where
  "four_strings secondPart thirdPart =
     [''Four of a Kind, '', switch secondPart plural_names error_text,
      switch thirdPart rank_names error_text]"

definition full_house_strings :: "int \<Rightarrow> int \<Rightarrow> string list" where
  "full_house_strings secondPart thirdPart =
     [''Full House, '', switch secondPart (with_suffix '' full of '' plural_names) error_text,
      switch thirdPart plural_names error_text]"

definition flush_head_strings :: "int \<Rightarrow> int \<Rightarrow> string list" where
  "flush_head_strings secondPart thirdPart =
     [''Flush, '', switch secondPart (with_suffix '' high'' (between 4 12 rank_names)) error_text,
      switch thirdPart rank_names error_text]"

definition flush_tail_strings :: "int \<Rightarrow> int \<Rightarrow> int \<Rightarrow> string list" where
  "flush_tail_strings fourthPart fifthPartA fifthPartB =
     [switch fourthPart rank_names error_text,
      switch fifthPartA (between 0 9 rank_names) error_text,
      switch fifthPartB (between 0 9 rank_names) error_text]"

definition straight_strings :: "int \<Rightarrow> string list" where
  "straight_strings secondPart =
     [''Straight, '', switch secondPart (with_suffix '' high'' (between 3 12 rank_names)) error_text]"

definition three_strings :: "int \<Rightarrow> int \<Rightarrow> int \<Rightarrow> string list" where
  "three_strings secondPart thirdPart fourthPart =
     [''Three of a Kind, '', switch secondPart plural_names error_text,
      switch thirdPart rank_names error_text, switch fourthPart rank_names error_text]"

definition two_pair_strings :: "int \<Rightarrow> int \<Rightarrow> int \<Rightarrow> string list" where
  "two_pair_strings secondPart thirdPart fourthPart =
     [''Two Pair, '', switch secondPart (with_suffix '' and '' plural_names) error_text,
      switch thirdPart plural_names error_text, switch fourthPart rank_names error_text]"

definition one_pair_head_strings :: "int \<Rightarrow> int \<Rightarrow> string list" where
  "one_pair_head_strings secondPart thirdPart =
     [''One Pair, '', switch secondPart plural_names error_text,
      switch thirdPart rank_names error_text]"

definition one_pair_tail_strings :: "int \<Rightarrow> int \<Rightarrow> string list" where
  "one_pair_tail_strings fourthPart fifthPart =
     [switch fourthPart rank_names error_text, switch fifthPart rank_names error_text]"

text \<open>The first table of the high card says \<open>Deuces\<close> where the others say \<open>Deuce\<close>.\<close>

definition high_card_head_strings :: "int \<Rightarrow> int \<Rightarrow> string list" where
  "high_card_head_strings secondPart thirdPart =
     [''High Card, '', switch secondPart (between 1 12 rank_names @ [(0, ''Deuces'')]) error_text,
      switch thirdPart rank_names error_text]"

definition high_card_tail_strings :: "int \<Rightarrow> int \<Rightarrow> int \<Rightarrow> string list" where
  "high_card_tail_strings fourthPart fifthPartA fifthPartB =
     [switch fourthPart rank_names error_text,
      switch fifthPartA (between 0 9 rank_names) error_text,
      switch fifthPartB (between 0 9 rank_names) error_text]"

definition translateCardsValueCode :: "int \<Rightarrow> string list" where
  "translateCardsValueCode code =
    (let firstPart = code div 100000000;
         secondPart = code div 1000000 - firstPart * 100;
         thirdPart = code div 10000 - firstPart * 10000 - secondPart * 100;
         fourthPart = code div 100 - firstPart * 1000000 - secondPart * 10000 - thirdPart * 100;
         fifthPart = code - firstPart * 100000000 - secondPart * 1000000 - thirdPart * 10000
                     - fourthPart * 100;
         fifthPartA = code div 10 - firstPart * 10000000 - secondPart * 100000 - thirdPart * 1000
                      - fourthPart * 10;
         fifthPartB = code - firstPart * 100000000 - secondPart * 1000000 - thirdPart * 10000
                      - fourthPart * 100 - fifthPartA * 10
     in switch firstPart
          [(9, [''Royal Flush'']),
           (8, straight_flush_strings secondPart),
           (7, four_strings secondPart thirdPart),
           (6, full_house_strings secondPart thirdPart),
           (5, flush_head_strings secondPart thirdPart
               @ flush_tail_strings fourthPart fifthPartA fifthPartB),
           (4, straight_strings secondPart),
           (3, three_strings secondPart thirdPart fourthPart),
           (2, two_pair_strings secondPart thirdPart fourthPart),
           (1, one_pair_head_strings secondPart thirdPart
               @ one_pair_tail_strings fourthPart fifthPart),
           (0, high_card_head_strings secondPart thirdPart
               @ high_card_tail_strings fourthPart fifthPartA fifthPartB)]
          [error_text])"

section \<open>determineHandName\<close>

text \<open>
  One round of the kicker comparison: the values that still agree with mine up to the divisor are
  kept; if some were erased (\<open>different\<close>) the kicker is named; if some are left (\<open>equal\<close>) the next
  round follows. Each entry holds the divisor, the label and the kicker's string.
\<close>

fun kicker_names :: "(int \<times> string \<times> string) list \<Rightarrow> int \<Rightarrow> int list \<Rightarrow> string" where
  "kicker_names [] my same = []"
| "kicker_names ((d, label, name) # rounds) my same =
    (let kept = filter (\<lambda>v. v div d = my div d) same
     in (if \<exists>v \<in> set same. v div d \<noteq> my div d then label @ name else [])
        @ (if kept \<noteq> [] then kicker_names rounds my kept else []))"

definition shown_values :: "int \<Rightarrow> local_player list \<Rightarrow> int list" where
  "shown_values my players =
     remove1 my (map myCardsValueInt (filter (\<lambda>p. myAction p \<noteq> PLAYER_ACTION_FOLD) players))"

definition same_hand :: "int \<Rightarrow> int \<Rightarrow> int list \<Rightarrow> int list" where
  "same_hand d my shown = filter (\<lambda>v. v div d = my div d) shown"

definition four_name :: "int \<Rightarrow> string list \<Rightarrow> int list \<Rightarrow> string" where
  "four_name my cs shown = cs ! 0 @ cs ! 1 @
     kicker_names [(10000, '', fifth card '', cs ! 2)] my (same_hand 1000000 my shown)"

definition flush_name :: "int \<Rightarrow> string list \<Rightarrow> int list \<Rightarrow> string" where
  "flush_name my cs shown = cs ! 0 @ cs ! 1 @
     kicker_names [(10000, '', second card '', cs ! 2), (100, '', third card '', cs ! 3),
                   (10, '', fourth card '', cs ! 4), (1, '', fifth card '', cs ! 5)]
       my (same_hand 1000000 my shown)"

definition three_name :: "int \<Rightarrow> string list \<Rightarrow> int list \<Rightarrow> string" where
  "three_name my cs shown = cs ! 0 @ cs ! 1 @
     kicker_names [(10000, '', fourth card '', cs ! 2), (100, '', fifth card '', cs ! 3)]
       my (same_hand 1000000 my shown)"

definition two_pair_name :: "int \<Rightarrow> string list \<Rightarrow> int list \<Rightarrow> string" where
  "two_pair_name my cs shown = cs ! 0 @ cs ! 1 @ cs ! 2 @
     kicker_names [(100, '', fifth card '', cs ! 3)] my (same_hand 10000 my shown)"

definition pair_name :: "int \<Rightarrow> string list \<Rightarrow> int list \<Rightarrow> string" where
  "pair_name my cs shown = cs ! 0 @ cs ! 1 @
     kicker_names [(10000, '', third card '', cs ! 2), (100, '', fourth card '', cs ! 3),
                   (1, '', fifth card '', cs ! 4)]
       my (same_hand 1000000 my shown)"

definition high_name :: "int \<Rightarrow> string list \<Rightarrow> int list \<Rightarrow> string" where
  "high_name my cs shown = cs ! 0 @ cs ! 1 @
     kicker_names [(10000, '', second card '', cs ! 2), (100, '', third card '', cs ! 3),
                   (10, '', fourth card '', cs ! 4), (1, '', fifth card '', cs ! 5)]
       my (same_hand 1000000 my shown)"

definition determineHandName :: "int \<Rightarrow> local_player list \<Rightarrow> string" where
  "determineHandName my players =
    (let shown = shown_values my players;
         cs = translateCardsValueCode my
     in switch (my div 100000000)
          [(9, cs ! 0),
           (8, cs ! 0 @ cs ! 1),
           (7, four_name my cs shown),
           (6, cs ! 0 @ cs ! 1 @ cs ! 2),
           (5, flush_name my cs shown),
           (4, cs ! 0 @ cs ! 1),
           (3, three_name my cs shown),
           (2, two_pair_name my cs shown),
           (1, pair_name my cs shown),
           (0, high_name my cs shown)]
          [])"

section \<open>The text of a hand\<close>

text \<open>The parts that the digits of a code select.\<close>

lemma translate_digits:
  assumes "0 \<le> a" "a < 100" "0 \<le> b" "b < 100" "0 \<le> c" "c < 100" "0 \<le> r" "r < 100"
    and code: "code = F * 100000000 + a * 1000000 + b * 10000 + c * 100 + r"
  shows "translateCardsValueCode code = switch F
          [(9, [''Royal Flush'']),
           (8, straight_flush_strings a),
           (7, four_strings a b),
           (6, full_house_strings a b),
           (5, flush_head_strings a b @ flush_tail_strings c (r div 10) (r mod 10)),
           (4, straight_strings a),
           (3, three_strings a b c),
           (2, two_pair_strings a b c),
           (1, one_pair_head_strings a b @ one_pair_tail_strings c r),
           (0, high_card_head_strings a b @ high_card_tail_strings c (r div 10) (r mod 10))]
          [error_text]"
proof -
  have divs: "code div 100000000 = F" "code div 1000000 = F * 100 + a"
    "code div 10000 = F * 10000 + a * 100 + b" "code div 100 = F * 1000000 + a * 10000 + b * 100 + c"
    "code div 10 = F * 10000000 + a * 100000 + b * 1000 + c * 10 + r div 10"
    using assms(1-8)
      int_div_pos_eq [of code 100000000 F "a * 1000000 + b * 10000 + c * 100 + r"]
      int_div_pos_eq [of code 1000000 "F * 100 + a" "b * 10000 + c * 100 + r"]
      int_div_pos_eq [of code 10000 "F * 10000 + a * 100 + b" "c * 100 + r"]
      int_div_pos_eq [of code 100 "F * 1000000 + a * 10000 + b * 100 + c" r]
      int_div_pos_eq [of code 10 "F * 10000000 + a * 100000 + b * 1000 + c * 10 + r div 10" "r mod 10"]
    by (simp_all add: code)
  have parts: "F * 100 + a - F * 100 = a" "F * 10000 + a * 100 + b - F * 10000 - a * 100 = b"
    "F * 1000000 + a * 10000 + b * 100 + c - F * 1000000 - a * 10000 - b * 100 = c"
    "code - F * 100000000 - a * 1000000 - b * 10000 - c * 100 = r"
    "F * 10000000 + a * 100000 + b * 1000 + c * 10 + r div 10
       - F * 10000000 - a * 100000 - b * 1000 - c * 10 = r div 10"
    "r - r div 10 * 10 = r mod 10"
    by (simp_all add: code minus_div_mult_eq_mod)
  show ?thesis unfolding translateCardsValueCode_def Let_def by (simp only: divs parts)
qed

definition rank_name :: "int \<Rightarrow> string" where
  "rank_name v = [''Deuce'', ''Three'', ''Four'', ''Five'', ''Six'', ''Seven'', ''Eight'', ''Nine'',
     ''Ten'', ''Jack'', ''Queen'', ''King'', ''Ace''] ! nat v"

definition plural_name :: "int \<Rightarrow> string" where
  "plural_name v = (if v = 4 then ''Sixes'' else rank_name v @ ''s'')"

text \<open>The description of a hand, from its category and ranks.\<close>

definition describe :: "poker_hand \<Rightarrow> string list" where
  "describe h = (case h of (c, ks) \<Rightarrow> switch c
     [(9, [''Royal Flush'']),
      (8, [''Straight Flush, '', rank_name (ks ! 0) @ '' high'']),
      (7, [''Four of a Kind, '', plural_name (ks ! 0), rank_name (ks ! 1)]),
      (6, [''Full House, '', plural_name (ks ! 0) @ '' full of '', plural_name (ks ! 1)]),
      (5, ''Flush, '' # (rank_name (ks ! 0) @ '' high'') # map rank_name (tl ks)),
      (4, [''Straight, '', rank_name (ks ! 0) @ '' high'']),
      (3, ''Three of a Kind, '' # plural_name (ks ! 0) # map rank_name (tl ks)),
      (2, [''Two Pair, '', plural_name (ks ! 0) @ '' and '', plural_name (ks ! 1), rank_name (ks ! 2)]),
      (1, ''One Pair, '' # plural_name (ks ! 0) # map rank_name (tl ks)),
      (0, ''High Card, '' # map rank_name ks)]
     [])"

lemma rank_cases:
  assumes "v \<in> {0..12 :: int}"
  shows "v = 0 \<or> v = 1 \<or> v = 2 \<or> v = 3 \<or> v = 4 \<or> v = 5 \<or> v = 6 \<or> v = 7 \<or> v = 8 \<or> v = 9 \<or>
         v = 10 \<or> v = 11 \<or> v = 12"
  using assms by (simp; presburger)

lemma tables:
  assumes "v \<in> {0..12}"
  shows "switch v rank_names e = rank_name v"
    and "switch v plural_names e = plural_name v"
    and "switch v (with_suffix t plural_names) e = plural_name v @ t"
    and "v \<le> 9 \<Longrightarrow> switch v (between 0 9 rank_names) e = rank_name v"
    and "3 \<le> v \<Longrightarrow> v \<le> 11 \<Longrightarrow> switch v (with_suffix t (between 3 11 rank_names)) e = rank_name v @ t"
    and "3 \<le> v \<Longrightarrow> switch v (with_suffix t (between 3 12 rank_names)) e = rank_name v @ t"
    and "4 \<le> v \<Longrightarrow> switch v (with_suffix t (between 4 12 rank_names)) e = rank_name v @ t"
    and "1 \<le> v \<Longrightarrow> switch v (between 1 12 rank_names @ [(0, u)]) e = rank_name v"
  using rank_cases [OF assms]
  by (elim disjE; simp add: rank_names_def plural_names_def with_suffix_def between_def
      rank_name_def plural_name_def)+

lemma describe_five:
  assumes "ks = [a, b, c, d, e]" "ranks_ok ks" "strictly_descending ks"
  shows "{a, b, c, d, e} \<subseteq> {0..12}" "4 \<le> a" "d \<le> 9" "e \<le> 9"
    "(d * 10 + e) div 10 = d" "(d * 10 + e) mod 10 = e" "d * 10 + e < 100" "0 \<le> d * 10 + e"
  using assms by (auto simp: ranks_ok_def)

lemma translate_encode:
  assumes "wf_hand h"
  shows "translateCardsValueCode (encode h) = describe h"
proof -
  obtain c ks where h: "h = (c, ks)" by (cases h)
  have ok: "ranks_ok ks" "length ks = tie_length c" using wf_hand_length assms h by auto
  consider "c = 9" "ks = []" | t where "c = 8" "ks = [t]" "3 \<le> t" "t \<le> 11"
    | t where "c = 4" "ks = [t]" "3 \<le> t" "t \<le> 12"
    | x y where "c = 7 \<or> c = 6" "ks = [x, y]" | x y z where "c = 3 \<or> c = 2" "ks = [x, y, z]"
    | x y z u where "c = 1" "ks = [x, y, z, u]"
    | "c = 5 \<or> c = 0" "length ks = 5" "strictly_descending ks"
    using assms unfolding h wf_hand_def
    by (auto dest!: length_obtain)
  then show ?thesis
  proof cases
    case 1
    then show ?thesis
      using translate_digits [of 0 0 0 0 "encode h" 9] by (simp add: h encode_simps describe_def)
  next
    case (2 t)
    then show ?thesis using translate_digits [of t 0 0 0 "encode h" 8] tables(5) [of t]
      by (simp add: h encode_simps describe_def straight_flush_strings_def)
  next
    case (3 t)
    then show ?thesis using translate_digits [of t 0 0 0 "encode h" 4] tables(6) [of t]
      by (simp add: h encode_simps describe_def straight_strings_def)
  next
    case (4 x y)
    then show ?thesis
      using translate_digits [of x y 0 0 "encode h" c] tables(1-3) [of x] tables(1,2) [of y] ok(1)
      by (auto simp: h encode_simps describe_def ranks_ok_def four_strings_def full_house_strings_def)
  next
    case (5 x y z)
    then show ?thesis
      using translate_digits [of x y z 0 "encode h" c] tables(2,3) [of x] tables(1,2) [of y]
        tables(1) [of z] ok(1)
      by (auto simp: h encode_simps describe_def ranks_ok_def three_strings_def two_pair_strings_def)
  next
    case (6 x y z u)
    then show ?thesis
      using translate_digits [of x y z u "encode h" 1] tables(2) [of x] tables(1) [of y]
        tables(1) [of z] tables(1) [of u] ok(1)
      by (auto simp: h encode_simps describe_def ranks_ok_def one_pair_head_strings_def
          one_pair_tail_strings_def)
  next
    case 7
    then obtain x y z u v where ks: "ks = [x, y, z, u, v]" using length_obtain(5) by blast
    note five = describe_five [OF ks ok(1) 7(3)]
    have code: "encode h = c * 100000000 + x * 1000000 + y * 10000 + z * 100 + (u * 10 + v)"
      using 7(1) by (auto simp: h ks encode_simps)
    have digits: "0 \<le> x" "x < 100" "0 \<le> y" "y < 100" "0 \<le> z" "z < 100"
      using five(1) by auto
    note parts = translate_digits [OF digits five(8,7) code, unfolded five(5,6)]
    have "switch x (with_suffix '' high'' (between 4 12 rank_names)) error_text = rank_name x @ '' high''"
      "switch x (between 1 12 rank_names @ [(0, ''Deuces'')]) error_text = rank_name x"
      "switch y rank_names error_text = rank_name y" "switch z rank_names error_text = rank_name z"
      "switch u (between 0 9 rank_names) error_text = rank_name u"
      "switch v (between 0 9 rank_names) error_text = rank_name v"
      using five(1-4) by (intro tables; simp)+
    note names = this
    show ?thesis
    proof (cases "c = 5")
      case True
      show ?thesis unfolding parts True
        by (simp add: names h ks describe_def flush_head_strings_def flush_tail_strings_def True)
    next
      case False
      then have "c = 0" using 7(1) by simp
      show ?thesis unfolding parts \<open>c = 0\<close>
        by (simp add: names h ks describe_def high_card_head_strings_def high_card_tail_strings_def \<open>c = 0\<close>)
    qed
  qed
qed

text \<open>C36: The text made from the value of seven different cards names the hand they hold: the
  category and every tie-breaking rank, in order, as \<open>describe\<close> states them from the reference hand.
  No branch that yields ERROR is reached.\<close>

theorem hand_text_correct:
  assumes "valid_cards cs"
  shows "translateCardsValueCode (fst (cardsValue cs)) = describe (reference_hand cs)"
  using translate_encode [OF reference_hand_wf [OF assms]] cardsValue_correct [OF assms] by simp

theorem hand_text_correct_witness:
  "translateCardsValueCode (fst (cardsValue [12, 25, 38, 11, 24, 3, 17])) =
     [''Full House, '', ''Aces full of '', ''Kings'']"
proof -
  have "valid_cards [12, 25, 38, 11, 24, 3, 17]" by (simp add: valid_cards_def)
  moreover have "reference_hand [12, 25, 38, 11, 24, 3, 17] = (6, [12, 11])" by code_simp
  ultimately show ?thesis
    using hand_text_correct by (simp add: describe_def plural_name_def rank_name_def)
qed

end
