(* ===== verification/Board.thy ===== *)
theory Board
  imports Player
begin

text \<open>
  The board of the local engine (\<open>LocalBoard\<close>, \<open>src/src/engine/local_engine/localboard.cpp\<close>):
  collecting the sets of the players into the pot, distributing the pot by levels and deciding who
  shows his cards. The shared player objects are the records in \<open>seatsList\<close>; the other player
  lists hold the seat indices, which stand for the shared pointers. \<open>unsigned\<close> values are natural
  numbers, with the casts of the source reduced modulo \<open>2^32\<close>. A thrown \<open>LocalException\<close> is \<open>Inl\<close>
  of its code.
\<close>

section \<open>State\<close>

datatype engine_error =
    ERR_SEAT_NOT_FOUND
  | ERR_ACTIVE_PLAYER_NOT_FOUND
  | ERR_RUNNING_PLAYER_NOT_FOUND
  | ERR_DEALER_NOT_FOUND
  | ERR_CURRENT_PLAYER_NOT_FOUND
  | ERR_HAND_NOT_FOUND
  | ERR_BERO_NOT_FOUND
  | ERR_NEXT_DEALER_NOT_FOUND
  | ERR_NEXT_ACTIVE_PLAYER_NOT_FOUND
  | ERR_FORMER_RUNNING_PLAYER_NOT_FOUND
  | ERR_NO_WINNER

record table =
  seatsList :: "local_player list"
  activePlayerList :: "nat list"
  runningPlayerList :: "nat list"
  boardCards :: "int list"
  pot :: int
  sets :: int
  allInCondition :: bool
  lastActionPlayerID :: nat
  winners :: "nat list"
  playerNeedToShowCards :: "nat list"

definition MAX_NUMBER_OF_PLAYERS :: nat where
  "MAX_NUMBER_OF_PLAYERS = 2"

definition to_unsigned :: "nat \<Rightarrow> nat" where
  "to_unsigned n = n mod 2 ^ 32"

definition to_int :: "nat \<Rightarrow> int" where
  "to_int n = (if n mod 2 ^ 32 < 2 ^ 31 then int (n mod 2 ^ 32) else int (n mod 2 ^ 32) - 2 ^ 32)"

definition update_seat :: "nat \<Rightarrow> (local_player \<Rightarrow> local_player) \<Rightarrow> local_player list \<Rightarrow> local_player list" where
  "update_seat i f ps = ps[i := f (ps ! i)]"

text \<open>The first seat with a unique id, as the search loops find it.\<close>

definition seat_with_id :: "nat \<Rightarrow> local_player list \<Rightarrow> nat option" where
  "seat_with_id uid ps = first_some (\<lambda>i. if myUniqueID (ps ! i) = uid then Some i else None) [0..<length ps]"

section \<open>Collecting\<close>

definition collectSets :: "table \<Rightarrow> table" where
  "collectSets t = t\<lparr>sets := fold (\<lambda>p s. s + mySet p) (seatsList t) 0\<rparr>"

definition collectPot :: "table \<Rightarrow> table" where
  "collectPot t = t\<lparr>pot := pot t + sets t, sets := 0, seatsList := map setMySetNull (seatsList t)\<rparr>"

section \<open>Distributing the pot\<close>

text \<open>The variables of the level loop. \<open>playerSetsSort\<close> is recomputed from \<open>playerSets\<close> at the end
  of a level and unchanged by a skipped one, so it is always the sorted \<open>playerSets\<close>.\<close>

record level_state =
  lv_seats :: "local_player list"
  lv_pot :: int
  lv_winners :: "nat list"
  playerSets :: "nat list"
  potCarryOver :: nat

definition player_contribution :: "local_player \<Rightarrow> nat" where
  "player_contribution p =
     (if myActiveStatus p then to_unsigned (nat (max 0 (myRoundStartCash p - myCash p))) else 0)"

definition reset_won :: "local_player \<Rightarrow> local_player" where
  "reset_won p = p\<lparr>myLastMoneyWon := 0\<rparr>"

definition in_level :: "nat \<Rightarrow> local_player \<times> nat \<Rightarrow> bool" where
  "in_level amount = (\<lambda>(p, s). myActiveStatus p \<and> myAction p \<noteq> PLAYER_ACTION_FOLD \<and> s \<ge> amount)"

definition highest_value :: "(local_player \<times> nat \<Rightarrow> bool) \<Rightarrow> (local_player \<times> nat) list \<Rightarrow> int" where
  "highest_value ok ps = fold (\<lambda>(p, s) h. if ok (p, s) \<and> myCardsValueInt p > h
                                          then myCardsValueInt p else h) ps 0"

definition best_ids :: "(local_player \<times> nat \<Rightarrow> bool) \<Rightarrow> (local_player \<times> nat) list \<Rightarrow> nat list" where
  "best_ids ok ps =
     map (myUniqueID \<circ> fst) (filter (\<lambda>(p, s). ok (p, s) \<and> highest_value ok ps = myCardsValueInt p) ps)"

definition award :: "int \<Rightarrow> local_player \<Rightarrow> local_player" where
  "award v p = p\<lparr>myCash := myCash p + v, myLastMoneyWon := myLastMoneyWon p + v\<rparr>"

fun award_each :: "int \<Rightarrow> nat list \<Rightarrow> local_player list \<times> nat list
    \<Rightarrow> engine_error + (local_player list \<times> nat list)" where
  "award_each share [] s = Inr s"
| "award_each share (uid # ids) (ps, ws) =
    (case seat_with_id uid ps of
       None \<Rightarrow> Inl ERR_SEAT_NOT_FOUND
     | Some i \<Rightarrow> award_each share ids (update_seat i (award share) ps, ws @ [uid]))"

text \<open>The search for the next winner's seat after \<open>it\<close>, at most \<open>MAX_NUMBER_OF_PLAYERS\<close> steps.\<close>

fun next_winner :: "nat \<Rightarrow> nat list \<Rightarrow> local_player list \<Rightarrow> nat \<Rightarrow> nat \<times> bool" where
  "next_winner 0 ids ps it = (it, False)"
| "next_winner (Suc k) ids ps it =
    (let it' = (if Suc it = length ps then 0 else Suc it)
     in if myActiveStatus (ps ! it') \<and> myUniqueID (ps ! it') \<in> set ids then (it', True)
        else next_winner k ids ps it')"

fun award_after :: "nat list \<Rightarrow> int \<Rightarrow> nat \<Rightarrow> nat list \<Rightarrow> nat \<Rightarrow> local_player list \<times> nat list
    \<Rightarrow> local_player list \<times> nat list" where
  "award_after ids share m [] it s = s"
| "award_after ids share m (j # js) it (ps, ws) =
    (case next_winner MAX_NUMBER_OF_PLAYERS ids ps it of
       (it', False) \<Rightarrow> award_after ids share m js it' (ps, ws)
     | (it', True) \<Rightarrow>
         award_after ids share m js it'
           (update_seat it' (award (if j < m then share + 1 else share)) ps,
            ws @ [myUniqueID (ps ! it')]))"

definition distribute_level ::
  "nat \<Rightarrow> nat \<Rightarrow> nat list \<Rightarrow> level_state \<Rightarrow> engine_error + level_state" where
  "distribute_level dealerPosition level_sum ids s =
    (let count = length ids; share = to_int (level_sum div count); m = level_sum mod count in
     case (if m = 0 then award_each share ids (lv_seats s, lv_winners s)
           else (case seat_with_id dealerPosition (lv_seats s) of
                   None \<Rightarrow> Inl ERR_SEAT_NOT_FOUND
                 | Some it \<Rightarrow> Inr (award_after ids share m [0..<count] it (lv_seats s, lv_winners s)))) of
       Inl e \<Rightarrow> Inl e
     | Inr (ps, ws) \<Rightarrow>
         Inr (s\<lparr>lv_seats := ps, lv_winners := ws, potCarryOver := 0, lv_pot := lv_pot s - to_int level_sum\<rparr>))"

definition reevaluate_sets :: "nat \<Rightarrow> level_state \<Rightarrow> level_state" where
  "reevaluate_sets amount s =
     s\<lparr>playerSets := map (\<lambda>v. if v > 0 then v - min v amount else v) (playerSets s)\<rparr>"

definition pot_level :: "nat \<Rightarrow> nat \<Rightarrow> level_state \<Rightarrow> engine_error + level_state" where
  "pot_level dealerPosition i s =
    (let playerSetsSort = sort (playerSets s); amount = playerSetsSort ! i in
     if amount > 0 then
       (let level_sum = to_unsigned ((length playerSetsSort - i) * amount + potCarryOver s);
            ps = zip (lv_seats s) (playerSets s);
            ids = best_ids (in_level amount) ps;
            usedFallback = (ids = []);
            ids' = (if usedFallback then best_ids (in_level 0) ps else ids)
        in if ids' = [] then Inl ERR_NO_WINNER
           else if usedFallback \<or>
                   (\<exists>uid \<in> set ids'. \<exists>(p, v) \<in> set ps. myUniqueID p = uid \<and> amount = v)
           then map_sum id (reevaluate_sets amount) (distribute_level dealerPosition level_sum ids' s)
           else Inr (reevaluate_sets amount (s\<lparr>potCarryOver := level_sum\<rparr>)))
     else Inr s)"

fun pot_levels :: "nat \<Rightarrow> nat list \<Rightarrow> level_state \<Rightarrow> engine_error + level_state" where
  "pot_levels dealerPosition [] s = Inr s"
| "pot_levels dealerPosition (i # is) s =
    (case pot_level dealerPosition i s of
       Inl e \<Rightarrow> Inl e
     | Inr s' \<Rightarrow> pot_levels dealerPosition is s')"

text \<open>What is left in the pot goes to the first winner; a negative rest is dropped.\<close>

definition settle_rest :: "level_state \<Rightarrow> table \<Rightarrow> table" where
  "settle_rest s t =
    (let ws = remdups (sort (lv_winners s));
         ps = (if lv_pot s > 0 \<and> ws \<noteq> [] then
                 (case seat_with_id (hd ws) (lv_seats s) of
                    None \<Rightarrow> lv_seats s
                  | Some i \<Rightarrow> update_seat i (award (lv_pot s)) (lv_seats s))
               else lv_seats s)
     in t\<lparr>seatsList := ps, winners := ws, pot := 0\<rparr>)"

definition distributePot :: "nat \<Rightarrow> table \<Rightarrow> engine_error + table" where
  "distributePot dealerPosition t =
    (let s = \<lparr>lv_seats = map reset_won (seatsList t), lv_pot = pot t, lv_winners = [],
              playerSets = map player_contribution (seatsList t), potCarryOver = 0\<rparr>
     in map_sum id (\<lambda>s'. settle_rest s' t)
          (pot_levels dealerPosition [0..<length (seatsList t)] s))"

section \<open>Two seats\<close>

lemma upt_two: "[0..<2] = [0, 1 :: nat]"
  by (simp add: upt_rec)

lemma sort_two: "sort [a, b] = (if a \<le> b then [a, b] else [b, a :: nat])"
  by simp

lemma seat_with_id_two:
  "seat_with_id uid [p, q] = (if myUniqueID p = uid then Some 0
     else if myUniqueID q = uid then Some 1 else None)"
  by (simp add: seat_with_id_def upt_two numeral_2_eq_2 [symmetric])

lemma best_ids_two:
  assumes "0 \<le> myCardsValueInt p" "0 \<le> myCardsValueInt q"
  shows "best_ids ok [(p, a), (q, b)] =
    (if ok (p, a) \<and> (ok (q, b) \<longrightarrow> myCardsValueInt q \<le> myCardsValueInt p) then [myUniqueID p] else [])
    @ (if ok (q, b) \<and> (ok (p, a) \<longrightarrow> myCardsValueInt p \<le> myCardsValueInt q) then [myUniqueID q] else [])"
  using assms by (auto simp: best_ids_def highest_value_def)

lemma award_fields [simp]:
  "myUniqueID (award v p) = myUniqueID p" "myActiveStatus (award v p) = myActiveStatus p"
  "myAction (award v p) = myAction p" "myCardsValueInt (award v p) = myCardsValueInt p"
  by (simp_all add: award_def)

lemma award_award [simp]: "award v (award w p) = award (w + v) p"
  by (simp add: award_def)

lemma award_0 [simp]: "award 0 p = p"
  by (simp add: award_def)

lemma reset_won_fields [simp]:
  "myUniqueID (reset_won p) = myUniqueID p" "myActiveStatus (reset_won p) = myActiveStatus p"
  "myAction (reset_won p) = myAction p" "myCardsValueInt (reset_won p) = myCardsValueInt p"
  "myCash (reset_won p) = myCash p" "myRoundStartCash (reset_won p) = myRoundStartCash p"
  by (simp_all add: reset_won_def)

lemma to_int_small: "n < 2 ^ 31 \<Longrightarrow> to_int n = int n"
  by (simp add: to_int_def)

lemma to_unsigned_small: "n < 2 ^ 31 \<Longrightarrow> to_unsigned n = n"
  by (simp add: to_unsigned_def)

text \<open>What a level pays to the two seats.\<close>

lemma distribute_level_one:
  assumes "lv_seats s = [p, q]" "level_sum < 2 ^ 31"
  shows "distribute_level d level_sum [myUniqueID p] s =
     Inr (s\<lparr>lv_seats := [award (int level_sum) p, q], lv_winners := lv_winners s @ [myUniqueID p],
            potCarryOver := 0, lv_pot := lv_pot s - int level_sum\<rparr>)"
    and "myUniqueID p \<noteq> myUniqueID q \<Longrightarrow> distribute_level d level_sum [myUniqueID q] s =
     Inr (s\<lparr>lv_seats := [p, award (int level_sum) q], lv_winners := lv_winners s @ [myUniqueID q],
            potCarryOver := 0, lv_pot := lv_pot s - int level_sum\<rparr>)"
  using assms
  by (simp_all add: distribute_level_def seat_with_id_two update_seat_def to_int_small)

lemma distribute_level_tie:
  assumes "lv_seats s = [p, q]" "2 * m < 2 ^ 31" "myUniqueID p \<noteq> myUniqueID q"
  shows "distribute_level d (2 * m) [myUniqueID p, myUniqueID q] s =
     Inr (s\<lparr>lv_seats := [award (int m) p, award (int m) q],
            lv_winners := lv_winners s @ [myUniqueID p, myUniqueID q],
            potCarryOver := 0, lv_pot := lv_pot s - int (2 * m)\<rparr>)"
  using assms
  by (simp add: distribute_level_def seat_with_id_two update_seat_def to_int_small Let_def
      numeral_2_eq_2 [symmetric])

text \<open>The heads-up table at the showdown: two active players with different ids who put \<open>a\<close> and
  \<open>b\<close> into the pot.\<close>

definition heads_up :: "table \<Rightarrow> local_player \<Rightarrow> local_player \<Rightarrow> nat \<Rightarrow> nat \<Rightarrow> bool" where
  "heads_up t p q a b \<longleftrightarrow>
     seatsList t = [p, q] \<and> myUniqueID p \<noteq> myUniqueID q \<and> myActiveStatus p \<and> myActiveStatus q \<and>
     0 \<le> myCardsValueInt p \<and> 0 \<le> myCardsValueInt q \<and>
     myRoundStartCash p - myCash p = int a \<and> myRoundStartCash q - myCash q = int b \<and>
     pot t = int a + int b \<and> a + b < 2 ^ 31"

text \<open>The rules: a folded player gets nothing, against one the other gets everything; at a showdown
  the better hand wins as much as both have put in and the excess returns; equal hands take their
  own chips back.\<close>

definition showdown_share :: "local_player \<Rightarrow> local_player \<Rightarrow> nat \<Rightarrow> nat \<Rightarrow> nat" where
  "showdown_share p q a b =
    (if myAction p = PLAYER_ACTION_FOLD then 0
     else if myAction q = PLAYER_ACTION_FOLD then a + b
     else if myCardsValueInt p > myCardsValueInt q then a + min a b
     else if myCardsValueInt p = myCardsValueInt q then a
     else a - min a b)"

definition start_level :: "table \<Rightarrow> level_state" where
  "start_level t = \<lparr>lv_seats = map reset_won (seatsList t), lv_pot = pot t, lv_winners = [],
                    playerSets = map player_contribution (seatsList t), potCarryOver = 0\<rparr>"

lemma contribution_eq:
  "myActiveStatus p \<Longrightarrow> myRoundStartCash p - myCash p = int a \<Longrightarrow> a < 2 ^ 31 \<Longrightarrow>
     player_contribution p = a"
  by (simp add: player_contribution_def to_unsigned_def)

lemma start_level_heads_up:
  assumes "heads_up t p q a b"
  shows "start_level t = \<lparr>lv_seats = [reset_won p, reset_won q], lv_pot = int a + int b,
           lv_winners = [], playerSets = [a, b], potCarryOver = 0\<rparr>"
  using assms by (simp add: heads_up_def start_level_def contribution_eq)

text \<open>A level of two seats.\<close>

lemma pot_level_skip:
  assumes "playerSets s = [a, b]" "sort [a, b] ! i = 0"
  shows "pot_level d i s = Inr s"
  using assms by (simp add: pot_level_def)

definition two_state :: "local_player \<Rightarrow> local_player \<Rightarrow> int \<Rightarrow> nat list \<Rightarrow> nat \<Rightarrow> nat \<Rightarrow> nat \<Rightarrow> level_state" where
  "two_state p q pt ws a b carry =
     \<lparr>lv_seats = [p, q], lv_pot = pt, lv_winners = ws, playerSets = [a, b], potCarryOver = carry\<rparr>"

lemma pot_level_two:
  assumes "sort [a, b] ! i = amount" "0 < amount" "i < 2" "(2 - i) * amount + carry < 2 ^ 31"
    and "myActiveStatus p" "myActiveStatus q" "myUniqueID p \<noteq> myUniqueID q"
    and "0 \<le> myCardsValueInt p" "0 \<le> myCardsValueInt q"
  shows "pot_level d i (two_state p q pt ws a b carry) =
    (let level_sum = (2 - i) * amount + carry;
         okp = (myAction p \<noteq> PLAYER_ACTION_FOLD \<and> amount \<le> a);
         okq = (myAction q \<noteq> PLAYER_ACTION_FOLD \<and> amount \<le> b);
         ids = (if okp \<and> (okq \<longrightarrow> myCardsValueInt q \<le> myCardsValueInt p) then [myUniqueID p] else [])
               @ (if okq \<and> (okp \<longrightarrow> myCardsValueInt p \<le> myCardsValueInt q) then [myUniqueID q] else []);
         fp = (myAction p \<noteq> PLAYER_ACTION_FOLD);
         fq = (myAction q \<noteq> PLAYER_ACTION_FOLD);
         ids' = (if ids = [] then
               (if fp \<and> (fq \<longrightarrow> myCardsValueInt q \<le> myCardsValueInt p) then [myUniqueID p] else [])
               @ (if fq \<and> (fp \<longrightarrow> myCardsValueInt p \<le> myCardsValueInt q) then [myUniqueID q] else [])
             else ids)
     in if ids' = [] then Inl ERR_NO_WINNER
        else if ids = [] \<or> myUniqueID p \<in> set ids' \<and> a = amount \<or> myUniqueID q \<in> set ids' \<and> b = amount
        then map_sum id (reevaluate_sets amount)
               (distribute_level d level_sum ids' (two_state p q pt ws a b carry))
        else Inr (two_state p q pt ws (a - amount) (b - amount) level_sum))"
proof -
  let ?s = "two_state p q pt ws a b carry"
  have sum: "to_unsigned ((length (sort (playerSets ?s)) - i) * amount + potCarryOver ?s) =
             (2 - i) * amount + carry"
    using assms(4) by (simp add: two_state_def to_unsigned_small numeral_2_eq_2 [symmetric])
  have final: "(\<exists>uid \<in> set ids'. \<exists>(r, v) \<in> set [(p, a), (q, b)]. myUniqueID r = uid \<and> amount = v) \<longleftrightarrow>
      myUniqueID p \<in> set ids' \<and> a = amount \<or> myUniqueID q \<in> set ids' \<and> b = amount" for ids'
    by auto
  have sets: "reevaluate_sets amount (?s\<lparr>potCarryOver := n\<rparr>) =
      two_state p q pt ws (a - amount) (b - amount) n" for n
    by (auto simp: reevaluate_sets_def two_state_def)
  have zip: "zip (lv_seats ?s) (playerSets ?s) = [(p, a), (q, b)]"
    and sorted: "sort (playerSets ?s) ! i = amount" using assms(1) by (simp_all add: two_state_def)
  show ?thesis
    unfolding pot_level_def zip sum sorted Let_def sets final best_ids_two [OF assms(8,9)]
    using assms(2,5-7) by (simp add: in_level_def)
qed

lemma two_state_sel [simp]:
  "lv_seats (two_state p q pt ws a b carry) = [p, q]"
  "lv_winners (two_state p q pt ws a b carry) = ws"
  "lv_pot (two_state p q pt ws a b carry) = pt"
  by (simp_all add: two_state_def)

lemma reevaluate_two:
  "reevaluate_sets amount ((two_state p q pt ws a b carry)\<lparr>lv_seats := [p', q'], lv_winners := ws',
     potCarryOver := 0, lv_pot := pt'\<rparr>) = two_state p' q' pt' ws' (a - amount) (b - amount) 0"
  by (auto simp: reevaluate_sets_def two_state_def)

lemma pay_level:
  assumes "n < 2 ^ 31" "myUniqueID p \<noteq> myUniqueID q"
  shows "map_sum id (reevaluate_sets m) (distribute_level d n [myUniqueID p] (two_state p q pt ws a b carry)) =
      Inr (two_state (award (int n) p) q (pt - int n) (ws @ [myUniqueID p]) (a - m) (b - m) 0)"
    and "map_sum id (reevaluate_sets m) (distribute_level d n [myUniqueID q] (two_state p q pt ws a b carry)) =
      Inr (two_state p (award (int n) q) (pt - int n) (ws @ [myUniqueID q]) (a - m) (b - m) 0)"
    and "n = 2 * k \<Longrightarrow> map_sum id (reevaluate_sets m)
        (distribute_level d n [myUniqueID p, myUniqueID q] (two_state p q pt ws a b carry)) =
      Inr (two_state (award (int k) p) (award (int k) q) (pt - int n)
             (ws @ [myUniqueID p, myUniqueID q]) (a - m) (b - m) 0)"
  using distribute_level_one [OF two_state_sel(1) assms(1)] assms
    distribute_level_tie [OF two_state_sel(1) _ assms(2), of k]
  by (simp_all add: reevaluate_two)

lemma pot_level_two_skip:
  assumes "sort [a, b] ! i = 0"
  shows "pot_level d i (two_state p q pt ws a b carry) = Inr (two_state p q pt ws a b carry)"
  using assms by (intro pot_level_skip [where a = a and b = b]) (simp_all add: two_state_def)

text \<open>The winner of a level, for the three outcomes.\<close>

datatype outcome = First | Second | Tie

definition decide :: "local_player \<Rightarrow> local_player \<Rightarrow> outcome" where
  "decide p q =
    (if myAction q = PLAYER_ACTION_FOLD then First
     else if myAction p = PLAYER_ACTION_FOLD then Second
     else if myCardsValueInt p > myCardsValueInt q then First
     else if myCardsValueInt p < myCardsValueInt q then Second else Tie)"

lemma first_level:
  assumes "0 < m" "2 * m < 2 ^ 31" "m = min a b"
    and pq: "myActiveStatus p" "myActiveStatus q" "myUniqueID p \<noteq> myUniqueID q"
      "0 \<le> myCardsValueInt p" "0 \<le> myCardsValueInt q"
    and nf: "\<not> (myAction p = PLAYER_ACTION_FOLD \<and> myAction q = PLAYER_ACTION_FOLD)"
  shows "pot_level d 0 (two_state p q pt [] a b 0) = Inr (case decide p q of
      First \<Rightarrow> (if a = m then two_state (award (int (2 * m)) p) q (pt - int (2 * m))
                             [myUniqueID p] (a - m) (b - m) 0
                else two_state p q pt [] (a - m) (b - m) (2 * m))
    | Second \<Rightarrow> (if b = m then two_state p (award (int (2 * m)) q) (pt - int (2 * m))
                             [myUniqueID q] (a - m) (b - m) 0
                else two_state p q pt [] (a - m) (b - m) (2 * m))
    | Tie \<Rightarrow> two_state (award (int m) p) (award (int m) q) (pt - int (2 * m))
               [myUniqueID p, myUniqueID q] (a - m) (b - m) 0)"
proof -
  have sorted: "sort [a, b] ! 0 = m" using assms(3) by simp
  have bound: "(0 :: nat) < 2" "(2 - 0) * m + 0 < 2 ^ 31" using assms(2) by simp_all
  note level = pot_level_two [OF sorted assms(1) bound pq]
  have sum: "(2 - 0) * m + 0 = 2 * m" by simp
  have le: "(m \<le> a) = True" "(m \<le> b) = True" using assms(3) by auto
  have one_left: "a = m \<or> b = m" using assms(3) by auto
  note pay = pay_level [OF assms(2) pq(3)]
  show ?thesis
  proof (cases "decide p q")
    case First
    then have w: "myAction p \<noteq> PLAYER_ACTION_FOLD"
      "myAction q \<noteq> PLAYER_ACTION_FOLD \<longrightarrow> myCardsValueInt q < myCardsValueInt p"
      using nf by (auto simp: decide_def split: if_splits)
    show ?thesis unfolding level sum Let_def First outcome.case le
      using w pq(3) by (auto simp: pay)
  next
    case Second
    then have w: "myAction q \<noteq> PLAYER_ACTION_FOLD"
      "myAction p \<noteq> PLAYER_ACTION_FOLD \<longrightarrow> myCardsValueInt p < myCardsValueInt q"
      by (auto simp: decide_def split: if_splits)
    show ?thesis unfolding level sum Let_def Second outcome.case le
      using w pq(3) by (auto simp: pay)
  next
    case Tie
    then have w: "myAction p \<noteq> PLAYER_ACTION_FOLD" "myAction q \<noteq> PLAYER_ACTION_FOLD"
      "myCardsValueInt p = myCardsValueInt q"
      by (auto simp: decide_def split: if_splits)
    show ?thesis unfolding level sum Let_def Tie outcome.case le
      using w pq(3) one_left by (simp add: pay)
  qed
qed

text \<open>The last level: one seat has chips left.\<close>

lemma last_level:
  assumes "0 < e" "e + carry < 2 ^ 31"
    and pq: "myActiveStatus p" "myActiveStatus q" "myUniqueID p \<noteq> myUniqueID q"
      "0 \<le> myCardsValueInt p" "0 \<le> myCardsValueInt q"
    and nf: "\<not> (myAction p = PLAYER_ACTION_FOLD \<and> myAction q = PLAYER_ACTION_FOLD)"
  shows "pot_level d 1 (two_state p q pt ws e 0 carry) = Inr
      (if myAction p \<noteq> PLAYER_ACTION_FOLD
       then two_state (award (int (e + carry)) p) q (pt - int (e + carry)) (ws @ [myUniqueID p]) 0 0 0
       else two_state p (award (int (e + carry)) q) (pt - int (e + carry)) (ws @ [myUniqueID q]) 0 0 0)"
    and "pot_level d 1 (two_state p q pt ws 0 e carry) = Inr
      (if myAction q \<noteq> PLAYER_ACTION_FOLD
       then two_state p (award (int (e + carry)) q) (pt - int (e + carry)) (ws @ [myUniqueID q]) 0 0 0
       else two_state (award (int (e + carry)) p) q (pt - int (e + carry)) (ws @ [myUniqueID p]) 0 0 0)"
proof -
  have sorted: "sort [e, 0] ! 1 = e" "sort [0, e] ! 1 = e" using assms(1) by simp_all
  have sum: "(2 - 1) * e + carry = e + carry" by simp
  have bound: "(1 :: nat) < 2" "(2 - 1) * e + carry < 2 ^ 31" using assms(2) by simp_all
  note level = pot_level_two [OF sorted(1) assms(1) bound pq]
    pot_level_two [OF sorted(2) assms(1) bound pq]
  note pay = pay_level [OF assms(2) pq(3)]
  show "pot_level d 1 (two_state p q pt ws e 0 carry) = Inr
      (if myAction p \<noteq> PLAYER_ACTION_FOLD
       then two_state (award (int (e + carry)) p) q (pt - int (e + carry)) (ws @ [myUniqueID p]) 0 0 0
       else two_state p (award (int (e + carry)) q) (pt - int (e + carry)) (ws @ [myUniqueID q]) 0 0 0)"
    unfolding level sum Let_def using assms(1) nf pq(3) by (auto simp: pay)
  show "pot_level d 1 (two_state p q pt ws 0 e carry) = Inr
      (if myAction q \<noteq> PLAYER_ACTION_FOLD
       then two_state p (award (int (e + carry)) q) (pt - int (e + carry)) (ws @ [myUniqueID q]) 0 0 0
       else two_state (award (int (e + carry)) p) q (pt - int (e + carry)) (ws @ [myUniqueID p]) 0 0 0)"
    unfolding level sum Let_def using assms(1) nf pq(3) by (auto simp: pay)
qed

lemma showdown_share_decide:
  assumes "\<not> (myAction p = PLAYER_ACTION_FOLD \<and> myAction q = PLAYER_ACTION_FOLD)"
  shows "showdown_share p q a b =
    (case decide p q of
       First \<Rightarrow> (if myAction q = PLAYER_ACTION_FOLD then a + b else a + min a b)
     | Second \<Rightarrow> (if myAction p = PLAYER_ACTION_FOLD then 0 else a - min a b)
     | Tie \<Rightarrow> a)"
    and "showdown_share q p b a =
    (case decide p q of
       First \<Rightarrow> (if myAction q = PLAYER_ACTION_FOLD then 0 else b - min a b)
     | Second \<Rightarrow> (if myAction p = PLAYER_ACTION_FOLD then a + b else b + min a b)
     | Tie \<Rightarrow> b)"
  using assms by (auto simp: showdown_share_def decide_def)

text \<open>The two levels pay each seat its share and leave the pot empty.\<close>

definition opponents :: "local_player \<Rightarrow> local_player \<Rightarrow> bool" where
  "opponents p q \<longleftrightarrow> myActiveStatus p \<and> myActiveStatus q \<and> myUniqueID p \<noteq> myUniqueID q \<and>
     0 \<le> myCardsValueInt p \<and> 0 \<le> myCardsValueInt q \<and>
     \<not> (myAction p = PLAYER_ACTION_FOLD \<and> myAction q = PLAYER_ACTION_FOLD)"

lemma opponents_award [simp]:
  "opponents (award v p) q = opponents p q" "opponents p (award v q) = opponents p q"
  by (simp_all add: opponents_def)

lemma last_level_second:
  assumes "opponents p q" "0 < e" "e + carry < 2 ^ 31"
  shows "pot_level d 1 (two_state p q pt ws 0 e carry) = Inr
      (if myAction q \<noteq> PLAYER_ACTION_FOLD
       then two_state p (award (int (e + carry)) q) (pt - int (e + carry)) (ws @ [myUniqueID q]) 0 0 0
       else two_state (award (int (e + carry)) p) q (pt - int (e + carry)) (ws @ [myUniqueID p]) 0 0 0)"
  using assms by (intro last_level(2)) (auto simp: opponents_def)

lemma last_level_first:
  assumes "opponents p q" "0 < e" "e + carry < 2 ^ 31"
  shows "pot_level d 1 (two_state p q pt ws e 0 carry) = Inr
      (if myAction p \<noteq> PLAYER_ACTION_FOLD
       then two_state (award (int (e + carry)) p) q (pt - int (e + carry)) (ws @ [myUniqueID p]) 0 0 0
       else two_state p (award (int (e + carry)) q) (pt - int (e + carry)) (ws @ [myUniqueID q]) 0 0 0)"
  using assms by (intro last_level(1)) (auto simp: opponents_def)

definition settles :: "nat \<Rightarrow> nat list \<Rightarrow> level_state \<Rightarrow> local_player \<Rightarrow> local_player \<Rightarrow> bool" where
  "settles d is s p q \<longleftrightarrow> (\<exists>ws. pot_levels d is s = Inr (two_state p q 0 ws 0 0 0))"

lemma settlesI: "pot_level d i s = Inr s' \<Longrightarrow> settles d is s' p q \<Longrightarrow> settles d (i # is) s p q"
  by (simp add: settles_def)

lemma settles_done: "settles d [] (two_state p q 0 ws 0 0 0) p q"
  by (auto simp: settles_def)

lemma second_level:
  assumes "opponents p q" "int e + int carry = pt" "e + carry < 2 ^ 31" "e = 0 \<longrightarrow> carry = 0"
  shows "settles d [1] (two_state p q pt ws e 0 carry)
      (if myAction p \<noteq> PLAYER_ACTION_FOLD then award pt p else p)
      (if myAction p \<noteq> PLAYER_ACTION_FOLD then q else award pt q)"
    and "settles d [1] (two_state p q pt ws 0 e carry)
      (if myAction q \<noteq> PLAYER_ACTION_FOLD then p else award pt p)
      (if myAction q \<noteq> PLAYER_ACTION_FOLD then award pt q else q)"
proof -
  have "settles d [1] (two_state p q pt ws e 0 carry)
      (if myAction p \<noteq> PLAYER_ACTION_FOLD then award pt p else p)
      (if myAction p \<noteq> PLAYER_ACTION_FOLD then q else award pt q) \<and>
    settles d [1] (two_state p q pt ws 0 e carry)
      (if myAction q \<noteq> PLAYER_ACTION_FOLD then p else award pt p)
      (if myAction q \<noteq> PLAYER_ACTION_FOLD then award pt q else q)"
  proof (cases "e = 0")
    case True
    then show ?thesis
      using assms pot_level_two_skip [of 0 0 1 d p q 0 ws 0] by (simp add: settles_def) blast
  next
    case False
    then show ?thesis
      using last_level_first [OF assms(1) _ assms(3), of d pt ws]
        last_level_second [OF assms(1) _ assms(3), of d pt ws] assms(2)
      by (auto simp: settles_def)
  qed
  then show "settles d [1] (two_state p q pt ws e 0 carry)
      (if myAction p \<noteq> PLAYER_ACTION_FOLD then award pt p else p)
      (if myAction p \<noteq> PLAYER_ACTION_FOLD then q else award pt q)"
    and "settles d [1] (two_state p q pt ws 0 e carry)
      (if myAction q \<noteq> PLAYER_ACTION_FOLD then p else award pt p)
      (if myAction q \<noteq> PLAYER_ACTION_FOLD then award pt q else q)" by simp_all
qed

lemma two_levels:
  assumes opp: "opponents p q" and small: "a + b < 2 ^ 31"
  shows "settles d [0, 1] (two_state p q (int a + int b) [] a b 0)
    (award (int (showdown_share p q a b)) p) (award (int (showdown_share q p b a)) q)"
proof (cases "min a b = 0")
  case True
  have nf: "\<not> (myAction p = PLAYER_ACTION_FOLD \<and> myAction q = PLAYER_ACTION_FOLD)"
    using opp by (simp add: opponents_def)
  have skip: "pot_level d 0 (two_state p q (int a + int b) [] a b 0) =
      Inr (two_state p q (int a + int b) [] a b 0)"
    using True by (intro pot_level_two_skip) auto
  consider "b = 0" | "a = 0" using True by linarith
  then show ?thesis
  proof cases
    case 1
    show ?thesis
      using second_level(1) [OF opp, of a 0 "int a" d "[]"] small nf 1
      by (intro settlesI [OF skip])
        (auto simp: showdown_share_decide [OF nf] decide_def split: if_splits)
  next
    case 2
    show ?thesis
      using second_level(2) [OF opp, of b 0 "int b" d "[]"] small nf 2
      by (intro settlesI [OF skip])
        (auto simp: showdown_share_decide [OF nf] decide_def split: if_splits)
  qed
next
  case False
  define m where "m = min a b"
  have m: "0 < m" "2 * m < 2 ^ 31" "m = min a b" "m \<le> a" "m \<le> b" using False small by (auto simp: m_def)
  have pq: "myActiveStatus p" "myActiveStatus q" "myUniqueID p \<noteq> myUniqueID q"
    "0 \<le> myCardsValueInt p" "0 \<le> myCardsValueInt q"
    "\<not> (myAction p = PLAYER_ACTION_FOLD \<and> myAction q = PLAYER_ACTION_FOLD)"
    using opp by (simp_all add: opponents_def)
  note first = first_level [OF m(1-3) pq, of d "int a + int b"]
  note share = showdown_share_decide [OF pq(6), where a = a and b = b, folded m(3)]
  obtain e where ab: "a = m \<and> b = m + e \<or> b = m \<and> a = m + e"
    using m by (metis le_add_diff_inverse min_def)
  show ?thesis
  proof (cases "decide p q")
    case First
    then have np: "myAction p \<noteq> PLAYER_ACTION_FOLD" using pq(6) by (auto simp: decide_def split: if_splits)
    note f = first [unfolded First outcome.case] and sh = share [unfolded First outcome.case]
    show ?thesis using ab
    proof
      assume "a = m \<and> b = m + e"
      then show ?thesis
        unfolding sh using second_level(2) [of "award (int (2 * m)) p" q e 0 "int e" d "[myUniqueID p]"] opp small
        by (intro settlesI [OF f]) (auto simp: np split: if_splits)
    next
      assume "b = m \<and> a = m + e"
      then show ?thesis
        unfolding sh using second_level(1) [OF opp, of e "2 * m" "2 * int m + int e" d "[]"]
          second_level(2) [of "award (int (2 * m)) p" q 0 0 0 d "[myUniqueID p]"] opp small np m(1)
        by (intro settlesI [OF f]) (auto split: if_splits)
    qed
  next
    case Second
    then have nq: "myAction q \<noteq> PLAYER_ACTION_FOLD" by (auto simp: decide_def split: if_splits)
    note f = first [unfolded Second outcome.case] and sh = share [unfolded Second outcome.case]
    show ?thesis using ab
    proof
      assume "b = m \<and> a = m + e"
      then show ?thesis
        unfolding sh using second_level(1) [of p "award (int (2 * m)) q" e 0 "int e" d "[myUniqueID q]"] opp small
        by (intro settlesI [OF f]) (auto simp: nq split: if_splits)
    next
      assume "a = m \<and> b = m + e"
      then show ?thesis
        unfolding sh using second_level(2) [OF opp, of e "2 * m" "2 * int m + int e" d "[]"]
          second_level(1) [of p "award (int (2 * m)) q" 0 0 0 d "[myUniqueID q]"] opp small nq m(1)
        by (intro settlesI [OF f]) (auto split: if_splits)
    qed
  next
    case Tie
    then have np: "myAction p \<noteq> PLAYER_ACTION_FOLD" "myAction q \<noteq> PLAYER_ACTION_FOLD"
      by (auto simp: decide_def split: if_splits)
    note f = first [unfolded Tie outcome.case] and sh = share [unfolded Tie outcome.case]
    show ?thesis unfolding sh using np ab opp small
        second_level(1) [of "award (int m) p" "award (int m) q" e 0 "int e" d "[myUniqueID p, myUniqueID q]"]
        second_level(2) [of "award (int m) p" "award (int m) q" e 0 "int e" d "[myUniqueID p, myUniqueID q]"]
      by (intro settlesI [OF f]) (auto split: if_splits)
  qed
qed

lemma distributePot_two:
  assumes "heads_up t p q a b"
    and "\<not> (myAction p = PLAYER_ACTION_FOLD \<and> myAction q = PLAYER_ACTION_FOLD)"
  shows "\<exists>ws. distributePot d t = Inr (t\<lparr>seatsList :=
      [award (int (showdown_share p q a b)) (reset_won p),
       award (int (showdown_share q p b a)) (reset_won q)], winners := ws, pot := 0\<rparr>)"
proof -
  have len: "[0..<length (seatsList t)] = [0, 1]"
    using assms(1) by (simp add: heads_up_def upt_two numeral_2_eq_2 [symmetric])
  have share: "showdown_share (reset_won p) (reset_won q) a b = showdown_share p q a b"
    "showdown_share (reset_won q) (reset_won p) b a = showdown_share q p b a"
    by (simp_all add: showdown_share_def)
  have "opponents (reset_won p) (reset_won q)" "a + b < 2 ^ 31"
    using assms by (simp_all add: heads_up_def opponents_def)
  from two_levels [OF this, of d] obtain ws where
    "pot_levels d [0, 1] (start_level t) =
      Inr (two_state (award (int (showdown_share p q a b)) (reset_won p))
             (award (int (showdown_share q p b a)) (reset_won q)) 0 ws 0 0 0)"
    using start_level_heads_up [OF assms(1)] by (auto simp: settles_def two_state_def share)
  then show ?thesis
    unfolding distributePot_def Let_def len start_level_def
    by (auto simp: settle_rest_def Let_def)
qed

text \<open>C3: Heads up, \<open>distributePot\<close> implements the showdown rules: it never fails while a player
  is left in the hand, it empties the pot, and it pays each seat exactly its share, whatever the
  order of the seats, the two amounts and the dealer. A folded player gets nothing and his
  opponent the whole pot; the better hand wins what both have put in and the unmatched rest goes
  back; equal hands split.\<close>

theorem heads_up_showdown:
  assumes "heads_up t p q a b"
    and "\<not> (myAction p = PLAYER_ACTION_FOLD \<and> myAction q = PLAYER_ACTION_FOLD)"
  shows "\<exists>t'. distributePot d t = Inr t' \<and> pot t' = 0 \<and>
    map myCash (seatsList t') =
      [myCash p + int (showdown_share p q a b), myCash q + int (showdown_share q p b a)] \<and>
    map myLastMoneyWon (seatsList t') =
      [int (showdown_share p q a b), int (showdown_share q p b a)]"
  using distributePot_two [OF assms, of d] by (auto simp: award_def reset_won_def)

definition sample_table :: table where
  "sample_table = \<lparr> seatsList =
       [(new_player 0 3 PLAYER_TYPE_HUMAN ''A'' 400 True True BUTTON_DEALER)\<lparr>myRoundStartCash := 1000, myCardsValueInt := 300\<rparr>,
        (new_player 1 8 PLAYER_TYPE_COMPUTER ''B'' 0 True True BUTTON_BIG_BLIND)\<lparr>myRoundStartCash := 250, myCardsValueInt := 900\<rparr>],
     activePlayerList = [0, 1], runningPlayerList = [], boardCards = [], pot = 850, sets = 0,
     allInCondition = True, lastActionPlayerID = 3, winners = [], playerNeedToShowCards = [] \<rparr>"

theorem heads_up_showdown_witness:
  "\<exists>t'. distributePot 3 sample_table = Inr t' \<and> map myCash (seatsList t') = [750, 500]"
proof -
  let ?p = "seatsList sample_table ! 0" and ?q = "seatsList sample_table ! 1"
  have h: "heads_up sample_table ?p ?q 600 250"
    by (simp add: heads_up_def sample_table_def new_player_def)
  have nf: "\<not> (myAction ?p = PLAYER_ACTION_FOLD \<and> myAction ?q = PLAYER_ACTION_FOLD)"
    by (simp add: sample_table_def new_player_def)
  have "[myCash ?p + int (showdown_share ?p ?q 600 250), myCash ?q + int (showdown_share ?q ?p 250 600)]
      = [750, 500]"
    by (simp add: showdown_share_def sample_table_def new_player_def)
  then show ?thesis using heads_up_showdown [OF h nf, of 3] by auto
qed

text \<open>The heads-up distribution conserves chips: the cash of the two seats together with the pot
  is the same before and after.\<close>

theorem heads_up_conserves:
  assumes "heads_up t p q a b"
    and "\<not> (myAction p = PLAYER_ACTION_FOLD \<and> myAction q = PLAYER_ACTION_FOLD)"
    and "distributePot d t = Inr t'"
  shows "sum_list (map myCash (seatsList t')) + pot t' = sum_list (map myCash (seatsList t)) + pot t"
proof -
  have "int (showdown_share p q a b) + int (showdown_share q p b a) = int a + int b"
    using assms(2) by (auto simp: showdown_share_def)
  then show ?thesis
    using distributePot_two [OF assms(1,2), of d] assms(1,3)
    by (auto simp: heads_up_def award_def)
qed

theorem heads_up_conserves_witness:
  "\<exists>t'. distributePot 3 sample_table = Inr t' \<and> sum_list (map myCash (seatsList t')) + pot t' = 1250"
proof -
  let ?p = "seatsList sample_table ! 0" and ?q = "seatsList sample_table ! 1"
  have h: "heads_up sample_table ?p ?q 600 250"
    by (simp add: heads_up_def sample_table_def new_player_def)
  have nf: "\<not> (myAction ?p = PLAYER_ACTION_FOLD \<and> myAction ?q = PLAYER_ACTION_FOLD)"
    by (simp add: sample_table_def new_player_def)
  obtain t' where t': "distributePot 3 sample_table = Inr t'"
    using distributePot_two [OF h nf, of 3] by blast
  then show ?thesis
    using heads_up_conserves [OF h nf t'] by (simp add: sample_table_def new_player_def)
qed

section \<open>Collecting keeps the chips\<close>

lemma collectSets_eq: "collectSets t = t\<lparr>sets := sum_list (map mySet (seatsList t))\<rparr>"
proof -
  have "fold (\<lambda>p s. s + mySet p) ps n = n + sum_list (map mySet ps)" for ps :: "local_player list" and n
    by (induction ps arbitrary: n) auto
  then show ?thesis by (simp add: collectSets_def)
qed

definition table_chips :: "table \<Rightarrow> int" where
  "table_chips t = sum_list (map chips (seatsList t)) + pot t"

text \<open>Collecting the sets into the pot conserves the chips on the table: \<open>collectSets\<close> followed
  by \<open>collectPot\<close> leaves cash, sets and pot with the same total, empties every set and keeps every
  player's cash.\<close>

theorem collect_conserves:
  "table_chips (collectPot (collectSets t)) = table_chips t \<and>
   map mySet (seatsList (collectPot (collectSets t))) = map (\<lambda>p. 0) (seatsList t) \<and>
   map myCash (seatsList (collectPot (collectSets t))) = map myCash (seatsList t) \<and>
   pot (collectPot (collectSets t)) = pot t + sum_list (map mySet (seatsList t))"
proof -
  have "sum_list (map (\<lambda>p. chips (setMySetNull p)) ps) = sum_list (map chips ps) - sum_list (map mySet ps)"
    for ps :: "local_player list"
    by (induction ps) (auto simp: chips_def setMySetNull_def)
  then show ?thesis
    by (auto simp: collectSets_eq collectPot_def table_chips_def setMySetNull_def o_def)
qed

end
