(* ===== verification/Show_Cards.thy ===== *)
theory Show_Cards
  imports Board
begin

text \<open>
  Who shows his cards at the end of a hand: \<open>LocalBoard::determinePlayerNeedToShowCards\<close>
  (\<open>src/src/engine/local_engine/localboard.cpp\<close>) and \<open>LocalPlayer::checkIfINeedToShowCards\<close>.
\<close>

section \<open>The level list\<close>

text \<open>One pass of a player with hand value \<open>v\<close> and contribution \<open>c\<close> over the list of levels. The
  flag is \<open>playerAdded\<close>.\<close>

fun visit_levels :: "int \<Rightarrow> int \<Rightarrow> (int \<times> int) list \<Rightarrow> (int \<times> int) list \<times> bool" where
  "visit_levels v c [] = ([], False)"
| "visit_levels v c ((lv, lc) # rest) =
    (if v > lv then
       (if rest = [] then ([(lv, lc), (v, c)], True)
        else (let (r, added) = visit_levels v c rest in ((lv, lc) # r, added)))
     else if v = lv then
       (if rest = [] \<or> c > snd (hd rest) then ((lv, if c > lc then c else lc) # rest, True)
        else ((lv, lc) # rest, False))
     else
       (if c > lc then ((v, c) # (lv, lc) # rest, True)
        else (let (r, added) = visit_levels v c rest in ((lv, lc) # r, added))))"

definition hand_contribution :: "local_player \<Rightarrow> int" where
  "hand_contribution p = max 0 (myRoundStartCash p - myCash p)"

definition show_visit ::
  "local_player \<Rightarrow> (int \<times> int) list \<times> nat list \<Rightarrow> (int \<times> int) list \<times> nat list" where
  "show_visit p s = (case s of (level, ids) \<Rightarrow>
     if myAction p \<noteq> PLAYER_ACTION_FOLD then
       (let (level', playerAdded) = visit_levels (myCardsValueInt p) (hand_contribution p) level;
            ids1 = (if playerAdded then ids @ [myUniqueID p] else ids)
        in (level', if \<not> playerAdded then ids1 @ [myUniqueID p] else ids1))
     else (level, ids))"

definition active_players :: "table \<Rightarrow> local_player list" where
  "active_players t = map (\<lambda>i. seatsList t ! i) (activePlayerList t)"

text \<open>The player who shows first: the last to act, or the first who has not folded.\<close>

definition first_to_show :: "nat \<Rightarrow> local_player list \<Rightarrow> nat option" where
  "first_to_show lastId ps =
    (case first_some (\<lambda>i. if myUniqueID (ps ! i) = lastId \<and>
                             myAction (ps ! i) \<noteq> PLAYER_ACTION_FOLD then Some i else None)
            [0..<length ps] of
       Some i \<Rightarrow> Some i
     | None \<Rightarrow> first_some (\<lambda>i. if myAction (ps ! i) \<noteq> PLAYER_ACTION_FOLD then Some i else None)
                 [0..<length ps])"

definition shown_in_turn :: "local_player list \<Rightarrow> nat \<Rightarrow> nat list" where
  "shown_in_turn ps k =
     snd (fold (\<lambda>i. show_visit (ps ! ((k + 1 + i) mod length ps))) [0..<length ps]
            ([(myCardsValueInt (ps ! k), hand_contribution (ps ! k))], [myUniqueID (ps ! k)]))"

definition determinePlayerNeedToShowCards :: "table \<Rightarrow> table" where
  "determinePlayerNeedToShowCards t =
    (let ps = active_players t in
     if allInCondition t then
       t\<lparr>playerNeedToShowCards :=
           remdups (sort (map myUniqueID (filter (\<lambda>p. myAction p \<noteq> PLAYER_ACTION_FOLD) ps)))\<rparr>
     else
       (case first_to_show (lastActionPlayerID t) ps of
          None \<Rightarrow> t\<lparr>playerNeedToShowCards := []\<rparr>
        | Some k \<Rightarrow> t\<lparr>playerNeedToShowCards := remdups (sort (shown_in_turn ps k))\<rparr>))"

definition checkIfINeedToShowCards :: "local_player \<Rightarrow> table \<Rightarrow> bool" where
  "checkIfINeedToShowCards p t \<longleftrightarrow>
     first_some (\<lambda>uid. if uid = myUniqueID p then Some True else None) (playerNeedToShowCards t) = Some True"

section \<open>Everybody who has not folded shows\<close>

lemma show_visit_ids:
  "snd (show_visit p (level, ids)) =
     ids @ (if myAction p \<noteq> PLAYER_ACTION_FOLD then [myUniqueID p] else [])"
  by (simp add: show_visit_def split: prod.split)

lemma fold_show_visit:
  "snd (fold (\<lambda>i. show_visit (f i)) ks s) =
   snd s @ map (\<lambda>i. myUniqueID (f i)) (filter (\<lambda>i. myAction (f i) \<noteq> PLAYER_ACTION_FOLD) ks)"
proof (induction ks arbitrary: s)
  case Nil
  then show ?case by simp
next
  case (Cons i ks)
  have "snd (show_visit (f i) s) = snd s @ (if myAction (f i) \<noteq> PLAYER_ACTION_FOLD then [myUniqueID (f i)] else [])"
    using show_visit_ids [of "f i" "fst s" "snd s"] by simp
  then show ?case using Cons.IH [of "show_visit (f i) s"] by simp
qed

lemma rotation_covers:
  assumes "(n :: nat) > 0"
  shows "(\<lambda>i. (k + 1 + i) mod n) ` {0..<n} = {0..<n}"
proof
  show "(\<lambda>i. (k + 1 + i) mod n) ` {0..<n} \<subseteq> {0..<n}" using assms by auto
  show "{0..<n} \<subseteq> (\<lambda>i. (k + 1 + i) mod n) ` {0..<n}"
  proof
    fix j assume j: "j \<in> {0..<n}"
    let ?i = "(j + n * (k + 1) - (k + 1)) mod n"
    have "k + 1 \<le> j + n * (k + 1)" using assms by (cases n) auto
    then have "(k + 1 + ?i) mod n = (j + n * (k + 1)) mod n"
      by (metis mod_add_right_eq le_add_diff_inverse)
    also have "\<dots> = j" using j by (simp only: mod_mult_self2) simp
    finally have "j = (k + 1 + ?i) mod n" by simp
    moreover have "?i \<in> {0..<n}" using assms by simp
    ultimately show "j \<in> (\<lambda>i. (k + 1 + i) mod n) ` {0..<n}" by blast
  qed
qed

definition showdown_ids :: "local_player list \<Rightarrow> nat list" where
  "showdown_ids ps = map myUniqueID (filter (\<lambda>p. myAction p \<noteq> PLAYER_ACTION_FOLD) ps)"

lemma first_to_show_Some:
  assumes "first_to_show l ps = Some k"
  shows "k < length ps \<and> myAction (ps ! k) \<noteq> PLAYER_ACTION_FOLD"
  using assms
  by (auto simp: first_to_show_def split: option.splits if_splits dest!: first_some_SomeD)

lemma first_to_show_None:
  assumes "first_to_show l ps = None"
  shows "showdown_ids ps = []"
proof -
  have "\<forall>i < length ps. myAction (ps ! i) = PLAYER_ACTION_FOLD"
    using assms by (auto simp: first_to_show_def first_some_None_iff split: option.splits if_splits)
  then show ?thesis by (auto simp: showdown_ids_def filter_empty_conv in_set_conv_nth)
qed

lemma shown_in_turn_set:
  assumes "k < length ps" "myAction (ps ! k) \<noteq> PLAYER_ACTION_FOLD"
  shows "set (shown_in_turn ps k) = set (showdown_ids ps)"
proof -
  let ?n = "length ps" and ?f = "\<lambda>i. ps ! ((k + 1 + i) mod length ps)"
  have "?f ` {0..<?n} = (!) ps ` {0..<?n}"
    using rotation_covers [of ?n k] assms(1) by (metis image_image length_greater_0_conv list.size(3) not_less_zero)
  then have players: "?f ` {0..<?n} = set ps" by (auto simp: set_conv_nth)
  have "set (shown_in_turn ps k) = insert (myUniqueID (ps ! k))
      (myUniqueID ` {p \<in> ?f ` {0..<?n}. myAction p \<noteq> PLAYER_ACTION_FOLD})"
    by (auto simp: shown_in_turn_def fold_show_visit)
  also have "\<dots> = set (showdown_ids ps)"
    unfolding players using assms by (auto simp: showdown_ids_def)
  finally show ?thesis .
qed

lemma sorted_distinct_set_unique_nat:
  "set xs = set ys \<Longrightarrow> remdups (sort xs) = remdups (sort (ys :: nat list))"
  by (intro sorted_distinct_set_unique) (simp_all add: sorted_remdups)

lemma everybody_shows:
  "playerNeedToShowCards (determinePlayerNeedToShowCards t) =
     remdups (sort (showdown_ids (active_players t)))"
proof (cases "allInCondition t")
  case True
  then show ?thesis by (simp add: determinePlayerNeedToShowCards_def Let_def showdown_ids_def)
next
  case False
  show ?thesis
  proof (cases "first_to_show (lastActionPlayerID t) (active_players t)")
    case None
    with False show ?thesis
      by (simp add: determinePlayerNeedToShowCards_def Let_def first_to_show_None)
  next
    case (Some k)
    then have "set (shown_in_turn (active_players t) k) = set (showdown_ids (active_players t))"
      by (intro shown_in_turn_set) (auto dest: first_to_show_Some)
    then have "remdups (sort (shown_in_turn (active_players t) k)) =
        remdups (sort (showdown_ids (active_players t)))"
      by (rule sorted_distinct_set_unique_nat)
    with False Some show ?thesis by (simp add: determinePlayerNeedToShowCards_def Let_def)
  qed
qed

text \<open>C37: The players who have to show their cards are exactly the active players who have not
  folded, each listed once in ascending order, in the all-in case and in the case that orders them
  by level alike. In particular a player at a showdown never gets to muck a losing hand.\<close>

theorem all_unfolded_show:
  "playerNeedToShowCards (determinePlayerNeedToShowCards t) =
     remdups (sort (showdown_ids (active_players t)))"
  by (rule everybody_shows)

end
