(* ===== verification/Hand.thy ===== *)
theory Hand
  imports Show_Cards Cards_Value
begin

text \<open>
  A hand of the local engine (\<open>LocalHand\<close>, \<open>src/src/engine/local_engine/localhand.cpp\<close>): dealing,
  the buttons, the blinds, the creation of the betting rounds and \<open>switchRounds\<close>. The deck is the
  array that \<open>Tools::ShuffleArrayNonDeterministic\<close> has shuffled, a parameter of the constructor.
  The calls to the user interface and to the log do not change the game and are left out; the
  debug tables (\<open>DEBUG_MODE\<close> is 0) are not modelled.
\<close>

section \<open>State\<close>

record local_hand =
  board :: table
  myBeRo :: "bero list"
  handID :: int
  startQuantityPlayers :: int
  handDealerPosition :: nat
  smallBlindPosition :: nat
  bigBlindPosition :: nat
  currentRound :: GameState
  roundBeforePostRiver :: GameState
  smallBlind :: int
  startCash :: int
  previousPlayerID :: int
  handLastActionPlayerID :: nat
  handAllInCondition :: bool
  cardsShown :: bool
  highestCardsValue :: int

abbreviation seats :: "local_hand \<Rightarrow> local_player list" where
  "seats h \<equiv> seatsList (board h)"

definition UINT_MAX :: int where
  "UINT_MAX = 2 ^ 32 - 1"

definition map_seats :: "(local_player \<Rightarrow> local_player) \<Rightarrow> table \<Rightarrow> table" where
  "map_seats f t = t\<lparr>seatsList := map f (seatsList t)\<rparr>"

definition on_seat :: "nat \<Rightarrow> (local_player \<Rightarrow> local_player) \<Rightarrow> table \<Rightarrow> table" where
  "on_seat i f t = t\<lparr>seatsList := update_seat i f (seatsList t)\<rparr>"

section \<open>Searching the player lists\<close>

text \<open>The iterator into a player list is a position of the list, \<open>None\<close> is \<open>end()\<close>.\<close>

definition position_with_id :: "nat \<Rightarrow> local_player list \<Rightarrow> nat list \<Rightarrow> nat option" where
  "position_with_id uid ps xs =
     first_some (\<lambda>k. if myUniqueID (ps ! (xs ! k)) = uid then Some k else None) [0..<length xs]"

definition getSeatIt :: "nat \<Rightarrow> table \<Rightarrow> nat option" where
  "getSeatIt uid t = seat_with_id uid (seatsList t)"

definition getActivePlayerIt :: "nat \<Rightarrow> table \<Rightarrow> nat option" where
  "getActivePlayerIt uid t = position_with_id uid (seatsList t) (activePlayerList t)"

definition getRunningPlayerIt :: "nat \<Rightarrow> table \<Rightarrow> nat option" where
  "getRunningPlayerIt uid t = position_with_id uid (seatsList t) (runningPlayerList t)"

text \<open>The cyclic successor of a position.\<close>

definition after :: "nat \<Rightarrow> nat \<Rightarrow> nat" where
  "after n k = (if Suc k = n then 0 else Suc k)"

text \<open>The first active player after seat \<open>it\<close>, searched over \<open>n\<close> seats.\<close>

fun next_active :: "nat \<Rightarrow> nat \<Rightarrow> table \<Rightarrow> nat option" where
  "next_active 0 it t = None"
| "next_active (Suc n) it t =
    (let it' = after (length (seatsList t)) it in
     case getActivePlayerIt (myUniqueID (seatsList t ! it')) t of
       Some k \<Rightarrow> Some k
     | None \<Rightarrow> next_active n it' t)"

section \<open>Dealing\<close>

definition deal_player :: "int list \<Rightarrow> nat \<Rightarrow> local_player \<Rightarrow> local_player" where
  "deal_player deck k p =
    (let hole = [deck ! (2 * k + 5), deck ! (2 * k + 1 + 5)];
         (value, bestHandPos) = cardsValue (hole @ take 5 deck)
     in p\<lparr>myCards := hole, myCardsValueInt := value, myBestHandPosition := bestHandPos,
          myRoundStartCash := myCash p\<rparr>)"

fun deal_players :: "int list \<Rightarrow> nat list \<Rightarrow> nat \<Rightarrow> local_player list
    \<Rightarrow> engine_error + local_player list" where
  "deal_players deck [] k ps = Inr ps"
| "deal_players deck (i # rest) k ps =
    (if 2 * k + 1 + 5 \<ge> 52 then Inl ERR_SEAT_NOT_FOUND
     else deal_players deck rest (Suc k) (update_seat i (deal_player deck k) ps))"

section \<open>Buttons and blinds\<close>

definition set_button :: "Button \<Rightarrow> local_player \<Rightarrow> local_player" where
  "set_button b p = p\<lparr>myButton := b\<rparr>"

definition assignButtons :: "local_hand \<Rightarrow> engine_error + local_hand" where
  "assignButtons h =
    (let t0 = map_seats (set_button BUTTON_NONE) (board h) in
     case getSeatIt (handDealerPosition h) t0 of
       None \<Rightarrow> Inl ERR_SEAT_NOT_FOUND
     | Some d \<Rightarrow>
         (let t1 = on_seat d (set_button BUTTON_DEALER) t0 in
          case next_active (length (seatsList t1)) d t1 of
            None \<Rightarrow> Inl ERR_NEXT_ACTIVE_PLAYER_NOT_FOUND
          | Some k \<Rightarrow>
              (let active = activePlayerList t1;
                   i = active ! k;
                   j = active ! after (length active) k;
                   id_i = myUniqueID (seatsList t1 ! i);
                   id_j = myUniqueID (seatsList t1 ! j);
                   ring = length active > 2;
                   t2 = on_seat i (set_button (if ring then BUTTON_SMALL_BLIND else BUTTON_BIG_BLIND)) t1;
                   t3 = on_seat j (set_button (if ring then BUTTON_BIG_BLIND else BUTTON_SMALL_BLIND)) t2
               in Inr (h\<lparr>board := t3\<lparr>lastActionPlayerID := id_i\<rparr>, handLastActionPlayerID := id_i,
                         smallBlindPosition := (if ring then id_i else id_j),
                         bigBlindPosition := (if ring then id_j else id_i)\<rparr>))))"

definition post_blind :: "Button \<Rightarrow> int \<Rightarrow> local_player \<Rightarrow> local_player" where
  "post_blind b amount p =
    (if myButton p = b then
       (if myCash p \<le> amount then (setMySet (myCash p) p)\<lparr>myAction := PLAYER_ACTION_ALLIN\<rparr>
        else setMySet amount p)
     else p)"

definition post_blinds :: "Button \<Rightarrow> int \<Rightarrow> table \<Rightarrow> table" where
  "post_blinds b amount t = fold (\<lambda>i. on_seat i (post_blind b amount)) (runningPlayerList t) t"

definition setBlinds :: "local_hand \<Rightarrow> local_hand" where
  "setBlinds h = h\<lparr>board := post_blinds BUTTON_BIG_BLIND (2 * smallBlind h)
                             (post_blinds BUTTON_SMALL_BLIND (smallBlind h) (board h))\<rparr>"

section \<open>The betting rounds of a hand\<close>

definition id_with_button :: "Button \<Rightarrow> table \<Rightarrow> nat option" where
  "id_with_button b t =
     first_some (\<lambda>i. if myButton (seatsList t ! i) = b then Some (myUniqueID (seatsList t ! i)) else None)
       (activePlayerList t)"

definition new_bero :: "table \<Rightarrow> nat \<Rightarrow> int \<Rightarrow> GameState \<Rightarrow> engine_error + bero" where
  "new_bero t dP sB gS =
    (case id_with_button BUTTON_BIG_BLIND t of
       None \<Rightarrow> Inl ERR_ACTIVE_PLAYER_NOT_FOUND
     | Some bb \<Rightarrow>
         (case id_with_button BUTTON_SMALL_BLIND t of
            None \<Rightarrow> Inl ERR_ACTIVE_PLAYER_NOT_FOUND
          | Some sb \<Rightarrow>
              Inr \<lparr> myBeRoID = gS, beroDealerPosition = dP, beroSmallBlind = sB,
                    smallBlindPositionId = sb, bigBlindPositionId = bb, highestSet = 0,
                    minimumRaise = 2 * sB, fullBetRule = False, firstRound = True,
                    firstRunGui = True, currentPlayersTurnId = 0, firstRoundLastPlayersTurnId = 0 \<rparr>))"

definition new_bero_preflop :: "table \<Rightarrow> nat \<Rightarrow> int \<Rightarrow> engine_error + bero" where
  "new_bero_preflop t dP sB =
     map_sum id (\<lambda>b. b\<lparr>highestSet := 2 * beroSmallBlind b\<rparr>) (new_bero t dP sB GAME_STATE_PREFLOP)"

fun all_created :: "(engine_error + bero) list \<Rightarrow> engine_error + bero list" where
  "all_created [] = Inr []"
| "all_created (Inl e # rest) = Inl e"
| "all_created (Inr b # rest) = map_sum id ((#) b) (all_created rest)"

definition createBeRo :: "table \<Rightarrow> nat \<Rightarrow> int \<Rightarrow> engine_error + bero list" where
  "createBeRo t dP sB =
     all_created [new_bero_preflop t dP sB, new_bero t dP sB GAME_STATE_FLOP,
                  new_bero t dP sB GAME_STATE_TURN, new_bero t dP sB GAME_STATE_RIVER,
                  new_bero t dP sB GAME_STATE_POST_RIVER]"

section \<open>The constructor\<close>

text \<open>\<open>highestCardsValue\<close> is the field of the post-river round; the other rounds have none.\<close>

definition deal :: "int list \<Rightarrow> table \<Rightarrow> engine_error + table" where
  "deal deck t =
     map_sum id (\<lambda>ps. t\<lparr>boardCards := take 5 deck, seatsList := ps\<rparr>)
       (deal_players deck (activePlayerList t) 0
          (map (\<lambda>p. p\<lparr>myCardsFlip := False\<rparr>) (seatsList t)))"

definition new_hand :: "int list \<Rightarrow> table \<Rightarrow> int \<Rightarrow> int \<Rightarrow> nat \<Rightarrow> int \<Rightarrow> int
    \<Rightarrow> engine_error + local_hand" where
  "new_hand deck b ident sP dP sB sC =
    (case deal deck b of
       Inl e \<Rightarrow> Inl e
     | Inr t \<Rightarrow>
         (case assignButtons \<lparr> board = t, myBeRo = [], handID = ident, startQuantityPlayers = sP,
                 handDealerPosition = dP, smallBlindPosition = dP, bigBlindPosition = dP,
                 currentRound = GAME_STATE_PREFLOP, roundBeforePostRiver = GAME_STATE_PREFLOP,
                 smallBlind = sB, startCash = sC, previousPlayerID = UINT_MAX,
                 handLastActionPlayerID = 0, handAllInCondition = False, cardsShown = False,
                 highestCardsValue = 0 \<rparr> of
            Inl e \<Rightarrow> Inl e
          | Inr h \<Rightarrow>
              (let h' = setBlinds h in
               map_sum id (\<lambda>bs. h'\<lparr>myBeRo := bs\<rparr>) (createBeRo (board h') dP sB))))"

text \<open>\<open>start\<close> only collects the blinds; \<open>setLastActionPlayerID\<close> writes the board, too.\<close>

definition start :: "local_hand \<Rightarrow> local_hand" where
  "start h = h\<lparr>board := collectSets (board h)\<rparr>"

definition setLastActionPlayerID :: "nat \<Rightarrow> local_hand \<Rightarrow> local_hand" where
  "setLastActionPlayerID uid h =
     h\<lparr>handLastActionPlayerID := uid, board := (board h)\<lparr>lastActionPlayerID := uid\<rparr>\<rparr>"

end
