(* ===== verification/Betting_Round.thy ===== *)
theory Betting_Round
  imports Hand
begin

text \<open>
  The betting rounds: \<open>LocalHand::switchRounds\<close> (\<open>src/src/engine/local_engine/localhand.cpp\<close>),
  \<open>LocalBeRo::run\<close> (\<open>localbero.cpp\<close>), \<open>LocalBeRoPreflop::run\<close> (\<open>localberopreflop.cpp\<close>) and
  \<open>LocalBeRoPostRiver::postRiverRun\<close> (\<open>localberopostriver.cpp\<close>). A round object is the entry of
  \<open>myBeRo\<close> at the number of its round.
\<close>

section \<open>The round objects of a hand\<close>

definition bero_of :: "GameState \<Rightarrow> local_hand \<Rightarrow> bero" where
  "bero_of r h = myBeRo h ! state_code r"

abbreviation current_bero :: "local_hand \<Rightarrow> bero" where
  "current_bero h \<equiv> bero_of (currentRound h) h"

definition update_bero :: "GameState \<Rightarrow> (bero \<Rightarrow> bero) \<Rightarrow> local_hand \<Rightarrow> local_hand" where
  "update_bero r f h = h\<lparr>myBeRo := (myBeRo h)[state_code r := f (myBeRo h ! state_code r)]\<rparr>"

definition on_board :: "(table \<Rightarrow> table) \<Rightarrow> local_hand \<Rightarrow> local_hand" where
  "on_board f h = h\<lparr>board := f (board h)\<rparr>"

definition next_round :: "GameState \<Rightarrow> GameState" where
  "next_round s = (case s of
     GAME_STATE_PREFLOP \<Rightarrow> GAME_STATE_FLOP | GAME_STATE_FLOP \<Rightarrow> GAME_STATE_TURN
   | GAME_STATE_TURN \<Rightarrow> GAME_STATE_RIVER | GAME_STATE_RIVER \<Rightarrow> GAME_STATE_POST_RIVER
   | GAME_STATE_POST_RIVER \<Rightarrow> GAME_STATE_POST_RIVER
   | GAME_STATE_PREFLOP_SMALL_BLIND \<Rightarrow> GAME_STATE_PREFLOP_BIG_BLIND
   | GAME_STATE_PREFLOP_BIG_BLIND \<Rightarrow> GAME_STATE_PREFLOP_BIG_BLIND)"

section \<open>switchRounds\<close>

text \<open>Erasing the players who folded or are all in from the running players. After each erased
  player the turn is given to the player before him in the list that is left; the last such id is
  the second component.\<close>

definition out_of_round :: "local_player \<Rightarrow> bool" where
  "out_of_round p \<longleftrightarrow> myAction p = PLAYER_ACTION_FOLD \<or> myAction p = PLAYER_ACTION_ALLIN"

fun refresh_running :: "local_player list \<Rightarrow> nat list \<Rightarrow> nat list \<Rightarrow> nat option \<Rightarrow> nat list \<times> nat option" where
  "refresh_running ps kept [] turn = (kept, turn)"
| "refresh_running ps kept (i # rest) turn =
    (if out_of_round (ps ! i) then
       refresh_running ps kept rest
         (if kept @ rest \<noteq> []
          then Some (myUniqueID (ps ! (if kept = [] then last rest else last kept)))
          else turn)
     else refresh_running ps (kept @ [i]) rest turn)"

definition refresh_runners :: "local_hand \<Rightarrow> local_hand" where
  "refresh_runners h =
    (let (running, turn) = refresh_running (seats h) [] (runningPlayerList (board h)) None;
         h1 = on_board (\<lambda>t. t\<lparr>runningPlayerList := running\<rparr>) h
     in case turn of
          None \<Rightarrow> h1
        | Some uid \<Rightarrow> update_bero (currentRound h) (\<lambda>b. b\<lparr>currentPlayersTurnId := uid\<rparr>) h1)"

definition allInPlayersCounter :: "table \<Rightarrow> nat" where
  "allInPlayersCounter t =
     length (filter (\<lambda>i. myAction (seatsList t ! i) = PLAYER_ACTION_ALLIN) (activePlayerList t))"

definition nonFoldPlayerCounter :: "table \<Rightarrow> nat" where
  "nonFoldPlayerCounter t =
     length (filter (\<lambda>i. myAction (seatsList t ! i) \<noteq> PLAYER_ACTION_FOLD) (activePlayerList t))"

text \<open>The reasons to stop the betting when all but one player are all in.\<close>

definition runner_has_highest_set :: "local_hand \<Rightarrow> bool" where
  "runner_has_highest_set h \<longleftrightarrow>
     list_ex (\<lambda>i. mySet (seats h ! i) \<ge> highestSet (current_bero h)) (runningPlayerList (board h))"

definition small_all_ins :: "local_hand \<Rightarrow> nat" where
  "small_all_ins h =
     length (filter (\<lambda>i. myAction (seats h ! i) = PLAYER_ACTION_ALLIN \<and> mySet (seats h ! i) \<le> smallBlind h)
       (activePlayerList (board h)))"

definition small_blind_exception :: "local_hand \<Rightarrow> bool" where
  "small_blind_exception h \<longleftrightarrow>
    (case getRunningPlayerIt (smallBlindPositionId (current_bero h)) (board h) of
       None \<Rightarrow> False
     | Some _ \<Rightarrow>
         (case getActivePlayerIt (bigBlindPositionId (current_bero h)) (board h) of
            None \<Rightarrow> False
          | Some k \<Rightarrow>
              currentRound h = GAME_STATE_PREFLOP \<and> firstRound (current_bero h)
              \<and> mySet (seats h ! (activePlayerList (board h) ! k)) \<le> smallBlind h
              \<and> small_all_ins h = allInPlayersCounter (board h)))"

definition heads_up_exception :: "local_hand \<Rightarrow> bool" where
  "heads_up_exception h \<longleftrightarrow>
     list_ex (\<lambda>i. length (activePlayerList (board h)) = 2
                  \<and> myAction (seats h ! i) = PLAYER_ACTION_ALLIN
                  \<and> myButton (seats h ! i) = BUTTON_BIG_BLIND
                  \<and> mySet (seats h ! i) \<le> smallBlind h
                  \<and> currentRound h = GAME_STATE_PREFLOP) (activePlayerList (board h))"

definition all_in_reached :: "local_hand \<Rightarrow> bool" where
  "all_in_reached h \<longleftrightarrow>
     allInPlayersCounter (board h) = nonFoldPlayerCounter (board h)
     \<or> (allInPlayersCounter (board h) + 1 = nonFoldPlayerCounter (board h)
        \<and> (runner_has_highest_set h \<or> small_blind_exception h \<or> heads_up_exception h))"

definition set_all_in :: "local_hand \<Rightarrow> local_hand" where
  "set_all_in h = h\<lparr>handAllInCondition := True, board := (board h)\<lparr>allInCondition := True\<rparr>\<rparr>"

definition detect_end :: "local_hand \<Rightarrow> local_hand" where
  "detect_end h =
    (if nonFoldPlayerCounter (board h) = 1
     then (on_board collectPot h)\<lparr>currentRound := GAME_STATE_POST_RIVER\<rparr>
     else if nonFoldPlayerCounter (board h) \<ge> 2 \<and> all_in_reached h then set_all_in h
     else h)"

definition all_in_routine :: "local_hand \<Rightarrow> local_hand" where
  "all_in_routine h =
    (if handAllInCondition h \<and> nonFoldPlayerCounter (board h) \<ge> 2 then
       (let h1 = on_board collectPot h
        in if currentRound h1 < GAME_STATE_POST_RIVER
           then h1\<lparr>currentRound := next_round (currentRound h1)\<rparr> else h1)
     else h)"

definition remember_round :: "local_hand \<Rightarrow> local_hand" where
  "remember_round h =
    (if currentRound h < GAME_STATE_POST_RIVER then h\<lparr>roundBeforePostRiver := currentRound h\<rparr> else h)"

definition switchRounds :: "local_hand \<Rightarrow> local_hand" where
  "switchRounds h = remember_round (all_in_routine (detect_end (refresh_runners h)))"

section \<open>Whose turn it is\<close>

text \<open>The running player after the one with the given id.\<close>

definition next_running :: "nat \<Rightarrow> table \<Rightarrow> engine_error + nat" where
  "next_running uid t =
    (case getRunningPlayerIt uid t of
       None \<Rightarrow> Inl ERR_RUNNING_PLAYER_NOT_FOUND
     | Some k \<Rightarrow>
         Inr (myUniqueID (seatsList t ! (runningPlayerList t ! after (length (runningPlayerList t)) k))))"

definition all_highest_set :: "bero \<Rightarrow> table \<Rightarrow> bool" where
  "all_highest_set b t \<longleftrightarrow> list_all (\<lambda>i. highestSet b = mySet (seatsList t ! i)) (runningPlayerList t)"

definition clear_actions :: "table \<Rightarrow> table" where
  "clear_actions t = fold (\<lambda>i. on_seat i (\<lambda>p. p\<lparr>myAction := PLAYER_ACTION_NONE\<rparr>)) (runningPlayerList t) t"

definition collect_round :: "table \<Rightarrow> table" where
  "collect_round t = collectPot (collectSets (clear_actions t))"

text \<open>Giving the turn to the current player of round \<open>r\<close>.\<close>

definition give_turn :: "GameState \<Rightarrow> local_hand \<Rightarrow> engine_error + local_hand" where
  "give_turn r h =
    (case getRunningPlayerIt (currentPlayersTurnId (bero_of r h)) (board h) of
       None \<Rightarrow> Inl ERR_RUNNING_PLAYER_NOT_FOUND
     | Some k \<Rightarrow> Inr (on_board (on_seat (runningPlayerList (board h) ! k) (\<lambda>p. p\<lparr>myTurn := True\<rparr>)) h))"

definition end_first_round :: "bero \<Rightarrow> bero" where
  "end_first_round b =
    (if currentPlayersTurnId b = firstRoundLastPlayersTurnId b then b\<lparr>firstRound := False\<rparr> else b)"

section \<open>LocalBeRo::run\<close>

text \<open>The running player before position \<open>k\<close> of the active players, searched over \<open>n\<close> positions.\<close>

definition before :: "nat \<Rightarrow> nat \<Rightarrow> nat" where
  "before n k = (if k = 0 then n - 1 else k - 1)"

fun former_running :: "nat \<Rightarrow> nat \<Rightarrow> table \<Rightarrow> nat option" where
  "former_running 0 k t = None"
| "former_running (Suc n) k t =
    (let k' = before (length (activePlayerList t)) k;
         uid = myUniqueID (seatsList t ! (activePlayerList t ! k'))
     in case getRunningPlayerIt uid t of
          Some _ \<Rightarrow> Some uid
        | None \<Rightarrow> former_running n k' t)"

definition set_first_turn :: "nat \<Rightarrow> bero \<Rightarrow> bero" where
  "set_first_turn uid b = b\<lparr>firstRoundLastPlayersTurnId := uid, currentPlayersTurnId := uid\<rparr>"

definition open_round :: "bool \<Rightarrow> table \<Rightarrow> bero \<Rightarrow> engine_error + bero" where
  "open_round all_in t b =
    (if firstRound b then
       (if all_in then Inr (b\<lparr>firstRound := False\<rparr>)
        else if length (activePlayerList t) > 2 then
          (case getActivePlayerIt (smallBlindPositionId b) t of
             None \<Rightarrow> Inl ERR_ACTIVE_PLAYER_NOT_FOUND
           | Some k \<Rightarrow>
               (case former_running (length (activePlayerList t)) k t of
                  None \<Rightarrow> Inl ERR_FORMER_RUNNING_PLAYER_NOT_FOUND
                | Some uid \<Rightarrow> Inr (set_first_turn uid b)))
        else Inr (set_first_turn (smallBlindPositionId b) b))
     else Inr b)"

definition finish_round :: "GameState \<Rightarrow> local_hand \<Rightarrow> local_hand" where
  "finish_round r h =
    (let h1 = switchRounds (on_board collect_round h)
     in if currentRound h1 < GAME_STATE_POST_RIVER then h1\<lparr>currentRound := next_round r\<rparr> else h1)"

definition run_round :: "GameState \<Rightarrow> local_hand \<Rightarrow> engine_error + local_hand" where
  "run_round r h =
    (if firstRunGui (bero_of r h) then
       Inr ((update_bero r (\<lambda>b. b\<lparr>firstRunGui := False\<rparr>) h)\<lparr>previousPlayerID := UINT_MAX\<rparr>)
     else
       (case open_round (handAllInCondition h) (board h) (bero_of r h) of
          Inl e \<Rightarrow> Inl e
        | Inr b \<Rightarrow>
            (let h1 = update_bero r (\<lambda>_. b) h in
             if \<not> firstRound b \<and> all_highest_set b (board h) then Inr (finish_round r h1)
             else
               (case next_running (currentPlayersTurnId b) (board h) of
                  Inl e \<Rightarrow> Inl e
                | Inr uid \<Rightarrow>
                    map_sum id (update_bero r end_first_round)
                      (give_turn r (update_bero r (\<lambda>b. b\<lparr>currentPlayersTurnId := uid\<rparr>) h1))))))"

section \<open>LocalBeRoPreflop::run\<close>

text \<open>The player before the first to act. The second component tells that nobody can act (heads up
  with both players all in): the round is marked as over and \<open>run\<close> returns.\<close>

definition preflop_last_player :: "bero \<Rightarrow> table \<Rightarrow> engine_error + nat option" where
  "preflop_last_player b t =
    (if length (activePlayerList t) > 2 then
       (if getRunningPlayerIt (bigBlindPositionId b) t = None then
          (if getRunningPlayerIt (smallBlindPositionId b) t = None then
             (case getActivePlayerIt (smallBlindPositionId b) t of
                None \<Rightarrow> Inl ERR_ACTIVE_PLAYER_NOT_FOUND
              | Some k \<Rightarrow>
                  Inr (Some (myUniqueID (seatsList t ! (activePlayerList t
                               ! before (length (activePlayerList t)) k)))))
           else Inr (Some (smallBlindPositionId b)))
        else Inr (Some (bigBlindPositionId b)))
     else
       (if getRunningPlayerIt (bigBlindPositionId b) t = None then
          (if getRunningPlayerIt (smallBlindPositionId b) t = None then Inr None
           else Inr (Some (smallBlindPositionId b)))
        else Inr (Some (bigBlindPositionId b))))"

definition preflop_turn :: "local_hand \<Rightarrow> engine_error + local_hand" where
  "preflop_turn h =
    (let r = GAME_STATE_PREFLOP; b = bero_of r h in
     case next_running (currentPlayersTurnId b) (board h) of
       Inl e \<Rightarrow> Inl e
     | Inr uid \<Rightarrow>
         (let h1 = update_bero r (\<lambda>b. b\<lparr>currentPlayersTurnId := uid\<rparr>) h in
          if \<not> firstRound b \<and> all_highest_set b (board h) then
            Inr (switchRounds (on_board collect_round (h1\<lparr>currentRound := GAME_STATE_FLOP\<rparr>)))
          else give_turn r (update_bero r end_first_round h1)))"

definition run_preflop :: "local_hand \<Rightarrow> engine_error + local_hand" where
  "run_preflop h =
    (let r = GAME_STATE_PREFLOP in
     if firstRunGui (bero_of r h) then
       (case preflop_last_player (bero_of r h) (board h) of
          Inl e \<Rightarrow> Inl e
        | Inr None \<Rightarrow> Inr (update_bero r (\<lambda>b. b\<lparr>firstRound := False, firstRunGui := False\<rparr>) h)
        | Inr (Some uid) \<Rightarrow>
            preflop_turn (update_bero r (\<lambda>b. (set_first_turn uid b)\<lparr>firstRunGui := False\<rparr>) h))
     else preflop_turn h)"

text \<open>\<open>run\<close> of the current round; the post-river round's does nothing.\<close>

definition run_current :: "local_hand \<Rightarrow> engine_error + local_hand" where
  "run_current h =
    (case currentRound h of
       GAME_STATE_PREFLOP \<Rightarrow> run_preflop h
     | GAME_STATE_POST_RIVER \<Rightarrow> Inr h
     | r \<Rightarrow> run_round r h)"

section \<open>postRiverRun\<close>

definition mark_only_player :: "table \<Rightarrow> table" where
  "mark_only_player t =
    (if nonFoldPlayerCounter t = 1 then
       fold (\<lambda>i t. if myAction (seatsList t ! i) \<noteq> PLAYER_ACTION_FOLD then on_seat i (setMyAggressive True) t else t)
         (activePlayerList t) t
     else t)"

definition winning_value :: "table \<Rightarrow> int" where
  "winning_value t =
     fold (\<lambda>i v. if myAction (seatsList t ! i) \<noteq> PLAYER_ACTION_FOLD \<and> myCardsValueInt (seatsList t ! i) > v
                   then myCardsValueInt (seatsList t ! i) else v) (activePlayerList t) 0"

definition postRiverRun :: "local_hand \<Rightarrow> engine_error + local_hand" where
  "postRiverRun h =
    (case distributePot (beroDealerPosition (bero_of GAME_STATE_POST_RIVER h))
            (determinePlayerNeedToShowCards (mark_only_player (board h))) of
       Inl e \<Rightarrow> Inl e
     | Inr t \<Rightarrow> Inr (h\<lparr>board := t\<lparr>pot := 0\<rparr>, highestCardsValue := winning_value (board h)\<rparr>))"

end
