(* ===== verification/Server_Actions.thy ===== *)
theory Server_Actions
  imports Betting_Round
begin

text \<open>
  Player actions on the server (\<open>src/src/net/servergamestate.cpp\<close>): \<open>PerformPlayerAction\<close>, the
  action request of a client (\<open>ServerGameStateWaitPlayerAction::InternalProcessPacket\<close>) and the
  timeout of a client. The messages that are sent back are results of the functions. A request
  carries the integers of the protocol, whose action codes are those of \<open>PlayerAction\<close>.
\<close>

section \<open>Errors and replies\<close>

datatype server_error =
    ENGINE engine_error
  | ERR_NET_INVALID_GAME_ROUND
  | ERR_NET_UNKNOWN_PLAYER_ID
  | ERR_NET_NO_CURRENT_PLAYER
  | ERR_NET_PLAYER_NOT_ACTIVE
  | ERR_NET_INTERNAL_GAME_ERROR

datatype PlayerActionCode =
    ACTION_CODE_VALID
  | ACTION_CODE_INVALID_STATE
  | ACTION_CODE_NOT_YOUR_TURN
  | ACTION_CODE_NOT_ALLOWED

record action_request =
  req_gameid :: nat
  req_gamestate :: nat
  req_action :: int
  req_bet :: int

datatype reply =
    Ignored
  | Accepted local_hand
  | Rejected PlayerActionCode action_request

section \<open>PerformPlayerAction\<close>

definition update_round :: "PlayerAction \<Rightarrow> int \<Rightarrow> local_player \<Rightarrow> local_hand \<Rightarrow> local_hand" where
  "update_round action bet p h =
    (let r = currentRound h; b = current_bero h; above = mySet p - highestSet b in
     case action of
       PLAYER_ACTION_BET \<Rightarrow>
         setLastActionPlayerID (myUniqueID p) (update_bero r (\<lambda>b. b\<lparr>minimumRaise := bet\<rparr>) h)
     | PLAYER_ACTION_RAISE \<Rightarrow>
         setLastActionPlayerID (myUniqueID p)
           (if above > 0 then update_bero r (\<lambda>b. b\<lparr>minimumRaise := above\<rparr>) h else h)
     | PLAYER_ACTION_ALLIN \<Rightarrow>
         (let h1 = (if above > minimumRaise b then update_bero r (\<lambda>b. b\<lparr>minimumRaise := above\<rparr>) h else h)
          in if above > 0 then setLastActionPlayerID (myUniqueID p) h1 else h1)
     | _ \<Rightarrow> h)"

definition update_highest :: "local_player \<Rightarrow> bero \<Rightarrow> bero" where
  "update_highest p b = (if mySet p > highestSet b then b\<lparr>highestSet := mySet p\<rparr> else b)"

definition PerformPlayerAction :: "nat \<Rightarrow> PlayerAction \<Rightarrow> int \<Rightarrow> local_hand \<Rightarrow> local_hand" where
  "PerformPlayerAction i action bet h =
    (let h1 = on_board (on_seat i (\<lambda>p. p\<lparr>myAction := action\<rparr>)) h in
     if action \<noteq> PLAYER_ACTION_FOLD \<and> action \<noteq> PLAYER_ACTION_CHECK then
       (let h2 = on_board (on_seat i (setMySet bet)) h1;
            p = seats h2 ! i;
            h3 = update_round action bet p h2
        in on_board collectSets (update_bero (currentRound h3) (update_highest p) h3))
     else h1)"

section \<open>The request of a client\<close>

definition action_of_code :: "int \<Rightarrow> PlayerAction" where
  "action_of_code c = switch c
     [(1, PLAYER_ACTION_FOLD), (2, PLAYER_ACTION_CHECK), (3, PLAYER_ACTION_CALL),
      (4, PLAYER_ACTION_BET), (5, PLAYER_ACTION_RAISE), (6, PLAYER_ACTION_ALLIN)] PLAYER_ACTION_NONE"

text \<open>Values that the client left out are filled in.\<close>

definition fill_in :: "bero \<Rightarrow> local_player \<Rightarrow> action_request \<Rightarrow> action_request" where
  "fill_in b p q =
    (let q1 = (if req_action q = 3 \<and> req_bet q = 0 then
                 (if highestSet b \<ge> mySet p + myCash p then q\<lparr>req_action := 6\<rparr>
                  else q\<lparr>req_bet := highestSet b - mySet p\<rparr>)
               else q)
     in if req_action q1 = 6 \<and> req_bet q1 = 0 then q1\<lparr>req_bet := myCash p\<rparr> else q1)"

text \<open>\<open>Game::getCurrentPlayer\<close>: the seat of the player whose turn it is.\<close>

definition getCurrentPlayer :: "local_hand \<Rightarrow> engine_error + nat" where
  "getCurrentPlayer h =
    (case getSeatIt (currentPlayersTurnId (current_bero h)) (board h) of
       None \<Rightarrow> Inl ERR_CURRENT_PLAYER_NOT_FOUND
     | Some i \<Rightarrow> Inr i)"

definition action_code_of :: "local_hand \<Rightarrow> nat \<Rightarrow> nat \<Rightarrow> action_request \<Rightarrow> PlayerActionCode" where
  "action_code_of h i cur q =
    (let p = seats h ! i; b = current_bero h in
     if state_code (currentRound h) \<noteq> req_gamestate q then ACTION_CODE_INVALID_STATE
     else if myUniqueID (seats h ! cur) \<noteq> myUniqueID p then ACTION_CODE_NOT_YOUR_TURN
     else if checkMyAction (req_action (fill_in b p q)) (req_bet (fill_in b p q))
               (highestSet b) (minimumRaise b) (smallBlind h) p \<noteq> 0 then ACTION_CODE_NOT_ALLOWED
     else ACTION_CODE_VALID)"

definition handle_action_request ::
  "nat \<Rightarrow> nat \<Rightarrow> action_request \<Rightarrow> local_hand \<Rightarrow> server_error + reply" where
  "handle_action_request gameId uid q h =
    (if req_gameid q \<noteq> gameId then Inr Ignored
     else (case getSeatIt uid (board h) of
       None \<Rightarrow> Inl ERR_NET_UNKNOWN_PLAYER_ID
     | Some i \<Rightarrow>
         (case getCurrentPlayer h of
            Inl e \<Rightarrow> Inl (ENGINE e)
          | Inr cur \<Rightarrow>
              (let q' = fill_in (current_bero h) (seats h ! i) q; code = action_code_of h i cur q in
               if code = ACTION_CODE_VALID then
                 Inr (Accepted (PerformPlayerAction i (action_of_code (req_action q')) (req_bet q')
                   (on_board (on_seat i (\<lambda>p. p\<lparr>myIsSessionActive := True\<rparr>)) h)))
               else Inr (Rejected code q')))))"

section \<open>The timeout of a client\<close>

definition player_timeout :: "local_hand \<Rightarrow> server_error + local_hand" where
  "player_timeout h =
    (case getCurrentPlayer h of
       Inl e \<Rightarrow> Inl (ENGINE e)
     | Inr i \<Rightarrow>
         Inr (PerformPlayerAction i
           (if highestSet (current_bero h) = mySet (seats h ! i) then PLAYER_ACTION_CHECK
            else PLAYER_ACTION_FOLD) 0 h))"

end
