(* ===== verification/Engine_Loop.thy ===== *)
theory Engine_Loop
  imports Server_Actions
begin

text \<open>
  The main loop of a hand on the server (\<open>ServerGameStateHand::EngineLoop\<close>,
  \<open>src/src/net/servergamestate.cpp\<close>) and the states around it, as a step relation. The timers and
  the messages are left out; which players are connected is a parameter of every step. Computer
  players are a result of the loop, their move is not a step of the relation.
\<close>

section \<open>EngineLoop\<close>

datatype loop_result =
    NextLoop local_hand
  | WaitPlayerAction local_hand
  | ComputerAction local_hand
  | HandOver local_hand

definition show_all_in :: "local_hand \<Rightarrow> local_hand" where
  "show_all_in h =
    (if handAllInCondition h \<and> \<not> cardsShown h \<and> nonFoldPlayerCounter (board h) > 1
     then h\<lparr>cardsShown := True\<rparr> else h)"

definition continue_hand :: "(nat \<Rightarrow> bool) \<Rightarrow> local_hand \<Rightarrow> server_error + loop_result" where
  "continue_hand connected h =
    (if handAllInCondition h then Inl ERR_NET_INTERNAL_GAME_ERROR
     else (case getCurrentPlayer h of
       Inl e \<Rightarrow> Inl (ENGINE e)
     | Inr i \<Rightarrow>
         (let p = seats h ! i in
          if \<not> myActiveStatus p then Inl ERR_NET_PLAYER_NOT_ACTIVE
          else if myType p = PLAYER_TYPE_COMPUTER then Inr (ComputerAction h)
          else if \<not> connected (myUniqueID p) \<or> \<not> myIsSessionActive p then
            Inr (NextLoop (PerformPlayerAction i PLAYER_ACTION_FOLD 0 h))
          else Inr (WaitPlayerAction h))))"

definition EngineLoop :: "(nat \<Rightarrow> bool) \<Rightarrow> local_hand \<Rightarrow> server_error + loop_result" where
  "EngineLoop connected h =
    (let curRound = currentRound h; h1 = switchRounds h in
     case (if handAllInCondition h1 then Inr h1 else run_current h1) of
       Inl e \<Rightarrow> Inl (ENGINE e)
     | Inr h2 \<Rightarrow>
         (let newRound = currentRound h2 in
          if newRound \<noteq> curRound \<and> newRound \<noteq> GAME_STATE_POST_RIVER then
            (if newRound \<le> curRound then Inl ERR_NET_INVALID_GAME_ROUND
             else Inr (NextLoop (show_all_in h2)))
          else if newRound \<noteq> GAME_STATE_POST_RIVER then continue_hand connected h2
          else (case postRiverRun h2 of
                  Inl e \<Rightarrow> Inl (ENGINE e)
                | Inr h3 \<Rightarrow> Inr (HandOver h3))))"

section \<open>The states of a hand\<close>

datatype phase = Looping | Waiting | Computing | Over

inductive server_step :: "phase \<times> local_hand \<Rightarrow> phase \<times> local_hand \<Rightarrow> bool" where
  loop: "EngineLoop connected h = Inr (NextLoop h') \<Longrightarrow> server_step (Looping, h) (Looping, h')"
| wait: "EngineLoop connected h = Inr (WaitPlayerAction h') \<Longrightarrow> server_step (Looping, h) (Waiting, h')"
| computer: "EngineLoop connected h = Inr (ComputerAction h') \<Longrightarrow> server_step (Looping, h) (Computing, h')"
| over: "EngineLoop connected h = Inr (HandOver h') \<Longrightarrow> server_step (Looping, h) (Over, h')"
| request: "handle_action_request gameId uid q h = Inr (Accepted h')
    \<Longrightarrow> server_step (Waiting, h) (Looping, h')"
| timeout: "player_timeout h = Inr h' \<Longrightarrow> server_step (Waiting, h) (Looping, h')"

abbreviation server_steps :: "phase \<times> local_hand \<Rightarrow> phase \<times> local_hand \<Rightarrow> bool" where
  "server_steps \<equiv> server_step\<^sup>*\<^sup>*"

text \<open>\<open>StartNewHand\<close> skips the first run of the rounds after the preflop before the hand starts.\<close>

definition skipFirstRunGui :: "local_hand \<Rightarrow> local_hand" where
  "skipFirstRunGui h =
     fold (\<lambda>r. update_bero r (\<lambda>b. b\<lparr>firstRunGui := False\<rparr>))
       [GAME_STATE_FLOP, GAME_STATE_TURN, GAME_STATE_RIVER] h"

definition start_on_server :: "local_hand \<Rightarrow> local_hand" where
  "start_on_server h = start (skipFirstRunGui h)"

end
