(* ===== verification/Game.thy ===== *)
theory Game
  imports Engine_Loop "HOL-Library.Signed_Division"
begin

text \<open>
  The game (\<open>Game\<close>, \<open>src/src/engine/game.cpp\<close>): its constructor, the start of a hand with the
  raising of the blinds and the move of the dealer button, and the lookup of players. The board of
  the game is one object shared with the current hand: it is the board of the hand once there is
  one. The elapsed minutes of the blinds timer and the shuffled deck are parameters of \<open>initHand\<close>.
\<close>

section \<open>Game data\<close>

datatype GameType = GAME_TYPE_NORMAL | GAME_TYPE_REGISTERED_ONLY | GAME_TYPE_INVITE_ONLY | GAME_TYPE_RANKING

datatype RaiseIntervalMode = RAISE_ON_HANDNUMBER | RAISE_ON_MINUTES

datatype RaiseMode = DOUBLE_BLINDS | MANUAL_BLINDS_ORDER

datatype AfterManualBlindsMode =
    AFTERMB_DOUBLE_BLINDS
  | AFTERMB_RAISE_ABOUT
  | AFTERMB_STAY_AT_LAST_BLIND

record game_data =
  gameType :: GameType
  maxNumberOfPlayers :: int
  startMoney :: int
  firstSmallBlind :: int
  raiseIntervalMode :: RaiseIntervalMode
  raiseSmallBlindEveryHandsValue :: int
  raiseSmallBlindEveryMinutesValue :: int
  raiseMode :: RaiseMode
  manualBlindsList :: "int list"
  afterManualBlindsMode :: AfterManualBlindsMode
  afterMBAlwaysRaiseValue :: int
  guiSpeed :: int
  delayBetweenHandsSec :: int
  playerActionTimeoutSec :: int

record player_data =
  pdUniqueId :: nat
  pdDBId :: nat
  pdNumber :: int
  pdType :: PlayerType
  pdName :: string
  pdStartCash :: int
  pdGuid :: string
  pdOldGuid :: string
  pdGameAdmin :: bool

record start_data =
  startDealerPlayerId :: nat
  numberOfPlayers :: int

record game =
  gameBoard :: table
  currentHand :: "local_hand option"
  gameStartQuantityPlayers :: int
  gameStartCash :: int
  startSmallBlind :: int
  myGameID :: int
  currentSmallBlind :: int
  currentHandID :: int
  dealerPosition :: nat
  lastHandBlindsRaised :: int
  lastTimeBlindsRaised :: int
  myGameData :: game_data
  blindsList :: "int list"

definition game_board :: "game \<Rightarrow> table" where
  "game_board g = (case currentHand g of None \<Rightarrow> gameBoard g | Some h \<Rightarrow> board h)"

section \<open>The constructor\<close>

definition new_seat :: "game_data \<Rightarrow> start_data \<Rightarrow> player_data list \<Rightarrow> nat \<Rightarrow> local_player" where
  "new_seat gd sd pds i =
    (let active = numberOfPlayers sd > int i in
     if i < length pds then
       (let d = pds ! i in
        (new_player (int i) (pdUniqueId d) (pdType d) (pdName d)
           (if pdStartCash d \<ge> 0 then pdStartCash d else startMoney gd) active
           (pdType d = PLAYER_TYPE_HUMAN) BUTTON_NONE)\<lparr>myIsSessionActive := True, myGuid := pdGuid d\<rparr>)
     else
       (new_player (int i) 0 PLAYER_TYPE_COMPUTER '''' (startMoney gd) active False
          BUTTON_NONE)\<lparr>myIsSessionActive := True\<rparr>)"

definition new_board :: "local_player list \<Rightarrow> nat list \<Rightarrow> table" where
  "new_board ps active =
     \<lparr> seatsList = ps, activePlayerList = active, runningPlayerList = active,
       boardCards = replicate 5 0, pot = 0, sets = 0, allInCondition = False,
       lastActionPlayerID = 0, winners = [], playerNeedToShowCards = [] \<rparr>"

definition new_game :: "player_data list \<Rightarrow> game_data \<Rightarrow> start_data \<Rightarrow> int \<Rightarrow> engine_error + game" where
  "new_game pds gd sd gameId =
    (if \<not> list_ex (\<lambda>d. pdUniqueId d = startDealerPlayerId sd) pds then Inl ERR_DEALER_NOT_FOUND
     else
       (let ps = map (new_seat gd sd pds) [0..<MAX_NUMBER_OF_PLAYERS];
            active = filter (\<lambda>i. numberOfPlayers sd > int i) [0..<MAX_NUMBER_OF_PLAYERS]
        in Inr \<lparr> gameBoard = new_board ps active, currentHand = None,
                 gameStartQuantityPlayers = numberOfPlayers sd, gameStartCash = startMoney gd,
                 startSmallBlind = firstSmallBlind gd, myGameID = gameId,
                 currentSmallBlind = firstSmallBlind gd, currentHandID = 0,
                 dealerPosition = startDealerPlayerId sd, lastHandBlindsRaised = 1,
                 lastTimeBlindsRaised = 0, myGameData = gd, blindsList = manualBlindsList gd \<rparr>))"

section \<open>Raising the blinds\<close>

definition INT_MAX :: int where
  "INT_MAX = 2 ^ 31 - 1"

definition maxBlind :: "game \<Rightarrow> int" where
  "maxBlind g =
    (let m = (gameStartQuantityPlayers g * gameStartCash g) sdiv 2 in if m > INT_MAX then INT_MAX else m)"

definition doubled_blind :: "int \<Rightarrow> int \<Rightarrow> int" where
  "doubled_blind cur m = (if cur \<le> m sdiv 2 then min (cur * 2) m else m)"

definition raised_blind :: "game \<Rightarrow> int \<times> int list" where
  "raised_blind g =
    (let cur = currentSmallBlind g; m = maxBlind g; gd = myGameData g in
     case raiseMode gd of
       DOUBLE_BLINDS \<Rightarrow> (doubled_blind cur m, blindsList g)
     | MANUAL_BLINDS_ORDER \<Rightarrow>
         (case blindsList g of
            b # rest \<Rightarrow> (b, rest)
          | [] \<Rightarrow>
              (case afterManualBlindsMode gd of
                 AFTERMB_DOUBLE_BLINDS \<Rightarrow> (doubled_blind cur m, [])
               | AFTERMB_RAISE_ABOUT \<Rightarrow>
                   (if cur + afterMBAlwaysRaiseValue gd \<le> m then cur + afterMBAlwaysRaiseValue gd else m, [])
               | AFTERMB_STAY_AT_LAST_BLIND \<Rightarrow> (cur, []))))"

definition time_to_raise :: "int \<Rightarrow> game \<Rightarrow> bool" where
  "time_to_raise elapsedMinutes g =
    (case raiseIntervalMode (myGameData g) of
       RAISE_ON_HANDNUMBER \<Rightarrow>
         lastHandBlindsRaised g + raiseSmallBlindEveryHandsValue (myGameData g) \<le> currentHandID g
     | RAISE_ON_MINUTES \<Rightarrow>
         lastTimeBlindsRaised g + raiseSmallBlindEveryMinutesValue (myGameData g) \<le> elapsedMinutes)"

definition raiseBlinds :: "int \<Rightarrow> game \<Rightarrow> game" where
  "raiseBlinds elapsedMinutes g =
    (if time_to_raise elapsedMinutes g then
       (let g1 = (case raiseIntervalMode (myGameData g) of
                    RAISE_ON_HANDNUMBER \<Rightarrow> g\<lparr>lastHandBlindsRaised := currentHandID g\<rparr>
                  | RAISE_ON_MINUTES \<Rightarrow> g\<lparr>lastTimeBlindsRaised := elapsedMinutes\<rparr>);
            (b, rest) = raised_blind g1
        in g1\<lparr>currentSmallBlind := min b (maxBlind g1), blindsList := rest\<rparr>)
     else g)"

section \<open>The start of a hand\<close>

text \<open>Players without cash leave the active players.\<close>

definition drop_broke :: "table \<Rightarrow> table" where
  "drop_broke t =
    (let broke = filter (\<lambda>i. myCash (seatsList t ! i) = 0) (activePlayerList t);
         t1 = fold (\<lambda>i. on_seat i (\<lambda>p. p\<lparr>myActiveStatus := False\<rparr>)) broke t;
         active = filter (\<lambda>i. myCash (seatsList t ! i) \<noteq> 0) (activePlayerList t)
     in t1\<lparr>activePlayerList := active, runningPlayerList := active\<rparr>)"

definition prepare_board :: "table \<Rightarrow> table" where
  "prepare_board t =
     drop_broke (map_seats (\<lambda>p. p\<lparr>myAction := PLAYER_ACTION_NONE\<rparr>) (t\<lparr>allInCondition := False\<rparr>))"

definition next_dealer :: "nat \<Rightarrow> table \<Rightarrow> engine_error + nat" where
  "next_dealer dealer t =
    (case getSeatIt dealer t of
       None \<Rightarrow> Inl ERR_SEAT_NOT_FOUND
     | Some d \<Rightarrow>
         (case next_active (length (seatsList t)) d t of
            None \<Rightarrow> Inl ERR_NEXT_DEALER_NOT_FOUND
          | Some k \<Rightarrow> Inr (myUniqueID (seatsList t ! (activePlayerList t ! k)))))"

definition initHand :: "int list \<Rightarrow> int \<Rightarrow> game \<Rightarrow> engine_error + game" where
  "initHand deck elapsedMinutes g =
    (let g1 = raiseBlinds elapsedMinutes (g\<lparr>currentHandID := currentHandID g + 1\<rparr>) in
     case new_hand deck (prepare_board (game_board g1)) (currentHandID g1)
            (gameStartQuantityPlayers g1) (dealerPosition g1) (currentSmallBlind g1) (gameStartCash g1) of
       Inl e \<Rightarrow> Inl e
     | Inr h \<Rightarrow>
         map_sum id (\<lambda>d. g1\<lparr>currentHand := Some h, dealerPosition := d\<rparr>)
           (next_dealer (dealerPosition g1) (board h)))"

definition startHand :: "game \<Rightarrow> game" where
  "startHand g = g\<lparr>currentHand := map_option start (currentHand g)\<rparr>"

section \<open>Lookup\<close>

definition getPlayerByUniqueId :: "nat \<Rightarrow> game \<Rightarrow> nat option" where
  "getPlayerByUniqueId uid g = getSeatIt uid (game_board g)"

definition getPlayerByNumber :: "int \<Rightarrow> game \<Rightarrow> nat option" where
  "getPlayerByNumber num g =
     first_some (\<lambda>i. if myID (seatsList (game_board g) ! i) = num then Some i else None)
       [0..<length (seatsList (game_board g))]"

definition getPlayerByName :: "string \<Rightarrow> game \<Rightarrow> nat option" where
  "getPlayerByName name g =
    (if name = [] then None
     else first_some (\<lambda>i. if myName (seatsList (game_board g) ! i) = name then Some i else None)
            [0..<length (seatsList (game_board g))])"

definition replaceDealer :: "nat \<Rightarrow> nat \<Rightarrow> game \<Rightarrow> game" where
  "replaceDealer oldDealer newDealer g =
    (if dealerPosition g = oldDealer then g\<lparr>dealerPosition := newDealer\<rparr> else g)"

section \<open>A sample game\<close>

text \<open>Two clients, blinds of 10 and 20.\<close>

definition sample_players :: "player_data list" where
  "sample_players =
     [\<lparr>pdUniqueId = 7, pdDBId = 70, pdNumber = 0, pdType = PLAYER_TYPE_HUMAN, pdName = ''A'', pdStartCash = -1, pdGuid = '''', pdOldGuid = '''', pdGameAdmin = True\<rparr>,
      \<lparr>pdUniqueId = 9, pdDBId = 0, pdNumber = 1, pdType = PLAYER_TYPE_HUMAN, pdName = ''B'', pdStartCash = 500, pdGuid = '''', pdOldGuid = '''', pdGameAdmin = False\<rparr>]"

definition sample_data :: game_data where
  "sample_data =
     \<lparr>gameType = GAME_TYPE_NORMAL, maxNumberOfPlayers = 2, startMoney = 1000, firstSmallBlind = 10, raiseIntervalMode = RAISE_ON_HANDNUMBER,
      raiseSmallBlindEveryHandsValue = 8, raiseSmallBlindEveryMinutesValue = 1,
      raiseMode = DOUBLE_BLINDS, manualBlindsList = [], afterManualBlindsMode = AFTERMB_DOUBLE_BLINDS,
      afterMBAlwaysRaiseValue = 0, guiSpeed = 4, delayBetweenHandsSec = 6, playerActionTimeoutSec = 20\<rparr>"

definition sample_start :: start_data where
  "sample_start = \<lparr>startDealerPlayerId = 9, numberOfPlayers = 2\<rparr>"

definition sample_game :: game where
  "sample_game =
     \<lparr>gameBoard = new_board (map (new_seat sample_data sample_start sample_players) [0..<2]) [0, 1],
      currentHand = None, gameStartQuantityPlayers = 2, gameStartCash = 1000, startSmallBlind = 10,
      myGameID = 1, currentSmallBlind = 10, currentHandID = 0, dealerPosition = 9,
      lastHandBlindsRaised = 1, lastTimeBlindsRaised = 0, myGameData = sample_data, blindsList = []\<rparr>"

lemma sample_game_new: "new_game sample_players sample_data sample_start 1 = Inr sample_game"
  by code_simp

end
