(* ===== verification/Server_Game.thy ===== *)
theory Server_Game
  imports Game
begin

text \<open>
  The game on the server (\<open>ServerGame\<close>, \<open>src/src/net/servergame.cpp\<close>) around its hands: who is in
  the game, who may come back, the admin of the game, the ranking, and what happens between two
  hands (\<open>src/src/net/servergamestate.cpp\<close>). The sessions are those of the session manager in the
  state \<open>Game\<close>, ordered by their session id as in its map; a computer player has no session.
  Sending messages, timers, the lobby and the database are left out.
\<close>

section \<open>State\<close>

record session =
  sessionId :: nat
  sessionPlayer :: player_data

record ranking_data =
  rankDBId :: nat
  place :: int

type_synonym ranking = "nat \<Rightarrow> ranking_data option"

record server_game =
  sessions :: "session list"
  computerPlayers :: "player_data list"
  adminPlayerId :: nat
  gameData :: game_data
  runningGame :: "game option"
  rankingMap :: ranking
  numJoinsPerPlayer :: "string \<Rightarrow> int option"
  rejoinPlayers :: "nat list"
  reactivatePlayers :: "nat list"
  gameNum :: nat

abbreviation session_uid :: "session \<Rightarrow> nat" where
  "session_uid s \<equiv> pdUniqueId (sessionPlayer s)"

abbreviation session_uids :: "server_game \<Rightarrow> nat list" where
  "session_uids sg \<equiv> map session_uid (sessions sg)"

section \<open>Who is in the game\<close>

definition GetSessionByUniquePlayerId :: "nat \<Rightarrow> server_game \<Rightarrow> session option" where
  "GetSessionByUniquePlayerId uid sg = find (\<lambda>s. session_uid s = uid) (sessions sg)"

definition GetFullPlayerDataList :: "server_game \<Rightarrow> player_data list" where
  "GetFullPlayerDataList sg =
     map sessionPlayer (filter (\<lambda>s. pdName (sessionPlayer s) \<noteq> []) (sessions sg)) @ computerPlayers sg"

definition GetPlayerIdList :: "server_game \<Rightarrow> nat list" where
  "GetPlayerIdList sg = session_uids sg @ map pdUniqueId (computerPlayers sg)"

definition IsValidPlayer :: "nat \<Rightarrow> server_game \<Rightarrow> bool" where
  "IsValidPlayer uid sg = list_ex (\<lambda>i. i = uid) (GetPlayerIdList sg)"

definition IsPlayerConnected :: "nat \<Rightarrow> server_game \<Rightarrow> bool" where
  "IsPlayerConnected uid sg = (GetSessionByUniquePlayerId uid sg \<noteq> None)"

definition IsComputerPlayerActive :: "nat \<Rightarrow> server_game \<Rightarrow> bool" where
  "IsComputerPlayerActive uid sg = list_ex (\<lambda>d. pdUniqueId d = uid) (computerPlayers sg)"

definition GetCurNumberOfPlayers :: "server_game \<Rightarrow> int" where
  "GetCurNumberOfPlayers sg = int (length (GetFullPlayerDataList sg))"

definition IsRunning :: "server_game \<Rightarrow> bool" where
  "IsRunning sg = (runningGame sg \<noteq> None)"

text \<open>A change of the seats of the running game.\<close>

definition on_game_board :: "(table \<Rightarrow> table) \<Rightarrow> game \<Rightarrow> game" where
  "on_game_board f g = g\<lparr>gameBoard := f (gameBoard g), currentHand := map_option (on_board f) (currentHand g)\<rparr>"

definition on_player :: "nat \<Rightarrow> (local_player \<Rightarrow> local_player) \<Rightarrow> game \<Rightarrow> game" where
  "on_player uid f g =
     (case getPlayerByUniqueId uid g of None \<Rightarrow> g | Some i \<Rightarrow> on_game_board (on_seat i f) g)"

definition on_running :: "(game \<Rightarrow> game) \<Rightarrow> server_game \<Rightarrow> server_game" where
  "on_running f sg = sg\<lparr>runningGame := map_option f (runningGame sg)\<rparr>"

definition MutePlayer :: "nat \<Rightarrow> bool \<Rightarrow> server_game \<Rightarrow> server_game" where
  "MutePlayer uid mute = on_running (on_player uid (\<lambda>p. p\<lparr>myIsMuted := mute\<rparr>))"

definition MarkPlayerAsInactive :: "nat \<Rightarrow> server_game \<Rightarrow> server_game" where
  "MarkPlayerAsInactive uid = on_running (on_player uid (\<lambda>p. p\<lparr>myIsSessionActive := False\<rparr>))"

definition mark_kicked :: "local_player \<Rightarrow> local_player" where
  "mark_kicked p = p\<lparr>myIsKicked := True, myGuid := ''''\<rparr>"

definition MarkPlayerAsKicked :: "nat \<Rightarrow> server_game \<Rightarrow> server_game" where
  "MarkPlayerAsKicked uid = on_running (on_player uid mark_kicked)"

section \<open>Joining and leaving\<close>

definition set_admin :: "bool \<Rightarrow> session \<Rightarrow> session" where
  "set_admin b s = s\<lparr>sessionPlayer := (sessionPlayer s)\<lparr>pdGameAdmin := b\<rparr>\<rparr>"

definition AddSession :: "session \<Rightarrow> session list \<Rightarrow> session list" where
  "AddSession s ss = takeWhile (\<lambda>s'. sessionId s' < sessionId s) ss @ s #
                     dropWhile (\<lambda>s'. sessionId s' < sessionId s) ss"

definition AcceptNewSession :: "session \<Rightarrow> server_game \<Rightarrow> server_game" where
  "AcceptNewSession s sg =
     sg\<lparr>sessions := AddSession (set_admin (session_uid s = adminPlayerId sg) s) (sessions sg)\<rparr>"

text \<open>\<open>RemovePlayerData\<close>: when the admin leaves, the first player who is left becomes the admin.\<close>

definition RemovePlayerData :: "player_data \<Rightarrow> server_game \<Rightarrow> server_game" where
  "RemovePlayerData d sg =
    (if pdGameAdmin d then
       (case filter (\<lambda>s. pdName (sessionPlayer s) \<noteq> [] \<and> session_uid s \<noteq> pdUniqueId d) (sessions sg) of
          [] \<Rightarrow> sg
        | n # _ \<Rightarrow>
            sg\<lparr>adminPlayerId := session_uid n,
               sessions := map (\<lambda>s. if sessionId s = sessionId n then set_admin True s else s) (sessions sg)\<rparr>)
     else sg)"

definition RemoveSession :: "session \<Rightarrow> server_game \<Rightarrow> server_game" where
  "RemoveSession s sg =
    (if list_ex (\<lambda>s'. sessionId s' = sessionId s) (sessions sg) then
       (let sg1 = sg\<lparr>sessions := filter (\<lambda>s'. sessionId s' \<noteq> sessionId s) (sessions sg)\<rparr>
        in if pdName (sessionPlayer s) \<noteq> [] then RemovePlayerData (sessionPlayer s) sg1 else sg1)
     else sg)"

definition KickPlayer :: "nat \<Rightarrow> server_game \<Rightarrow> server_game" where
  "KickPlayer uid sg =
    (let sg1 = MarkPlayerAsKicked uid sg in
     case GetSessionByUniquePlayerId uid sg1 of None \<Rightarrow> sg1 | Some s \<Rightarrow> RemoveSession s sg1)"

definition GAME_MAX_NUM_JOINS_PER_PLAYER :: int where
  "GAME_MAX_NUM_JOINS_PER_PLAYER = 6"

definition GetNumJoinsPerPlayer :: "string \<Rightarrow> server_game \<Rightarrow> int" where
  "GetNumJoinsPerPlayer name sg = (case numJoinsPerPlayer sg name of None \<Rightarrow> 0 | Some n \<Rightarrow> n)"

definition AddPlayerToNumJoinsPerPlayer :: "string \<Rightarrow> server_game \<Rightarrow> server_game" where
  "AddPlayerToNumJoinsPerPlayer name sg =
     sg\<lparr>numJoinsPerPlayer := (numJoinsPerPlayer sg)(name \<mapsto>
       (case numJoinsPerPlayer sg name of Some n \<Rightarrow> n + 1 | None \<Rightarrow> 1))\<rparr>"

text \<open>\<open>HandleNewPlayer\<close> before the game starts and while it runs; \<open>None\<close> sends the session back to
  the lobby.\<close>

definition join_open_game :: "session \<Rightarrow> server_game \<Rightarrow> server_game option" where
  "join_open_game s sg =
    (let name = pdName (sessionPlayer s) in
     if GetCurNumberOfPlayers sg \<ge> maxNumberOfPlayers (gameData sg)
        \<or> GetNumJoinsPerPlayer name sg \<ge> GAME_MAX_NUM_JOINS_PER_PLAYER
     then None
     else Some (AcceptNewSession s (AddPlayerToNumJoinsPerPlayer name sg)))"

definition join_running_game :: "session \<Rightarrow> server_game \<Rightarrow> server_game option" where
  "join_running_game s sg =
    (case runningGame sg of
       None \<Rightarrow> None
     | Some g \<Rightarrow>
         (case getPlayerByName (pdName (sessionPlayer s)) g of
            None \<Rightarrow> None
          | Some i \<Rightarrow>
              if myGuid (seatsList (game_board g) ! i) = pdOldGuid (sessionPlayer s) then
                Some ((AcceptNewSession s sg)\<lparr>rejoinPlayers := rejoinPlayers sg @ [session_uid s]\<rparr>)
              else None))"

section \<open>The ranking\<close>

definition InitRankingMap :: "player_data list \<Rightarrow> ranking \<Rightarrow> ranking" where
  "InitRankingMap pds r = fold (\<lambda>d m. m(pdUniqueId d \<mapsto> \<lparr>rankDBId = pdDBId d, place = 0\<rparr>)) pds r"

definition SetPlayerPlace :: "nat \<Rightarrow> int \<Rightarrow> ranking \<Rightarrow> ranking" where
  "SetPlayerPlace uid n r = (case r uid of None \<Rightarrow> r | Some d \<Rightarrow> r(uid \<mapsto> d\<lparr>place := n\<rparr>))"

definition ReplaceRankingPlayer :: "nat \<Rightarrow> nat \<Rightarrow> ranking \<Rightarrow> ranking" where
  "ReplaceRankingPlayer old new r = (case r old of None \<Rightarrow> r | Some d \<Rightarrow> (r(new \<mapsto> d))(old := None))"

text \<open>The loop over the removed players, sorted by the cash they began the hand with.\<close>

fun place_removed :: "int \<Rightarrow> int \<Rightarrow> local_player list \<Rightarrow> ranking \<Rightarrow> ranking" where
  "place_removed currentRank counter [] r = r"
| "place_removed currentRank counter [p] r = SetPlayerPlace (myUniqueID p) currentRank r"
| "place_removed currentRank counter (p # q # ps) r =
    (let r1 = SetPlayerPlace (myUniqueID p) currentRank r; counter1 = counter + 1 in
     if myRoundStartCash p < myRoundStartCash q then
       (let rank1 = currentRank - counter1
        in place_removed (if rank1 < 1 then 1 else rank1) 0 (q # ps) r1)
     else place_removed currentRank counter1 (q # ps) r1)"

definition UpdateRankingMap :: "game \<Rightarrow> ranking \<Rightarrow> ranking" where
  "UpdateRankingMap g r =
    (let t = game_board g;
         allPlayers = map (nth (seatsList t)) (activePlayerList t);
         removedPlayers = filter (\<lambda>p. myCash p < 1) allPlayers;
         stillActive = filter (\<lambda>p. \<not> myCash p < 1) allPlayers;
         r1 = place_removed (int (length removedPlayers + length stillActive)) 0
                (sort_key myRoundStartCash removedPlayers) r
     in case stillActive of
          [p] \<Rightarrow> SetPlayerPlace (myUniqueID p) 1 r1
        | _ \<Rightarrow> r1)"

section \<open>Between two hands\<close>

text \<open>\<open>RemoveDisconnectedPlayers\<close>, for a seat of the game.\<close>

definition disconnected :: "server_game \<Rightarrow> local_player \<Rightarrow> bool" where
  "disconnected sg p \<longleftrightarrow>
     (myType p = PLAYER_TYPE_HUMAN \<and> \<not> IsPlayerConnected (myUniqueID p) sg)
     \<or> (myType p = PLAYER_TYPE_COMPUTER \<and> \<not> IsComputerPlayerActive (myUniqueID p) sg)"

definition remove_disconnected :: "server_game \<Rightarrow> local_player \<Rightarrow> local_player" where
  "remove_disconnected sg p =
    (if disconnected sg p then
       (if myIsKicked p \<or> myGuid p = '''' then p\<lparr>myCash := 0, myGuid := ''''\<rparr> else p)\<lparr>myIsSessionActive := False\<rparr>
     else p)"

definition RemoveDisconnectedPlayers :: "server_game \<Rightarrow> server_game" where
  "RemoveDisconnectedPlayers sg = on_running (on_game_board (map_seats (remove_disconnected sg))) sg"

text \<open>The end of a hand in \<open>EngineLoop\<close>, after \<open>postRiverRun\<close>: nobody has cash, one player has won
  the game, or the next hand follows.\<close>

datatype hand_end = NobodyLeft nat | GameWon nat | NextHand

definition players_with_cash :: "game \<Rightarrow> nat list" where
  "players_with_cash g =
     filter (\<lambda>i. \<not> myCash (seatsList (game_board g) ! i) < 1) (activePlayerList (game_board g))"

definition hand_end_of :: "game \<Rightarrow> hand_end" where
  "hand_end_of g = (case players_with_cash g of
     [] \<Rightarrow> NobodyLeft (dealerPosition g)
   | [i] \<Rightarrow> GameWon (myUniqueID (seatsList (game_board g) ! i))
   | _ \<Rightarrow> NextHand)"

text \<open>\<open>InternalEndGame\<close> resets the game and its ranking.\<close>

definition InternalEndGame :: "server_game \<Rightarrow> server_game" where
  "InternalEndGame sg = sg\<lparr>rankingMap := (\<lambda>_. None), runningGame := None, numJoinsPerPlayer := (\<lambda>_. None)\<rparr>"

definition end_of_hand :: "server_game \<Rightarrow> (hand_end \<times> ranking \<times> server_game) option" where
  "end_of_hand sg =
    (let sg1 = RemoveDisconnectedPlayers sg in
     case runningGame sg1 of
       None \<Rightarrow> None
     | Some g \<Rightarrow>
         (let r = UpdateRankingMap g (rankingMap sg1); sg2 = sg1\<lparr>rankingMap := r\<rparr>
          in Some (hand_end_of g, r, if hand_end_of g = NextHand then sg2 else InternalEndGame sg2)))"

section \<open>The next hand\<close>

definition ReactivatePlayers :: "server_game \<Rightarrow> server_game" where
  "ReactivatePlayers sg =
     (on_running (fold (\<lambda>uid. on_player uid (\<lambda>p. p\<lparr>myIsSessionActive := True\<rparr>)) (reactivatePlayers sg)) sg)
       \<lparr>reactivatePlayers := []\<rparr>"

text \<open>\<open>PerformRejoin\<close>: a player who comes back under a new id keeps his seat, the button and his
  place in the ranking; a session whose player is not found is closed.\<close>

definition PerformRejoin :: "session \<Rightarrow> server_game \<Rightarrow> server_game" where
  "PerformRejoin s sg =
    (let d = sessionPlayer s in
     case runningGame sg of
       None \<Rightarrow> sg
     | Some g \<Rightarrow>
         (case getPlayerByName (pdName d) g of
            None \<Rightarrow> RemoveSession s sg
          | Some i \<Rightarrow>
              (let old = myUniqueID (seatsList (game_board g) ! i);
                   g1 = replaceDealer old (pdUniqueId d) g;
                   g2 = on_game_board (on_seat i (\<lambda>p. p\<lparr>myUniqueID := pdUniqueId d, myGuid := pdGuid d,
                          myIsSessionActive := True\<rparr>)) g1
               in sg\<lparr>runningGame := Some g2, rankingMap := ReplaceRankingPlayer old (pdUniqueId d) (rankingMap sg)\<rparr>)))"

definition InitRejoiningPlayers :: "server_game \<Rightarrow> server_game" where
  "InitRejoiningPlayers sg =
     fold (\<lambda>uid sg. case GetSessionByUniquePlayerId uid sg of None \<Rightarrow> sg | Some s \<Rightarrow> PerformRejoin s sg)
       (rejoinPlayers sg) (sg\<lparr>rejoinPlayers := []\<rparr>)"

text \<open>\<open>CheckPlayerTimeouts\<close>; \<open>secs\<close> are the seconds since the last action of the player at a seat.\<close>

definition SERVER_GAME_AUTOFOLD_TIMEOUT_FACTOR :: int where
  "SERVER_GAME_AUTOFOLD_TIMEOUT_FACTOR = 30"

definition SERVER_GAME_FORCED_TIMEOUT_FACTOR :: int where
  "SERVER_GAME_FORCED_TIMEOUT_FACTOR = 60"

definition check_timeout :: "(nat \<Rightarrow> int) \<Rightarrow> nat \<Rightarrow> server_game \<Rightarrow> server_game" where
  "check_timeout secs i sg =
    (case runningGame sg of
       None \<Rightarrow> sg
     | Some g \<Rightarrow>
         (let p = seatsList (game_board g) ! i; timeout = playerActionTimeoutSec (gameData sg) in
          if myType p = PLAYER_TYPE_HUMAN \<and> secs i \<ge> timeout * SERVER_GAME_AUTOFOLD_TIMEOUT_FACTOR then
            (let sg1 = on_running (on_game_board (on_seat i (\<lambda>p. p\<lparr>myIsSessionActive := False\<rparr>))) sg
             in if secs i \<ge> timeout * SERVER_GAME_FORCED_TIMEOUT_FACTOR then KickPlayer (myUniqueID p) sg1
                else sg1)
          else sg))"

definition CheckPlayerTimeouts :: "(nat \<Rightarrow> int) \<Rightarrow> server_game \<Rightarrow> server_game" where
  "CheckPlayerTimeouts secs sg =
    (if playerActionTimeoutSec (gameData sg) = 0 then sg
     else (case runningGame sg of
             None \<Rightarrow> sg
           | Some g \<Rightarrow> fold (check_timeout secs) (activePlayerList (game_board g)) sg))"

text \<open>\<open>RemovePlayer\<close>, for the players whose cards cannot be encrypted.\<close>

definition RemovePlayer :: "nat \<Rightarrow> server_game \<Rightarrow> server_game" where
  "RemovePlayer uid sg =
     (case GetSessionByUniquePlayerId uid sg of None \<Rightarrow> sg | Some s \<Rightarrow> RemoveSession s sg)"

definition send_cards :: "(nat \<Rightarrow> bool) \<Rightarrow> local_player list \<Rightarrow> server_game \<Rightarrow> server_game" where
  "send_cards encryptable ps sg =
     fold (\<lambda>p sg. if encryptable (myUniqueID p) then sg else RemovePlayer (myUniqueID p) sg) ps sg"

text \<open>Without a game \<open>GetGame\<close> throws. \<open>encryptable\<close> tells whose cards can be sent; \<open>Server_Messages\<close>
  has the encryption.\<close>

datatype start_error = START_ENGINE engine_error | ERR_SOCK_INVALID_STATE

definition StartNewHand ::
  "int list \<Rightarrow> int \<Rightarrow> (nat \<Rightarrow> int) \<Rightarrow> (nat \<Rightarrow> bool) \<Rightarrow> server_game \<Rightarrow> start_error + server_game" where
  "StartNewHand deck minutes secs encryptable sg =
    (if runningGame sg = None then Inl ERR_SOCK_INVALID_STATE
     else
       (let sg1 = CheckPlayerTimeouts secs (InitRejoiningPlayers (ReactivatePlayers sg)) in
        case runningGame sg1 of
          None \<Rightarrow> Inl ERR_SOCK_INVALID_STATE
        | Some g \<Rightarrow>
            (case initHand deck minutes g of
               Inl e \<Rightarrow> Inl (START_ENGINE e)
             | Inr g1 \<Rightarrow>
                 (let sg2 = send_cards encryptable (seatsList (game_board g1)) (sg1\<lparr>runningGame := Some g1\<rparr>)
                  in Inr (on_running (\<lambda>g. g\<lparr>currentHand := map_option start_on_server (currentHand g)\<rparr>) sg2)))))"

section \<open>The start of the game\<close>

definition AssignPlayerNumbers :: "player_data list \<Rightarrow> player_data list" where
  "AssignPlayerNumbers ds = map (\<lambda>(n, d). d\<lparr>pdNumber := int n\<rparr>) (zip [0..<length ds] ds)"

definition MAX_SAFE_GAME_NUM :: int where
  "MAX_SAFE_GAME_NUM = 2 ^ 32 - 1 - 1000"

definition GetNextGameNum :: "server_game \<Rightarrow> (nat \<times> server_game) option" where
  "GetNextGameNum sg =
    (if int (gameNum sg) \<ge> MAX_SAFE_GAME_NUM then None
     else Some (gameNum sg, sg\<lparr>gameNum := gameNum sg + 1\<rparr>))"

text \<open>\<open>InternalStartGame\<close>: the players in the order \<open>shuffled\<close> that the random generator chose, and
  the dealer at position \<open>dealerPos\<close>. \<open>None\<close> is an exception of the server.\<close>

definition InternalStartGame ::
  "(player_data list \<Rightarrow> player_data list) \<Rightarrow> nat \<Rightarrow> server_game \<Rightarrow> server_game option" where
  "InternalStartGame shuffled dealerPos sg =
    (let playerData = GetFullPlayerDataList sg in
     if 2 \<le> length playerData then
       (let ds = AssignPlayerNumbers (shuffled playerData) in
        if dealerPos < length ds then
          (let sd = \<lparr>startDealerPlayerId = pdUniqueId (ds ! dealerPos), numberOfPlayers = int (length ds)\<rparr> in
           case GetNextGameNum sg of
             None \<Rightarrow> None
           | Some (num, sg1) \<Rightarrow>
               (case new_game ds (gameData sg1) sd (int num) of
                  Inl e \<Rightarrow> None
                | Inr g \<Rightarrow> Some (sg1\<lparr>runningGame := Some g, rankingMap := InitRankingMap ds (rankingMap sg1)\<rparr>)))
        else None)
     else Some sg)"

end
