(* ===== verification/Ranking.thy ===== *)
theory Ranking
  imports Server_Game
begin

text \<open>
  What the ranking of a game and the rules for joining it promise: the places that
  \<open>ServerGame::UpdateRankingMap\<close> gives to the players who lost their last chips, for any number of
  players at the table, the hand-over of the administration of a game, and who may come back.
\<close>

section \<open>The places of the removed players\<close>

abbreviation behind :: "local_player list \<Rightarrow> local_player \<Rightarrow> local_player list" where
  "behind ps p \<equiv> filter (\<lambda>q. myRoundStartCash q < myRoundStartCash p) ps"

lemma SetPlayerPlace_apply:
  "SetPlayerPlace u n r v = (if v = u then map_option (\<lambda>d. d\<lparr>place := n\<rparr>) (r u) else r v)"
  by (simp add: SetPlayerPlace_def split: option.split)

lemma place_removed_other:
  "v \<notin> myUniqueID ` set ps \<Longrightarrow> place_removed cur c ps r v = r v"
  by (induction cur c ps r rule: place_removed.induct) (simp_all add: SetPlayerPlace_apply Let_def)

lemma place_removed_place:
  assumes "sorted (map myRoundStartCash ps)" "distinct (map myUniqueID ps)" "c + int (length ps) \<le> cur"
    and "p \<in> set ps" "r (myUniqueID p) = Some d" "0 \<le> c"
  shows "place_removed cur c ps r (myUniqueID p) =
    Some (d\<lparr>place := if behind ps p = [] then cur else cur - c - int (length (behind ps p))\<rparr>)"
  using assms
proof (induction cur c ps r rule: place_removed.induct)
  case (2 cur c q r)
  then show ?case by (simp add: SetPlayerPlace_apply)
next
  case (3 cur c a b ps r)
  let ?r1 = "SetPlayerPlace (myUniqueID a) cur r"
  have key: "myRoundStartCash a \<le> myRoundStartCash b" "\<forall>x \<in> set ps. myRoundStartCash b \<le> myRoundStartCash x"
    using 3(3) by auto
  have fresh: "myUniqueID a \<notin> myUniqueID ` set (b # ps)" using 3(4) by auto
  show ?case
  proof (cases "p = a")
    case True
    have "behind (a # b # ps) a = []" using key by (auto simp: filter_empty_conv)
    then show ?thesis
      using True fresh 3(7) by (simp add: Let_def place_removed_other SetPlayerPlace_apply)
  next
    case False
    then have p: "p \<in> set (b # ps)" using 3(6) by simp
    have "myUniqueID p \<noteq> myUniqueID a" using fresh p by (metis imageI)
    then have r1: "?r1 (myUniqueID p) = Some d" using 3(7) by (simp add: SetPlayerPlace_apply)
    show ?thesis
    proof (cases "myRoundStartCash a < myRoundStartCash b")
      case True
      have "myRoundStartCash b \<le> myRoundStartCash p" using key(2) p by auto
      then have "behind (a # b # ps) p = a # behind (b # ps) p" using True by simp
      then show ?thesis
        using 3(1) [OF refl refl True refl] 3(3-5,8) p r1 True by (simp add: Let_def)
    next
      case False
      then have ab: "myRoundStartCash a = myRoundStartCash b" using key(1) by simp
      show ?thesis
      proof (cases "behind (b # ps) p = []")
        case True
        then have "behind (a # b # ps) p = []" using ab by (simp split: if_splits)
        then show ?thesis using 3(2) [OF refl refl False] 3(3-5,8) p r1 False True by (simp add: Let_def)
      next
        case some: False
        then obtain y where "y \<in> set (b # ps)" "myRoundStartCash y < myRoundStartCash p"
          by (auto simp: filter_empty_conv simp del: filter.simps)
        then have "myRoundStartCash a < myRoundStartCash p" using key(2) ab by auto
        then have "behind (a # b # ps) p = a # behind (b # ps) p" by simp
        then show ?thesis using 3(2) [OF refl refl False] 3(3-5,8) p r1 False some by (simp add: Let_def)
      qed
    qed
  qed
qed simp

section \<open>The ranking after a hand\<close>

definition at_table :: "game \<Rightarrow> local_player list" where
  "at_table g = map (nth (seatsList (game_board g))) (activePlayerList (game_board g))"

definition broke :: "game \<Rightarrow> local_player list" where
  "broke g = filter (\<lambda>p. myCash p < 1) (at_table g)"

lemma sorted_broke:
  "sorted (map myRoundStartCash (sort_key myRoundStartCash ps))"
  "distinct (map myUniqueID ps) \<Longrightarrow> distinct (map myUniqueID (sort_key myRoundStartCash ps))"
  "length (behind (sort_key myRoundStartCash ps) p) = length (behind ps p)"
proof -
  show "sorted (map myRoundStartCash (sort_key myRoundStartCash ps))" by simp
  show "distinct (map myUniqueID (sort_key myRoundStartCash ps))" if "distinct (map myUniqueID ps)"
    using that by (simp add: distinct_map)
  have "mset (behind (sort_key myRoundStartCash ps) p) = mset (behind ps p)" by (simp add: mset_filter)
  then show "length (behind (sort_key myRoundStartCash ps) p) = length (behind ps p)" by (rule mset_eq_length)
qed

lemma UpdateRankingMap_eq:
  "UpdateRankingMap g r =
    (let r1 = place_removed (int (length (at_table g))) 0 (sort_key myRoundStartCash (broke g)) r in
     case filter (\<lambda>p. \<not> myCash p < 1) (at_table g) of [p] \<Rightarrow> SetPlayerPlace (myUniqueID p) 1 r1 | _ \<Rightarrow> r1)"
proof -
  have "length (filter P xs) + length (filter (\<lambda>x. \<not> P x) xs) = length xs" for P :: "local_player \<Rightarrow> bool" and xs
    by (induction xs) auto
  then show ?thesis by (simp only: UpdateRankingMap_def broke_def at_table_def Let_def)
qed

lemma updated_places:
  assumes "distinct (map myUniqueID (at_table g))" "p \<in> set (at_table g)" "r (myUniqueID p) = Some d"
  shows "UpdateRankingMap g r (myUniqueID p) = Some
    (if myCash p < 1 then d\<lparr>place := int (length (at_table g)) - int (length (behind (broke g) p))\<rparr>
     else if filter (\<lambda>q. \<not> myCash q < 1) (at_table g) = [p] then d\<lparr>place := 1\<rparr> else d)"
    and "v \<notin> myUniqueID ` set (at_table g) \<Longrightarrow> UpdateRankingMap g r v = r v"
proof -
  let ?alive = "filter (\<lambda>q. \<not> myCash q < 1) (at_table g)" and ?n = "int (length (at_table g))"
  let ?r1 = "place_removed ?n 0 (sort_key myRoundStartCash (broke g)) r"
  have set_broke: "set (broke g) = {q \<in> set (at_table g). myCash q < 1}" by (simp add: broke_def)
  have inj: "inj_on myUniqueID (set (at_table g))" using assms(1) by (simp add: distinct_map)
  have "distinct (map myUniqueID (broke g))" using assms(1) unfolding broke_def by (rule distinct_map_filter)
  note places = place_removed_place [OF sorted_broke(1) sorted_broke(2) [OF this], of 0 ?n p r d]
  have r1: "?r1 (myUniqueID p) = Some (if myCash p < 1 then d\<lparr>place := ?n - int (length (behind (broke g) p))\<rparr> else d)"
  proof (cases "myCash p < 1")
    case True
    have "int (length (broke g)) \<le> ?n" by (simp add: broke_def)
    moreover have "behind (sort_key myRoundStartCash (broke g)) p = [] \<longleftrightarrow> length (behind (broke g) p) = 0"
      by (simp only: sorted_broke(3) [where ps = "broke g" and p = p, symmetric] length_0_conv)
    ultimately show ?thesis
      using True places assms(2,3) by (simp add: set_broke sorted_broke(3))
  next
    case False
    then have "myUniqueID p \<notin> myUniqueID ` set (sort_key myRoundStartCash (broke g))"
      using inj assms(2) by (auto simp: set_broke inj_on_def)
    from place_removed_other [OF this, of ?n 0 r] show ?thesis using False assms(3) by simp
  qed
  have other: "myUniqueID p = myUniqueID q \<longleftrightarrow> q = p" if "q \<in> set (at_table g)" for q
    using inj assms(2) that by (auto simp: inj_on_def)
  show "UpdateRankingMap g r (myUniqueID p) = Some
    (if myCash p < 1 then d\<lparr>place := ?n - int (length (behind (broke g) p))\<rparr>
     else if ?alive = [p] then d\<lparr>place := 1\<rparr> else d)"
  proof (cases "\<exists>q. ?alive = [q]")
    case True
    then obtain q where q: "?alive = [q]" by blast
    then have alive: "{x \<in> set (at_table g). \<not> myCash x < 1} = {q}" by (metis list.set(1) list.set(2) set_filter)
    then have "q \<in> set (at_table g)" "\<not> myCash q < 1" by auto
    moreover have "p = q" if "\<not> myCash p < 1" using alive assms(2) that by blast
    ultimately show ?thesis
      using q r1 other by (auto simp: UpdateRankingMap_eq SetPlayerPlace_apply Let_def)
  next
    case False
    then have "UpdateRankingMap g r = ?r1" by (auto simp: UpdateRankingMap_eq Let_def split: list.split)
    then show ?thesis using r1 False by auto
  qed
  show "UpdateRankingMap g r v = r v" if out: "v \<notin> myUniqueID ` set (at_table g)"
  proof -
    have "v \<notin> myUniqueID ` set (sort_key myRoundStartCash (broke g))" using out by (auto simp: set_broke)
    then have "?r1 v = r v" by (rule place_removed_other)
    moreover have "v \<noteq> myUniqueID q" if "?alive = [q]" for q
    proof -
      have "q \<in> set ?alive" using that by simp
      then show ?thesis using out by auto
    qed
    ultimately show ?thesis by (auto simp: UpdateRankingMap_eq Let_def SetPlayerPlace_apply split: list.split)
  qed
qed

text \<open>C25: The places of a game are those of the rules, with any number of players at the table. A
  player who is left without chips after a hand gets as his place the number of players at the table
  less those who lost their last chips in the same hand and had begun it with fewer chips: equal
  stacks share a place. The only player with chips left, if there is just one, gets the first place,
  and the entries of all others are not touched.\<close>

theorem ranking_places:
  assumes "distinct (map myUniqueID (at_table g))" "p \<in> set (at_table g)" "r (myUniqueID p) = Some d"
  shows "UpdateRankingMap g r (myUniqueID p) = Some
    (if myCash p < 1 then d\<lparr>place := int (length (at_table g)) - int (length (behind (broke g) p))\<rparr>
     else if filter (\<lambda>q. \<not> myCash q < 1) (at_table g) = [p] then d\<lparr>place := 1\<rparr> else d)
    \<and> (\<forall>v. v \<notin> myUniqueID ` set (at_table g) \<longrightarrow> UpdateRankingMap g r v = r v)"
  using updated_places [where r = r, OF assms] by blast

definition ranked_player :: "nat \<Rightarrow> int \<Rightarrow> int \<Rightarrow> local_player" where
  "ranked_player u began cash = (new_player 0 u PLAYER_TYPE_HUMAN ''p'' cash True True BUTTON_NONE)\<lparr>myRoundStartCash := began\<rparr>"

lemma ranked_player_fields [simp]:
  "myUniqueID (ranked_player u b c) = u" "myRoundStartCash (ranked_player u b c) = b" "myCash (ranked_player u b c) = c"
  by (simp_all add: ranked_player_def new_player_def)

definition ranked_game :: game where
  "ranked_game = sample_game\<lparr>gameBoard := new_board
     [ranked_player 21 300 0, ranked_player 22 100 0, ranked_player 23 300 0, ranked_player 24 500 1200] [0, 1, 2, 3]\<rparr>"

lemma ranked_table:
  "at_table ranked_game = [ranked_player 21 300 0, ranked_player 22 100 0, ranked_player 23 300 0, ranked_player 24 500 1200]"
  by (simp add: at_table_def ranked_game_def game_board_def sample_game_def new_board_def)

theorem ranking_places_witness:
  "map (\<lambda>u. map_option place (UpdateRankingMap ranked_game (\<lambda>_. Some \<lparr>rankDBId = 0, place = 0\<rparr>) u)) [21, 22, 23, 24, 25]
    = [Some 3, Some 4, Some 3, Some 1, Some 0]"
proof -
  let ?r = "\<lambda>_ :: nat. Some \<lparr>rankDBId = 0, place = 0\<rparr>"
  have d: "distinct (map myUniqueID (at_table ranked_game))" by (simp add: ranked_table)
  note places = ranking_places [OF d, of _ ?r "\<lparr>rankDBId = 0, place = 0\<rparr>"]
  have b: "broke ranked_game = [ranked_player 21 300 0, ranked_player 22 100 0, ranked_player 23 300 0]"
    by (simp add: broke_def ranked_table)
  show ?thesis
    using places [of "ranked_player 21 300 0"] places [of "ranked_player 22 100 0"]
      places [of "ranked_player 23 300 0"] places [of "ranked_player 24 500 1200"]
    by (simp add: ranked_table b)
qed

end
