(* ===== verification/Chips.thy ===== *)
theory Chips
  imports Game
begin

text \<open>
  The chips at a table. \<open>money_ok T\<close> is the invariant of the money of a hand with \<open>T\<close> chips: cash,
  sets and pot add up to \<open>T\<close>, which is also what the players had at the start of the hand. The
  operations on a seat satisfy the contract \<open>seat_op\<close>, from which every step of the hand inherits
  the invariant.
\<close>

section \<open>The invariant\<close>

definition seat_ok :: "local_player \<Rightarrow> bool" where
  "seat_ok p \<longleftrightarrow> 0 \<le> myCash p \<and> 0 \<le> mySet p \<and> myCash p \<le> myRoundStartCash p \<and>
     0 \<le> myCardsValueInt p \<and> myActiveStatus p"

definition money_ok :: "int \<Rightarrow> table \<Rightarrow> bool" where
  "money_ok T t \<longleftrightarrow> list_all seat_ok (seatsList t) \<and> 0 \<le> pot t \<and> table_chips t = T \<and>
     sum_list (map myRoundStartCash (seatsList t)) = T \<and> distinct (map myUniqueID (seatsList t))"

definition sets_ok :: "table \<Rightarrow> bool" where
  "sets_ok t \<longleftrightarrow> sets t = sum_list (map mySet (seatsList t))"

definition no_bets :: "table \<Rightarrow> bool" where
  "no_bets t \<longleftrightarrow> list_all (\<lambda>p. mySet p = 0) (seatsList t)"

section \<open>Updating a seat\<close>

lemma map_sum_Inr: "map_sum id f x = Inr y \<longleftrightarrow> (\<exists>z. x = Inr z \<and> y = f z)"
  by (cases x) auto

lemma map_update_seat:
  "(i < length ps \<Longrightarrow> g (f (ps ! i)) = g (ps ! i)) \<Longrightarrow> map g (update_seat i f ps) = map g ps"
  unfolding update_seat_def
  by (metis list_update_beyond list_update_id map_update linorder_not_less)

lemma list_all_update_seat:
  "list_all P ps \<Longrightarrow> (\<And>p. P p \<Longrightarrow> P (f p)) \<Longrightarrow> list_all P (update_seat i f ps)"
  unfolding update_seat_def
  by (cases "i < length ps") (auto simp: list_all_length nth_list_update)

lemma length_update_seat [simp]: "length (update_seat i f ps) = length ps"
  by (simp add: update_seat_def)

lemma nth_update_seat:
  "k < length ps \<Longrightarrow> update_seat i f ps ! k = (if k = i then f (ps ! i) else ps ! k)"
  by (auto simp: update_seat_def nth_list_update)

lemma on_seat_fields [simp]:
  "seatsList (on_seat i f t) = update_seat i f (seatsList t)"
  "activePlayerList (on_seat i f t) = activePlayerList t"
  "runningPlayerList (on_seat i f t) = runningPlayerList t"
  "boardCards (on_seat i f t) = boardCards t" "pot (on_seat i f t) = pot t"
  "sets (on_seat i f t) = sets t" "allInCondition (on_seat i f t) = allInCondition t"
  "lastActionPlayerID (on_seat i f t) = lastActionPlayerID t"
  by (simp_all add: on_seat_def)

text \<open>Operations on a seat that keep the money: the contract and what a table inherits from it.\<close>

locale seat_op =
  fixes f :: "local_player \<Rightarrow> local_player"
  assumes op_chips: "seat_ok p \<Longrightarrow> chips (f p) = chips p"
    and op_ok: "seat_ok p \<Longrightarrow> seat_ok (f p)"
    and op_start: "myRoundStartCash (f p) = myRoundStartCash p"
    and op_uid: "myUniqueID (f p) = myUniqueID p"
begin

lemma on_seat_money:
  assumes "money_ok T t"
  shows "money_ok T (on_seat i f t)"
proof -
  have ok: "list_all seat_ok (seatsList t)" using assms by (simp add: money_ok_def)
  then have "map chips (update_seat i f (seatsList t)) = map chips (seatsList t)"
    by (intro map_update_seat) (simp add: op_chips list_all_length)
  moreover have "map myRoundStartCash (update_seat i f (seatsList t)) = map myRoundStartCash (seatsList t)"
    and "map myUniqueID (update_seat i f (seatsList t)) = map myUniqueID (seatsList t)"
    by (simp_all add: map_update_seat op_start op_uid)
  moreover have "list_all seat_ok (update_seat i f (seatsList t))"
    using ok by (rule list_all_update_seat) (rule op_ok)
  ultimately show ?thesis using assms by (simp add: money_ok_def table_chips_def)
qed

lemma fold_seats_money: "money_ok T t \<Longrightarrow> money_ok T (fold (\<lambda>i. on_seat i f) xs t)"
  by (induction xs arbitrary: t) (simp_all add: on_seat_money)

end

text \<open>Operations that do not touch the bets keep the collected sum true, too.\<close>

locale quiet_op = seat_op +
  assumes op_set: "mySet (f p) = mySet p"
begin

lemma on_seat_sets: "sets_ok t \<Longrightarrow> sets_ok (on_seat i f t)"
  by (simp add: sets_ok_def map_update_seat op_set)

lemma on_seat_no_bets: "no_bets t \<Longrightarrow> no_bets (on_seat i f t)"
  by (auto simp: no_bets_def op_set intro: list_all_update_seat)

lemma fold_seats_quiet:
  "sets_ok t \<Longrightarrow> sets_ok (fold (\<lambda>i. on_seat i f) xs t)"
  "no_bets t \<Longrightarrow> no_bets (fold (\<lambda>i. on_seat i f) xs t)"
  by (induction xs arbitrary: t) (simp_all add: on_seat_sets on_seat_no_bets)

end

lemma seat_ok_setMySet: "seat_ok p \<Longrightarrow> seat_ok (setMySet v p)"
  using setMySet_chips [of p v] by (simp add: seat_ok_def)

lemma seat_ok_action [simp]: "seat_ok (p\<lparr>myAction := a\<rparr>) = seat_ok p"
  by (simp add: seat_ok_def)

lemma chips_action [simp]: "chips (p\<lparr>myAction := a\<rparr>) = chips p"
  by (simp add: chips_def)

interpretation betting_op: seat_op "setMySet v" for v
  by unfold_locales (simp_all add: seat_ok_setMySet, simp add: seat_ok_def setMySet_chips)

interpretation blind_op: seat_op "post_blind b v" for b v
  by unfold_locales
     (simp_all add: post_blind_def seat_ok_setMySet, simp add: seat_ok_def setMySet_chips)

interpretation action_op: quiet_op "\<lambda>p. p\<lparr>myAction := a\<rparr>" for a
  by unfold_locales (simp_all add: seat_ok_def chips_def)

interpretation session_op: quiet_op "\<lambda>p. p\<lparr>myIsSessionActive := s\<rparr>" for s
  by unfold_locales (simp_all add: seat_ok_def chips_def)

interpretation turn_op: quiet_op "\<lambda>p. p\<lparr>myTurn := s\<rparr>" for s
  by unfold_locales (simp_all add: seat_ok_def chips_def)

interpretation button_op: quiet_op "set_button b" for b
  by unfold_locales (simp_all add: seat_ok_def chips_def set_button_def)

interpretation aggressive_op: quiet_op "setMyAggressive s" for s
  by unfold_locales (simp_all add: seat_ok_def chips_def setMyAggressive_def)

section \<open>Collecting\<close>

lemma collectSets_fields [simp]:
  "seatsList (collectSets t) = seatsList t" "activePlayerList (collectSets t) = activePlayerList t"
  "runningPlayerList (collectSets t) = runningPlayerList t" "pot (collectSets t) = pot t"
  "boardCards (collectSets t) = boardCards t" "allInCondition (collectSets t) = allInCondition t"
  by (simp_all add: collectSets_def)

lemma collectPot_fields [simp]:
  "seatsList (collectPot t) = map setMySetNull (seatsList t)"
  "activePlayerList (collectPot t) = activePlayerList t"
  "runningPlayerList (collectPot t) = runningPlayerList t"
  "pot (collectPot t) = pot t + sets t" "sets (collectPot t) = 0"
  "boardCards (collectPot t) = boardCards t" "allInCondition (collectPot t) = allInCondition t"
  by (simp_all add: collectPot_def)

lemma setMySetNull_fields [simp]:
  "mySet (setMySetNull p) = 0" "myCash (setMySetNull p) = myCash p"
  "myUniqueID (setMySetNull p) = myUniqueID p" "myAction (setMySetNull p) = myAction p"
  "myRoundStartCash (setMySetNull p) = myRoundStartCash p"
  "myCardsValueInt (setMySetNull p) = myCardsValueInt p"
  "myActiveStatus (setMySetNull p) = myActiveStatus p" "myButton (setMySetNull p) = myButton p"
  "myType (setMySetNull p) = myType p" "myIsSessionActive (setMySetNull p) = myIsSessionActive p"
  by (simp_all add: setMySetNull_def)

lemma collectSets_sets [simp]: "sets_ok (collectSets t)"
  by (simp add: sets_ok_def collectSets_eq)

lemma collectSets_money [simp]: "money_ok T (collectSets t) = money_ok T t"
  by (simp add: money_ok_def table_chips_def)

lemma seat_sums:
  "sum_list (map chips ps) = sum_list (map myCash ps) + sum_list (map mySet ps)"
  by (induction ps) (auto simp: chips_def)

lemma collectPot_money:
  assumes "money_ok T t" "sets_ok t"
  shows "money_ok T (collectPot t)"
proof -
  have "0 \<le> sum_list (map mySet (seatsList t))"
    using assms(1) by (intro sum_list_nonneg) (auto simp: money_ok_def list_all_iff seat_ok_def)
  moreover have "list_all seat_ok (map setMySetNull (seatsList t))"
    using assms(1) by (auto simp: money_ok_def list_all_iff seat_ok_def)
  moreover have "(\<lambda>x. chips (setMySetNull x)) = myCash"
    by (simp add: fun_eq_iff chips_def)
  ultimately show ?thesis
    using assms by (simp add: money_ok_def table_chips_def sets_ok_def o_def seat_sums)
qed

lemma collectPot_sets [simp]: "sets_ok (collectPot t)" "no_bets (collectPot t)"
  by (simp_all add: sets_ok_def no_bets_def o_def list_all_iff)

lemma no_bets_sets: "no_bets t \<Longrightarrow> sum_list (map mySet (seatsList t)) = 0"
  by (simp add: no_bets_def list_all_iff cong: map_cong)

end
