(* ===== verification/Hand_Chips.thy ===== *)
theory Hand_Chips
  imports Chips
begin

text \<open>
  The money of a two-player hand on the server: the steps of the engine loop keep \<open>table_inv\<close>, and
  the pot is distributed without loss at the end.
\<close>

section \<open>Fields\<close>

lemma update_bero_fields [simp]:
  "board (update_bero r f h) = board h" "currentRound (update_bero r f h) = currentRound h"
  "handAllInCondition (update_bero r f h) = handAllInCondition h"
  "smallBlind (update_bero r f h) = smallBlind h"
  "length (myBeRo (update_bero r f h)) = length (myBeRo h)"
  by (simp_all add: update_bero_def)

lemma on_board_fields [simp]:
  "board (on_board f h) = f (board h)" "currentRound (on_board f h) = currentRound h"
  "handAllInCondition (on_board f h) = handAllInCondition h"
  "smallBlind (on_board f h) = smallBlind h" "myBeRo (on_board f h) = myBeRo h"
  by (simp_all add: on_board_def)

lemma round_less_post:
  "r < GAME_STATE_POST_RIVER \<longleftrightarrow>
     r \<in> {GAME_STATE_PREFLOP, GAME_STATE_FLOP, GAME_STATE_TURN, GAME_STATE_RIVER}"
  by (cases r) (simp_all add: less_GameState_def state_code_def)

lemma next_round_post: "r < GAME_STATE_POST_RIVER \<Longrightarrow> next_round r \<le> GAME_STATE_POST_RIVER"
  by (cases r) (simp_all add: less_GameState_def less_eq_GameState_def state_code_def next_round_def)

lemma next_round_greater: "r < GAME_STATE_POST_RIVER \<Longrightarrow> r < next_round r"
  by (cases r) (simp_all add: less_GameState_def state_code_def next_round_def)

section \<open>The invariant of a two-player table\<close>

definition table_inv :: "int \<Rightarrow> table \<Rightarrow> bool" where
  "table_inv T t \<longleftrightarrow> money_ok T t \<and> sets_ok t \<and> length (seatsList t) = 2 \<and> activePlayerList t = [0, 1]"

lemma money_ok_more [simp]:
  "money_ok T (t\<lparr>runningPlayerList := xs\<rparr>) = money_ok T t"
  "money_ok T (t\<lparr>allInCondition := c\<rparr>) = money_ok T t"
  "money_ok T (t\<lparr>lastActionPlayerID := u\<rparr>) = money_ok T t"
  "sets_ok (t\<lparr>runningPlayerList := xs\<rparr>) = sets_ok t"
  "sets_ok (t\<lparr>allInCondition := c\<rparr>) = sets_ok t"
  "sets_ok (t\<lparr>lastActionPlayerID := u\<rparr>) = sets_ok t"
  by (simp_all add: money_ok_def sets_ok_def table_chips_def)

lemma table_inv_more [simp]:
  "table_inv T (t\<lparr>runningPlayerList := xs\<rparr>) = table_inv T t"
  "table_inv T (t\<lparr>allInCondition := c\<rparr>) = table_inv T t"
  "table_inv T (t\<lparr>lastActionPlayerID := u\<rparr>) = table_inv T t"
  by (simp_all add: table_inv_def)

lemma table_inv_collectPot: "table_inv T t \<Longrightarrow> table_inv T (collectPot t)"
  by (simp add: table_inv_def collectPot_money)

text \<open>Who has not folded depends on the actions of the seats only.\<close>

definition unfolded :: "table \<Rightarrow> nat" where
  "unfolded t = length (filter (\<lambda>a. a \<noteq> PLAYER_ACTION_FOLD) (map myAction (seatsList t)))"

lemma two_elements: "length xs = 2 \<Longrightarrow> \<exists>x y. xs = [x, y]"
  by (auto simp: numeral_2_eq_2 length_Suc_conv)

lemma nonFold_unfolded: "table_inv T t \<Longrightarrow> nonFoldPlayerCounter t = unfolded t"
  by (auto simp: table_inv_def nonFoldPlayerCounter_def unfolded_def dest!: two_elements)

lemma unfolded_more [simp]:
  "unfolded (t\<lparr>runningPlayerList := xs\<rparr>) = unfolded t"
  "unfolded (t\<lparr>allInCondition := c\<rparr>) = unfolded t"
  "unfolded (collectPot t) = unfolded t" "unfolded (collectSets t) = unfolded t"
  by (simp_all add: unfolded_def o_def)

section \<open>switchRounds\<close>

lemma refresh_runners_fields:
  "\<exists>xs. board (refresh_runners h) = (board h)\<lparr>runningPlayerList := xs\<rparr>"
  "currentRound (refresh_runners h) = currentRound h"
  by (auto simp: refresh_runners_def Let_def split: prod.split option.split)

lemma refresh_runners_inv:
  "table_inv T (board (refresh_runners h)) = table_inv T (board h)"
  "unfolded (board (refresh_runners h)) = unfolded (board h)"
  using refresh_runners_fields(1) [of h] by auto

lemma detect_end_inv:
  assumes "table_inv T (board h)"
  shows "table_inv T (board (detect_end h))" "unfolded (board (detect_end h)) = unfolded (board h)"
    "unfolded (board h) = 1 \<Longrightarrow> currentRound (detect_end h) = GAME_STATE_POST_RIVER"
    "currentRound h < GAME_STATE_POST_RIVER \<Longrightarrow> currentRound (detect_end h) = GAME_STATE_POST_RIVER \<Longrightarrow>
       no_bets (board (detect_end h))"
    "currentRound (detect_end h) \<in> {currentRound h, GAME_STATE_POST_RIVER}"
  using assms nonFold_unfolded [OF assms]
  by (auto simp: detect_end_def set_all_in_def table_inv_collectPot)

lemma all_in_routine_inv:
  assumes "table_inv T (board h)"
  shows "table_inv T (board (all_in_routine h))"
    "unfolded (board (all_in_routine h)) = unfolded (board h)"
    "no_bets (board h) \<Longrightarrow> no_bets (board (all_in_routine h))"
    "currentRound h = GAME_STATE_POST_RIVER \<Longrightarrow> currentRound (all_in_routine h) = GAME_STATE_POST_RIVER"
    "currentRound h < GAME_STATE_POST_RIVER \<Longrightarrow>
       currentRound (all_in_routine h) = GAME_STATE_POST_RIVER \<Longrightarrow> no_bets (board (all_in_routine h))"
    "currentRound (all_in_routine h) \<in> {currentRound h, next_round (currentRound h)}"
  using assms by (auto simp: all_in_routine_def Let_def table_inv_collectPot)

lemma remember_round_fields [simp]:
  "board (remember_round h) = board h" "currentRound (remember_round h) = currentRound h"
  "handAllInCondition (remember_round h) = handAllInCondition h" "myBeRo (remember_round h) = myBeRo h"
  by (simp_all add: remember_round_def)

lemma switchRounds_inv:
  assumes "table_inv T (board h)"
  shows "table_inv T (board (switchRounds h))"
    and "unfolded (board (switchRounds h)) = unfolded (board h)"
    and "unfolded (board h) = 1 \<Longrightarrow> currentRound (switchRounds h) = GAME_STATE_POST_RIVER"
    and "currentRound h < GAME_STATE_POST_RIVER \<Longrightarrow> currentRound (switchRounds h) \<le> GAME_STATE_POST_RIVER"
    and "currentRound h < GAME_STATE_POST_RIVER \<Longrightarrow> currentRound (switchRounds h) = GAME_STATE_POST_RIVER \<Longrightarrow>
       no_bets (board (switchRounds h))"
proof -
  let ?h1 = "refresh_runners h" and ?h2 = "detect_end (refresh_runners h)"
  have inv1: "table_inv T (board ?h1)" using assms by (simp add: refresh_runners_inv)
  have inv2: "table_inv T (board ?h2)" using inv1 by (rule detect_end_inv)
  have round1: "currentRound ?h1 = currentRound h" by (rule refresh_runners_fields)
  note d = detect_end_inv [OF inv1] and a = all_in_routine_inv [OF inv2]
  show "table_inv T (board (switchRounds h))" "unfolded (board (switchRounds h)) = unfolded (board h)"
    using a(1,2) d(2) by (simp_all add: switchRounds_def refresh_runners_inv)
  show "currentRound (switchRounds h) = GAME_STATE_POST_RIVER" if "unfolded (board h) = 1"
    using that a(4) d(3) by (simp add: switchRounds_def refresh_runners_inv)
  assume less: "currentRound h < GAME_STATE_POST_RIVER"
  consider "currentRound ?h2 = currentRound h" | "currentRound ?h2 = GAME_STATE_POST_RIVER"
    using d(5) round1 by auto
  then have "currentRound (all_in_routine ?h2) \<le> GAME_STATE_POST_RIVER \<and>
      (currentRound (all_in_routine ?h2) = GAME_STATE_POST_RIVER \<longrightarrow> no_bets (board (all_in_routine ?h2)))"
  proof cases
    case 1
    then show ?thesis using a(5,6) less next_round_post [OF less] by auto
  next
    case 2
    then show ?thesis using a(3,4) d(4) round1 less by simp
  qed
  then show "currentRound (switchRounds h) \<le> GAME_STATE_POST_RIVER"
    "currentRound (switchRounds h) = GAME_STATE_POST_RIVER \<Longrightarrow> no_bets (board (switchRounds h))"
    by (simp_all add: switchRounds_def)
qed

section \<open>Turns and the end of a round\<close>

lemma table_inv_quiet:
  assumes "quiet_op f" "table_inv T t"
  shows "table_inv T (on_seat i f t)" "table_inv T (fold (\<lambda>i. on_seat i f) xs t)"
proof -
  note op = quiet_op.axioms(1) [OF assms(1)]
  have step: "table_inv T (on_seat i f t)" if "table_inv T t" for i t
    using that seat_op.on_seat_money [OF op] quiet_op.on_seat_sets [OF assms(1)]
    by (simp add: table_inv_def)
  show "table_inv T (on_seat i f t)" using assms(2) by (rule step)
  show "table_inv T (fold (\<lambda>i. on_seat i f) xs t)"
    using assms(2) by (induction xs arbitrary: t) (simp_all add: step)
qed

lemmas table_inv_ops [intro] =
  table_inv_quiet [OF action_op.quiet_op_axioms] table_inv_quiet [OF session_op.quiet_op_axioms]
  table_inv_quiet [OF turn_op.quiet_op_axioms] table_inv_quiet [OF aggressive_op.quiet_op_axioms]

lemma table_inv_bet: "table_inv T t \<Longrightarrow> table_inv T (collectSets (on_seat i (setMySet v) t))"
  by (simp add: table_inv_def betting_op.on_seat_money)

lemma table_inv_collectSets: "table_inv T t \<Longrightarrow> table_inv T (collectSets t)"
  by (simp add: table_inv_def)

lemma map_fold_on_seat:
  "map g (seatsList (fold (\<lambda>i. on_seat i f) xs t)) = map g (seatsList t)" if "\<And>p. g (f p) = g p"
  using that by (induction xs arbitrary: t) (simp_all add: map_update_seat)

lemma unfolded_frame:
  "(\<And>p. myAction (f p) = myAction p) \<Longrightarrow> unfolded (on_seat i f t) = unfolded t"
  "(\<And>p. myAction (f p) = myAction p) \<Longrightarrow> unfolded (fold (\<lambda>i. on_seat i f) xs t) = unfolded t"
  by (simp_all add: unfolded_def map_update_seat map_fold_on_seat)

lemma unfolded_on_seat_mono:
  assumes "myAction (f (seatsList t ! i)) \<noteq> PLAYER_ACTION_FOLD"
  shows "unfolded t \<le> unfolded (on_seat i f t)"
proof (cases "i < length (seatsList t)")
  case True
  have "unfolded (on_seat i f t) = length (filter (\<lambda>a. a \<noteq> PLAYER_ACTION_FOLD)
      (map myAction (take i (seatsList t)) @ myAction (f (seatsList t ! i))
         # map myAction (drop (Suc i) (seatsList t))))"
    using True by (simp add: unfolded_def update_seat_def upd_conv_take_nth_drop)
  moreover have "unfolded t = length (filter (\<lambda>a. a \<noteq> PLAYER_ACTION_FOLD)
      (map myAction (take i (seatsList t)) @ myAction (seatsList t ! i)
         # map myAction (drop (Suc i) (seatsList t))))"
    unfolding unfolded_def by (subst id_take_nth_drop [OF True]) simp
  ultimately show ?thesis using assms by simp
next
  case False
  then have "update_seat i f (seatsList t) = seatsList t" by (simp add: update_seat_def list_update_beyond)
  then show ?thesis by (simp add: unfolded_def)
qed

lemma clear_actions_inv:
  assumes "table_inv T t"
  shows "table_inv T (clear_actions t)" "unfolded t \<le> unfolded (clear_actions t)"
proof -
  show "table_inv T (clear_actions t)" unfolding clear_actions_def using assms by blast
  have "unfolded t \<le> unfolded (fold (\<lambda>i. on_seat i (\<lambda>p. p\<lparr>myAction := PLAYER_ACTION_NONE\<rparr>)) xs t)" for xs
  proof (induction xs arbitrary: t)
    case (Cons i xs)
    have "unfolded t \<le> unfolded (on_seat i (\<lambda>p. p\<lparr>myAction := PLAYER_ACTION_NONE\<rparr>) t)"
      by (rule unfolded_on_seat_mono) simp
    also note Cons.IH
    finally show ?case by simp
  qed simp
  then show "unfolded t \<le> unfolded (clear_actions t)" by (simp add: clear_actions_def)
qed

lemma collect_round_inv:
  assumes "table_inv T t"
  shows "table_inv T (collect_round t)" "unfolded t \<le> unfolded (collect_round t)"
    "no_bets (collect_round t)"
  using clear_actions_inv [OF assms]
  by (simp_all add: collect_round_def table_inv_collectPot table_inv_collectSets)

text \<open>What every step of the loop keeps, seen from the state \<open>h\<close> it starts in.\<close>

definition hand_kept :: "int \<Rightarrow> local_hand \<Rightarrow> local_hand \<Rightarrow> bool" where
  "hand_kept T h h' \<longleftrightarrow> table_inv T (board h') \<and> unfolded (board h) \<le> unfolded (board h') \<and>
     currentRound h' \<le> GAME_STATE_POST_RIVER \<and>
     (currentRound h' = GAME_STATE_POST_RIVER \<longrightarrow> no_bets (board h'))"

lemma switchRounds_kept:
  assumes "table_inv T (board h)" "currentRound h < GAME_STATE_POST_RIVER"
  shows "hand_kept T h (switchRounds h)"
  using switchRounds_inv [OF assms(1)] assms(2) by (simp add: hand_kept_def)

lemma give_turn_kept:
  assumes "table_inv T (board h)" "currentRound h < GAME_STATE_POST_RIVER" "give_turn r h = Inr h'"
  shows "hand_kept T h h'" "currentRound h' = currentRound h"
proof -
  obtain i where h': "h' = on_board (on_seat i (\<lambda>p. p\<lparr>myTurn := True\<rparr>)) h"
    using assms(3) by (auto simp: give_turn_def split: option.splits)
  show "currentRound h' = currentRound h" by (simp add: h')
  have "table_inv T (on_seat i (\<lambda>p. p\<lparr>myTurn := True\<rparr>) (board h))" using assms(1) by blast
  then show "hand_kept T h h'" using assms(2) by (auto simp: hand_kept_def h' unfolded_frame)
qed

lemma finish_round_kept:
  assumes "table_inv T (board h)" "currentRound h < GAME_STATE_POST_RIVER" "r < GAME_STATE_POST_RIVER"
  shows "hand_kept T h (finish_round r h)"
proof -
  let ?h = "on_board collect_round h"
  note c = collect_round_inv [OF assms(1)]
  have "table_inv T (board ?h)" using c by simp
  note s = switchRounds_inv [OF this]
  have nb: "no_bets (board (switchRounds ?h))"
  proof -
    have "no_bets (board (refresh_runners ?h))"
      using c(3) refresh_runners_fields(1) [of ?h] by (auto simp: no_bets_def)
    moreover have "no_bets (board (detect_end k))" if "no_bets (board k)" for k
      using that by (auto simp: detect_end_def set_all_in_def no_bets_def list_all_iff)
    moreover have "no_bets (board (all_in_routine k))" if "no_bets (board k)" for k
      using that by (auto simp: all_in_routine_def Let_def)
    ultimately show ?thesis by (simp add: switchRounds_def)
  qed
  show ?thesis
    using s c(2) nb assms(2) next_round_post [OF assms(3)]
    by (auto simp: hand_kept_def finish_round_def Let_def)
qed


lemma hand_kept_trans_eq:
  "board h = board h0 \<Longrightarrow> hand_kept T h h' \<Longrightarrow> hand_kept T h0 h'"
  by (simp add: hand_kept_def)

lemma hand_kept_board:
  "board h' = board k \<Longrightarrow> currentRound h' = currentRound k \<Longrightarrow> hand_kept T h k \<Longrightarrow> hand_kept T h h'"
  by (simp add: hand_kept_def)

lemma hand_kept_refl:
  "table_inv T (board h) \<Longrightarrow> currentRound h < GAME_STATE_POST_RIVER \<Longrightarrow> hand_kept T h h"
  by (auto simp: hand_kept_def)

lemma run_round_kept:
  assumes inv: "table_inv T (board h)" and less: "currentRound h < GAME_STATE_POST_RIVER"
    and r: "r < GAME_STATE_POST_RIVER" and run: "run_round r h = Inr h'"
  shows "hand_kept T h h'"
proof (cases "firstRunGui (bero_of r h)")
  case True
  then have h': "h' = (update_bero r (\<lambda>b. b\<lparr>firstRunGui := False\<rparr>) h)\<lparr>previousPlayerID := UINT_MAX\<rparr>"
    using run by (simp add: run_round_def)
  show ?thesis by (rule hand_kept_board [OF _ _ hand_kept_refl [OF inv less]]) (simp_all add: h')
next
  case False
  then obtain b where open_b: "open_round (handAllInCondition h) (board h) (bero_of r h) = Inr b"
    using run by (auto simp: run_round_def split: sum.splits)
  let ?h1 = "update_bero r (\<lambda>_. b) h"
  show ?thesis
  proof (cases "\<not> firstRound b \<and> all_highest_set b (board h)")
    case True
    then have "h' = finish_round r ?h1" using run False open_b by (simp add: run_round_def)
    with finish_round_kept [of T ?h1 r] inv less r hand_kept_trans_eq [of ?h1 h] show ?thesis by simp
  next
    case active: False
    then obtain uid k where
      k: "give_turn r (update_bero r (\<lambda>b. b\<lparr>currentPlayersTurnId := uid\<rparr>) ?h1) = Inr k"
      and h': "h' = update_bero r end_first_round k"
      using run False open_b by (auto simp: run_round_def Let_def map_sum_Inr split: sum.splits)
    have "hand_kept T (update_bero r (\<lambda>b. b\<lparr>currentPlayersTurnId := uid\<rparr>) ?h1) k"
      by (rule give_turn_kept(1) [OF _ _ k]) (use inv less in simp_all)
    then have "hand_kept T h k" by (rule hand_kept_trans_eq [rotated]) simp
    then show ?thesis by (rule hand_kept_board [rotated 2]) (simp_all add: h')
  qed
qed

lemma preflop_turn_kept:
  assumes inv: "table_inv T (board h)" and less: "currentRound h < GAME_STATE_POST_RIVER"
    and run: "preflop_turn h = Inr h'"
  shows "hand_kept T h h'"
proof -
  let ?r = GAME_STATE_PREFLOP and ?b = "bero_of GAME_STATE_PREFLOP h"
  obtain uid where "next_running (currentPlayersTurnId ?b) (board h) = Inr uid"
    using run by (auto simp: preflop_turn_def Let_def split: sum.splits)
  let ?h1 = "update_bero ?r (\<lambda>b. b\<lparr>currentPlayersTurnId := uid\<rparr>) h"
  note next_uid = \<open>next_running (currentPlayersTurnId ?b) (board h) = Inr uid\<close>
  show ?thesis
  proof (cases "\<not> firstRound ?b \<and> all_highest_set ?b (board h)")
    case True
    let ?h2 = "on_board collect_round (?h1\<lparr>currentRound := GAME_STATE_FLOP\<rparr>)"
    have h': "h' = switchRounds ?h2" using run next_uid True by (simp add: preflop_turn_def Let_def)
    have "hand_kept T ?h2 h'"
      unfolding h' using collect_round_inv(1) [OF inv]
      by (intro switchRounds_kept) (simp_all add: round_less_post)
    then show ?thesis using collect_round_inv(2) [OF inv] by (simp add: hand_kept_def)
  next
    case False
    then have "give_turn ?r (update_bero ?r end_first_round ?h1) = Inr h'"
      using run next_uid by (auto simp: preflop_turn_def Let_def)
    then have "hand_kept T (update_bero ?r end_first_round ?h1) h'"
      by (rule give_turn_kept(1) [rotated 2]) (use inv less in simp_all)
    then show ?thesis by (rule hand_kept_trans_eq [rotated]) simp
  qed
qed

lemma run_preflop_kept:
  assumes inv: "table_inv T (board h)" and less: "currentRound h < GAME_STATE_POST_RIVER"
    and run: "run_preflop h = Inr h'"
  shows "hand_kept T h h'"
proof (cases "firstRunGui (bero_of GAME_STATE_PREFLOP h)")
  case False
  then show ?thesis using run preflop_turn_kept [OF inv less] by (simp add: run_preflop_def)
next
  case True
  then obtain last where last: "preflop_last_player (bero_of GAME_STATE_PREFLOP h) (board h) = Inr last"
    using run by (auto simp: run_preflop_def Let_def split: sum.splits)
  show ?thesis
  proof (cases last)
    case None
    then have "h' = update_bero GAME_STATE_PREFLOP (\<lambda>b. b\<lparr>firstRound := False, firstRunGui := False\<rparr>) h"
      using run True last by (simp add: run_preflop_def)
    then show ?thesis using hand_kept_board [OF _ _ hand_kept_refl [OF inv less]] by simp
  next
    case (Some uid)
    let ?h = "update_bero GAME_STATE_PREFLOP (\<lambda>b. (set_first_turn uid b)\<lparr>firstRunGui := False\<rparr>) h"
    have "preflop_turn ?h = Inr h'" using run True last Some by (simp add: run_preflop_def)
    then have "hand_kept T ?h h'" by (rule preflop_turn_kept [rotated 2]) (use inv less in simp_all)
    then show ?thesis by (rule hand_kept_trans_eq [rotated]) simp
  qed
qed

lemma run_current_kept:
  assumes "table_inv T (board h)" "currentRound h < GAME_STATE_POST_RIVER" "run_current h = Inr h'"
  shows "hand_kept T h h'"
  using assms run_preflop_kept [OF assms(1,2), of h'] run_round_kept [OF assms(1,2)]
  by (auto simp: run_current_def round_less_post split: GameState.splits)


section \<open>Player actions\<close>

lemma setLastActionPlayerID_fields [simp]:
  "board (setLastActionPlayerID u h) = (board h)\<lparr>lastActionPlayerID := u\<rparr>"
  "currentRound (setLastActionPlayerID u h) = currentRound h"
  "handAllInCondition (setLastActionPlayerID u h) = handAllInCondition h"
  "myBeRo (setLastActionPlayerID u h) = myBeRo h"
  "smallBlind (setLastActionPlayerID u h) = smallBlind h"
  by (simp_all add: setLastActionPlayerID_def)

lemma update_round_board:
  "\<exists>u. board (update_round a bet p h) = (board h)\<lparr>lastActionPlayerID := u\<rparr>"
  "currentRound (update_round a bet p h) = currentRound h"
proof -
  have "\<exists>u. board h = (board h)\<lparr>lastActionPlayerID := u\<rparr>"
    by (rule exI [of _ "lastActionPlayerID (board h)"]) simp
  then show "\<exists>u. board (update_round a bet p h) = (board h)\<lparr>lastActionPlayerID := u\<rparr>"
    by (cases a) (auto simp: update_round_def Let_def)
  show "currentRound (update_round a bet p h) = currentRound h"
    by (cases a) (auto simp: update_round_def Let_def)
qed

lemma PerformPlayerAction_seats:
  "\<exists>u. board (PerformPlayerAction i a bet h) =
     (if a = PLAYER_ACTION_FOLD \<or> a = PLAYER_ACTION_CHECK
      then on_seat i (\<lambda>p. p\<lparr>myAction := a\<rparr>) (board h)
      else collectSets ((on_seat i (setMySet bet) (on_seat i (\<lambda>p. p\<lparr>myAction := a\<rparr>) (board h)))
             \<lparr>lastActionPlayerID := u\<rparr>))"
  "currentRound (PerformPlayerAction i a bet h) = currentRound h"
proof -
  let ?h2 = "on_board (on_seat i (setMySet bet)) (on_board (on_seat i (\<lambda>p. p\<lparr>myAction := a\<rparr>)) h)"
  obtain u where "board (update_round a bet (seats ?h2 ! i) ?h2) = (board ?h2)\<lparr>lastActionPlayerID := u\<rparr>"
    using update_round_board(1) by blast
  then show "\<exists>u. board (PerformPlayerAction i a bet h) =
     (if a = PLAYER_ACTION_FOLD \<or> a = PLAYER_ACTION_CHECK
      then on_seat i (\<lambda>p. p\<lparr>myAction := a\<rparr>) (board h)
      else collectSets ((on_seat i (setMySet bet) (on_seat i (\<lambda>p. p\<lparr>myAction := a\<rparr>) (board h)))
             \<lparr>lastActionPlayerID := u\<rparr>))"
    by (auto simp: PerformPlayerAction_def Let_def)
  show "currentRound (PerformPlayerAction i a bet h) = currentRound h"
    by (simp add: PerformPlayerAction_def Let_def update_round_board(2))
qed

text \<open>An action folds at most one of the two hands.\<close>

lemma unfolded_on_seat_ge: "unfolded t \<le> Suc (unfolded (on_seat i f t))"
proof (cases "i < length (seatsList t)")
  case True
  have "unfolded (on_seat i f t) = length (filter (\<lambda>a. a \<noteq> PLAYER_ACTION_FOLD)
      (map myAction (take i (seatsList t)) @ myAction (f (seatsList t ! i))
         # map myAction (drop (Suc i) (seatsList t))))"
    using True by (simp add: unfolded_def update_seat_def upd_conv_take_nth_drop)
  moreover have "unfolded t = length (filter (\<lambda>a. a \<noteq> PLAYER_ACTION_FOLD)
      (map myAction (take i (seatsList t)) @ myAction (seatsList t ! i)
         # map myAction (drop (Suc i) (seatsList t))))"
    unfolding unfolded_def by (subst id_take_nth_drop [OF True]) simp
  ultimately show ?thesis by simp
next
  case False
  then have "update_seat i f (seatsList t) = seatsList t"
    by (simp add: update_seat_def list_update_beyond)
  then show ?thesis by (simp add: unfolded_def)
qed

lemma unfolded_cong:
  "map myAction (seatsList t) = map myAction (seatsList t') \<Longrightarrow> unfolded t = unfolded t'"
  by (simp add: unfolded_def)

lemma PerformPlayerAction_inv:
  assumes "table_inv T (board h)"
  shows "table_inv T (board (PerformPlayerAction i a bet h))"
    "unfolded (board h) \<le> Suc (unfolded (board (PerformPlayerAction i a bet h)))"
proof -
  let ?t1 = "on_seat i (\<lambda>p. p\<lparr>myAction := a\<rparr>) (board h)"
  obtain u where b: "board (PerformPlayerAction i a bet h) =
     (if a = PLAYER_ACTION_FOLD \<or> a = PLAYER_ACTION_CHECK then ?t1
      else collectSets ((on_seat i (setMySet bet) ?t1)\<lparr>lastActionPlayerID := u\<rparr>))"
    using PerformPlayerAction_seats(1) by blast
  have t1: "table_inv T ?t1" using assms by blast
  then have "table_inv T (collectSets (on_seat i (setMySet bet) ?t1))" by (rule table_inv_bet)
  moreover have "collectSets ((on_seat i (setMySet bet) ?t1)\<lparr>lastActionPlayerID := u\<rparr>) =
      (collectSets (on_seat i (setMySet bet) ?t1))\<lparr>lastActionPlayerID := u\<rparr>"
    by (simp add: collectSets_def)
  ultimately show "table_inv T (board (PerformPlayerAction i a bet h))" using t1 by (simp add: b)
  have "unfolded (collectSets ((on_seat i (setMySet bet) ?t1)\<lparr>lastActionPlayerID := u\<rparr>)) = unfolded ?t1"
    by (rule unfolded_cong) (simp add: map_update_seat)
  then have "unfolded (board (PerformPlayerAction i a bet h)) = unfolded ?t1" by (simp add: b)
  then show "unfolded (board h) \<le> Suc (unfolded (board (PerformPlayerAction i a bet h)))"
    using unfolded_on_seat_ge [of "board h" i] by simp
qed

section \<open>The end of the hand\<close>

lemma mark_only_player_inv:
  assumes "table_inv T t"
  shows "table_inv T (mark_only_player t)"
    "map myAction (seatsList (mark_only_player t)) = map myAction (seatsList t)"
    "map mySet (seatsList (mark_only_player t)) = map mySet (seatsList t)"
proof -
  let ?step = "\<lambda>i t. if myAction (seatsList t ! i) \<noteq> PLAYER_ACTION_FOLD
                     then on_seat i (setMyAggressive True) t else t"
  have "table_inv T (fold ?step xs t) \<and>
      map myAction (seatsList (fold ?step xs t)) = map myAction (seatsList t) \<and>
      map mySet (seatsList (fold ?step xs t)) = map mySet (seatsList t)" for xs
    using assms
  proof (induction xs arbitrary: t)
    case (Cons i xs)
    have "table_inv T (?step i t)" using Cons.prems by auto
    from Cons.IH [OF this] show ?case by (simp add: map_update_seat setMyAggressive_def)
  qed simp
  then show "table_inv T (mark_only_player t)"
    "map myAction (seatsList (mark_only_player t)) = map myAction (seatsList t)"
    "map mySet (seatsList (mark_only_player t)) = map mySet (seatsList t)"
    using assms by (simp_all add: mark_only_player_def)
qed

lemma determine_fields:
  "seatsList (determinePlayerNeedToShowCards t) = seatsList t"
  "pot (determinePlayerNeedToShowCards t) = pot t"
  by (simp_all add: determinePlayerNeedToShowCards_def Let_def split: option.split)

lemma heads_up_end:
  assumes inv: "table_inv T t" and nb: "no_bets t" and T: "T < 2 ^ 31"
  shows "\<exists>p q a b. seatsList t = [p, q] \<and> heads_up (determinePlayerNeedToShowCards t) p q a b \<and>
    int a + int b = pot t"
proof -
  obtain p q where s: "seatsList t = [p, q]"
    using inv by (auto simp: table_inv_def dest!: two_elements)
  have ok: "seat_ok p" "seat_ok q" "myUniqueID p \<noteq> myUniqueID q"
    using inv by (simp_all add: table_inv_def money_ok_def s)
  have sum: "myRoundStartCash p + myRoundStartCash q = T" "myCash p + myCash q + pot t = T" "0 \<le> pot t"
    using inv nb by (simp_all add: table_inv_def money_ok_def s table_chips_def no_bets_def chips_def)
  let ?a = "nat (myRoundStartCash p - myCash p)" and ?b = "nat (myRoundStartCash q - myCash q)"
  have "int (?a + ?b) < int (2 ^ 31)" using sum ok T by (simp add: seat_ok_def)
  then have "?a + ?b < 2 ^ 31" by (simp only: of_nat_less_iff)
  then have "heads_up (determinePlayerNeedToShowCards t) p q ?a ?b"
    using ok sum by (simp add: heads_up_def determine_fields s seat_ok_def)
  moreover have "int ?a + int ?b = pot t" using ok sum by (simp add: seat_ok_def)
  ultimately show ?thesis using s by blast
qed

lemma postRiverRun_pays:
  assumes inv: "table_inv T (board h)" and nb: "no_bets (board h)" and T: "T < 2 ^ 31"
    and unf: "1 \<le> unfolded (board h)"
  shows "\<exists>h'. postRiverRun h = Inr h' \<and> pot (board h') = 0 \<and> length (seats h') = 2 \<and>
    sum_list (map myCash (seats h')) = T \<and> list_all (\<lambda>p. 0 \<le> myCash p \<and> mySet p = 0) (seats h')"
proof -
  let ?t = "mark_only_player (board h)"
  note m = mark_only_player_inv [OF inv]
  have "list_all (\<lambda>v. v = 0) (map mySet (seatsList ?t))"
    using nb by (simp add: m(3) no_bets_def list_all_iff)
  then have "no_bets ?t" by (simp add: no_bets_def list_all_iff)
  from heads_up_end [OF m(1) this T] obtain p q a b where
    s: "seatsList ?t = [p, q]" and hu: "heads_up (determinePlayerNeedToShowCards ?t) p q a b"
    and pot: "int a + int b = pot ?t" by blast
  have "unfolded ?t = unfolded (board h)" by (rule unfolded_cong) (rule m(2))
  then have nf: "\<not> (myAction p = PLAYER_ACTION_FOLD \<and> myAction q = PLAYER_ACTION_FOLD)"
    using unf by (auto simp: unfolded_def s)
  from distributePot_two [OF hu nf] obtain ws where
    d: "distributePot (beroDealerPosition (bero_of GAME_STATE_POST_RIVER h)) (determinePlayerNeedToShowCards ?t)
      = Inr ((determinePlayerNeedToShowCards ?t)\<lparr>seatsList :=
          [award (int (showdown_share p q a b)) (reset_won p),
           award (int (showdown_share q p b a)) (reset_won q)], winners := ws, pot := 0\<rparr>)" by blast
  have share: "int (showdown_share p q a b) + int (showdown_share q p b a) = pot ?t"
    using nf pot by (auto simp: showdown_share_def)
  have "seat_ok p" "seat_ok q" "mySet p = 0" "mySet q = 0" "myCash p + myCash q + pot ?t = T"
    using m(1) \<open>no_bets ?t\<close> by (simp_all add: table_inv_def money_ok_def s table_chips_def no_bets_def chips_def)
  then show ?thesis
    unfolding postRiverRun_def d using share by (simp add: award_def reset_won_def seat_ok_def)
qed

end
