(* ===== verification/Server_Hand.thy ===== *)
theory Server_Hand
  imports Hand_Chips
begin

text \<open>
  The hand on the server as a whole: the invariant of the states that the engine loop reaches, by
  rule induction over the steps, from the start of the hand to the distribution of the pot.
\<close>

section \<open>The invariant of the loop\<close>

definition loop_ok :: "int \<Rightarrow> local_hand \<Rightarrow> bool" where
  "loop_ok T h \<longleftrightarrow> table_inv T (board h) \<and> currentRound h < GAME_STATE_POST_RIVER \<and>
     1 \<le> unfolded (board h)"

definition waiting_ok :: "int \<Rightarrow> local_hand \<Rightarrow> bool" where
  "waiting_ok T h \<longleftrightarrow> loop_ok T h \<and> 2 \<le> unfolded (board h)"

definition paid_out :: "int \<Rightarrow> local_hand \<Rightarrow> bool" where
  "paid_out T h \<longleftrightarrow> pot (board h) = 0 \<and> length (seats h) = 2 \<and>
     sum_list (map myCash (seats h)) = T \<and> list_all (\<lambda>p. 0 \<le> myCash p \<and> mySet p = 0) (seats h)"

definition result_ok :: "int \<Rightarrow> loop_result \<Rightarrow> bool" where
  "result_ok T res = (case res of
     NextLoop h \<Rightarrow> loop_ok T h | WaitPlayerAction h \<Rightarrow> waiting_ok T h
   | ComputerAction h \<Rightarrow> waiting_ok T h | HandOver h \<Rightarrow> paid_out T h)"

lemma PerformPlayerAction_loop_ok:
  assumes "waiting_ok T h"
  shows "loop_ok T (PerformPlayerAction i a bet h)"
  using assms PerformPlayerAction_inv [of T h i a bet] PerformPlayerAction_seats(2)
  by (simp add: waiting_ok_def loop_ok_def)

lemma continue_hand_ok:
  assumes "waiting_ok T h" "continue_hand connected h = Inr res"
  shows "result_ok T res"
  using assms PerformPlayerAction_loop_ok [OF assms(1)]
  by (auto simp: continue_hand_def result_ok_def Let_def split: sum.splits if_splits)

lemma run_or_stop_kept:
  assumes "loop_ok T h" and h1: "h1 = switchRounds h"
    and run: "(if handAllInCondition h1 then Inr h1 else run_current h1) = Inr h2"
  shows "hand_kept T h h2" "currentRound h2 \<noteq> GAME_STATE_POST_RIVER \<Longrightarrow> waiting_ok T h2"
proof -
  have inv: "table_inv T (board h)" "currentRound h < GAME_STATE_POST_RIVER" "1 \<le> unfolded (board h)"
    using assms(1) by (simp_all add: loop_ok_def)
  note s = switchRounds_inv [OF inv(1), folded h1]
  have k1: "hand_kept T h h1" unfolding h1 using inv(1,2) by (rule switchRounds_kept)
  have k2: "hand_kept T h1 h2"
  proof (cases "handAllInCondition h1 \<or> currentRound h1 = GAME_STATE_POST_RIVER")
    case True
    then have "h2 = h1" using run by (auto simp: run_current_def split: if_splits)
    then show ?thesis using k1 by (simp add: hand_kept_def)
  next
    case False
    then have "currentRound h1 < GAME_STATE_POST_RIVER" using s(4) inv(2) by (simp add: le_less)
    then show ?thesis using run_current_kept [of T h1 h2] s(1) run False by simp
  qed
  show k: "hand_kept T h h2" using k1 k2 by (auto simp: hand_kept_def)
  assume over: "currentRound h2 \<noteq> GAME_STATE_POST_RIVER"
  have "unfolded (board h) \<noteq> 1"
  proof
    assume "unfolded (board h) = 1"
    then have "currentRound h1 = GAME_STATE_POST_RIVER" by (rule s(3))
    then have "h2 = h1" using run by (auto simp: run_current_def split: if_splits)
    with over \<open>currentRound h1 = GAME_STATE_POST_RIVER\<close> show False by simp
  qed
  then show "waiting_ok T h2"
    using k over inv(3) by (auto simp: waiting_ok_def loop_ok_def hand_kept_def)
qed

lemma EngineLoop_ok:
  assumes "loop_ok T h" "T < 2 ^ 31" "EngineLoop connected h = Inr res"
  shows "result_ok T res"
proof -
  let ?h1 = "switchRounds h"
  obtain h2 where run: "(if handAllInCondition ?h1 then Inr ?h1 else run_current ?h1) = Inr h2"
    using assms(3) by (auto simp: EngineLoop_def Let_def split: sum.splits)
  note kept = run_or_stop_kept [OF assms(1) refl run]
  show ?thesis
  proof (cases "currentRound h2 = GAME_STATE_POST_RIVER")
    case True
    then have "no_bets (board h2)" "table_inv T (board h2)" "1 \<le> unfolded (board h2)"
      using kept(1) assms(1) by (auto simp: hand_kept_def loop_ok_def)
    from postRiverRun_pays [OF this(2,1) assms(2) this(3)] obtain h3 where
      "postRiverRun h2 = Inr h3" "paid_out T h3" by (auto simp: paid_out_def)
    then show ?thesis using assms(3) run True by (auto simp: EngineLoop_def Let_def result_ok_def)
  next
    case False
    then have w: "waiting_ok T h2" by (rule kept(2))
    then have "loop_ok T (show_all_in h2)" by (simp add: waiting_ok_def loop_ok_def show_all_in_def)
    then show ?thesis
      using assms(3) run False continue_hand_ok [OF w]
      by (auto simp: EngineLoop_def Let_def result_ok_def split: if_splits)
  qed
qed

text \<open>When all players but one have folded, the next run of the loop ends the hand.\<close>

lemma EngineLoop_last_player:
  assumes "loop_ok T h" "T < 2 ^ 31" "unfolded (board h) = 1"
  shows "\<exists>h'. EngineLoop connected h = Inr (HandOver h')"
proof -
  have inv: "table_inv T (board h)" "currentRound h < GAME_STATE_POST_RIVER"
    using assms(1) by (simp_all add: loop_ok_def)
  let ?h1 = "switchRounds h"
  have r: "currentRound ?h1 = GAME_STATE_POST_RIVER"
    using switchRounds_inv(3) [OF inv(1)] assms(3) by simp
  then have run: "(if handAllInCondition ?h1 then Inr ?h1 else run_current ?h1) = Inr ?h1"
    by (simp add: run_current_def)
  have "table_inv T (board ?h1)" "no_bets (board ?h1)" "1 \<le> unfolded (board ?h1)"
    using run_or_stop_kept(1) [OF assms(1) refl run] assms(3) r by (auto simp: hand_kept_def)
  from postRiverRun_pays [OF this(1,2) assms(2) this(3)] obtain h3 where "postRiverRun ?h1 = Inr h3" by blast
  then show ?thesis using run r by (simp add: EngineLoop_def Let_def)
qed

lemma handle_action_request_ok:
  assumes "waiting_ok T h" "handle_action_request gameId uid q h = Inr (Accepted h')"
  shows "loop_ok T h'"
proof -
  obtain i a bet where
    h': "h' = PerformPlayerAction i a bet (on_board (on_seat i (\<lambda>p. p\<lparr>myIsSessionActive := True\<rparr>)) h)"
    using assms(2) by (auto simp: handle_action_request_def Let_def split: if_splits option.splits sum.splits)
  have "waiting_ok T (on_board (on_seat i (\<lambda>p. p\<lparr>myIsSessionActive := True\<rparr>)) h)"
    using assms(1) by (auto simp: waiting_ok_def loop_ok_def unfolded_frame)
  then show ?thesis unfolding h' by (rule PerformPlayerAction_loop_ok)
qed

lemma player_timeout_ok:
  assumes "waiting_ok T h" "player_timeout h = Inr h'"
  shows "loop_ok T h'"
  using assms(2) PerformPlayerAction_loop_ok [OF assms(1)]
  by (auto simp: player_timeout_def split: sum.splits)

definition phase_ok :: "int \<Rightarrow> phase \<times> local_hand \<Rightarrow> bool" where
  "phase_ok T s = (case s of
     (Looping, h) \<Rightarrow> loop_ok T h | (Waiting, h) \<Rightarrow> waiting_ok T h
   | (Computing, h) \<Rightarrow> waiting_ok T h | (Over, h) \<Rightarrow> paid_out T h)"

lemma server_step_ok:
  assumes "server_step s s'" "phase_ok T s" "T < 2 ^ 31"
  shows "phase_ok T s'"
  using assms
  by cases (auto simp: phase_ok_def result_ok_def dest: EngineLoop_ok handle_action_request_ok player_timeout_ok)

lemma server_steps_ok:
  assumes "server_steps s s'" "phase_ok T s" "T < 2 ^ 31"
  shows "phase_ok T s'"
  using assms by (induction rule: rtranclp_induct) (auto dest: server_step_ok)

end
