(* ===== verification/Deal.thy ===== *)
theory Deal
  imports Hand Hand_Order
begin

text \<open>
  The cards of a hand: dealing from a shuffled deck (\<open>LocalHand::LocalHand\<close>,
  \<open>src/src/engine/local_engine/localhand.cpp\<close>) and the evaluator that is called on them. A shuffled
  deck is any arrangement of the 52 cards.
\<close>

definition deck_ok :: "int list \<Rightarrow> bool" where
  "deck_ok deck \<longleftrightarrow> length deck = 52 \<and> distinct deck \<and> set deck = {0..<52}"

lemma deck_nths:
  assumes "deck_ok deck" "distinct ks" "\<forall>k \<in> set ks. k < 52"
  shows "distinct (map (nth deck) ks)" "set (map (nth deck) ks) \<subseteq> {0..<52}"
proof -
  have "inj_on (nth deck) (set ks)"
    using assms by (auto simp: deck_ok_def inj_on_def nth_eq_iff_index_eq)
  then show "distinct (map (nth deck) ks)" using assms(2) by (simp add: distinct_map)
  show "set (map (nth deck) ks) \<subseteq> {0..<52}"
    using assms(1,3) nth_mem [of _ deck] by (auto simp: deck_ok_def)
qed

lemma take_nths: "n \<le> length xs \<Longrightarrow> take n xs = map (nth xs) [0..<n]"
  by (rule nth_equalityI) simp_all

lemma dealt_valid:
  assumes "deck_ok deck" "2 * k + 6 < 52"
  shows "valid_cards ([deck ! (2 * k + 5), deck ! (2 * k + 1 + 5)] @ take 5 deck)"
proof -
  have "take 5 deck = map (nth deck) [0..<5]"
    using assms(1) by (intro take_nths) (simp add: deck_ok_def)
  then have eq: "[deck ! (2 * k + 5), deck ! (2 * k + 1 + 5)] @ take 5 deck =
      map (nth deck) ([2 * k + 5, 2 * k + 1 + 5] @ [0..<5])"
    by simp
  have "distinct ([2 * k + 5, 2 * k + 1 + 5] @ [0..<5])"
    "\<forall>i \<in> set ([2 * k + 5, 2 * k + 1 + 5] @ [0..<5]). i < 52" using assms(2) by auto
  from deck_nths [OF assms(1) this] show ?thesis unfolding eq by (simp add: valid_cards_def)
qed

lemma cardsValue_nonneg:
  assumes "valid_cards cs"
  shows "0 \<le> fst (cardsValue cs)"
proof -
  have wf: "wf_hand (reference_hand cs)" by (rule reference_hand_wf [OF assms])
  then have "0 \<le> fst (reference_hand cs)" by (auto simp: wf_hand_def split: prod.splits)
  then show ?thesis using tie_value_range [OF wf] by (simp add: cardsValue_correct [OF assms] encode_split)
qed

lemma deal_player_fields [simp]:
  "myCards (deal_player deck k p) = [deck ! (2 * k + 5), deck ! (2 * k + 1 + 5)]"
  "myCardsValueInt (deal_player deck k p) =
     fst (cardsValue ([deck ! (2 * k + 5), deck ! (2 * k + 1 + 5)] @ take 5 deck))"
  "myRoundStartCash (deal_player deck k p) = myCash p" "myCash (deal_player deck k p) = myCash p"
  "mySet (deal_player deck k p) = mySet p" "myUniqueID (deal_player deck k p) = myUniqueID p"
  "myAction (deal_player deck k p) = myAction p" "myActiveStatus (deal_player deck k p) = myActiveStatus p"
  "myType (deal_player deck k p) = myType p" "myButton (deal_player deck k p) = myButton p"
  by (simp_all add: deal_player_def Let_def split: prod.split)

lemma deal_players_seats:
  assumes "distinct xs" "\<forall>i \<in> set xs. i < length ps" "k + length xs \<le> 23"
  shows "\<exists>ps'. deal_players deck xs k ps = Inr ps' \<and> length ps' = length ps \<and>
    (\<forall>j < length xs. ps' ! (xs ! j) = deal_player deck (k + j) (ps ! (xs ! j))) \<and>
    (\<forall>i < length ps. i \<notin> set xs \<longrightarrow> ps' ! i = ps ! i)"
  using assms
proof (induction xs arbitrary: k ps)
  case Nil
  then show ?case by simp
next
  case (Cons i xs)
  let ?ps = "update_seat i (deal_player deck k) ps"
  have "\<forall>i \<in> set xs. i < length ?ps" using Cons.prems(2) by (simp add: update_seat_def)
  with Cons.IH [of ?ps "Suc k"] Cons.prems obtain ps' where ps':
    "deal_players deck xs (Suc k) ?ps = Inr ps'" "length ps' = length ps"
    "\<forall>j < length xs. ps' ! (xs ! j) = deal_player deck (Suc k + j) (?ps ! (xs ! j))"
    "\<forall>i < length ps. i \<notin> set xs \<longrightarrow> ps' ! i = ?ps ! i"
    by (auto simp: update_seat_def)
  have other: "?ps ! (xs ! j) = ps ! (xs ! j)" if "j < length xs" for j
  proof -
    have "xs ! j \<noteq> i" using that Cons.prems(1) nth_mem by fastforce
    then show ?thesis by (simp add: update_seat_def)
  qed
  have "ps' ! ((i # xs) ! j) = deal_player deck (k + j) (ps ! ((i # xs) ! j))" if "j < length (i # xs)" for j
  proof (cases j)
    case 0
    then show ?thesis using ps'(4) Cons.prems by (simp add: update_seat_def)
  next
    case (Suc j')
    then show ?thesis using ps'(3) other that by simp
  qed
  moreover have "ps' ! j = ps ! j" if "j < length ps" "j \<notin> set (i # xs)" for j
    using ps'(4) that by (auto simp: update_seat_def)
  ultimately show ?case using ps'(1,2) Cons.prems(3) by simp
qed

lemma concat_pairs:
  "concat (map (\<lambda>j. [f (2 * j + 5), f (2 * j + 1 + 5)]) [0..<n]) = map f [5..<2 * n + 5]"
proof (induction n)
  case (Suc n)
  have "2 * Suc n + 5 = Suc (Suc (2 * n + 5))" by simp
  then have "[5..<2 * Suc n + 5] = [5..<2 * n + 5] @ [2 * n + 5, 2 * n + 1 + 5]"
    by (simp only: upt_Suc) simp
  then show ?case using Suc.IH by (simp only: upt_Suc map_append concat_append) simp
qed simp

text \<open>C34: Dealing from any shuffled deck is fair: it succeeds for up to 23 active players, no card
  is on the table twice (neither on the board nor in two hands), and the value stored for every
  active player is the encoding of the best hand that poker gives to his hole cards and the board;
  the cash he starts the hand with is recorded.\<close>

theorem deal_fair:
  assumes "deck_ok deck" "distinct (activePlayerList t)" "length (activePlayerList t) \<le> 23"
    and "\<forall>i \<in> set (activePlayerList t). i < length (seatsList t)"
  shows "\<exists>t'. deal deck t = Inr t' \<and>
    distinct (boardCards t' @ concat (map (\<lambda>i. myCards (seatsList t' ! i)) (activePlayerList t))) \<and>
    length (boardCards t') = 5 \<and>
    (\<forall>i \<in> set (activePlayerList t). length (myCards (seatsList t' ! i)) = 2 \<and>
       myCardsValueInt (seatsList t' ! i) =
         encode (reference_hand (myCards (seatsList t' ! i) @ boardCards t')) \<and>
       myRoundStartCash (seatsList t' ! i) = myCash (seatsList t ! i))"
proof -
  let ?active = "activePlayerList t" and ?ps = "map (\<lambda>p. p\<lparr>myCardsFlip := False\<rparr>) (seatsList t)"
  obtain ps' where d: "deal_players deck ?active 0 ?ps = Inr ps'"
    and ps': "\<forall>j < length ?active. ps' ! (?active ! j) = deal_player deck j (?ps ! (?active ! j))"
    using deal_players_seats [of ?active ?ps 0 deck] assms by auto
  let ?t = "t\<lparr>boardCards := take 5 deck, seatsList := ps'\<rparr>"
  have seat: "ps' ! (?active ! j) = deal_player deck j ((seatsList t ! (?active ! j))\<lparr>myCardsFlip := False\<rparr>)"
    if "j < length ?active" for j using ps' that assms(4) by simp
  have holes: "map (\<lambda>i. myCards (ps' ! i)) ?active =
      map (\<lambda>j. [deck ! (2 * j + 5), deck ! (2 * j + 1 + 5)]) [0..<length ?active]"
    by (rule nth_equalityI) (simp_all add: seat)
  have "[0..<2 * length ?active + 5] = [0..<5] @ [5..<2 * length ?active + 5]"
    using upt_add_eq_append [of 0 5 "2 * length ?active"] by (simp add: add.commute)
  then have "take 5 deck @ concat (map (\<lambda>i. myCards (ps' ! i)) ?active) =
      map (nth deck) [0..<2 * length ?active + 5]"
    using assms(1) unfolding holes concat_pairs by (simp add: take_nths deck_ok_def)
  moreover have "distinct (map (nth deck) [0..<2 * length ?active + 5])"
    using assms(3) by (intro deck_nths [OF assms(1)]) auto
  moreover have "length (myCards (ps' ! i)) = 2 \<and>
      myCardsValueInt (ps' ! i) = encode (reference_hand (myCards (ps' ! i) @ take 5 deck)) \<and>
      myRoundStartCash (ps' ! i) = myCash (seatsList t ! i)" if i: "i \<in> set ?active" for i
  proof -
    obtain j where "j < length ?active" "i = ?active ! j" using i by (auto simp: in_set_conv_nth)
    then show ?thesis
      using cardsValue_correct [OF dealt_valid [OF assms(1), of j]] assms(3) by (simp add: seat)
  qed
  ultimately show ?thesis
    using d assms(1) by (intro exI [of _ ?t]) (simp add: deal_def deck_ok_def)
qed

definition sorted_deck :: "int list" where
  "sorted_deck = map int [0..<52]"

lemma sorted_deck_ok: "deck_ok sorted_deck"
proof -
  have "set sorted_deck = {0..<52}"
    using image_int_atLeastLessThan [of 0 52] by (simp add: sorted_deck_def)
  then show ?thesis by (simp add: deck_ok_def sorted_deck_def distinct_map)
qed

theorem deal_fair_witness:
  "\<exists>t'. deal sorted_deck sample_table = Inr t' \<and>
     distinct (boardCards t' @ concat (map (\<lambda>i. myCards (seatsList t' ! i)) [0, 1]))"
proof -
  have "distinct (activePlayerList sample_table)" "length (activePlayerList sample_table) \<le> 23"
    "\<forall>i \<in> set (activePlayerList sample_table). i < length (seatsList sample_table)"
    "activePlayerList sample_table = [0, 1]"
    by (simp_all add: sample_table_def)
  with deal_fair [OF sorted_deck_ok this(1-3)] show ?thesis by auto
qed

end
