(* ===== verification/Hand_Start.thy ===== *)
theory Hand_Start
  imports Server_Hand Deal
begin

text \<open>
  From the start of a hand to its end: \<open>Game::initHand\<close> brings a two-player game into a state from
  which the loop of the server conserves the chips.
\<close>

section \<open>What the start of a hand does to the money\<close>

text \<open>A table between two hands: two players with cash, nothing in front of them and no pot.\<close>

definition between_hands :: "int \<Rightarrow> table \<Rightarrow> bool" where
  "between_hands T t \<longleftrightarrow> length (seatsList t) = 2 \<and> activePlayerList t = [0, 1] \<and> pot t = 0 \<and>
     sum_list (map myCash (seatsList t)) = T \<and> distinct (map myUniqueID (seatsList t)) \<and>
     list_all (\<lambda>p. 0 < myCash p \<and> mySet p = 0 \<and> myActiveStatus p) (seatsList t)"

text \<open>\<open>staged T\<close> is \<open>table_inv T\<close> without the collected sum, which the blinds change.\<close>

definition staged :: "int \<Rightarrow> table \<Rightarrow> bool" where
  "staged T t \<longleftrightarrow> money_ok T t \<and> length (seatsList t) = 2 \<and> activePlayerList t = [0, 1] \<and> unfolded t = 2"

lemma prepare_board_two:
  assumes "between_hands T t"
  shows "prepare_board t = t\<lparr>allInCondition := False, runningPlayerList := [0, 1],
           seatsList := map (\<lambda>p. p\<lparr>myAction := PLAYER_ACTION_NONE\<rparr>) (seatsList t)\<rparr>"
proof -
  obtain p q where s: "seatsList t = [p, q]" using assms by (auto simp: between_hands_def dest!: two_elements)
  then show ?thesis
    using assms by (simp add: between_hands_def prepare_board_def drop_broke_def map_seats_def Let_def)
qed

lemma deal_two:
  assumes "deck_ok deck" "between_hands T t"
  shows "\<exists>t'. deal deck (prepare_board t) = Inr t' \<and> staged T t' \<and>
    runningPlayerList t' = [0, 1] \<and> map myCash (seatsList t') = map myCash (seatsList t) \<and>
    map myUniqueID (seatsList t') = map myUniqueID (seatsList t) \<and>
    map myType (seatsList t') = map myType (seatsList t) \<and>
    list_all (\<lambda>p. mySet p = 0 \<and> myAction p = PLAYER_ACTION_NONE) (seatsList t')"
proof -
  obtain p q where s: "seatsList t = [p, q]"
    using assms(2) by (auto simp: between_hands_def dest!: two_elements)
  let ?reset = "\<lambda>p. p\<lparr>myAction := PLAYER_ACTION_NONE, myCardsFlip := False\<rparr>"
  let ?t' = "t\<lparr>allInCondition := False, runningPlayerList := [0, 1], boardCards := take 5 deck,
               seatsList := [deal_player deck 0 (?reset p), deal_player deck 1 (?reset q)]\<rparr>"
  have d: "deal deck (prepare_board t) = Inr ?t'"
    using assms(2) by (simp add: prepare_board_two [OF assms(2)] deal_def s between_hands_def update_seat_def)
  have nonneg: "0 \<le> fst (cardsValue ([deck ! (2 * k + 5), deck ! (2 * k + 1 + 5)] @ take 5 deck))"
    if "2 * k + 6 < 52" for k
    by (rule cardsValue_nonneg [OF dealt_valid [OF assms(1) that]])
  have "staged T ?t'"
    using assms(2) nonneg [of 0] nonneg [of 1]
    by (simp add: staged_def money_ok_def between_hands_def s seat_ok_def table_chips_def chips_def unfolded_def)
  then show ?thesis using d assms(2) by (simp add: between_hands_def s)
qed

lemma staged_seat_op:
  assumes "seat_op f" "\<And>p. myAction (f p) = PLAYER_ACTION_FOLD \<Longrightarrow> myAction p = PLAYER_ACTION_FOLD"
    and "staged T t"
  shows "staged T (on_seat i f t)"
proof -
  obtain p q where s: "seatsList t = [p, q]" using assms(3) by (auto simp: staged_def dest!: two_elements)
  have "myAction p \<noteq> PLAYER_ACTION_FOLD" "myAction q \<noteq> PLAYER_ACTION_FOLD"
    using assms(3) by (auto simp: staged_def unfolded_def s split: if_splits)
  then have "unfolded (on_seat i f t) = 2"
    using assms(2) by (cases i; cases "i - 1") (auto simp: unfolded_def s update_seat_def)
  then show ?thesis
    using assms(3) seat_op.on_seat_money [OF assms(1)] by (simp add: staged_def)
qed

lemma staged_button: "staged T t \<Longrightarrow> staged T (on_seat i (set_button b) t)"
  by (rule staged_seat_op) (simp_all add: button_op.seat_op_axioms set_button_def)

lemma staged_post_blinds: "staged T t \<Longrightarrow> staged T (post_blinds b v t)"
proof -
  have step: "staged T (on_seat i (post_blind b v) t)" if "staged T t" for i t
    using that by (rule staged_seat_op [rotated 2])
      (auto simp: blind_op.seat_op_axioms post_blind_def split: if_splits)
  have "staged T (fold (\<lambda>i. on_seat i (post_blind b v)) xs t)" if "staged T t" for xs
    using that by (induction xs arbitrary: t) (simp_all add: step)
  then show "staged T t \<Longrightarrow> staged T (post_blinds b v t)" by (simp add: post_blinds_def)
qed

lemma staged_more [simp]:
  "staged T (t\<lparr>lastActionPlayerID := u\<rparr>) = staged T t"
  by (simp add: staged_def unfolded_def)

lemma set_button_fields [simp]:
  "chips (set_button b p) = chips p" "seat_ok (set_button b p) = seat_ok p"
  "myUniqueID (set_button b p) = myUniqueID p" "myRoundStartCash (set_button b p) = myRoundStartCash p"
  "myAction (set_button b p) = myAction p" "mySet (set_button b p) = mySet p"
  "myCash (set_button b p) = myCash p" "myButton (set_button b p) = b"
  by (simp_all add: set_button_def chips_def seat_ok_def)

lemma staged_clear_buttons: "staged T t \<Longrightarrow> staged T (map_seats (set_button BUTTON_NONE) t)"
  by (simp add: staged_def map_seats_def money_ok_def table_chips_def unfolded_def o_def list_all_iff)

lemma assignButtons_staged:
  assumes "assignButtons h = Inr h'" "staged T (board h)"
  shows "staged T (board h')" "currentRound h' = currentRound h"
    "runningPlayerList (board h') = runningPlayerList (board h)"
    "handAllInCondition h' = handAllInCondition h"
  using assms
  by (auto simp: assignButtons_def Let_def map_seats_def [symmetric] staged_button staged_clear_buttons
      split: option.splits) (auto simp: map_seats_def)

lemma new_hand_staged:
  assumes "deck_ok deck" "between_hands T t" "new_hand deck (prepare_board t) ident sP dP sB sC = Inr h"
  shows "staged T (board h)" "currentRound h = GAME_STATE_PREFLOP"
proof -
  obtain t1 where t1: "deal deck (prepare_board t) = Inr t1" "staged T t1"
    using deal_two [OF assms(1,2)] by blast
  obtain h1 bs where h1: "assignButtons \<lparr> board = t1, myBeRo = [], handID = ident, startQuantityPlayers = sP,
                 handDealerPosition = dP, smallBlindPosition = dP, bigBlindPosition = dP,
                 currentRound = GAME_STATE_PREFLOP, roundBeforePostRiver = GAME_STATE_PREFLOP,
                 smallBlind = sB, startCash = sC, previousPlayerID = UINT_MAX,
                 handLastActionPlayerID = 0, handAllInCondition = False, cardsShown = False,
                 highestCardsValue = 0 \<rparr> = Inr h1" and h: "h = (setBlinds h1)\<lparr>myBeRo := bs\<rparr>"
    using assms(3) t1(1) by (auto simp: new_hand_def Let_def map_sum_Inr split: sum.splits)
  from assignButtons_staged [OF h1, of T] t1(2)
  have "staged T (board h1)" "currentRound h1 = GAME_STATE_PREFLOP" by simp_all
  then show "staged T (board h)" "currentRound h = GAME_STATE_PREFLOP"
    by (simp_all add: h setBlinds_def staged_post_blinds)
qed

lemma start_on_server_ok:
  assumes "staged T (board h)" "currentRound h = GAME_STATE_PREFLOP"
  shows "loop_ok T (start_on_server h)"
proof -
  have b: "board (start_on_server h) = collectSets (board h)" "currentRound (start_on_server h) = currentRound h"
    by (simp_all add: start_on_server_def start_def skipFirstRunGui_def)
  show ?thesis
    using assms by (simp add: loop_ok_def b staged_def table_inv_def round_less_post)
qed

lemma initHand_loop_ok:
  assumes "deck_ok deck" "between_hands T (game_board g)"
    and "initHand deck minutes g = Inr g'" "currentHand g' = Some h"
  shows "loop_ok T (start_on_server h)"
proof -
  let ?g1 = "raiseBlinds minutes (g\<lparr>currentHandID := currentHandID g + 1\<rparr>)"
  have board: "game_board ?g1 = game_board g"
    by (auto simp: raiseBlinds_def game_board_def Let_def split: prod.split RaiseIntervalMode.split option.split)
  obtain ident sP dP sB sC where
    "new_hand deck (prepare_board (game_board g)) ident sP dP sB sC = Inr h"
    using assms(3,4) board by (auto simp: initHand_def Let_def map_sum_Inr split: sum.splits)
  from start_on_server_ok [OF new_hand_staged [OF assms(1,2) this]] show ?thesis .
qed

text \<open>C4: A whole two-player hand on the server conserves the chips. From the start of the hand with
  any shuffled deck, through any sequence of steps of the engine loop, of requests of the clients
  and of timeouts, whoever is connected: when the hand is over the pot is empty, nothing is left
  in front of the players, nobody has negative cash and the two players together own what they
  owned when the hand began.\<close>

theorem hand_conserves_chips:
  assumes "deck_ok deck" "between_hands T (game_board g)" "T < 2 ^ 31"
    and "initHand deck minutes g = Inr g'" "currentHand g' = Some h"
    and "server_steps (Looping, start_on_server h) (Over, h')"
  shows "pot (board h') = 0 \<and> sum_list (map myCash (seats h')) = sum_list (map myCash (seatsList (game_board g))) \<and>
    list_all (\<lambda>p. 0 \<le> myCash p \<and> mySet p = 0) (seats h')"
proof -
  have "phase_ok T (Looping, start_on_server h)"
    using initHand_loop_ok [OF assms(1,2,4,5)] by (simp add: phase_ok_def)
  from server_steps_ok [OF assms(6) this assms(3)] show ?thesis
    using assms(2) by (simp add: phase_ok_def paid_out_def between_hands_def)
qed

text \<open>A concrete game: two clients, blinds of 10 and 20. In \<open>folded_hand\<close> the first to act does not
  answer in time.\<close>

definition sample_seat :: "int \<Rightarrow> nat \<Rightarrow> string \<Rightarrow> int \<Rightarrow> int list \<Rightarrow> int list \<Rightarrow> int \<Rightarrow> int \<Rightarrow> Button \<Rightarrow> PlayerAction \<Rightarrow> bool \<Rightarrow> local_player" where
  "sample_seat ident uid name v best hole stake bet b act onTurn =
     (new_player ident uid PLAYER_TYPE_HUMAN name stake True True b)\<lparr>
       myCardsValueInt := v, myBestHandPosition := best, myCards := hole, myCash := stake - bet, mySet := bet, myLastRelativeSet := bet,
       myAction := act, myTurn := onTurn, myRoundStartCash := stake, myIsSessionActive := True\<rparr>"

definition sample_bero :: "GameState \<Rightarrow> int \<Rightarrow> bool \<Rightarrow> nat \<Rightarrow> nat \<Rightarrow> bero" where
  "sample_bero r hs gui cur lst = \<lparr>myBeRoID = r, beroDealerPosition = 9,
                beroSmallBlind = 10, smallBlindPositionId = 9,
                bigBlindPositionId = 7, highestSet = hs, minimumRaise = 20,
                fullBetRule = False, firstRound = True, firstRunGui = gui,
                currentPlayersTurnId = cur, firstRoundLastPlayersTurnId = lst\<rparr>"

definition sample_hand :: "PlayerAction \<Rightarrow> bool \<Rightarrow> int \<Rightarrow> bool \<Rightarrow> nat \<Rightarrow> nat \<Rightarrow> bool \<Rightarrow> local_hand" where
  "sample_hand act onTurn collected gui cur lst laterGui = 
       \<lparr>board =
          \<lparr>seatsList = [sample_seat 0 7 ''A'' 806000000 [1, 0, 6, 5, 4] [5, 6] 1000 20 BUTTON_BIG_BLIND PLAYER_ACTION_NONE False,
             sample_seat 1 9 ''B'' 804000000 [6, 5, 4, 3, 2] [7, 8] 500 10 BUTTON_SMALL_BLIND act onTurn],
             activePlayerList = [0, 1], runningPlayerList = [0, 1],
             boardCards = [0, 1, 2, 3, 4], pot = 0, sets = collected,
             allInCondition = False, lastActionPlayerID = 7, winners = [],
             playerNeedToShowCards = []\<rparr>,
          myBeRo = [sample_bero GAME_STATE_PREFLOP 20 gui cur lst, sample_bero GAME_STATE_FLOP 0 laterGui 0 0,
             sample_bero GAME_STATE_TURN 0 laterGui 0 0, sample_bero GAME_STATE_RIVER 0 laterGui 0 0,
             sample_bero GAME_STATE_POST_RIVER 0 True 0 0],
          handID = 1, startQuantityPlayers = 2, handDealerPosition = 9,
          smallBlindPosition = 9, bigBlindPosition = 7,
          currentRound = GAME_STATE_PREFLOP,
          roundBeforePostRiver = GAME_STATE_PREFLOP, smallBlind = 10,
          startCash = 1000, previousPlayerID = UINT_MAX,
          handLastActionPlayerID = 7, handAllInCondition = False,
          cardsShown = False, highestCardsValue = 0\<rparr>"


text \<open>The hand as it is dealt, started, waiting for the first player, and after his timeout.\<close>

definition dealt_hand :: local_hand where
  "dealt_hand = sample_hand PLAYER_ACTION_NONE False 0 True 0 0 True"
definition started_hand :: local_hand where
  "started_hand = sample_hand PLAYER_ACTION_NONE False 30 True 0 0 False"
definition waiting_hand :: local_hand where
  "waiting_hand = sample_hand PLAYER_ACTION_NONE True 30 False 9 7 False"
definition given_up_hand :: local_hand where
  "given_up_hand = sample_hand PLAYER_ACTION_FOLD True 30 False 9 7 False"

lemma sample_game_ok: "between_hands 1500 (game_board sample_game)"
  by code_simp

lemma sample_game_dealt:
  "case initHand sorted_deck 0 sample_game of Inl _ \<Rightarrow> False | Inr g' \<Rightarrow> currentHand g' = Some dealt_hand"
  by code_simp

lemma sample_hand_steps:
  "start_on_server dealt_hand = started_hand"
  "EngineLoop (\<lambda>_. True) started_hand = Inr (WaitPlayerAction waiting_hand)"
  "player_timeout waiting_hand = Inr given_up_hand"
  "unfolded (board given_up_hand) = 1"
  by (code_simp, code_simp, code_simp, code_simp)

lemma sample_hand_ends:
  "\<exists>h'. server_steps (Looping, start_on_server dealt_hand) (Over, h')"
proof -
  obtain g where "initHand sorted_deck 0 sample_game = Inr g" "currentHand g = Some dealt_hand"
    using sample_game_dealt by (auto split: sum.splits)
  then have "loop_ok 1500 started_hand"
    using initHand_loop_ok [OF sorted_deck_ok sample_game_ok] sample_hand_steps(1) by force
  moreover have *: "server_step (Looping, started_hand) (Waiting, waiting_hand)"
    "server_step (Waiting, waiting_hand) (Looping, given_up_hand)"
    using sample_hand_steps(2,3) by (auto intro: server_step.intros)
  ultimately have "loop_ok 1500 given_up_hand"
    using server_step_ok [OF *(1), of 1500] server_step_ok [OF *(2), of 1500] by (simp add: phase_ok_def)
  from EngineLoop_last_player [OF this _ sample_hand_steps(4)] obtain h' where
    "EngineLoop (\<lambda>_. True) given_up_hand = Inr (HandOver h')" by auto
  then have "server_step (Looping, given_up_hand) (Over, h')" by (rule server_step.over)
  with * show ?thesis
    unfolding sample_hand_steps(1) by (meson converse_rtranclp_into_rtranclp rtranclp.rtrancl_refl)
qed

theorem hand_conserves_chips_witness:
  "\<exists>h'. server_steps (Looping, start_on_server dealt_hand) (Over, h') \<and> pot (board h') = 0 \<and>
     sum_list (map myCash (seats h')) = 1500"
proof -
  obtain g where g: "initHand sorted_deck 0 sample_game = Inr g" "currentHand g = Some dealt_hand"
    using sample_game_dealt by (auto split: sum.splits)
  obtain h' where h': "server_steps (Looping, start_on_server dealt_hand) (Over, h')"
    using sample_hand_ends by blast
  have "sum_list (map myCash (seatsList (game_board sample_game))) = 1500"
    using sample_game_ok by (simp add: between_hands_def)
  with hand_conserves_chips [OF sorted_deck_ok sample_game_ok _ g h'] h' show ?thesis by auto
qed

end
