(* ===== verification/Game_Settings.thy ===== *)
theory Game_Settings
  imports Server_Game Hand_Start "HOL-Library.Word"
begin

text \<open>
  The settings of a game on their way through the network: the message part \<open>NetGameInfo\<close>
  (\<open>src/pokerth.proto\<close>), its validation (\<open>NetPacketValidator::ValidateGameInfo\<close>,
  \<open>src/src/net/netpacketvalidator.cpp\<close>), the conversions from and to \<open>GameData\<close>
  (\<open>NetPacket::GetGameData\<close>, \<open>SetGameData\<close>, \<open>src/src/net/netpacket.cpp\<close>) and the check of the
  server (\<open>ServerGame::CheckSettings\<close>, \<open>src/src/net/servergame.cpp\<close>). A protobuf \<open>uint32\<close> is a
  \<open>32 word\<close>. The enumerations of the protocol have the codes of those of \<open>GameData\<close>, between which
  the code casts, so the model uses the latter for both.
\<close>

section \<open>The messages\<close>

type_synonym uint32 = "32 word"

record net_game_info =
  gamename :: string
  netgametype :: GameType
  maxnumplayers :: uint32
  raiseintervalmode :: RaiseIntervalMode
  raiseeveryhands :: "uint32 option"
  raiseeveryminutes :: "uint32 option"
  endraisemode :: AfterManualBlindsMode
  endraisesmallblindvalue :: "uint32 option"
  proposedguispeed :: uint32
  delaybetweenhands :: uint32
  playeractiontimeout :: uint32
  firstsmallblind :: uint32
  startmoney :: uint32
  manualblinds :: "uint32 list"

text \<open>An optional field that is not set has the value 0.\<close>

definition or_zero :: "uint32 option \<Rightarrow> uint32" where
  "or_zero v = (case v of None \<Rightarrow> 0 | Some w \<Rightarrow> w)"

section \<open>Validation\<close>

definition VALIDATE_UINT_RANGE :: "uint32 \<Rightarrow> uint32 \<Rightarrow> uint32 \<Rightarrow> bool" where
  "VALIDATE_UINT_RANGE v minval maxval \<longleftrightarrow> minval \<le> v \<and> v \<le> maxval"

definition VALIDATE_UINT_UPPER :: "uint32 \<Rightarrow> uint32 \<Rightarrow> bool" where
  "VALIDATE_UINT_UPPER v maxval \<longleftrightarrow> v \<le> maxval"

definition VALIDATE_STRING_SIZE :: "string \<Rightarrow> nat \<Rightarrow> nat \<Rightarrow> bool" where
  "VALIDATE_STRING_SIZE s minsize maxsize \<longleftrightarrow> minsize \<le> length s \<and> length s \<le> maxsize"

definition VALIDATE_LIST_SIZE :: "'a list \<Rightarrow> nat \<Rightarrow> nat \<Rightarrow> bool" where
  "VALIDATE_LIST_SIZE l minsize maxsize \<longleftrightarrow> minsize \<le> length l \<and> length l \<le> maxsize"

definition ValidateListIntRange :: "uint32 list \<Rightarrow> uint32 \<Rightarrow> uint32 \<Rightarrow> bool" where
  "ValidateListIntRange l minval maxval = list_all (\<lambda>v. VALIDATE_UINT_RANGE v minval maxval) l"

definition if_set :: "('a \<Rightarrow> bool) \<Rightarrow> 'a option \<Rightarrow> bool" where
  "if_set P v = (case v of None \<Rightarrow> True | Some w \<Rightarrow> P w)"

definition ValidateGameInfo :: "net_game_info \<Rightarrow> bool" where
  "ValidateGameInfo i \<longleftrightarrow>
     VALIDATE_STRING_SIZE (gamename i) 1 64
     \<and> VALIDATE_UINT_RANGE (maxnumplayers i) 2 (of_nat MAX_NUMBER_OF_PLAYERS)
     \<and> if_set (\<lambda>v. VALIDATE_UINT_RANGE v 1 1000) (raiseeveryhands i)
     \<and> if_set (\<lambda>v. VALIDATE_UINT_RANGE v 1 1000) (raiseeveryminutes i)
     \<and> if_set (\<lambda>v. VALIDATE_UINT_UPPER v 1000000) (endraisesmallblindvalue i)
     \<and> VALIDATE_UINT_RANGE (proposedguispeed i) 1 11
     \<and> VALIDATE_UINT_RANGE (delaybetweenhands i) 5 20
     \<and> VALIDATE_UINT_UPPER (playeractiontimeout i) 60
     \<and> VALIDATE_UINT_RANGE (firstsmallblind i) 1 20000
     \<and> VALIDATE_UINT_RANGE (startmoney i) 1 1000000
     \<and> VALIDATE_LIST_SIZE (manualblinds i) 0 30
     \<and> ValidateListIntRange (manualblinds i) 1 1000000"

section \<open>Conversion\<close>

text \<open>\<open>GameData::GameData\<close>.\<close>

definition new_game_data :: game_data where
  "new_game_data =
     \<lparr>gameType = GAME_TYPE_NORMAL, maxNumberOfPlayers = 0, startMoney = 0, firstSmallBlind = 0,
      raiseIntervalMode = RAISE_ON_HANDNUMBER, raiseSmallBlindEveryHandsValue = 8,
      raiseSmallBlindEveryMinutesValue = 1, raiseMode = DOUBLE_BLINDS, manualBlindsList = [],
      afterManualBlindsMode = AFTERMB_DOUBLE_BLINDS, afterMBAlwaysRaiseValue = 0, guiSpeed = 4,
      delayBetweenHandsSec = 6, playerActionTimeoutSec = 20\<rparr>"

definition SetGameData :: "game_data \<Rightarrow> net_game_info \<Rightarrow> net_game_info" where
  "SetGameData d out =
     out\<lparr>netgametype := gameType d,
         maxnumplayers := word_of_int (maxNumberOfPlayers d),
         raiseintervalmode := raiseIntervalMode d,
         raiseeveryhands := (if raiseIntervalMode d = RAISE_ON_HANDNUMBER
           then Some (word_of_int (raiseSmallBlindEveryHandsValue d)) else raiseeveryhands out),
         raiseeveryminutes := (if raiseIntervalMode d = RAISE_ON_HANDNUMBER
           then raiseeveryminutes out else Some (word_of_int (raiseSmallBlindEveryMinutesValue d))),
         endraisemode := afterManualBlindsMode d,
         proposedguispeed := word_of_int (guiSpeed d),
         delaybetweenhands := word_of_int (delayBetweenHandsSec d),
         playeractiontimeout := word_of_int (playerActionTimeoutSec d),
         endraisesmallblindvalue := Some (word_of_int (afterMBAlwaysRaiseValue d)),
         firstsmallblind := word_of_int (firstSmallBlind d),
         startmoney := word_of_int (startMoney d),
         manualblinds := manualblinds out @ map word_of_int (manualBlindsList d)\<rparr>"

definition GetGameData :: "net_game_info \<Rightarrow> game_data \<Rightarrow> game_data" where
  "GetGameData i out =
     out\<lparr>gameType := netgametype i,
         maxNumberOfPlayers := sint (maxnumplayers i),
         raiseIntervalMode := raiseintervalmode i,
         raiseSmallBlindEveryHandsValue := (if raiseintervalmode i = RAISE_ON_HANDNUMBER
           then sint (or_zero (raiseeveryhands i)) else 0),
         raiseSmallBlindEveryMinutesValue := (if raiseintervalmode i = RAISE_ON_HANDNUMBER
           then 0 else sint (or_zero (raiseeveryminutes i))),
         raiseMode := (if manualblinds i \<noteq> [] then MANUAL_BLINDS_ORDER else DOUBLE_BLINDS),
         afterManualBlindsMode := endraisemode i,
         guiSpeed := sint (proposedguispeed i),
         delayBetweenHandsSec := sint (delaybetweenhands i),
         playerActionTimeoutSec := sint (playeractiontimeout i),
         firstSmallBlind := sint (firstsmallblind i),
         afterMBAlwaysRaiseValue := sint (or_zero (endraisesmallblindvalue i)),
         startMoney := sint (startmoney i),
         manualBlindsList := manualBlindsList out @ map sint (manualblinds i)\<rparr>"

section \<open>The check of the server\<close>

datatype ServerMode = SERVER_MODE_LAN | SERVER_MODE_INTERNET_NOAUTH | SERVER_MODE_INTERNET_AUTH

definition RANKING_GAME_START_CASH :: int where "RANKING_GAME_START_CASH = 10000"
definition RANKING_GAME_NUMBER_OF_PLAYERS :: int where "RANKING_GAME_NUMBER_OF_PLAYERS = 2"
definition RANKING_GAME_START_SBLIND :: int where "RANKING_GAME_START_SBLIND = 50"
definition RANKING_GAME_RAISE_EVERY_HAND :: int where "RANKING_GAME_RAISE_EVERY_HAND = 11"

text \<open>The values of the enumerations are in range by their type.\<close>

definition CheckSettings :: "game_data \<Rightarrow> string \<Rightarrow> ServerMode \<Rightarrow> bool" where
  "CheckSettings d password mode \<longleftrightarrow>
     \<not> (mode \<noteq> SERVER_MODE_LAN \<and> (playerActionTimeoutSec d < 5 \<or> playerActionTimeoutSec d > 60))
     \<and> \<not> (maxNumberOfPlayers d < 2 \<or> maxNumberOfPlayers d > int MAX_NUMBER_OF_PLAYERS)
     \<and> \<not> firstSmallBlind d < 1
     \<and> \<not> startMoney d < 1
     \<and> \<not> (raiseIntervalMode d = RAISE_ON_HANDNUMBER \<and> raiseSmallBlindEveryHandsValue d < 1)
     \<and> \<not> (raiseIntervalMode d = RAISE_ON_MINUTES \<and> raiseSmallBlindEveryMinutesValue d < 1)
     \<and> \<not> (raiseMode d = MANUAL_BLINDS_ORDER \<and> manualBlindsList d = [])
     \<and> \<not> (afterManualBlindsMode d = AFTERMB_RAISE_ABOUT \<and> afterMBAlwaysRaiseValue d < 1)
     \<and> \<not> (gameType d = GAME_TYPE_RANKING \<and>
          (startMoney d \<noteq> RANKING_GAME_START_CASH
           \<or> maxNumberOfPlayers d \<noteq> RANKING_GAME_NUMBER_OF_PLAYERS
           \<or> firstSmallBlind d \<noteq> RANKING_GAME_START_SBLIND
           \<or> raiseIntervalMode d \<noteq> RAISE_ON_HANDNUMBER
           \<or> raiseMode d \<noteq> DOUBLE_BLINDS
           \<or> raiseSmallBlindEveryHandsValue d \<noteq> RANKING_GAME_RAISE_EVERY_HAND
           \<or> password \<noteq> ''''))"

section \<open>The round trip\<close>

definition fits_int :: "int \<Rightarrow> bool" where
  "fits_int v \<longleftrightarrow> - (2 ^ 31) \<le> v \<and> v < 2 ^ 31"

lemma sint_uint32: "fits_int v \<Longrightarrow> sint (word_of_int v :: uint32) = v"
  by (simp add: fits_int_def sint_sbintrunc' signed_take_bit_int_eq_self)

definition data_fits :: "game_data \<Rightarrow> bool" where
  "data_fits d \<longleftrightarrow> list_all fits_int
     ([maxNumberOfPlayers d, startMoney d, firstSmallBlind d, raiseSmallBlindEveryHandsValue d,
       raiseSmallBlindEveryMinutesValue d, afterMBAlwaysRaiseValue d, guiSpeed d, delayBetweenHandsSec d,
       playerActionTimeoutSec d] @ manualBlindsList d)"

text \<open>C19: The settings survive the network: what the receiver reads from a message that the sender
  filled with settings that fit an int are these settings, except for the two fields that are not
  sent: the interval that is not in use becomes 0, and the raise mode is manual exactly when there
  is a list of manual blinds.\<close>

theorem settings_roundtrip:
  assumes "data_fits d" "manualblinds out = []"
  shows "GetGameData (SetGameData d out) new_game_data =
    d\<lparr>raiseMode := (if manualBlindsList d = [] then DOUBLE_BLINDS else MANUAL_BLINDS_ORDER),
      raiseSmallBlindEveryHandsValue := (if raiseIntervalMode d = RAISE_ON_HANDNUMBER
        then raiseSmallBlindEveryHandsValue d else 0),
      raiseSmallBlindEveryMinutesValue := (if raiseIntervalMode d = RAISE_ON_MINUTES
        then raiseSmallBlindEveryMinutesValue d else 0)\<rparr>"
proof -
  have "map (sint \<circ> (word_of_int :: int \<Rightarrow> uint32)) xs = xs" if "list_all fits_int xs" for xs
    using that by (induction xs) (simp_all add: sint_uint32)
  then show ?thesis
    using assms by (cases "raiseIntervalMode d")
      (auto simp: GetGameData_def SetGameData_def data_fits_def new_game_data_def or_zero_def sint_uint32)
qed

theorem settings_roundtrip_witness:
  "GetGameData (SetGameData (sample_data\<lparr>manualBlindsList := [25, 100]\<rparr>)
      \<lparr>gamename = ''A'', netgametype = GAME_TYPE_NORMAL, maxnumplayers = 0, raiseintervalmode = RAISE_ON_MINUTES,
       raiseeveryhands = None, raiseeveryminutes = None, endraisemode = AFTERMB_RAISE_ABOUT,
       endraisesmallblindvalue = None, proposedguispeed = 0, delaybetweenhands = 0, playeractiontimeout = 0,
       firstsmallblind = 0, startmoney = 0, manualblinds = []\<rparr>) new_game_data =
   sample_data\<lparr>manualBlindsList := [25, 100], raiseMode := MANUAL_BLINDS_ORDER,
     raiseSmallBlindEveryMinutesValue := 0\<rparr>"
  by (subst settings_roundtrip) (simp_all add: data_fits_def fits_int_def sample_data_def)

section \<open>What the server accepts\<close>

text \<open>Settings that passed the validation of the packet and the check of the server.\<close>

definition accepted :: "net_game_info \<Rightarrow> string \<Rightarrow> ServerMode \<Rightarrow> bool" where
  "accepted i password mode \<longleftrightarrow> ValidateGameInfo i \<and> CheckSettings (GetGameData i new_game_data) password mode"

lemma sint_small:
  fixes w m :: uint32
  assumes "w \<le> m" "uint m < 2 ^ 31"
  shows "sint w = uint w"
proof -
  have "uint w < 2 ^ 31" "0 \<le> uint w" using assms by (simp_all add: word_le_def)
  then have "signed_take_bit 31 (uint w) = uint w" 
    using uint_nonnegative [of w] by (intro signed_take_bit_int_eq_self) linarith+
  then show ?thesis by (simp add: sint_uint)
qed

lemma range_sint:
  assumes "VALIDATE_UINT_RANGE w a b" "uint b < 2 ^ 31"
  shows "uint a \<le> sint w" "sint w \<le> uint b"
  using assms sint_small [of w b] by (simp_all add: VALIDATE_UINT_RANGE_def word_le_def)

lemma accepted_bounds:
  assumes "accepted i password mode" and d: "d = GetGameData i new_game_data"
  shows "maxNumberOfPlayers d = 2" "1 \<le> firstSmallBlind d" "firstSmallBlind d \<le> 20000"
    "1 \<le> startMoney d" "startMoney d \<le> 1000000" "list_all (\<lambda>b. 1 \<le> b) (manualBlindsList d)"
    "0 \<le> afterMBAlwaysRaiseValue d"
    "raiseIntervalMode d = RAISE_ON_HANDNUMBER \<Longrightarrow> 1 \<le> raiseSmallBlindEveryHandsValue d"
proof -
  have v: "ValidateGameInfo i" and c: "CheckSettings d password mode"
    using assms by (simp_all add: accepted_def)
  show "maxNumberOfPlayers d = 2" using c by (auto simp: CheckSettings_def MAX_NUMBER_OF_PLAYERS_def)
  show "1 \<le> firstSmallBlind d" "1 \<le> startMoney d" using c by (auto simp: CheckSettings_def)
  show "raiseIntervalMode d = RAISE_ON_HANDNUMBER \<Longrightarrow> 1 \<le> raiseSmallBlindEveryHandsValue d"
    using c by (auto simp: CheckSettings_def)
  show "firstSmallBlind d \<le> 20000" "startMoney d \<le> 1000000"
    using v range_sint [of "firstsmallblind i" 1 20000] range_sint [of "startmoney i" 1 1000000]
    by (simp_all add: ValidateGameInfo_def d GetGameData_def)
  show "list_all (\<lambda>b. 1 \<le> b) (manualBlindsList d)"
    using v range_sint [of _ 1 1000000]
    by (auto simp: ValidateGameInfo_def ValidateListIntRange_def d GetGameData_def new_game_data_def list_all_iff)
  show "0 \<le> afterMBAlwaysRaiseValue d"
    using v sint_small [of _ 1000000]
    by (auto simp: ValidateGameInfo_def VALIDATE_UINT_UPPER_def if_set_def d GetGameData_def or_zero_def split: option.splits)
qed

lemma new_game_two:
  assumes "length pds = 2" "distinct (map pdUniqueId pds)" "list_all (\<lambda>p. pdStartCash p < 0) pds"
    and "1 \<le> startMoney d" "numberOfPlayers sd = 2" "new_game pds d sd num = Inr g"
  shows "between_hands (2 * startMoney d) (game_board g)" "currentSmallBlind g = firstSmallBlind d"
    "blindsList g = manualBlindsList d" "myGameData g = d" "gameStartQuantityPlayers g = 2"
    "gameStartCash g = startMoney d"
    "dealerPosition g \<in> set (map myUniqueID (seatsList (game_board g)))"
    "map myUniqueID (seatsList (game_board g)) = map pdUniqueId pds"
    "map myName (seatsList (game_board g)) = map pdName pds"
    "map myType (seatsList (game_board g)) = map pdType pds"
proof -
  obtain a b where pds: "pds = [a, b]" using assms(1) by (auto dest!: two_elements)
  have ex: "list_ex (\<lambda>d. pdUniqueId d = startDealerPlayerId sd) pds" using assms(6) by (auto simp: new_game_def split: if_splits)
  have upt: "[0..<MAX_NUMBER_OF_PLAYERS] = [0, 1]" by (simp add: MAX_NUMBER_OF_PLAYERS_def upt_two)
  have g: "g = \<lparr> gameBoard = new_board [new_seat d sd pds 0, new_seat d sd pds 1] [0, 1], currentHand = None,
                 gameStartQuantityPlayers = 2, gameStartCash = startMoney d,
                 startSmallBlind = firstSmallBlind d, myGameID = num,
                 currentSmallBlind = firstSmallBlind d, currentHandID = 0,
                 dealerPosition = startDealerPlayerId sd, lastHandBlindsRaised = 1,
                 lastTimeBlindsRaised = 0, myGameData = d, blindsList = manualBlindsList d \<rparr>"
    using assms(5,6) ex by (simp add: new_game_def upt)
  show "between_hands (2 * startMoney d) (game_board g)"
    using assms(2-5) by (simp add: g game_board_def new_board_def between_hands_def new_seat_def new_player_def pds)
  show "dealerPosition g \<in> set (map myUniqueID (seatsList (game_board g)))"
    using ex by (auto simp: g game_board_def new_board_def new_seat_def new_player_def pds)
  show "currentSmallBlind g = firstSmallBlind d" "blindsList g = manualBlindsList d" "myGameData g = d"
    "gameStartQuantityPlayers g = 2" "gameStartCash g = startMoney d" by (simp_all add: g)
  show "map myUniqueID (seatsList (game_board g)) = map pdUniqueId pds"
    "map myName (seatsList (game_board g)) = map pdName pds"
    "map myType (seatsList (game_board g)) = map pdType pds"
    by (simp_all add: g game_board_def new_board_def new_seat_def new_player_def pds)
qed

end
