(* ===== verification/Packet_Validator.thy ===== *)
theory Packet_Validator
  imports Game_Settings
begin

text \<open>
  The validation of the packets of the protocol (\<open>NetPacketValidator\<close>,
  \<open>src/src/net/netpacketvalidator.cpp\<close>), which every packet passes before the server or a client
  handles it. A message that protobuf has parsed is a list of the fields that are set, by the names
  of their accessors; an accessor of a field that is not set returns the default of its type.
  Required fields are set, enumerations have declared values: \<open>protobuf\<close> rejects all else.
\<close>

section \<open>Parsed messages\<close>

datatype field =
    UInt uint32
  | Bytes string
  | Info net_game_info
  | Msg "(string \<times> field) list"
  | Many "field list"

type_synonym message = "(string \<times> field) list"

datatype (plugins only:) PokerTHMessageType =
    Type_AnnounceMessage
  | Type_InitMessage
  | Type_AuthServerChallengeMessage
  | Type_AuthClientResponseMessage
  | Type_AuthServerVerificationMessage
  | Type_InitAckMessage
  | Type_AvatarRequestMessage
  | Type_AvatarHeaderMessage
  | Type_AvatarDataMessage
  | Type_AvatarEndMessage
  | Type_UnknownAvatarMessage
  | Type_PlayerListMessage
  | Type_GameListNewMessage
  | Type_GameListUpdateMessage
  | Type_GameListPlayerJoinedMessage
  | Type_GameListPlayerLeftMessage
  | Type_GameListAdminChangedMessage
  | Type_PlayerInfoRequestMessage
  | Type_PlayerInfoReplyMessage
  | Type_SubscriptionRequestMessage
  | Type_JoinExistingGameMessage
  | Type_JoinNewGameMessage
  | Type_RejoinExistingGameMessage
  | Type_JoinGameAckMessage
  | Type_JoinGameFailedMessage
  | Type_GamePlayerJoinedMessage
  | Type_GamePlayerLeftMessage
  | Type_GameAdminChangedMessage
  | Type_RemovedFromGameMessage
  | Type_KickPlayerRequestMessage
  | Type_LeaveGameRequestMessage
  | Type_InvitePlayerToGameMessage
  | Type_InviteNotifyMessage
  | Type_RejectGameInvitationMessage
  | Type_RejectInvNotifyMessage
  | Type_StartEventMessage
  | Type_StartEventAckMessage
  | Type_GameStartInitialMessage
  | Type_GameStartRejoinMessage
  | Type_HandStartMessage
  | Type_PlayersTurnMessage
  | Type_MyActionRequestMessage
  | Type_YourActionRejectedMessage
  | Type_PlayersActionDoneMessage
  | Type_DealFlopCardsMessage
  | Type_DealTurnCardMessage
  | Type_DealRiverCardMessage
  | Type_AllInShowCardsMessage
  | Type_EndOfHandShowCardsMessage
  | Type_EndOfHandHideCardsMessage
  | Type_ShowMyCardsRequestMessage
  | Type_AfterHandShowCardsMessage
  | Type_EndOfGameMessage
  | Type_PlayerIdChangedMessage
  | Type_AskKickPlayerMessage
  | Type_AskKickDeniedMessage
  | Type_StartKickPetitionMessage
  | Type_VoteKickRequestMessage
  | Type_VoteKickReplyMessage
  | Type_KickPetitionUpdateMessage
  | Type_EndKickPetitionMessage
  | Type_StatisticsMessage
  | Type_ChatRequestMessage
  | Type_ChatMessage
  | Type_ChatRejectMessage
  | Type_DialogMessage
  | Type_TimeoutWarningMessage
  | Type_ResetTimeoutMessage
  | Type_ReportAvatarMessage
  | Type_ReportAvatarAckMessage
  | Type_ReportGameMessage
  | Type_ReportGameAckMessage
  | Type_ErrorMessage
  | Type_AdminRemoveGameMessage
  | Type_AdminRemoveGameAckMessage
  | Type_AdminBanPlayerMessage
  | Type_AdminBanPlayerAckMessage

record net_packet =
  messagetype :: PokerTHMessageType
  GetMsg :: message

definition has_field :: "string \<Rightarrow> message \<Rightarrow> bool" where
  "has_field f m = (map_of m f \<noteq> None)"

definition uint_field :: "string \<Rightarrow> message \<Rightarrow> uint32" where
  "uint_field f m = (case map_of m f of Some (UInt w) \<Rightarrow> w | _ \<Rightarrow> 0)"

definition bytes_field :: "string \<Rightarrow> message \<Rightarrow> string" where
  "bytes_field f m = (case map_of m f of Some (Bytes s) \<Rightarrow> s | _ \<Rightarrow> [])"

definition msg_field :: "string \<Rightarrow> message \<Rightarrow> message" where
  "msg_field f m = (case map_of m f of Some (Msg s) \<Rightarrow> s | _ \<Rightarrow> [])"

definition list_field :: "string \<Rightarrow> message \<Rightarrow> field list" where
  "list_field f m = (case map_of m f of Some (Many xs) \<Rightarrow> xs | _ \<Rightarrow> [])"

definition no_game_info :: net_game_info where
  "no_game_info = \<lparr>gamename = [], netgametype = GAME_TYPE_NORMAL, maxnumplayers = 0,
     raiseintervalmode = RAISE_ON_HANDNUMBER, raiseeveryhands = None, raiseeveryminutes = None,
     endraisemode = AFTERMB_DOUBLE_BLINDS, endraisesmallblindvalue = None, proposedguispeed = 0,
     delaybetweenhands = 0, playeractiontimeout = 0, firstsmallblind = 0, startmoney = 0, manualblinds = []\<rparr>"

definition game_info_field :: "message \<Rightarrow> net_game_info" where
  "game_info_field m = (case map_of m ''gameinfo'' of Some (Info i) \<Rightarrow> i | _ \<Rightarrow> no_game_info)"

text \<open>The body of a packet is there and satisfies a condition.\<close>

definition has_body :: "string \<Rightarrow> (message \<Rightarrow> bool) \<Rightarrow> message \<Rightarrow> bool" where
  "has_body f P packet = (has_field f packet \<and> P (msg_field f packet))"

section \<open>The validation functions\<close>

definition VALIDATE_IS_UINT16 :: "uint32 \<Rightarrow> bool" where
  "VALIDATE_IS_UINT16 v \<longleftrightarrow> v \<le> 65535"

text \<open>The check of a chat text, byte by byte.\<close>

definition valid_char :: "char \<Rightarrow> bool" where
  "valid_char c \<longleftrightarrow> \<not> (c = CHR 0x00 \<or> c = CHR 0x1B
     \<or> (of_char c < (0x20 :: nat) \<and> c \<noteq> CHR 0x09 \<and> c \<noteq> CHR 0x0A \<and> c \<noteq> CHR 0x0D) \<or> c = CHR 0x7F)"

definition valid_content :: "string \<Rightarrow> bool" where
  "valid_content s = list_all valid_char s"

definition ValidateAnnounceMessage :: "message \<Rightarrow> bool" where
  "ValidateAnnounceMessage packet =
     has_body ''announcemessage'' (\<lambda>m. VALIDATE_IS_UINT16 (uint_field ''majorversion'' (msg_field ''protocolversion'' m)) \<and>
       VALIDATE_IS_UINT16 (uint_field ''minorversion'' (msg_field ''protocolversion'' m)) \<and>
       VALIDATE_IS_UINT16 (uint_field ''majorversion'' (msg_field ''latestgameversion'' m)) \<and>
       VALIDATE_IS_UINT16 (uint_field ''minorversion'' (msg_field ''latestgameversion'' m)) \<and>
       VALIDATE_IS_UINT16 (uint_field ''latestbetarevision'' m) \<and>
       VALIDATE_IS_UINT16 (uint_field ''numplayersonserver'' m)) packet"

definition ValidateInitMessage :: "message \<Rightarrow> bool" where
  "ValidateInitMessage packet =
     has_body ''initmessage'' (\<lambda>m. VALIDATE_IS_UINT16 (uint_field ''majorversion'' (msg_field ''requestedversion'' m)) \<and>
       VALIDATE_IS_UINT16 (uint_field ''minorversion'' (msg_field ''requestedversion'' m)) \<and>
       (\<not> has_field ''mylastsessionid'' m \<or> length (bytes_field ''mylastsessionid'' m) = 16) \<and>
       (\<not> has_field ''authserverpassword'' m \<or> VALIDATE_STRING_SIZE (bytes_field ''authserverpassword'' m) 1 64) \<and>
       (\<not> has_field ''nickname'' m \<or> VALIDATE_STRING_SIZE (bytes_field ''nickname'' m) 1 64) \<and>
       (\<not> has_field ''clientuserdata'' m \<or> VALIDATE_STRING_SIZE (bytes_field ''clientuserdata'' m) 1 256) \<and>
       (\<not> has_field ''avatarhash'' m \<or> length (bytes_field ''avatarhash'' m) = 16)) packet"

definition ValidateAuthServerChallengeMessage :: "message \<Rightarrow> bool" where
  "ValidateAuthServerChallengeMessage packet =
     has_body ''authserverchallengemessage'' (\<lambda>m. VALIDATE_STRING_SIZE (bytes_field ''serverchallenge'' m) 1 256) packet"

definition ValidateAuthClientResponseMessage :: "message \<Rightarrow> bool" where
  "ValidateAuthClientResponseMessage packet =
     has_body ''authclientresponsemessage'' (\<lambda>m. VALIDATE_STRING_SIZE (bytes_field ''clientresponse'' m) 1 256) packet"

definition ValidateAuthServerVerificationMessage :: "message \<Rightarrow> bool" where
  "ValidateAuthServerVerificationMessage packet =
     has_body ''authserververificationmessage'' (\<lambda>m. VALIDATE_STRING_SIZE (bytes_field ''serververification'' m) 1 256) packet"

definition ValidateInitAckMessage :: "message \<Rightarrow> bool" where
  "ValidateInitAckMessage packet =
     has_body ''initackmessage'' (\<lambda>m. length (bytes_field ''yoursessionid'' m) = 16 \<and>
       uint_field ''yourplayerid'' m \<noteq> 0 \<and>
       (\<not> has_field ''youravatarhash'' m \<or> length (bytes_field ''youravatarhash'' m) = 16) \<and>
       (\<not> has_field ''rejoingameid'' m \<or> uint_field ''rejoingameid'' m \<noteq> 0)) packet"

definition ValidateAvatarRequestMessage :: "message \<Rightarrow> bool" where
  "ValidateAvatarRequestMessage packet =
     has_body ''avatarrequestmessage'' (\<lambda>m. uint_field ''requestid'' m \<noteq> 0 \<and> length (bytes_field ''avatarhash'' m) = 16) packet"

definition ValidateAvatarHeaderMessage :: "message \<Rightarrow> bool" where
  "ValidateAvatarHeaderMessage packet =
     has_body ''avatarheadermessage'' (\<lambda>m. uint_field ''requestid'' m \<noteq> 0 \<and> VALIDATE_UINT_RANGE (uint_field ''avatarsize'' m) 32 30720) packet"

definition ValidateAvatarDataMessage :: "message \<Rightarrow> bool" where
  "ValidateAvatarDataMessage packet =
     has_body ''avatardatamessage'' (\<lambda>m. uint_field ''requestid'' m \<noteq> 0 \<and> VALIDATE_STRING_SIZE (bytes_field ''avatarblock'' m) 1 256) packet"

definition ValidateAvatarEndMessage :: "message \<Rightarrow> bool" where
  "ValidateAvatarEndMessage packet =
     has_body ''avatarendmessage'' (\<lambda>m. uint_field ''requestid'' m \<noteq> 0) packet"

definition ValidateUnknownAvatarMessage :: "message \<Rightarrow> bool" where
  "ValidateUnknownAvatarMessage packet =
     has_body ''unknownavatarmessage'' (\<lambda>m. uint_field ''requestid'' m \<noteq> 0) packet"

definition ValidatePlayerListMessage :: "message \<Rightarrow> bool" where
  "ValidatePlayerListMessage packet =
     has_body ''playerlistmessage'' (\<lambda>m. uint_field ''playerid'' m \<noteq> 0) packet"

definition ValidateGameListNewMessage :: "message \<Rightarrow> bool" where
  "ValidateGameListNewMessage packet =
     has_body ''gamelistnewmessage'' (\<lambda>m. uint_field ''gameid'' m \<noteq> 0 \<and>
       VALIDATE_LIST_SIZE (list_field ''playerids'' m) 0 MAX_NUMBER_OF_PLAYERS \<and>
       uint_field ''adminplayerid'' m \<noteq> 0 \<and>
       ValidateGameInfo (game_info_field m)) packet"

definition ValidateGameListUpdateMessage :: "message \<Rightarrow> bool" where
  "ValidateGameListUpdateMessage packet =
     has_body ''gamelistupdatemessage'' (\<lambda>m. uint_field ''gameid'' m \<noteq> 0) packet"

definition ValidateGameListPlayerJoinedMessage :: "message \<Rightarrow> bool" where
  "ValidateGameListPlayerJoinedMessage packet =
     has_body ''gamelistplayerjoinedmessage'' (\<lambda>m. uint_field ''gameid'' m \<noteq> 0 \<and> uint_field ''playerid'' m \<noteq> 0) packet"

definition ValidateGameListPlayerLeftMessage :: "message \<Rightarrow> bool" where
  "ValidateGameListPlayerLeftMessage packet =
     has_body ''gamelistplayerleftmessage'' (\<lambda>m. uint_field ''gameid'' m \<noteq> 0 \<and> uint_field ''playerid'' m \<noteq> 0) packet"

definition ValidateGameListAdminChangedMessage :: "message \<Rightarrow> bool" where
  "ValidateGameListAdminChangedMessage packet =
     has_body ''gamelistadminchangedmessage'' (\<lambda>m. uint_field ''gameid'' m \<noteq> 0 \<and> uint_field ''newadminplayerid'' m \<noteq> 0) packet"

definition ValidatePlayerInfoRequestMessage :: "message \<Rightarrow> bool" where
  "ValidatePlayerInfoRequestMessage packet =
     has_body ''playerinforequestmessage'' (\<lambda>m. VALIDATE_LIST_SIZE (list_field ''playerid'' m) 1 50) packet"

definition ValidatePlayerInfoReplyMessage :: "message \<Rightarrow> bool" where
  "ValidatePlayerInfoReplyMessage packet =
     has_body ''playerinforeplymessage'' (\<lambda>m. uint_field ''playerid'' m \<noteq> 0) packet"

definition ValidateSubscriptionRequestMessage :: "message \<Rightarrow> bool" where
  "ValidateSubscriptionRequestMessage packet = has_body ''subscriptionrequestmessage'' (\<lambda>m. True) packet"

definition ValidateJoinExistingGameMessage :: "message \<Rightarrow> bool" where
  "ValidateJoinExistingGameMessage packet =
     has_body ''joinexistinggamemessage'' (\<lambda>m. uint_field ''gameid'' m \<noteq> 0 \<and> (\<not> has_field ''password'' m \<or> VALIDATE_STRING_SIZE (bytes_field ''password'' m) 1 64)) packet"

definition ValidateJoinNewGameMessage :: "message \<Rightarrow> bool" where
  "ValidateJoinNewGameMessage packet =
     has_body ''joinnewgamemessage'' (\<lambda>m. ValidateGameInfo (game_info_field m) \<and> (\<not> has_field ''password'' m \<or> VALIDATE_STRING_SIZE (bytes_field ''password'' m) 1 64)) packet"

definition ValidateRejoinExistingGameMessage :: "message \<Rightarrow> bool" where
  "ValidateRejoinExistingGameMessage packet =
     has_body ''rejoinexistinggamemessage'' (\<lambda>m. uint_field ''gameid'' m \<noteq> 0) packet"

definition ValidateJoinGameAckMessage :: "message \<Rightarrow> bool" where
  "ValidateJoinGameAckMessage packet =
     has_body ''joingameackmessage'' (\<lambda>m. uint_field ''gameid'' m \<noteq> 0 \<and> ValidateGameInfo (game_info_field m)) packet"

definition ValidateJoinGameFailedMessage :: "message \<Rightarrow> bool" where
  "ValidateJoinGameFailedMessage packet =
     has_body ''joingamefailedmessage'' (\<lambda>m. uint_field ''gameid'' m \<noteq> 0) packet"

definition ValidateGamePlayerJoinedMessage :: "message \<Rightarrow> bool" where
  "ValidateGamePlayerJoinedMessage packet =
     has_body ''gameplayerjoinedmessage'' (\<lambda>m. uint_field ''gameid'' m \<noteq> 0 \<and> uint_field ''playerid'' m \<noteq> 0) packet"

definition ValidateGamePlayerLeftMessage :: "message \<Rightarrow> bool" where
  "ValidateGamePlayerLeftMessage packet =
     has_body ''gameplayerleftmessage'' (\<lambda>m. uint_field ''gameid'' m \<noteq> 0 \<and> uint_field ''playerid'' m \<noteq> 0) packet"

definition ValidateGameAdminChangedMessage :: "message \<Rightarrow> bool" where
  "ValidateGameAdminChangedMessage packet =
     has_body ''gameadminchangedmessage'' (\<lambda>m. uint_field ''gameid'' m \<noteq> 0 \<and> uint_field ''newadminplayerid'' m \<noteq> 0) packet"

definition ValidateRemovedFromGameMessage :: "message \<Rightarrow> bool" where
  "ValidateRemovedFromGameMessage packet =
     has_body ''removedfromgamemessage'' (\<lambda>m. uint_field ''gameid'' m \<noteq> 0) packet"

definition ValidateKickPlayerRequestMessage :: "message \<Rightarrow> bool" where
  "ValidateKickPlayerRequestMessage packet =
     has_body ''kickplayerrequestmessage'' (\<lambda>m. uint_field ''gameid'' m \<noteq> 0 \<and> uint_field ''playerid'' m \<noteq> 0) packet"

definition ValidateLeaveGameRequestMessage :: "message \<Rightarrow> bool" where
  "ValidateLeaveGameRequestMessage packet =
     has_body ''leavegamerequestmessage'' (\<lambda>m. uint_field ''gameid'' m \<noteq> 0) packet"

definition ValidateInvitePlayerToGameMessage :: "message \<Rightarrow> bool" where
  "ValidateInvitePlayerToGameMessage packet =
     has_body ''inviteplayertogamemessage'' (\<lambda>m. uint_field ''gameid'' m \<noteq> 0 \<and> uint_field ''playerid'' m \<noteq> 0) packet"

definition ValidateInviteNotifyMessage :: "message \<Rightarrow> bool" where
  "ValidateInviteNotifyMessage packet =
     has_body ''invitenotifymessage'' (\<lambda>m. uint_field ''gameid'' m \<noteq> 0 \<and>
       uint_field ''playeridwho'' m \<noteq> 0 \<and>
       uint_field ''playeridbywhom'' m \<noteq> 0) packet"

definition ValidateRejectGameInvitationMessage :: "message \<Rightarrow> bool" where
  "ValidateRejectGameInvitationMessage packet =
     has_body ''rejectgameinvitationmessage'' (\<lambda>m. uint_field ''gameid'' m \<noteq> 0) packet"

definition ValidateRejectInvNotifyMessage :: "message \<Rightarrow> bool" where
  "ValidateRejectInvNotifyMessage packet =
     has_body ''rejectinvnotifymessage'' (\<lambda>m. uint_field ''gameid'' m \<noteq> 0 \<and> uint_field ''playerid'' m \<noteq> 0) packet"

definition ValidateStartEventMessage :: "message \<Rightarrow> bool" where
  "ValidateStartEventMessage packet =
     has_body ''starteventmessage'' (\<lambda>m. uint_field ''gameid'' m \<noteq> 0) packet"

definition ValidateStartEventAckMessage :: "message \<Rightarrow> bool" where
  "ValidateStartEventAckMessage packet =
     has_body ''starteventackmessage'' (\<lambda>m. uint_field ''gameid'' m \<noteq> 0) packet"

definition ValidateGameStartInitialMessage :: "message \<Rightarrow> bool" where
  "ValidateGameStartInitialMessage packet =
     has_body ''gamestartinitialmessage'' (\<lambda>m. uint_field ''gameid'' m \<noteq> 0 \<and>
       uint_field ''startdealerplayerid'' m \<noteq> 0 \<and>
       VALIDATE_LIST_SIZE (list_field ''playerseats'' m) 2 MAX_NUMBER_OF_PLAYERS) packet"

definition ValidateGameStartRejoinMessage :: "message \<Rightarrow> bool" where
  "ValidateGameStartRejoinMessage packet =
     has_body ''gamestartrejoinmessage'' (\<lambda>m. uint_field ''gameid'' m \<noteq> 0 \<and>
       uint_field ''startdealerplayerid'' m \<noteq> 0 \<and>
       uint_field ''handnum'' m \<noteq> 0 \<and>
       VALIDATE_LIST_SIZE (list_field ''rejoinplayerdata'' m) 2 MAX_NUMBER_OF_PLAYERS) packet"

definition ValidateHandStartMessage :: "message \<Rightarrow> bool" where
  "ValidateHandStartMessage packet =
     has_body ''handstartmessage'' (\<lambda>m. uint_field ''gameid'' m \<noteq> 0 \<and>
       VALIDATE_UINT_RANGE (uint_field ''smallblind'' m) 1 100000000 \<and>
       VALIDATE_LIST_SIZE (list_field ''seatstates'' m) 2 MAX_NUMBER_OF_PLAYERS) packet"

definition ValidatePlayersTurnMessage :: "message \<Rightarrow> bool" where
  "ValidatePlayersTurnMessage packet =
     has_body ''playersturnmessage'' (\<lambda>m. uint_field ''gameid'' m \<noteq> 0 \<and> uint_field ''playerid'' m \<noteq> 0) packet"

definition ValidateMyActionRequestMessage :: "message \<Rightarrow> bool" where
  "ValidateMyActionRequestMessage packet =
     has_body ''myactionrequestmessage'' (\<lambda>m. uint_field ''gameid'' m \<noteq> 0 \<and>
       uint_field ''handnum'' m \<noteq> 0 \<and>
       VALIDATE_UINT_UPPER (uint_field ''myrelativebet'' m) 10000000) packet"

definition ValidateYourActionRejectedMessage :: "message \<Rightarrow> bool" where
  "ValidateYourActionRejectedMessage packet =
     has_body ''youractionrejectedmessage'' (\<lambda>m. uint_field ''gameid'' m \<noteq> 0) packet"

definition ValidatePlayersActionDoneMessage :: "message \<Rightarrow> bool" where
  "ValidatePlayersActionDoneMessage packet =
     has_body ''playersactiondonemessage'' (\<lambda>m. uint_field ''gameid'' m \<noteq> 0 \<and> uint_field ''playerid'' m \<noteq> 0) packet"

definition ValidateDealFlopCardsMessage :: "message \<Rightarrow> bool" where
  "ValidateDealFlopCardsMessage packet =
     has_body ''dealflopcardsmessage'' (\<lambda>m. uint_field ''gameid'' m \<noteq> 0 \<and>
       VALIDATE_UINT_UPPER (uint_field ''flopcard1'' m) 51 \<and>
       VALIDATE_UINT_UPPER (uint_field ''flopcard2'' m) 51 \<and>
       VALIDATE_UINT_UPPER (uint_field ''flopcard3'' m) 51) packet"

definition ValidateDealTurnCardMessage :: "message \<Rightarrow> bool" where
  "ValidateDealTurnCardMessage packet =
     has_body ''dealturncardmessage'' (\<lambda>m. uint_field ''gameid'' m \<noteq> 0 \<and> VALIDATE_UINT_UPPER (uint_field ''turncard'' m) 51) packet"

definition ValidateDealRiverCardMessage :: "message \<Rightarrow> bool" where
  "ValidateDealRiverCardMessage packet =
     has_body ''dealrivercardmessage'' (\<lambda>m. uint_field ''gameid'' m \<noteq> 0 \<and> VALIDATE_UINT_UPPER (uint_field ''rivercard'' m) 51) packet"

definition ValidateAllInShowCardsMessage :: "message \<Rightarrow> bool" where
  "ValidateAllInShowCardsMessage packet =
     has_body ''allinshowcardsmessage'' (\<lambda>m. uint_field ''gameid'' m \<noteq> 0 \<and> VALIDATE_LIST_SIZE (list_field ''playersallin'' m) 1 MAX_NUMBER_OF_PLAYERS) packet"

definition ValidateEndOfHandShowCardsMessage :: "message \<Rightarrow> bool" where
  "ValidateEndOfHandShowCardsMessage packet =
     has_body ''endofhandshowcardsmessage'' (\<lambda>m. uint_field ''gameid'' m \<noteq> 0 \<and> VALIDATE_LIST_SIZE (list_field ''playerresults'' m) 1 MAX_NUMBER_OF_PLAYERS) packet"

definition ValidateEndOfHandHideCardsMessage :: "message \<Rightarrow> bool" where
  "ValidateEndOfHandHideCardsMessage packet =
     has_body ''endofhandhidecardsmessage'' (\<lambda>m. uint_field ''gameid'' m \<noteq> 0 \<and> uint_field ''playerid'' m \<noteq> 0) packet"

definition ValidateShowMyCardsRequestMessage :: "message \<Rightarrow> bool" where
  "ValidateShowMyCardsRequestMessage packet = True"

definition ValidateAfterHandShowCardsMessage :: "message \<Rightarrow> bool" where
  "ValidateAfterHandShowCardsMessage packet = has_body ''afterhandshowcardsmessage'' (\<lambda>m. True) packet"

definition ValidateEndOfGameMessage :: "message \<Rightarrow> bool" where
  "ValidateEndOfGameMessage packet =
     has_body ''endofgamemessage'' (\<lambda>m. uint_field ''gameid'' m \<noteq> 0 \<and> uint_field ''winnerplayerid'' m \<noteq> 0) packet"

definition ValidatePlayerIdChangedMessage :: "message \<Rightarrow> bool" where
  "ValidatePlayerIdChangedMessage packet =
     has_body ''playeridchangedmessage'' (\<lambda>m. uint_field ''oldplayerid'' m \<noteq> 0 \<and> uint_field ''newplayerid'' m \<noteq> 0) packet"

definition ValidateAskKickPlayerMessage :: "message \<Rightarrow> bool" where
  "ValidateAskKickPlayerMessage packet =
     has_body ''askkickplayermessage'' (\<lambda>m. uint_field ''gameid'' m \<noteq> 0 \<and> uint_field ''playerid'' m \<noteq> 0) packet"

definition ValidateAskKickDeniedMessage :: "message \<Rightarrow> bool" where
  "ValidateAskKickDeniedMessage packet =
     has_body ''askkickdeniedmessage'' (\<lambda>m. uint_field ''gameid'' m \<noteq> 0 \<and> uint_field ''playerid'' m \<noteq> 0) packet"

definition ValidateStartKickPetitionMessage :: "message \<Rightarrow> bool" where
  "ValidateStartKickPetitionMessage packet =
     has_body ''startkickpetitionmessage'' (\<lambda>m. uint_field ''gameid'' m \<noteq> 0 \<and>
       uint_field ''petitionid'' m \<noteq> 0 \<and>
       uint_field ''proposingplayerid'' m \<noteq> 0 \<and>
       uint_field ''kickplayerid'' m \<noteq> 0 \<and>
       0 < uint_field ''kicktimeoutsec'' m \<and>
       0 < uint_field ''numvotesneededtokick'' m) packet"

definition ValidateVoteKickRequestMessage :: "message \<Rightarrow> bool" where
  "ValidateVoteKickRequestMessage packet =
     has_body ''votekickrequestmessage'' (\<lambda>m. uint_field ''gameid'' m \<noteq> 0 \<and> uint_field ''petitionid'' m \<noteq> 0) packet"

definition ValidateVoteKickReplyMessage :: "message \<Rightarrow> bool" where
  "ValidateVoteKickReplyMessage packet =
     has_body ''votekickreplymessage'' (\<lambda>m. uint_field ''gameid'' m \<noteq> 0 \<and> uint_field ''petitionid'' m \<noteq> 0) packet"

definition ValidateKickPetitionUpdateMessage :: "message \<Rightarrow> bool" where
  "ValidateKickPetitionUpdateMessage packet =
     has_body ''kickpetitionupdatemessage'' (\<lambda>m. uint_field ''gameid'' m \<noteq> 0 \<and> uint_field ''petitionid'' m \<noteq> 0) packet"

definition ValidateEndKickPetitionMessage :: "message \<Rightarrow> bool" where
  "ValidateEndKickPetitionMessage packet =
     has_body ''endkickpetitionmessage'' (\<lambda>m. uint_field ''gameid'' m \<noteq> 0 \<and> uint_field ''petitionid'' m \<noteq> 0) packet"

definition ValidateStatisticsMessage :: "message \<Rightarrow> bool" where
  "ValidateStatisticsMessage packet = has_body ''statisticsmessage'' (\<lambda>m. True) packet"

definition ValidateChatRequestMessage :: "message \<Rightarrow> bool" where
  "ValidateChatRequestMessage packet =
     has_body ''chatrequestmessage'' (\<lambda>m. VALIDATE_STRING_SIZE (bytes_field ''chattext'' m) 1 128 \<and> valid_content (bytes_field ''chattext'' m)) packet"

definition ValidateChatMessage :: "message \<Rightarrow> bool" where
  "ValidateChatMessage packet =
     has_body ''chatmessage'' (\<lambda>m. VALIDATE_STRING_SIZE (bytes_field ''chattext'' m) 1 128 \<and> valid_content (bytes_field ''chattext'' m)) packet"

definition ValidateChatRejectMessage :: "message \<Rightarrow> bool" where
  "ValidateChatRejectMessage packet =
     has_body ''chatrejectmessage'' (\<lambda>m. VALIDATE_STRING_SIZE (bytes_field ''chattext'' m) 1 128) packet"

definition ValidateDialogMessage :: "message \<Rightarrow> bool" where
  "ValidateDialogMessage packet =
     has_body ''dialogmessage'' (\<lambda>m. VALIDATE_STRING_SIZE (bytes_field ''notificationtext'' m) 1 128) packet"

definition ValidateTimeoutWarningMessage :: "message \<Rightarrow> bool" where
  "ValidateTimeoutWarningMessage packet = has_body ''timeoutwarningmessage'' (\<lambda>m. True) packet"

definition ValidateResetTimeoutMessage :: "message \<Rightarrow> bool" where
  "ValidateResetTimeoutMessage packet = True"

definition ValidateReportAvatarMessage :: "message \<Rightarrow> bool" where
  "ValidateReportAvatarMessage packet =
     has_body ''reportavatarmessage'' (\<lambda>m. uint_field ''reportedplayerid'' m \<noteq> 0 \<and> length (bytes_field ''reportedavatarhash'' m) = 16) packet"

definition ValidateReportAvatarAckMessage :: "message \<Rightarrow> bool" where
  "ValidateReportAvatarAckMessage packet =
     has_body ''reportavatarackmessage'' (\<lambda>m. uint_field ''reportedplayerid'' m \<noteq> 0) packet"

definition ValidateReportGameMessage :: "message \<Rightarrow> bool" where
  "ValidateReportGameMessage packet =
     has_body ''reportgamemessage'' (\<lambda>m. uint_field ''reportedgameid'' m \<noteq> 0) packet"

definition ValidateReportGameAckMessage :: "message \<Rightarrow> bool" where
  "ValidateReportGameAckMessage packet =
     has_body ''reportgameackmessage'' (\<lambda>m. uint_field ''reportedgameid'' m \<noteq> 0) packet"

definition ValidateErrorMessage :: "message \<Rightarrow> bool" where
  "ValidateErrorMessage packet = has_body ''errormessage'' (\<lambda>m. True) packet"

definition ValidateAdminRemoveGameMessage :: "message \<Rightarrow> bool" where
  "ValidateAdminRemoveGameMessage packet =
     has_body ''adminremovegamemessage'' (\<lambda>m. uint_field ''removegameid'' m \<noteq> 0) packet"

definition ValidateAdminRemoveGameAckMessage :: "message \<Rightarrow> bool" where
  "ValidateAdminRemoveGameAckMessage packet =
     has_body ''adminremovegameackmessage'' (\<lambda>m. uint_field ''removegameid'' m \<noteq> 0) packet"

definition ValidateAdminBanPlayerMessage :: "message \<Rightarrow> bool" where
  "ValidateAdminBanPlayerMessage packet =
     has_body ''adminbanplayermessage'' (\<lambda>m. uint_field ''banplayerid'' m \<noteq> 0) packet"

definition ValidateAdminBanPlayerAckMessage :: "message \<Rightarrow> bool" where
  "ValidateAdminBanPlayerAckMessage packet =
     has_body ''adminbanplayerackmessage'' (\<lambda>m. uint_field ''banplayerid'' m \<noteq> 0) packet"

text \<open>The map of the constructor, in its order.\<close>

definition m_validationMap :: "(PokerTHMessageType \<times> (message \<Rightarrow> bool)) list" where
  "m_validationMap = [
     (Type_AnnounceMessage, ValidateAnnounceMessage),
     (Type_InitMessage, ValidateInitMessage),
     (Type_AuthServerChallengeMessage, ValidateAuthServerChallengeMessage),
     (Type_AuthClientResponseMessage, ValidateAuthClientResponseMessage),
     (Type_AuthServerVerificationMessage, ValidateAuthServerVerificationMessage),
     (Type_InitAckMessage, ValidateInitAckMessage),
     (Type_AvatarRequestMessage, ValidateAvatarRequestMessage),
     (Type_AvatarHeaderMessage, ValidateAvatarHeaderMessage),
     (Type_AvatarDataMessage, ValidateAvatarDataMessage),
     (Type_AvatarEndMessage, ValidateAvatarEndMessage),
     (Type_UnknownAvatarMessage, ValidateUnknownAvatarMessage),
     (Type_PlayerListMessage, ValidatePlayerListMessage),
     (Type_GameListNewMessage, ValidateGameListNewMessage),
     (Type_GameListUpdateMessage, ValidateGameListUpdateMessage),
     (Type_GameListPlayerJoinedMessage, ValidateGameListPlayerJoinedMessage),
     (Type_GameListPlayerLeftMessage, ValidateGameListPlayerLeftMessage),
     (Type_GameListAdminChangedMessage, ValidateGameListAdminChangedMessage),
     (Type_PlayerInfoRequestMessage, ValidatePlayerInfoRequestMessage),
     (Type_PlayerInfoReplyMessage, ValidatePlayerInfoReplyMessage),
     (Type_SubscriptionRequestMessage, ValidateSubscriptionRequestMessage),
     (Type_JoinExistingGameMessage, ValidateJoinExistingGameMessage),
     (Type_JoinNewGameMessage, ValidateJoinNewGameMessage),
     (Type_RejoinExistingGameMessage, ValidateRejoinExistingGameMessage),
     (Type_JoinGameAckMessage, ValidateJoinGameAckMessage),
     (Type_JoinGameFailedMessage, ValidateJoinGameFailedMessage),
     (Type_GamePlayerJoinedMessage, ValidateGamePlayerJoinedMessage),
     (Type_GamePlayerLeftMessage, ValidateGamePlayerLeftMessage),
     (Type_GameAdminChangedMessage, ValidateGameAdminChangedMessage),
     (Type_RemovedFromGameMessage, ValidateRemovedFromGameMessage),
     (Type_KickPlayerRequestMessage, ValidateKickPlayerRequestMessage),
     (Type_LeaveGameRequestMessage, ValidateLeaveGameRequestMessage),
     (Type_InvitePlayerToGameMessage, ValidateInvitePlayerToGameMessage),
     (Type_InviteNotifyMessage, ValidateInviteNotifyMessage),
     (Type_RejectGameInvitationMessage, ValidateRejectGameInvitationMessage),
     (Type_RejectInvNotifyMessage, ValidateRejectInvNotifyMessage),
     (Type_StartEventMessage, ValidateStartEventMessage),
     (Type_StartEventAckMessage, ValidateStartEventAckMessage),
     (Type_GameStartInitialMessage, ValidateGameStartInitialMessage),
     (Type_GameStartRejoinMessage, ValidateGameStartRejoinMessage),
     (Type_HandStartMessage, ValidateHandStartMessage),
     (Type_PlayersTurnMessage, ValidatePlayersTurnMessage),
     (Type_MyActionRequestMessage, ValidateMyActionRequestMessage),
     (Type_YourActionRejectedMessage, ValidateYourActionRejectedMessage),
     (Type_PlayersActionDoneMessage, ValidatePlayersActionDoneMessage),
     (Type_DealFlopCardsMessage, ValidateDealFlopCardsMessage),
     (Type_DealTurnCardMessage, ValidateDealTurnCardMessage),
     (Type_DealRiverCardMessage, ValidateDealRiverCardMessage),
     (Type_AllInShowCardsMessage, ValidateAllInShowCardsMessage),
     (Type_EndOfHandShowCardsMessage, ValidateEndOfHandShowCardsMessage),
     (Type_EndOfHandHideCardsMessage, ValidateEndOfHandHideCardsMessage),
     (Type_ShowMyCardsRequestMessage, ValidateShowMyCardsRequestMessage),
     (Type_AfterHandShowCardsMessage, ValidateAfterHandShowCardsMessage),
     (Type_EndOfGameMessage, ValidateEndOfGameMessage),
     (Type_PlayerIdChangedMessage, ValidatePlayerIdChangedMessage),
     (Type_AskKickPlayerMessage, ValidateAskKickPlayerMessage),
     (Type_AskKickDeniedMessage, ValidateAskKickDeniedMessage),
     (Type_StartKickPetitionMessage, ValidateStartKickPetitionMessage),
     (Type_VoteKickRequestMessage, ValidateVoteKickRequestMessage),
     (Type_VoteKickReplyMessage, ValidateVoteKickReplyMessage),
     (Type_KickPetitionUpdateMessage, ValidateKickPetitionUpdateMessage),
     (Type_EndKickPetitionMessage, ValidateEndKickPetitionMessage),
     (Type_StatisticsMessage, ValidateStatisticsMessage),
     (Type_ChatRequestMessage, ValidateChatRequestMessage),
     (Type_ChatMessage, ValidateChatMessage),
     (Type_ChatRejectMessage, ValidateChatRejectMessage),
     (Type_DialogMessage, ValidateDialogMessage),
     (Type_TimeoutWarningMessage, ValidateTimeoutWarningMessage),
     (Type_ResetTimeoutMessage, ValidateResetTimeoutMessage),
     (Type_ReportAvatarMessage, ValidateReportAvatarMessage),
     (Type_ReportAvatarAckMessage, ValidateReportAvatarAckMessage),
     (Type_ReportGameMessage, ValidateReportGameMessage),
     (Type_ReportGameAckMessage, ValidateReportGameAckMessage),
     (Type_ErrorMessage, ValidateErrorMessage),
     (Type_AdminRemoveGameMessage, ValidateAdminRemoveGameMessage),
     (Type_AdminRemoveGameAckMessage, ValidateAdminRemoveGameAckMessage),
     (Type_AdminBanPlayerMessage, ValidateAdminBanPlayerMessage),
     (Type_AdminBanPlayerAckMessage, ValidateAdminBanPlayerAckMessage)]"

definition IsValidPacket :: "net_packet \<Rightarrow> bool" where
  "IsValidPacket packet =
    (case map_of m_validationMap (messagetype packet) of None \<Rightarrow> False | Some validate \<Rightarrow> validate (GetMsg packet))"

section \<open>What an accepted packet holds\<close>





lemma known_types: "map_of m_validationMap t \<noteq> None"
  by (cases t) (simp_all add: m_validationMap_def)









lemma printable:
  "valid_char c \<Longrightarrow> c \<in> {CHR 0x09, CHR 0x0A, CHR 0x0D} \<or> 0x20 \<le> (of_char c :: nat) \<and> c \<noteq> CHR 0x7F"
  unfolding valid_char_def not_less [symmetric] by blast

lemma chat_validators:
  "map_of m_validationMap Type_ChatRequestMessage = Some ValidateChatRequestMessage"
  "map_of m_validationMap Type_ChatMessage = Some ValidateChatMessage"
  by (simp_all add: m_validationMap_def)

text \<open>C27: A chat text that is accepted, on its way to the server or to the other players, is not empty,
  has at most 128 bytes, and no control character but tab, newline and carriage return: no player
  can send escape sequences or a hidden end of the text.\<close>

theorem chat_text_clean:
  assumes "IsValidPacket p"
    and "(messagetype p, f) \<in> {(Type_ChatRequestMessage, ''chatrequestmessage''), (Type_ChatMessage, ''chatmessage'')}"
    and "text = bytes_field ''chattext'' (msg_field f (GetMsg p))"
  shows "1 \<le> length text \<and> length text \<le> 128 \<and>
    list_all (\<lambda>c. c \<in> {CHR 0x09, CHR 0x0A, CHR 0x0D} \<or> 0x20 \<le> (of_char c :: nat) \<and> c \<noteq> CHR 0x7F) text"
proof -
  have "VALIDATE_STRING_SIZE text 1 128" "valid_content text"
    using assms by (auto simp: IsValidPacket_def chat_validators ValidateChatRequestMessage_def
        ValidateChatMessage_def has_body_def)
  then have size: "1 \<le> length text \<and> length text \<le> 128" and content: "list_all valid_char text"
    by (simp_all only: VALIDATE_STRING_SIZE_def valid_content_def)
  from content have "list_all (\<lambda>c. c \<in> {CHR 0x09, CHR 0x0A, CHR 0x0D} \<or> 0x20 \<le> (of_char c :: nat) \<and> c \<noteq> CHR 0x7F) text"
    by (rule list.pred_mono_strong) (rule printable)
  with size show ?thesis by blast
qed

theorem chat_text_clean_witness:
  "list_all (\<lambda>c. c \<in> {CHR 0x09, CHR 0x0A, CHR 0x0D} \<or> 0x20 \<le> (of_char c :: nat) \<and> c \<noteq> CHR 0x7F) ''nh, gg''"
proof -
  let ?p = "\<lparr>messagetype = Type_ChatRequestMessage,
    GetMsg = [(''chatrequestmessage'', Msg [(''chattext'', Bytes ''nh, gg'')])]\<rparr>"
  have "valid_content ''nh, gg''" by code_simp
  then have "IsValidPacket ?p"
    by (simp add: IsValidPacket_def chat_validators ValidateChatRequestMessage_def has_body_def has_field_def
        msg_field_def bytes_field_def VALIDATE_STRING_SIZE_def)
  from chat_text_clean [OF this, of "''chatrequestmessage''" "''nh, gg''"] show ?thesis
    by (simp add: msg_field_def bytes_field_def)
qed

text \<open>The cards of the board are checked to be cards; the hole cards that a client is dealt are not.\<close>

lemma hole_cards_unchecked:
  "IsValidPacket \<lparr>messagetype = Type_HandStartMessage, GetMsg = [(''handstartmessage'', Msg
     [(''gameid'', UInt 1), (''smallblind'', UInt 10), (''seatstates'', Many [UInt 0, UInt 0]),
      (''plaincards'', Msg [(''plaincard1'', UInt c1), (''plaincard2'', UInt c2)])])]\<rparr>"
  by (simp add: IsValidPacket_def m_validationMap_def ValidateHandStartMessage_def has_body_def has_field_def
      msg_field_def uint_field_def list_field_def VALIDATE_UINT_RANGE_def VALIDATE_LIST_SIZE_def
      MAX_NUMBER_OF_PLAYERS_def)

end
