(* ===== verification/Vote_Kick.thy ===== *)
theory Vote_Kick
  imports Game_Settings
begin

text \<open>
  The vote kick of a running game (\<open>ServerGame::InternalAskVoteKick\<close>, \<open>InternalVoteKick\<close> and
  \<open>TimerVoteKick\<close>, \<open>src/src/net/servergame.cpp\<close>; \<open>VoteKickData\<close>, \<open>src/src/gamedata.h\<close>). A session
  starts a petition against a player, every player may vote once, and a timer decides. The
  operations return the message that the code sends; the time is an argument, in seconds.
\<close>

section \<open>State and messages\<close>

datatype DenyKickPlayerReason =
    KICK_DENIED_INVALID_STATE
  | KICK_DENIED_TOO_FEW_PLAYERS
  | KICK_DENIED_TEMPORARY
  | KICK_DENIED_OTHER_IN_PROGRESS
  | KICK_DENIED_INVALID_PLAYER_ID
  | KICK_DENIED_CANNOT_KICK_SELF

datatype KickVote = KICK_VOTE_AGAINST | KICK_VOTE_IN_FAVOUR

datatype DenyVoteReason = VOTE_DENIED_INVALID_PETITION | VOTE_DENIED_ALREADY_VOTED

datatype EndPetitionReason =
    PETITION_END_ENOUGH_VOTES
  | PETITION_END_NOT_ENOUGH_PLAYERS
  | PETITION_END_PLAYER_LEFT
  | PETITION_END_TIMEOUT

text \<open>\<open>voteTimer\<close> is the second at which the timer of the petition was started.\<close>

record VoteKickData =
  petitionId :: uint32
  kickPlayerId :: nat
  numVotesToKick :: int
  numVotesInFavourOfKicking :: int
  numVotesAgainstKicking :: int
  timeLimitSec :: int
  voteTimer :: int
  votedPlayerIds :: "nat list"

record vote_game =
  theGame :: server_game
  voteKickData :: "VoteKickData option"
  curPetitionId :: uint32

datatype vote_message =
    AskKickDenied nat DenyKickPlayerReason
  | StartKickPetition uint32 nat nat int int
  | KickPetitionUpdate uint32 int int int
  | VoteKickDenied uint32 DenyVoteReason
  | EndKickPetition uint32 int int bool EndPetitionReason

section \<open>Operations\<close>

definition SERVER_KICK_TIMEOUT_ADD_DELAY_SEC :: int where
  "SERVER_KICK_TIMEOUT_ADD_DELAY_SEC = 2"

definition SERVER_VOTE_KICK_TIMEOUT_SEC :: int where
  "SERVER_VOTE_KICK_TIMEOUT_SEC = 30"

text \<open>\<open>ceil(numPlayers * 2.0 / 3.0)\<close>; the quotient of two doubles is exact enough below \<open>2 ^ 50\<close>
  players: an integer quotient is exact, any other is a third away from the next integer.\<close>

definition votes_needed :: "nat \<Rightarrow> int" where
  "votes_needed n = (2 * int n + 2) div 3"

text \<open>The counter of the petitions is a 32 bit integer; the id 0 is skipped.\<close>

definition next_petition_id :: "uint32 \<Rightarrow> uint32 \<times> uint32" where
  "next_petition_id c = (if c = 0 then (c + 1, c + 2) else (c, c + 1))"

definition InternalAskVoteKick :: "int \<Rightarrow> int \<Rightarrow> nat \<Rightarrow> nat \<Rightarrow> vote_game \<Rightarrow> vote_message \<times> vote_game" where
  "InternalAskVoteKick now timeoutSec byWhom playerIdWho v =
    (let deny = (\<lambda>reason. (AskKickDenied playerIdWho reason, v));
         numPlayers = length (session_uids (theGame v)) in
     if \<not> IsRunning (theGame v) then deny KICK_DENIED_INVALID_STATE
     else if byWhom = playerIdWho then deny KICK_DENIED_CANNOT_KICK_SELF
     else if numPlayers > 2 then
       (if IsValidPlayer playerIdWho (theGame v) then
          (case voteKickData v of
             None \<Rightarrow>
               (let (nextId, counter) = next_petition_id (curPetitionId v);
                    p = \<lparr>petitionId = nextId, kickPlayerId = playerIdWho,
                         numVotesToKick = votes_needed numPlayers, numVotesInFavourOfKicking = 1,
                         numVotesAgainstKicking = 0,
                         timeLimitSec = timeoutSec + SERVER_KICK_TIMEOUT_ADD_DELAY_SEC, voteTimer = now,
                         votedPlayerIds = [byWhom]\<rparr>
                in (StartKickPetition nextId byWhom playerIdWho timeoutSec (numVotesToKick p),
                    v\<lparr>voteKickData := Some p, curPetitionId := counter\<rparr>))
           | Some p \<Rightarrow> deny KICK_DENIED_OTHER_IN_PROGRESS)
        else deny KICK_DENIED_INVALID_PLAYER_ID)
     else deny KICK_DENIED_TOO_FEW_PLAYERS)"

definition record_vote :: "nat \<Rightarrow> KickVote \<Rightarrow> VoteKickData \<Rightarrow> VoteKickData" where
  "record_vote playerId vote p =
    (let p1 = p\<lparr>votedPlayerIds := votedPlayerIds p @ [playerId]\<rparr> in
     if vote = KICK_VOTE_IN_FAVOUR
     then p1\<lparr>numVotesInFavourOfKicking := numVotesInFavourOfKicking p + 1\<rparr>
     else p1\<lparr>numVotesAgainstKicking := numVotesAgainstKicking p + 1\<rparr>)"

definition InternalVoteKick :: "nat \<Rightarrow> uint32 \<Rightarrow> KickVote \<Rightarrow> vote_game \<Rightarrow> vote_message \<times> vote_game" where
  "InternalVoteKick byWhom petition vote v =
    (if IsRunning (theGame v) then
       (case voteKickData v of
          None \<Rightarrow> (VoteKickDenied petition VOTE_DENIED_INVALID_PETITION, v)
        | Some p \<Rightarrow>
            (if petitionId p = petition then
               (if byWhom \<notin> set (votedPlayerIds p) then
                  (let p' = record_vote byWhom vote p in
                   (KickPetitionUpdate petition (numVotesAgainstKicking p') (numVotesInFavourOfKicking p') (numVotesToKick p'),
                    v\<lparr>voteKickData := Some p'\<rparr>))
                else (VoteKickDenied petition VOTE_DENIED_ALREADY_VOTED, v))
             else (VoteKickDenied petition VOTE_DENIED_INVALID_PETITION, v)))
     else (VoteKickDenied petition VOTE_DENIED_INVALID_PETITION, v))"

text \<open>Whether the timer ends a petition, and why.\<close>

definition petition_end :: "int \<Rightarrow> server_game \<Rightarrow> VoteKickData \<Rightarrow> EndPetitionReason option" where
  "petition_end now sg p =
    (let votesRequiredToKick = numVotesToKick p - numVotesInFavourOfKicking p;
         playersAllowedToVote = length (filter (\<lambda>u. u \<notin> set (votedPlayerIds p)) (GetPlayerIdList sg)) in
     if numVotesInFavourOfKicking p \<ge> numVotesToKick p then Some PETITION_END_ENOUGH_VOTES
     else if votesRequiredToKick > int playersAllowedToVote then Some PETITION_END_NOT_ENOUGH_PLAYERS
     else if \<not> IsValidPlayer (kickPlayerId p) sg then Some PETITION_END_PLAYER_LEFT
     else if now - voteTimer p \<ge> timeLimitSec p then Some PETITION_END_TIMEOUT
     else None)"

definition TimerVoteKick :: "int \<Rightarrow> vote_game \<Rightarrow> vote_message option \<times> vote_game" where
  "TimerVoteKick now v =
    (case voteKickData v of
       None \<Rightarrow> (None, v)
     | Some p \<Rightarrow>
         (case petition_end now (theGame v) p of
            None \<Rightarrow> (None, v)
          | Some reason \<Rightarrow>
              (let doKick = (reason = PETITION_END_ENOUGH_VOTES) in
               (Some (EndKickPetition (petitionId p) (numVotesAgainstKicking p) (numVotesInFavourOfKicking p) doKick reason),
                v\<lparr>theGame := (if doKick then KickPlayer (kickPlayerId p) (theGame v) else theGame v),
                  voteKickData := None\<rparr>))))"

text \<open>The reason of a refusal as the code of the protocol, where a code is one of those declared.\<close>

definition deny_code :: "DenyKickPlayerReason \<Rightarrow> int" where
  "deny_code reason = (case reason of
     KICK_DENIED_INVALID_STATE \<Rightarrow> 0 | KICK_DENIED_TOO_FEW_PLAYERS \<Rightarrow> 1 | KICK_DENIED_TEMPORARY \<Rightarrow> 2
   | KICK_DENIED_OTHER_IN_PROGRESS \<Rightarrow> 3 | KICK_DENIED_INVALID_PLAYER_ID \<Rightarrow> 4 | KICK_DENIED_CANNOT_KICK_SELF \<Rightarrow> 5)"

definition KickDeniedReason_codes :: "int list" where
  "KickDeniedReason_codes = [0, 1, 2, 3, 4]"

section \<open>Petitions\<close>

text \<open>What happens to the petitions of a game, the latest event first: a petition was started by a
  player against another in a game of so many sessions, or a vote was counted. The sessions and the
  hands of the game change in any way in between.\<close>

datatype vote_event = Asked nat nat nat | Voted nat KickVote

inductive vote_trace :: "vote_event list \<Rightarrow> vote_game \<Rightarrow> bool" where
  start: "vote_trace [] \<lparr>theGame = sg, voteKickData = None, curPetitionId = 1\<rparr>"
| ask: "vote_trace es v \<Longrightarrow> byWhom \<in> set (session_uids (theGame v)) \<Longrightarrow>
    InternalAskVoteKick now timeoutSec byWhom who v = (StartKickPetition i byWhom who t n, v') \<Longrightarrow>
    vote_trace (Asked byWhom who (length (session_uids (theGame v))) # es) v'"
| vote: "vote_trace es v \<Longrightarrow> byWhom \<in> set (session_uids (theGame v)) \<Longrightarrow>
    InternalVoteKick byWhom i x v = (KickPetitionUpdate i a f n, v') \<Longrightarrow> vote_trace (Voted byWhom x # es) v'"
| timer: "vote_trace es v \<Longrightarrow> TimerVoteKick now v = (m, v') \<Longrightarrow> vote_trace es v'"
| game: "vote_trace es v \<Longrightarrow> vote_trace es (v\<lparr>theGame := sg\<rparr>)"
| end_game: "vote_trace es v \<Longrightarrow> vote_trace es (v\<lparr>theGame := InternalEndGame (theGame v), voteKickData := None\<rparr>)"

text \<open>The votes since the latest petition was started: its players in favour and against.\<close>

fun latest_petition :: "vote_event list \<Rightarrow> (nat \<times> nat \<times> nat) option" where
  "latest_petition [] = None"
| "latest_petition (Asked b w n # es) = Some (b, w, n)"
| "latest_petition (Voted u x # es) = latest_petition es"

fun voters :: "KickVote \<Rightarrow> vote_event list \<Rightarrow> nat list" where
  "voters x [] = []"
| "voters x (Asked b w n # es) = (if x = KICK_VOTE_IN_FAVOUR then [b] else [])"
| "voters x (Voted u y # es) = (if x = y then u # voters x es else voters x es)"

definition petition_inv :: "vote_event list \<Rightarrow> VoteKickData \<Rightarrow> bool" where
  "petition_inv es p \<longleftrightarrow>
     (\<exists>b n. latest_petition es = Some (b, kickPlayerId p, n) \<and> 2 < n \<and> numVotesToKick p = votes_needed n) \<and>
     mset (votedPlayerIds p) = mset (voters KICK_VOTE_IN_FAVOUR es) + mset (voters KICK_VOTE_AGAINST es) \<and>
     distinct (votedPlayerIds p) \<and>
     numVotesInFavourOfKicking p = int (length (voters KICK_VOTE_IN_FAVOUR es)) \<and>
     numVotesAgainstKicking p = int (length (voters KICK_VOTE_AGAINST es))"

lemma ask_started:
  assumes "InternalAskVoteKick now t b w v = (StartKickPetition i b w s n, v')"
  shows "\<exists>p. voteKickData v' = Some p \<and> petition_inv (Asked b w (length (session_uids (theGame v))) # es) p"
  using assms
  by (auto simp: InternalAskVoteKick_def Let_def petition_inv_def split: if_splits option.splits prod.splits)

lemma record_vote_inv:
  assumes "petition_inv es p" "u \<notin> set (votedPlayerIds p)"
  shows "petition_inv (Voted u x # es) (record_vote u x p)"
  using assms by (cases x) (auto simp: petition_inv_def record_vote_def Let_def)

lemma vote_counted:
  assumes "InternalVoteKick u i x v = (KickPetitionUpdate j a f n, v')"
  shows "\<exists>p. voteKickData v = Some p \<and> u \<notin> set (votedPlayerIds p) \<and> v' = v\<lparr>voteKickData := Some (record_vote u x p)\<rparr>"
  using assms by (auto simp: InternalVoteKick_def Let_def split: if_splits option.splits)

lemma timer_petition:
  "TimerVoteKick now v = (m, v') \<Longrightarrow> voteKickData v' = None \<or> v' = v"
  by (auto simp: TimerVoteKick_def Let_def split: option.splits)

lemma vote_trace_inv:
  "vote_trace es v \<Longrightarrow> voteKickData v = Some p \<Longrightarrow> petition_inv es p"
proof (induction arbitrary: p rule: vote_trace.induct)
  case (ask es v b now t w i s n v')
  from ask_started [OF ask.hyps(3), of es] show ?case using ask.prems by auto
next
  case (vote es v u i x a f n v')
  from vote_counted [OF vote.hyps(3)] show ?case
    using vote.IH vote.prems record_vote_inv by auto
next
  case (timer es v now m v')
  from timer_petition [OF timer.hyps(2)] show ?case using timer.IH timer.prems by auto
qed simp_all

lemma votes_needed_majority: "votes_needed n \<le> f \<longleftrightarrow> 2 * int n \<le> 3 * f"
  by (auto simp: votes_needed_def)

section \<open>Properties\<close>

text \<open>C23: A player is only kicked by a majority. Through any sequence of petitions, votes, runs of the
  timer and changes of the game: when the timer kicks a player, he is the one of the petition started
  last, at a moment with more than two sessions, and since then at least two thirds as many different
  players as there were sessions have voted in favour, each of them once.\<close>

theorem kick_needs_majority:
  assumes "vote_trace es v" "TimerVoteKick now v = (Some (EndKickPetition i against favour True reason), v')"
  shows "\<exists>b w n. latest_petition es = Some (b, w, n) \<and> theGame v' = KickPlayer w (theGame v) \<and>
    2 < n \<and> distinct (voters KICK_VOTE_IN_FAVOUR es) \<and> 2 * n \<le> 3 * length (voters KICK_VOTE_IN_FAVOUR es)"
proof -
  obtain p where p: "voteKickData v = Some p" "petition_end now (theGame v) p = Some PETITION_END_ENOUGH_VOTES"
    "theGame v' = KickPlayer (kickPlayerId p) (theGame v)"
    using assms(2) by (auto simp: TimerVoteKick_def Let_def split: option.splits)
  have enough: "numVotesToKick p \<le> numVotesInFavourOfKicking p"
    using p(2) by (auto simp: petition_end_def Let_def split: if_splits)
  note inv = vote_trace_inv [OF assms(1) p(1), unfolded petition_inv_def]
  have "distinct (voters KICK_VOTE_IN_FAVOUR es @ voters KICK_VOTE_AGAINST es)"
    using inv mset_eq_imp_distinct_iff [of "votedPlayerIds p"] by (metis mset_append)
  then show ?thesis using inv enough p(3) by (auto simp: votes_needed_majority)
qed

definition voting_player :: "nat \<Rightarrow> session" where
  "voting_player u = \<lparr>sessionId = u, sessionPlayer = \<lparr>pdUniqueId = u, pdDBId = 0, pdNumber = 0,
     pdType = PLAYER_TYPE_HUMAN, pdName = ''p'', pdStartCash = -1, pdGuid = ''g'', pdOldGuid = '''',
     pdGameAdmin = False\<rparr>\<rparr>"

definition voting_game :: server_game where
  "voting_game = \<lparr>sessions = map voting_player [11, 12, 13], computerPlayers = [],
     adminPlayerId = 11, gameData = sample_data, runningGame = Some sample_game,
     rankingMap = (\<lambda>_. None), numJoinsPerPlayer = (\<lambda>_. None), rejoinPlayers = [], reactivatePlayers = [],
     gameNum = 1\<rparr>"

lemma voting_game_simps:
  "session_uids voting_game = [11, 12, 13]" "IsRunning voting_game" "IsValidPlayer u voting_game = (u \<in> {11, 12, 13})"
  "GetPlayerIdList voting_game = [11, 12, 13]"
  by (auto simp: voting_game_def voting_player_def IsRunning_def IsValidPlayer_def GetPlayerIdList_def)

theorem kick_needs_majority_witness:
  "\<exists>es v v'. TimerVoteKick 7 v = (Some (EndKickPetition 1 0 2 True PETITION_END_ENOUGH_VOTES), v') \<and>
     theGame v' = KickPlayer 13 voting_game \<and> voters KICK_VOTE_IN_FAVOUR es = [12, 11] \<and>
     2 * 3 \<le> 3 * length (voters KICK_VOTE_IN_FAVOUR es)"
proof -
  let ?v = "\<lparr>theGame = voting_game, voteKickData = None, curPetitionId = 1\<rparr>"
  let ?p = "\<lparr>petitionId = 1, kickPlayerId = 13, numVotesToKick = 2, numVotesInFavourOfKicking = 1,
    numVotesAgainstKicking = 0, timeLimitSec = 32, voteTimer = 5, votedPlayerIds = [11]\<rparr>"
  let ?v1 = "\<lparr>theGame = voting_game, voteKickData = Some ?p, curPetitionId = 2\<rparr>"
  let ?v2 = "\<lparr>theGame = voting_game, voteKickData = Some (record_vote 12 KICK_VOTE_IN_FAVOUR ?p), curPetitionId = 2\<rparr>"
  have "InternalAskVoteKick 5 30 11 13 ?v = (StartKickPetition 1 11 13 30 2, ?v1)"
    by (simp add: InternalAskVoteKick_def voting_game_simps votes_needed_def next_petition_id_def
        SERVER_KICK_TIMEOUT_ADD_DELAY_SEC_def Let_def)
  from vote_trace.ask [OF vote_trace.start _ this]
  have t1: "vote_trace [Asked 11 13 3] ?v1" by (simp add: voting_game_simps numeral_3_eq_3)
  have "InternalVoteKick 12 1 KICK_VOTE_IN_FAVOUR ?v1 = (KickPetitionUpdate 1 0 2 2, ?v2)"
    by (simp add: InternalVoteKick_def voting_game_simps record_vote_def Let_def)
  from vote_trace.vote [OF t1 _ this]
  have t2: "vote_trace [Voted 12 KICK_VOTE_IN_FAVOUR, Asked 11 13 3] ?v2" by (simp add: voting_game_simps)
  have k: "TimerVoteKick 7 ?v2 = (Some (EndKickPetition 1 0 2 True PETITION_END_ENOUGH_VOTES),
      \<lparr>theGame = KickPlayer 13 voting_game, voteKickData = None, curPetitionId = 2\<rparr>)"
    by (simp add: TimerVoteKick_def petition_end_def record_vote_def Let_def)
  from kick_needs_majority [OF t2 k] k show ?thesis
    by (intro exI [of _ "[Voted 12 KICK_VOTE_IN_FAVOUR, Asked 11 13 3]"] exI [of _ ?v2] exI) auto
qed

text \<open>Whether the votes in favour can still be enough, when only players of the game who have not
  voted may vote.\<close>

definition still_possible :: "server_game \<Rightarrow> VoteKickData \<Rightarrow> bool" where
  "still_possible sg p \<longleftrightarrow> (\<exists>us. distinct us \<and> set us \<subseteq> set (GetPlayerIdList sg) \<and>
     set us \<inter> set (votedPlayerIds p) = {} \<and> numVotesToKick p \<le> numVotesInFavourOfKicking p + int (length us))"

lemma still_possible_count:
  assumes "distinct (GetPlayerIdList sg)"
  shows "still_possible sg p \<longleftrightarrow> numVotesToKick p - numVotesInFavourOfKicking p
    \<le> int (length (filter (\<lambda>u. u \<notin> set (votedPlayerIds p)) (GetPlayerIdList sg)))"
proof -
  let ?ws = "filter (\<lambda>u. u \<notin> set (votedPlayerIds p)) (GetPlayerIdList sg)"
  have w: "distinct ?ws" "set ?ws \<subseteq> set (GetPlayerIdList sg)" "set ?ws \<inter> set (votedPlayerIds p) = {}"
    using assms by auto
  have "length us \<le> length ?ws"
    if u: "distinct us" "set us \<subseteq> set (GetPlayerIdList sg)" "set us \<inter> set (votedPlayerIds p) = {}" for us
  proof -
    have "set us \<subseteq> set ?ws" using u(2,3) by auto
    from card_mono [OF finite_set this] show ?thesis by (simp only: distinct_card [OF u(1)] distinct_card [OF w(1)])
  qed
  note most = this
  show ?thesis
  proof
    assume "still_possible sg p"
    then obtain us where us: "distinct us" "set us \<subseteq> set (GetPlayerIdList sg)" "set us \<inter> set (votedPlayerIds p) = {}"
      "numVotesToKick p \<le> numVotesInFavourOfKicking p + int (length us)" unfolding still_possible_def by blast
    show "numVotesToKick p - numVotesInFavourOfKicking p \<le> int (length ?ws)"
      using most [OF us(1-3)] us(4) by linarith
  next
    assume "numVotesToKick p - numVotesInFavourOfKicking p \<le> int (length ?ws)"
    then have "numVotesToKick p \<le> numVotesInFavourOfKicking p + int (length ?ws)" by linarith
    with w show "still_possible sg p" unfolding still_possible_def by blast
  qed
qed

text \<open>C30: The timer decides a petition correctly, in any game whose players have different ids. It
  kicks when there are enough votes; it gives up exactly when the votes of all players who have not
  voted yet could not make it succeed any more, when the player to be kicked has left, or when the
  time is over; and otherwise the petition stays open.\<close>

theorem petition_decided:
  assumes "distinct (GetPlayerIdList sg)"
  shows "petition_end now sg p =
    (if numVotesToKick p \<le> numVotesInFavourOfKicking p then Some PETITION_END_ENOUGH_VOTES
     else if \<not> still_possible sg p then Some PETITION_END_NOT_ENOUGH_PLAYERS
     else if kickPlayerId p \<notin> set (GetPlayerIdList sg) then Some PETITION_END_PLAYER_LEFT
     else if voteTimer p + timeLimitSec p \<le> now then Some PETITION_END_TIMEOUT
     else None)"
  using still_possible_count [OF assms, of p]
  by (auto simp: petition_end_def IsValidPlayer_def list_ex_iff Let_def)

theorem petition_decided_witness:
  "petition_end 8 voting_game \<lparr>petitionId = 1, kickPlayerId = 13, numVotesToKick = 2,
     numVotesInFavourOfKicking = 0, numVotesAgainstKicking = 2, timeLimitSec = 32, voteTimer = 5,
     votedPlayerIds = [11, 13]\<rparr> = Some PETITION_END_NOT_ENOUGH_PLAYERS"
  by (subst petition_decided) (simp_all add: voting_game_simps still_possible_count)

text \<open>No player is asked to vote for the kick of a player in a game of two sessions, the largest
  that this server allows: every request is refused. The refusal of a request against the player
  himself is the only one whose reason is not a code of the protocol.\<close>

theorem two_players_cannot_vote:
  assumes "length (session_uids (theGame v)) \<le> 2"
  shows "\<exists>reason. InternalAskVoteKick now t byWhom who v = (AskKickDenied who reason, v) \<and>
    (deny_code reason \<in> set KickDeniedReason_codes \<longleftrightarrow> \<not> (IsRunning (theGame v) \<and> byWhom = who))"
  using assms by (simp add: InternalAskVoteKick_def Let_def deny_code_def KickDeniedReason_codes_def)

theorem two_players_cannot_vote_witness:
  "\<exists>reason. InternalAskVoteKick 0 30 11 11 \<lparr>theGame = voting_game\<lparr>sessions := [voting_player 11, voting_player 12]\<rparr>,
       voteKickData = None, curPetitionId = 1\<rparr> =
     (AskKickDenied 11 reason, \<lparr>theGame = voting_game\<lparr>sessions := [voting_player 11, voting_player 12]\<rparr>,
       voteKickData = None, curPetitionId = 1\<rparr>) \<and> deny_code reason \<notin> set KickDeniedReason_codes"
  using two_players_cannot_vote [of "\<lparr>theGame = voting_game\<lparr>sessions := [voting_player 11, voting_player 12]\<rparr>,
    voteKickData = None, curPetitionId = 1\<rparr>" 0 30 11 11]
  by (simp add: voting_game_def IsRunning_def)

end
