(* ===== verification/Dealer.thy ===== *)
theory Dealer
  imports Game
begin

text \<open>
  The dealer button between hands (\<open>Game::initHand\<close>, \<open>src/src/engine/game.cpp\<close>), the buttons and
  the blinds at the start of a hand (\<open>LocalHand::assignButtons\<close>, \<open>LocalHand::setBlinds\<close>,
  \<open>src/src/engine/local_engine/localhand.cpp\<close>).
\<close>

section \<open>Searching by unique id\<close>

text \<open>A table whose players have different ids and whose active players sit at the table.\<close>

definition seated :: "table \<Rightarrow> bool" where
  "seated t \<longleftrightarrow> distinct (map myUniqueID (seatsList t)) \<and>
     list_all (\<lambda>i. i < length (seatsList t)) (activePlayerList t)"

lemma first_some_find:
  "first_some (\<lambda>k. if P k then Some k else None) xs = find P xs"
  by (induction xs) auto

lemma find_upt_nth:
  "find (\<lambda>k. P (xs ! k)) [0..<length xs] = Some k \<Longrightarrow> k < length xs \<and> P (xs ! k)"
  by (auto simp: find_Some_iff)

lemma getActivePlayerIt_seat:
  assumes "seated t" "s < length (seatsList t)"
  shows "getActivePlayerIt (myUniqueID (seatsList t ! s)) t =
    find (\<lambda>k. activePlayerList t ! k = s) [0..<length (activePlayerList t)]"
proof -
  have "myUniqueID (seatsList t ! (activePlayerList t ! k)) = myUniqueID (seatsList t ! s) \<longleftrightarrow>
      activePlayerList t ! k = s" if "k \<in> set [0..<length (activePlayerList t)]" for k
    using assms that
    by (auto simp: seated_def list_all_length distinct_conv_nth) 
  then show ?thesis
    by (auto simp: getActivePlayerIt_def position_with_id_def first_some_find intro: find_cong)
qed

lemma getActivePlayerIt_cases:
  assumes "seated t" "s < length (seatsList t)"
  shows "case getActivePlayerIt (myUniqueID (seatsList t ! s)) t of
      Some k \<Rightarrow> k < length (activePlayerList t) \<and> activePlayerList t ! k = s
    | None \<Rightarrow> s \<notin> set (activePlayerList t)"
  unfolding getActivePlayerIt_seat [OF assms]
  by (auto simp: find_Some_iff find_None_iff in_set_conv_nth split: option.split)

lemma getSeatIt_seat:
  assumes "seated t" "s < length (seatsList t)"
  shows "getSeatIt (myUniqueID (seatsList t ! s)) t = Some s"
proof -
  have "find (\<lambda>k. myUniqueID (seatsList t ! k) = myUniqueID (seatsList t ! s)) [0..<length (seatsList t)] = Some s"
    using assms by (auto simp: find_Some_iff seated_def distinct_conv_nth intro!: exI [of _ s])
  then show ?thesis by (simp add: getSeatIt_def seat_with_id_def first_some_find)
qed

section \<open>The next active player\<close>

lemma after_mod: "k < n \<Longrightarrow> after n k = Suc k mod n"
  by (simp add: after_def)

text \<open>The search looks at the seats one after another, cyclically.\<close>

lemma next_active_spec:
  assumes "seated t" "d < length (seatsList t)"
  shows "case next_active n d t of
      Some k \<Rightarrow> \<exists>j. 1 \<le> j \<and> j \<le> n \<and> k < length (activePlayerList t) \<and>
        activePlayerList t ! k = (d + j) mod length (seatsList t) \<and>
        (\<forall>i. 1 \<le> i \<and> i < j \<longrightarrow> (d + i) mod length (seatsList t) \<notin> set (activePlayerList t))
    | None \<Rightarrow> \<forall>i. 1 \<le> i \<and> i \<le> n \<longrightarrow> (d + i) mod length (seatsList t) \<notin> set (activePlayerList t)"
  using assms(2)
proof (induction n arbitrary: d)
  case 0
  then show ?case by simp
next
  case (Suc n)
  let ?len = "length (seatsList t)" and ?active = "activePlayerList t"
  let ?d = "Suc d mod ?len"
  have "0 < ?len" using Suc.prems by (cases "seatsList t") simp_all
  then have d: "after ?len d = ?d" "?d < ?len" using Suc.prems by (simp_all add: after_mod)
  have shift: "(?d + i) mod ?len = (d + Suc i) mod ?len" for i by (simp add: mod_add_left_eq)
  have c: "case getActivePlayerIt (myUniqueID (seatsList t ! ?d)) t of
      Some k \<Rightarrow> k < length ?active \<and> ?active ! k = ?d | None \<Rightarrow> ?d \<notin> set ?active"
    using getActivePlayerIt_cases [OF assms(1) d(2)] .
  show ?case
  proof (cases "getActivePlayerIt (myUniqueID (seatsList t ! ?d)) t")
    case (Some k)
    then show ?thesis using c d by (auto simp: Let_def intro!: exI [of _ 1])
  next
    case None
    then have no: "(d + 1) mod ?len \<notin> set ?active" and n: "next_active (Suc n) d t = next_active n ?d t"
      using c d by (simp_all add: Let_def)
    note IH = Suc.IH [OF d(2)]
    show ?thesis
    proof (cases "next_active n ?d t")
      case (Some k)
      then obtain j where j: "1 \<le> j" "j \<le> n" "k < length ?active" "?active ! k = (d + Suc j) mod ?len"
        "\<forall>i. 1 \<le> i \<and> i < j \<longrightarrow> (d + Suc i) mod ?len \<notin> set ?active"
        using IH by (auto simp: shift)
      have "(d + i) mod ?len \<notin> set ?active" if "1 \<le> i" "i < Suc j" for i
        using j(5) no that by (cases i; cases "i - 1") auto
      then show ?thesis using j Some n by (auto intro!: exI [of _ "Suc j"])
    next
      case None
      then have *: "\<forall>i. 1 \<le> i \<and> i \<le> n \<longrightarrow> (d + Suc i) mod ?len \<notin> set ?active" using IH by (simp add: shift)
      have "(d + i) mod ?len \<notin> set ?active" if "1 \<le> i" "i \<le> Suc n" for i
        using * no that by (cases i; cases "i - 1") auto
      then show ?thesis using None n by simp
    qed
  qed
qed

lemma next_active_found:
  assumes "seated t" "d < length (seatsList t)" "s \<in> set (activePlayerList t)"
  shows "next_active (length (seatsList t)) d t \<noteq> None"
proof
  let ?len = "length (seatsList t)"
  assume "next_active ?len d t = None"
  then have none: "\<forall>i. 1 \<le> i \<and> i \<le> ?len \<longrightarrow> (d + i) mod ?len \<notin> set (activePlayerList t)"
    using next_active_spec [OF assms(1,2), of ?len] by simp
  have s: "s < ?len" using assms(1,3) by (auto simp: seated_def list_all_iff)
  let ?i = "if d < s then s - d else s + ?len - d"
  have "1 \<le> ?i \<and> ?i \<le> ?len \<and> (d + ?i) mod ?len = s" using assms(2) s by auto
  then show False using none assms(3) by metis
qed

lemma next_dealer_spec:
  assumes "seated t" "d < length (seatsList t)" "activePlayerList t \<noteq> []"
  shows "\<exists>j s. next_dealer (myUniqueID (seatsList t ! d)) t = Inr (myUniqueID (seatsList t ! s)) \<and>
    1 \<le> j \<and> j \<le> length (seatsList t) \<and> s = (d + j) mod length (seatsList t) \<and>
    s \<in> set (activePlayerList t) \<and>
    (\<forall>i. 1 \<le> i \<and> i < j \<longrightarrow> (d + i) mod length (seatsList t) \<notin> set (activePlayerList t))"
proof -
  obtain k where k: "next_active (length (seatsList t)) d t = Some k"
    using next_active_found [OF assms(1,2), of "hd (activePlayerList t)"] assms(3) by auto
  then have "next_dealer (myUniqueID (seatsList t ! d)) t = Inr (myUniqueID (seatsList t ! (activePlayerList t ! k)))"
    by (simp add: next_dealer_def getSeatIt_seat [OF assms(1,2)])
  moreover obtain j where "1 \<le> j" "j \<le> length (seatsList t)" "k < length (activePlayerList t)"
    "activePlayerList t ! k = (d + j) mod length (seatsList t)"
    "\<forall>i. 1 \<le> i \<and> i < j \<longrightarrow> (d + i) mod length (seatsList t) \<notin> set (activePlayerList t)"
    using next_active_spec [OF assms(1,2), of "length (seatsList t)"] k by auto
  ultimately show ?thesis by (metis nth_mem)
qed

text \<open>C40: The dealer button moves to the next active player: with different ids and at least one
  active player the search succeeds, the new dealer is active, and none of the seats passed over
  (cyclically, from the seat after the old dealer) is.\<close>

theorem dealer_moves_on:
  assumes "seated t" "d < length (seatsList t)" "activePlayerList t \<noteq> []"
  shows "\<exists>j s. next_dealer (myUniqueID (seatsList t ! d)) t = Inr (myUniqueID (seatsList t ! s)) \<and>
    1 \<le> j \<and> j \<le> length (seatsList t) \<and> s = (d + j) mod length (seatsList t) \<and>
    s \<in> set (activePlayerList t) \<and>
    (\<forall>i. 1 \<le> i \<and> i < j \<longrightarrow> (d + i) mod length (seatsList t) \<notin> set (activePlayerList t))"
  using assms by (rule next_dealer_spec)

theorem dealer_moves_on_witness:
  "\<exists>s. next_dealer 8 sample_table = Inr (myUniqueID (seatsList sample_table ! s)) \<and>
     s \<in> set (activePlayerList sample_table)"
proof -
  have "seated sample_table" "1 < length (seatsList sample_table)" "activePlayerList sample_table \<noteq> []"
    and u: "myUniqueID (seatsList sample_table ! 1) = 8"
    by (simp_all add: seated_def sample_table_def new_player_def)
  from dealer_moves_on [OF this(1-3)] show ?thesis unfolding u by blast
qed

end
