(* ===== verification/Hand_Opening.thy ===== *)
theory Hand_Opening
  imports Hand_Start Dealer
begin

text \<open>
  The start of a two-player hand in full: who gets which button, what the blinds are, and how the
  betting rounds are set up.
\<close>

lemma two_active:
  assumes "length (seatsList t) = 2" "activePlayerList t = [0, 1]" "distinct (map myUniqueID (seatsList t))" "d < 2"
  shows "getSeatIt (myUniqueID (seatsList t ! d)) t = Some d"
    "next_active 2 d t = Some (1 - d)"
proof -
  obtain p q where s: "seatsList t = [p, q]" using assms(1) by (auto dest: two_elements)
  have "seated t" using assms by (simp add: seated_def)
  then show "getSeatIt (myUniqueID (seatsList t ! d)) t = Some d"
    using getSeatIt_seat [of t d] assms by simp
  show "next_active 2 d t = Some (1 - d)"
    using assms(2-4) by (cases d) (simp_all add: s eval_nat_numeral after_def getActivePlayerIt_def position_with_id_def)
qed

lemma assignButtons_two:
  assumes "length (seats h) = 2" "activePlayerList (board h) = [0, 1]"
    "distinct (map myUniqueID (seats h))" "d < 2"
    and dealer: "handDealerPosition h = myUniqueID (seats h ! d)"
  shows "\<exists>h'. assignButtons h = Inr h' \<and>
    seats h' = (map (set_button BUTTON_BIG_BLIND) (seats h))[d := set_button BUTTON_SMALL_BLIND (seats h ! d)] \<and>
    activePlayerList (board h') = [0, 1] \<and> runningPlayerList (board h') = runningPlayerList (board h) \<and>
    smallBlindPosition h' = myUniqueID (seats h ! d) \<and> bigBlindPosition h' = myUniqueID (seats h ! (1 - d)) \<and>
    smallBlind h' = smallBlind h \<and> currentRound h' = currentRound h"
proof -
  obtain p q where s: "seats h = [p, q]" using assms(1) by (auto dest: two_elements)
  have "handDealerPosition h = (if d = 0 then myUniqueID p else myUniqueID q)" "myUniqueID p \<noteq> myUniqueID q"
    "d = 0 \<or> d = 1" using assms(3,4) dealer by (auto simp: s)
  then show ?thesis
    using assms(2) s
    by (elim disjE) (simp_all add: assignButtons_def Let_def eval_nat_numeral after_def
        getActivePlayerIt_def position_with_id_def getSeatIt_def seat_with_id_def map_seats_def update_seat_def set_button_def)
qed

text \<open>A player who posts a blind of \<open>v\<close>.\<close>

definition posts :: "int \<Rightarrow> local_player \<Rightarrow> local_player \<Rightarrow> bool" where
  "posts v p p' \<longleftrightarrow> mySet p' = min v (myCash p) \<and> myCash p' = myCash p - min v (myCash p) \<and>
     myAction p' = (if myCash p \<le> v then PLAYER_ACTION_ALLIN else PLAYER_ACTION_NONE) \<and>
     myUniqueID p' = myUniqueID p"

lemma post_blind_posts:
  assumes "myButton p = b" "0 \<le> v" "0 \<le> myCash p" "mySet p = 0" "myAction p = PLAYER_ACTION_NONE"
  shows "posts v p (post_blind b v p)" "myButton (post_blind b v p) = b"
  using assms by (simp_all add: posts_def post_blind_def setMySet_eq)

lemma post_blind_other: "myButton p \<noteq> b \<Longrightarrow> post_blind b v p = p"
  by (simp add: post_blind_def)

lemma fold_on_seat_lists [simp]:
  "activePlayerList (fold (\<lambda>i. on_seat i f) xs t) = activePlayerList t"
  "runningPlayerList (fold (\<lambda>i. on_seat i f) xs t) = runningPlayerList t"
  by (induction xs arbitrary: t) simp_all

lemma setBlinds_lists [simp]:
  "activePlayerList (board (setBlinds h)) = activePlayerList (board h)"
  "runningPlayerList (board (setBlinds h)) = runningPlayerList (board h)"
  by (simp_all add: setBlinds_def post_blinds_def)

lemma setBlinds_two:
  assumes s: "seats h = (if d = 0 then [p, q] else [q, p])" and d: "d < (2 :: nat)"
    and b: "myButton p = BUTTON_SMALL_BLIND" "myButton q = BUTTON_BIG_BLIND" and "runningPlayerList (board h) = [0, 1]"
  shows "seats (setBlinds h) =
    (let p' = post_blind BUTTON_SMALL_BLIND (smallBlind h) p; q' = post_blind BUTTON_BIG_BLIND (2 * smallBlind h) q
     in if d = 0 then [p', q'] else [q', p'])"
proof -
  have "myButton (post_blind BUTTON_SMALL_BLIND (smallBlind h) p) = BUTTON_SMALL_BLIND"
    using b by (simp add: post_blind_def)
  then show ?thesis
    using assms by (simp add: setBlinds_def post_blinds_def post_blind_other update_seat_def)
qed

lemma createBeRo_two:
  assumes "seatsList t = (if d = 0 then [p, q] else [q, p])" "d < (2 :: nat)" "activePlayerList t = [0, 1]"
    and b: "myButton p = BUTTON_SMALL_BLIND" "myButton q = BUTTON_BIG_BLIND"
  shows "\<exists>bs. createBeRo t dP sB = Inr bs \<and> map smallBlindPositionId bs = replicate 5 (myUniqueID p) \<and>
    map bigBlindPositionId bs = replicate 5 (myUniqueID q) \<and> map firstRound bs = replicate 5 True \<and>
    map firstRunGui bs = replicate 5 True \<and>
    map highestSet bs = [2 * sB, 0, 0, 0, 0] \<and> map minimumRaise bs = replicate 5 (2 * sB)"
proof -
  have "id_with_button BUTTON_SMALL_BLIND t = Some (myUniqueID p)" "id_with_button BUTTON_BIG_BLIND t = Some (myUniqueID q)"
    using assms by (simp_all add: id_with_button_def)
  then show ?thesis by (simp add: createBeRo_def new_bero_preflop_def new_bero_def eval_nat_numeral)
qed

lemma new_hand_two:
  assumes "deck_ok deck" "between_hands T t" "d < 2" "0 \<le> sB"
  shows "\<exists>h. new_hand deck (prepare_board t) ident sP (myUniqueID (seatsList t ! d)) sB sC = Inr h \<and>
    posts sB (seatsList t ! d) (seats h ! d) \<and> myButton (seats h ! d) = BUTTON_SMALL_BLIND \<and>
    posts (2 * sB) (seatsList t ! (1 - d)) (seats h ! (1 - d)) \<and> myButton (seats h ! (1 - d)) = BUTTON_BIG_BLIND \<and>
    runningPlayerList (board h) = [0, 1] \<and>
    map smallBlindPositionId (myBeRo h) = replicate 5 (myUniqueID (seatsList t ! d)) \<and>
    map bigBlindPositionId (myBeRo h) = replicate 5 (myUniqueID (seatsList t ! (1 - d))) \<and>
    map firstRound (myBeRo h) = replicate 5 True \<and> map firstRunGui (myBeRo h) = replicate 5 True \<and>
    map highestSet (myBeRo h) = [2 * sB, 0, 0, 0, 0] \<and> map minimumRaise (myBeRo h) = replicate 5 (2 * sB)"
proof -
  obtain t1 where t1: "deal deck (prepare_board t) = Inr t1" "staged T t1" "runningPlayerList t1 = [0, 1]"
    "map myCash (seatsList t1) = map myCash (seatsList t)"
    "map myUniqueID (seatsList t1) = map myUniqueID (seatsList t)"
    "list_all (\<lambda>p. mySet p = 0 \<and> myAction p = PLAYER_ACTION_NONE) (seatsList t1)"
    using deal_two [OF assms(1,2)] by blast
  obtain x y where t: "seatsList t = [x, y]" "myUniqueID x \<noteq> myUniqueID y" "0 < myCash x" "0 < myCash y"
    using assms(2) by (auto simp: between_hands_def dest!: two_elements)
  obtain x1 y1 where s1: "seatsList t1 = [x1, y1]" using t1(2) by (auto simp: staged_def dest!: two_elements)
  note same = t1(4-6) [unfolded s1 t, simplified]
  let ?dealer = "myUniqueID (seatsList t ! d)"
  let ?h0 = "\<lparr> board = t1, myBeRo = [], handID = ident, startQuantityPlayers = sP,
               handDealerPosition = ?dealer, smallBlindPosition = ?dealer, bigBlindPosition = ?dealer,
               currentRound = GAME_STATE_PREFLOP, roundBeforePostRiver = GAME_STATE_PREFLOP,
               smallBlind = sB, startCash = sC, previousPlayerID = UINT_MAX,
               handLastActionPlayerID = 0, handAllInCondition = False, cardsShown = False,
               highestCardsValue = 0 \<rparr>"
  have d: "d = 0 \<or> d = 1" using assms(3) by auto
  obtain h1 where h1: "assignButtons ?h0 = Inr h1" "activePlayerList (board h1) = [0, 1]"
    "runningPlayerList (board h1) = [0, 1]" "smallBlind h1 = sB"
    "seats h1 = (map (set_button BUTTON_BIG_BLIND) [x1, y1])[d := set_button BUTTON_SMALL_BLIND ([x1, y1] ! d)]"
    using assignButtons_two [of ?h0 d] assms(3) t1(2,3) t(2) same d by (auto simp: s1 t staged_def)
  let ?p = "set_button BUTTON_SMALL_BLIND ([x1, y1] ! d)" and ?q = "set_button BUTTON_BIG_BLIND ([x1, y1] ! (1 - d))"
  let ?p' = "post_blind BUTTON_SMALL_BLIND sB ?p" and ?q' = "post_blind BUTTON_BIG_BLIND (2 * sB) ?q"
  have s2: "seats (setBlinds h1) = (if d = 0 then [?p', ?q'] else [?q', ?p'])"
    using setBlinds_two [of h1 d ?p ?q] h1 d by (auto simp: Let_def)
  have p: "posts sB ?p ?p'" "myButton ?p' = BUTTON_SMALL_BLIND"
    "posts (2 * sB) ?q ?q'" "myButton ?q' = BUTTON_BIG_BLIND"
    using same t d assms(4) by (auto intro!: post_blind_posts)
  obtain bs where bs: "createBeRo (board (setBlinds h1)) ?dealer sB = Inr bs"
    "map smallBlindPositionId bs = replicate 5 (myUniqueID ?p')"
    "map bigBlindPositionId bs = replicate 5 (myUniqueID ?q')" "map firstRound bs = replicate 5 True"
    "map firstRunGui bs = replicate 5 True"
    "map highestSet bs = [2 * sB, 0, 0, 0, 0]" "map minimumRaise bs = replicate 5 (2 * sB)"
    using createBeRo_two [OF s2 assms(3) _ p(2,4), of ?dealer sB] h1(2) by auto
  let ?h = "(setBlinds h1)\<lparr>myBeRo := bs\<rparr>"
  have new: "new_hand deck (prepare_board t) ident sP ?dealer sB sC = Inr ?h"
    using h1(1) bs(1) by (simp add: new_hand_def t1(1))
  have seat: "seats ?h ! d = ?p'" "seats ?h ! (1 - d) = ?q'" using s2 d by auto
  have base: "myCash ?p = myCash (seatsList t ! d)" "myUniqueID ?p = myUniqueID (seatsList t ! d)"
    "myCash ?q = myCash (seatsList t ! (1 - d))" "myUniqueID ?q = myUniqueID (seatsList t ! (1 - d))"
    using same t(1) d by auto
  have posts: "posts sB (seatsList t ! d) ?p'" "posts (2 * sB) (seatsList t ! (1 - d)) ?q'"
    using p(1,3) unfolding posts_def base by blast+
  have ids: "myUniqueID ?p' = myUniqueID (seatsList t ! d)" "myUniqueID ?q' = myUniqueID (seatsList t ! (1 - d))"
    using posts unfolding posts_def by blast+
  have "map f (myBeRo ?h) = map f bs" for f :: "bero \<Rightarrow> 'a" by simp
  with new seat posts p(2,4) bs(2-7) h1(3) show ?thesis
    unfolding ids by (intro exI [of _ ?h]) simp
qed

text \<open>C33: The start of a two-player hand always succeeds, whatever the deck. The player with the dealer
  button posts the small blind and the other one the big blind, or all they have, which makes them
  all in; the five betting rounds know both blinds, start as fresh rounds with twice the small
  blind as minimum raise, and only the preflop has a highest set.\<close>

theorem hand_opening:
  assumes "deck_ok deck" "between_hands T t" "d < 2" "0 \<le> sB"
  shows "\<exists>h. new_hand deck (prepare_board t) ident sP (myUniqueID (seatsList t ! d)) sB sC = Inr h \<and>
    posts sB (seatsList t ! d) (seats h ! d) \<and> myButton (seats h ! d) = BUTTON_SMALL_BLIND \<and>
    posts (2 * sB) (seatsList t ! (1 - d)) (seats h ! (1 - d)) \<and> myButton (seats h ! (1 - d)) = BUTTON_BIG_BLIND \<and>
    runningPlayerList (board h) = [0, 1] \<and>
    map smallBlindPositionId (myBeRo h) = replicate 5 (myUniqueID (seatsList t ! d)) \<and>
    map bigBlindPositionId (myBeRo h) = replicate 5 (myUniqueID (seatsList t ! (1 - d))) \<and>
    map firstRound (myBeRo h) = replicate 5 True \<and> map firstRunGui (myBeRo h) = replicate 5 True \<and>
    map highestSet (myBeRo h) = [2 * sB, 0, 0, 0, 0] \<and> map minimumRaise (myBeRo h) = replicate 5 (2 * sB)"
  using assms by (rule new_hand_two)

theorem hand_opening_witness:
  "\<exists>h. new_hand sorted_deck (prepare_board (game_board sample_game)) 1 2 9 10 1000 = Inr h \<and>
     mySet (seats h ! 1) = 10 \<and> mySet (seats h ! 0) = 20"
proof -
  have "myUniqueID (seatsList (game_board sample_game) ! 1) = 9"
    "map myCash (seatsList (game_board sample_game)) = [1000, 500]"
    by (code_simp, code_simp)
  with hand_opening [OF sorted_deck_ok sample_game_ok, of 1 10 1 2 1000] show ?thesis
    by (auto simp: posts_def)
qed

end
