(* ===== verification/Heads_Up_Play.thy ===== *)
theory Heads_Up_Play
  imports Hand_Opening
begin

text \<open>
  The turns of a two-player hand on the server: the invariant of the betting rounds behind the
  engine loop, by rule induction over the steps. With it the loop never fails, and one sees which
  rounds a hand can reach.
\<close>

section \<open>The invariant\<close>

abbreviation uid :: "local_hand \<Rightarrow> nat \<Rightarrow> nat" where
  "uid h i \<equiv> myUniqueID (seats h ! i)"

abbreviation turn_id :: "local_hand \<Rightarrow> nat" where
  "turn_id h \<equiv> currentPlayersTurnId (current_bero h)"

text \<open>Seat \<open>sb\<close> posted the small blind, the other one the big blind, in the first two rounds.\<close>

definition rounds_ok :: "nat \<Rightarrow> local_hand \<Rightarrow> bool" where
  "rounds_ok sb h \<longleftrightarrow> sb < 2 \<and> length (myBeRo h) = 5 \<and>
     (\<forall>r \<in> {GAME_STATE_PREFLOP, GAME_STATE_FLOP}.
        smallBlindPositionId (bero_of r h) = uid h sb \<and> bigBlindPositionId (bero_of r h) = uid h (1 - sb)) \<and>
     \<not> firstRunGui (bero_of GAME_STATE_FLOP h)"

text \<open>Who has left the running players is all in.\<close>

definition running_ok :: "local_hand \<Rightarrow> bool" where
  "running_ok h \<longleftrightarrow> runningPlayerList (board h) \<in> {[0, 1], [0], [1]} \<and>
     (\<forall>i < 2. i \<notin> set (runningPlayerList (board h)) \<longrightarrow> myAction (seats h ! i) = PLAYER_ACTION_ALLIN)"

definition turn_running :: "local_hand \<Rightarrow> bool" where
  "turn_running h \<longleftrightarrow> turn_id h \<in> set (map (uid h) (runningPlayerList (board h)))"

text \<open>In the flop the first round goes on as long as both players run, and only the big blind acts.\<close>

definition flop_ok :: "nat \<Rightarrow> local_hand \<Rightarrow> bool" where
  "flop_ok sb h \<longleftrightarrow>
     (if firstRound (bero_of GAME_STATE_FLOP h)
      then runningPlayerList (board h) = [0, 1] \<and> \<not> out_of_round (seats h ! sb)
      else length (runningPlayerList (board h)) = 1 \<and> turn_running h)"

definition betting_ok :: "nat \<Rightarrow> local_hand \<Rightarrow> bool" where
  "betting_ok sb h \<longleftrightarrow> running_ok h \<and>
     (currentRound h = GAME_STATE_PREFLOP \<and> firstRound (bero_of GAME_STATE_FLOP h) \<and>
        (firstRunGui (bero_of GAME_STATE_PREFLOP h) \<or> turn_running h)
      \<or> currentRound h = GAME_STATE_FLOP \<and> flop_ok sb h)"

definition turns_ok :: "int \<Rightarrow> nat \<Rightarrow> local_hand \<Rightarrow> bool" where
  "turns_ok T sb h \<longleftrightarrow> loop_ok T h \<and> rounds_ok sb h \<and>
     (if handAllInCondition h then unfolded (board h) = 2 \<and> currentRound h \<noteq> GAME_STATE_PREFLOP
      else betting_ok sb h)"

text \<open>Waiting for a player: in the first round of the flop it is the big blind.\<close>

definition turn_given :: "int \<Rightarrow> nat \<Rightarrow> local_hand \<Rightarrow> bool" where
  "turn_given T sb h \<longleftrightarrow> turns_ok T sb h \<and> \<not> handAllInCondition h \<and> unfolded (board h) = 2 \<and> turn_running h \<and>
     (currentRound h = GAME_STATE_FLOP \<and> firstRound (bero_of GAME_STATE_FLOP h) \<longrightarrow> turn_id h = uid h (1 - sb))"

section \<open>Fields\<close>

lemma bero_of_update:
  "length (myBeRo h) = 5 \<Longrightarrow> r < GAME_STATE_POST_RIVER \<Longrightarrow> r' < GAME_STATE_POST_RIVER \<Longrightarrow>
    bero_of r' (update_bero r f h) = (if r' = r then f (bero_of r h) else bero_of r' h)"
  by (auto simp: bero_of_def update_bero_def round_less_post state_code_def)

lemma bero_of_more [simp]:
  "bero_of r (on_board f h) = bero_of r h" "bero_of r (remember_round h) = bero_of r h"
  "bero_of r (set_all_in h) = bero_of r h" "bero_of r (setLastActionPlayerID u h) = bero_of r h"
  "bero_of r (h\<lparr>currentRound := c\<rparr>) = bero_of r h"
  by (simp_all add: bero_of_def set_all_in_def)

lemma set_all_in_fields [simp]:
  "board (set_all_in h) = (board h)\<lparr>allInCondition := True\<rparr>" "currentRound (set_all_in h) = currentRound h"
  "handAllInCondition (set_all_in h)" "myBeRo (set_all_in h) = myBeRo h"
  by (simp_all add: set_all_in_def)

lemma less_post [simp]:
  "GAME_STATE_PREFLOP < GAME_STATE_POST_RIVER" "GAME_STATE_FLOP < GAME_STATE_POST_RIVER"
  by (simp_all add: round_less_post)

lemma state_code_less: "r < GAME_STATE_POST_RIVER \<Longrightarrow> state_code r < 5"
  by (auto simp: round_less_post state_code_def)

lemma two_seats:
  assumes "table_inv T t"
  obtains p q where "seatsList t = [p, q]" "myUniqueID p \<noteq> myUniqueID q"
  using assms by (auto simp: table_inv_def money_ok_def dest!: two_elements)

lemma uid_other:
  assumes "table_inv T t" "i < 2"
  shows "myUniqueID (seatsList t ! (1 - i)) \<noteq> myUniqueID (seatsList t ! i)"
proof -
  obtain p q where "seatsList t = [p, q]" "myUniqueID p \<noteq> myUniqueID q" by (rule two_seats [OF assms(1)])
  moreover have "i = 0 \<or> i = 1" using assms(2) by auto
  ultimately show ?thesis by (elim disjE) simp_all
qed

section \<open>switchRounds before the end of the betting\<close>

lemma refresh_two:
  assumes "runningPlayerList (board h) \<in> {[0, 1], [0], [1]}"
  shows "runningPlayerList (board (refresh_runners h)) =
      filter (\<lambda>i. \<not> out_of_round (seats h ! i)) (runningPlayerList (board h))"
    and "runningPlayerList (board (refresh_runners h)) = runningPlayerList (board h) \<Longrightarrow>
      myBeRo (refresh_runners h) = myBeRo h"
    and "runningPlayerList (board h) = [0, 1] \<Longrightarrow> runningPlayerList (board (refresh_runners h)) = [i] \<Longrightarrow>
      myBeRo (refresh_runners h) =
        myBeRo (update_bero (currentRound h) (\<lambda>b. b\<lparr>currentPlayersTurnId := uid h i\<rparr>) h)"
  using assms by (auto simp: refresh_runners_def Let_def update_bero_def on_board_def split: if_splits)

text \<open>Both players are in. Then the betting is over because of the all-ins, or both go on, or one
  goes on alone against an all-in that he has not matched; in the last case he has the turn when
  the other one has just left.\<close>

definition goes_on :: "local_hand \<Rightarrow> local_hand \<Rightarrow> bool" where
  "goes_on h h1 \<longleftrightarrow> \<not> handAllInCondition h1 \<and> currentRound h1 = currentRound h \<and> seats h1 = seats h \<and>
     activePlayerList (board h1) = activePlayerList (board h)"

definition both_go_on :: "local_hand \<Rightarrow> local_hand \<Rightarrow> bool" where
  "both_go_on h h1 \<longleftrightarrow> goes_on h h1 \<and> runningPlayerList (board h) = [0, 1] \<and>
     runningPlayerList (board h1) = [0, 1] \<and> myBeRo h1 = myBeRo h \<and> (\<forall>i < 2. \<not> out_of_round (seats h ! i))"

definition goes_on_alone :: "local_hand \<Rightarrow> local_hand \<Rightarrow> nat \<Rightarrow> bool" where
  "goes_on_alone h h1 i \<longleftrightarrow> goes_on h h1 \<and> i < 2 \<and> runningPlayerList (board h1) = [i] \<and>
     \<not> out_of_round (seats h ! i) \<and> myAction (seats h ! (1 - i)) = PLAYER_ACTION_ALLIN \<and>
     mySet (seats h ! i) < highestSet (current_bero h) \<and>
     (runningPlayerList (board h) = [i] \<and> myBeRo h1 = myBeRo h \<or>
      runningPlayerList (board h) = [0, 1] \<and>
        myBeRo h1 = myBeRo (update_bero (currentRound h) (\<lambda>b. b\<lparr>currentPlayersTurnId := uid h i\<rparr>) h))"

lemma switch_two:
  assumes inv: "table_inv T (board h)" "running_ok h" "length (myBeRo h) = 5"
    and round: "currentRound h < GAME_STATE_POST_RIVER"
    and "\<not> handAllInCondition h" "unfolded (board h) = 2"
  obtains (all_in) "handAllInCondition (switchRounds h)" "currentRound (switchRounds h) = next_round (currentRound h)"
      "myBeRo (switchRounds h) = myBeRo (refresh_runners h)"
  | (both) "both_go_on h (switchRounds h)"
  | (alone) i where "goes_on_alone h (switchRounds h) i"
proof -
  obtain p q where s: "seats h = [p, q]" by (rule two_seats [OF inv(1)])
  let ?k = "refresh_runners h"
  obtain xs where k: "board ?k = (board h)\<lparr>runningPlayerList := xs\<rparr>" "currentRound ?k = currentRound h"
    using refresh_runners_fields [of h] by auto
  have kall: "\<not> handAllInCondition ?k"
    using assms(5) by (auto simp: refresh_runners_def Let_def split: prod.split option.split)
  have nf: "myAction p \<noteq> PLAYER_ACTION_FOLD" "myAction q \<noteq> PLAYER_ACTION_FOLD"
    using assms(6) by (auto simp: unfolded_def s split: if_splits)
  have active: "activePlayerList (board ?k) = [0, 1]" "activePlayerList (board h) = [0, 1]"
    using inv(1) by (simp_all add: k table_inv_def)
  have nfc: "nonFoldPlayerCounter (board ?k) = 2"
    using nf active by (simp add: nonFoldPlayerCounter_def k s)
  have runs: "runningPlayerList (board h) \<in> {[0, 1], [0], [1]}" using inv(2) by (simp add: running_ok_def)
  show thesis
  proof (cases "all_in_reached ?k")
    case True
    then have "detect_end ?k = set_all_in ?k" using nfc by (simp add: detect_end_def)
    then show thesis
      using round nfc k by (intro all_in) (simp_all add: switchRounds_def all_in_routine_def Let_def nonFoldPlayerCounter_def)
  next
    case False
    then have sw: "switchRounds h = remember_round ?k"
      using nfc kall by (simp add: switchRounds_def detect_end_def all_in_routine_def)
    have goes: "goes_on h (switchRounds h)"
      using kall k by (simp add: goes_on_def sw)
    have xs: "xs = filter (\<lambda>i. \<not> out_of_round (seats h ! i)) (runningPlayerList (board h))"
      using refresh_two(1) [OF runs] by (simp add: k)
    have not_both: "\<not> (myAction p = PLAYER_ACTION_ALLIN \<and> myAction q = PLAYER_ACTION_ALLIN)"
      using False nfc active by (auto simp: all_in_reached_def allInPlayersCounter_def k s)
    show thesis
    proof (cases "myAction p = PLAYER_ACTION_ALLIN \<or> myAction q = PLAYER_ACTION_ALLIN")
      case False
      then have out: "\<forall>i < 2. \<not> out_of_round (seats h ! i)"
        using nf by (auto simp: out_of_round_def s less_2_cases_iff)
      then have "runningPlayerList (board h) = [0, 1]"
        using inv(2) False by (auto simp: running_ok_def s less_2_cases_iff)
      moreover from this out have "xs = [0, 1]" by (simp add: xs)
      ultimately show thesis
        using goes out refresh_two(2) [OF runs] by (intro both) (simp add: both_go_on_def sw k)
    next
      case one: True
      define i :: nat where "i = (if myAction p = PLAYER_ACTION_ALLIN then 1 else 0)"
      have i: "i < 2" "\<not> out_of_round (seats h ! i)" "myAction (seats h ! (1 - i)) = PLAYER_ACTION_ALLIN"
        using one not_both nf by (auto simp: i_def s out_of_round_def)
      have "i \<in> set (runningPlayerList (board h))"
        using i(1,2) inv(2) by (auto simp: running_ok_def out_of_round_def)
      then have running: "runningPlayerList (board h) = [i] \<or> runningPlayerList (board h) = [0, 1]"
        using runs by auto
      have "out_of_round (seats h ! (1 - i))" using i(3) by (simp add: out_of_round_def)
      moreover have "i = 0 \<or> i = 1" using i(1) by auto
      ultimately have xi: "xs = [i]" using running i(2) unfolding xs by (elim disjE) simp_all
      have beros: "runningPlayerList (board h) = [i] \<and> myBeRo ?k = myBeRo h \<or>
        runningPlayerList (board h) = [0, 1] \<and> myBeRo ?k =
          myBeRo (update_bero (currentRound h) (\<lambda>b. b\<lparr>currentPlayersTurnId := uid h i\<rparr>) h)"
        using running
      proof
        assume r: "runningPlayerList (board h) = [i]"
        then have "myBeRo ?k = myBeRo h" using refresh_two(2) [OF runs] by (simp add: k xi)
        with r show ?thesis by simp
      next
        assume r: "runningPlayerList (board h) = [0, 1]"
        then show ?thesis using refresh_two(3) [OF runs r, of i] by (simp add: k xi)
      qed
      have "highestSet (current_bero ?k) = highestSet (current_bero h)"
        using beros state_code_less [OF round] inv(3)
        by (elim disjE conjE) (simp_all add: bero_of_def k update_bero_def nth_list_update)
      moreover have "allInPlayersCounter (board ?k) = 1"
        using one not_both active by (auto simp: allInPlayersCounter_def k s)
      then have "\<not> runner_has_highest_set ?k" using False nfc by (simp add: all_in_reached_def)
      ultimately have "mySet (seats h ! i) < highestSet (current_bero h)"
        by (simp add: runner_has_highest_set_def k xi)
      moreover have "runningPlayerList (board (switchRounds h)) = [i]" "myBeRo (switchRounds h) = myBeRo ?k"
        by (simp_all add: sw k xi)
      ultimately show thesis using goes i beros by (intro alone [of i]) (simp add: goes_on_alone_def)
    qed
  qed
qed

section \<open>Giving the turn\<close>

lemma next_running_both:
  assumes "table_inv T t" "runningPlayerList t = [0, 1]" "i < 2"
  shows "next_running (myUniqueID (seatsList t ! i)) t = Inr (myUniqueID (seatsList t ! (1 - i)))"
proof -
  obtain p q where "seatsList t = [p, q]" "myUniqueID p \<noteq> myUniqueID q" by (rule two_seats [OF assms(1)])
  moreover have "i = 0 \<or> i = 1" using assms(3) by auto
  ultimately show ?thesis
    using assms(2) by (elim disjE) (simp_all add: next_running_def getRunningPlayerIt_def position_with_id_def after_def)
qed

lemma next_running_alone:
  assumes "runningPlayerList t = [i]"
  shows "next_running (myUniqueID (seatsList t ! i)) t = Inr (myUniqueID (seatsList t ! i))"
  using assms by (simp add: next_running_def getRunningPlayerIt_def position_with_id_def after_def)

lemma give_turn_running:
  assumes "currentPlayersTurnId (bero_of r h) = uid h i" "i \<in> set (runningPlayerList (board h))"
  obtains j where "give_turn r h = Inr (on_board (on_seat j (\<lambda>p. p\<lparr>myTurn := True\<rparr>)) h)"
proof -
  have "getRunningPlayerIt (uid h i) (board h) \<noteq> None"
    using assms(2) by (auto simp: getRunningPlayerIt_def position_with_id_def first_some_None_iff in_set_conv_nth)
  then show thesis using assms(1) by (auto simp: give_turn_def intro: that)
qed

text \<open>What the turn changes: nothing but \<open>myTurn\<close>.\<close>

definition same_seats :: "local_hand \<Rightarrow> local_hand \<Rightarrow> bool" where
  "same_seats h h' \<longleftrightarrow> map (\<lambda>p. (myUniqueID p, myAction p, mySet p)) (seats h') =
       map (\<lambda>p. (myUniqueID p, myAction p, mySet p)) (seats h) \<and>
     runningPlayerList (board h') = runningPlayerList (board h) \<and>
     handAllInCondition h' = handAllInCondition h \<and> currentRound h' = currentRound h"

lemma same_seats_nth:
  assumes "same_seats h h'" "i < length (seats h)"
  shows "uid h' i = uid h i" "myAction (seats h' ! i) = myAction (seats h ! i)"
    "mySet (seats h' ! i) = mySet (seats h ! i)" "out_of_round (seats h' ! i) = out_of_round (seats h ! i)"
proof -
  let ?f = "\<lambda>p. (myUniqueID p, myAction p, mySet p)"
  have m: "map ?f (seats h') = map ?f (seats h)" using assms(1) by (simp only: same_seats_def)
  then have l: "length (seats h') = length (seats h)" by (rule map_eq_imp_length_eq)
  have "map ?f (seats h') ! i = map ?f (seats h) ! i" by (simp only: m)
  then show "uid h' i = uid h i" "myAction (seats h' ! i) = myAction (seats h ! i)"
    "mySet (seats h' ! i) = mySet (seats h ! i)" "out_of_round (seats h' ! i) = out_of_round (seats h ! i)"
    using assms(2) l by (simp_all add: out_of_round_def)
qed

lemma same_seats_turn: "same_seats h (on_board (on_seat j (\<lambda>p. p\<lparr>myTurn := True\<rparr>)) h)"
  by (simp add: same_seats_def map_update_seat)

lemma rounds_ok_update:
  assumes "rounds_ok sb h" "r < GAME_STATE_POST_RIVER"
    and "\<And>b. smallBlindPositionId (f b) = smallBlindPositionId b"
    and "\<And>b. bigBlindPositionId (f b) = bigBlindPositionId b" "\<And>b. firstRunGui (f b) \<Longrightarrow> firstRunGui b"
  shows "rounds_ok sb (update_bero r f h)"
  using assms by (auto simp: rounds_ok_def bero_of_update)

lemma rounds_ok_same:
  assumes "rounds_ok sb h" "myBeRo h' = myBeRo h" "\<And>i. i < 2 \<Longrightarrow> uid h' i = uid h i"
  shows "rounds_ok sb h'"
  using assms by (auto simp: rounds_ok_def bero_of_def)

lemma end_first_round_fields [simp]:
  "smallBlindPositionId (end_first_round b) = smallBlindPositionId b"
  "bigBlindPositionId (end_first_round b) = bigBlindPositionId b"
  "firstRunGui (end_first_round b) = firstRunGui b" "highestSet (end_first_round b) = highestSet b"
  "currentPlayersTurnId (end_first_round b) = currentPlayersTurnId b"
  by (simp_all add: end_first_round_def)

lemma set_first_turn_fields [simp]:
  "smallBlindPositionId (set_first_turn u b) = smallBlindPositionId b"
  "bigBlindPositionId (set_first_turn u b) = bigBlindPositionId b"
  "firstRunGui (set_first_turn u b) = firstRunGui b" "highestSet (set_first_turn u b) = highestSet b"
  "currentPlayersTurnId (set_first_turn u b) = u" "firstRoundLastPlayersTurnId (set_first_turn u b) = u"
  "firstRound (set_first_turn u b) = firstRound b" "set_first_turn u (set_first_turn v b) = set_first_turn u b"
  by (simp_all add: set_first_turn_def)

text \<open>The running players, seen from the one who has the turn or is before it.\<close>

definition runs_with :: "local_hand \<Rightarrow> nat \<Rightarrow> nat \<Rightarrow> bool" where
  "runs_with h i j \<longleftrightarrow> i < 2 \<and>
     (runningPlayerList (board h) = [0, 1] \<and> j = 1 - i
      \<or> runningPlayerList (board h) = [i] \<and> j = i \<and> mySet (seats h ! i) < highestSet (current_bero h))"

lemma runs_with_next:
  assumes "runs_with h i j" "table_inv T (board h)"
  shows "next_running (uid h i) (board h) = Inr (uid h j)" "j \<in> set (runningPlayerList (board h))" "j < 2"
  using assms next_running_both [OF assms(2), of i] next_running_alone [of "board h" i]
  by (auto simp: runs_with_def)

lemma runs_with_sets:
  assumes "runs_with h i j" "all_highest_set (current_bero h) (board h)"
  shows "runningPlayerList (board h) = [0, 1]"
  using assms by (auto simp: runs_with_def all_highest_set_def)

lemma preflop_turn_two:
  assumes inv: "table_inv T (board h)" and ok: "rounds_ok sb h"
    and round: "currentRound h = GAME_STATE_PREFLOP" "firstRound (bero_of GAME_STATE_FLOP h)"
    and turn: "turn_id h = uid h i" and runs: "runs_with h i j"
  obtains (given) h2 where "preflop_turn h = Inr h2" "same_seats h h2" "rounds_ok sb h2"
      "firstRound (bero_of GAME_STATE_FLOP h2)" "turn_running h2"
  | (flop) h2 where "runningPlayerList (board h) = [0, 1]"
      "preflop_turn h = Inr (switchRounds (on_board collect_round h2))"
      "board h2 = board h" "handAllInCondition h2 = handAllInCondition h" "currentRound h2 = GAME_STATE_FLOP"
      "rounds_ok sb h2" "firstRound (bero_of GAME_STATE_FLOP h2)"
proof -
  let ?r = GAME_STATE_PREFLOP
  let ?h1 = "update_bero ?r (\<lambda>b. b\<lparr>currentPlayersTurnId := uid h j\<rparr>) h"
  have len: "length (myBeRo h) = 5" using ok by (simp add: rounds_ok_def)
  note nxt = runs_with_next [OF runs inv]
  have n: "next_running (currentPlayersTurnId (bero_of ?r h)) (board h) = Inr (uid h j)"
    using nxt(1) turn round by simp
  have ok1: "rounds_ok sb ?h1" by (rule rounds_ok_update [OF ok]) simp_all
  show thesis
  proof (cases "\<not> firstRound (bero_of ?r h) \<and> all_highest_set (bero_of ?r h) (board h)")
    case True
    let ?h2 = "?h1\<lparr>currentRound := GAME_STATE_FLOP\<rparr>"
    have "rounds_ok sb ?h2" using ok1 by (rule rounds_ok_same) simp_all
    moreover have "preflop_turn h = Inr (switchRounds (on_board collect_round ?h2))"
      using True n by (simp add: preflop_turn_def)
    ultimately show thesis
      using runs_with_sets [OF runs] True round len by (intro flop [of ?h2]) (simp_all add: bero_of_update)
  next
    case False
    let ?h2 = "update_bero ?r end_first_round ?h1"
    have t: "currentPlayersTurnId (bero_of ?r ?h2) = uid ?h2 j"
      using len by (simp add: bero_of_update)
    have "j \<in> set (runningPlayerList (board ?h2))" using nxt(2) by simp
    then obtain k where k: "give_turn ?r ?h2 = Inr (on_board (on_seat k (\<lambda>p. p\<lparr>myTurn := True\<rparr>)) ?h2)"
      by (rule give_turn_running [OF t])
    let ?h3 = "on_board (on_seat k (\<lambda>p. p\<lparr>myTurn := True\<rparr>)) ?h2"
    have same: "same_seats ?h2 ?h3" by (rule same_seats_turn)
    have two: "length (seats h) = 2" using inv by (simp add: table_inv_def)
    have u: "uid ?h3 m = uid h m" if "m < 2" for m
      using same_seats_nth(1) [OF same] that two by simp
    have ok3: "rounds_ok sb ?h3"
      by (rule rounds_ok_same [OF rounds_ok_update [OF ok1, of ?r end_first_round]]) (use u in simp_all)
    have "turn_running ?h3"
      using t nxt(2,3) u [OF nxt(3)] round
      by (auto simp: turn_running_def intro!: image_eqI [of _ _ j])
    moreover have "same_seats h ?h3" using same by (simp add: same_seats_def)
    moreover have "preflop_turn h = Inr ?h3" using False n k by (auto simp: preflop_turn_def Let_def)
    ultimately show thesis
      using ok3 round len by (intro given [of ?h3]) (simp_all add: bero_of_update)
  qed
qed

lemma run_flop_active:
  assumes inv: "table_inv T (board h)" and ok: "rounds_ok sb h" and "\<not> handAllInCondition h"
    and b: "open_round False (board h) (bero_of GAME_STATE_FLOP h) = Inr b"
      "smallBlindPositionId b = smallBlindPositionId (bero_of GAME_STATE_FLOP h)"
      "bigBlindPositionId b = bigBlindPositionId (bero_of GAME_STATE_FLOP h)" "\<not> firstRunGui b"
    and active: "firstRound b \<or> \<not> all_highest_set b (board h)"
    and nxt: "next_running (currentPlayersTurnId b) (board h) = Inr (uid h j)"
      "j \<in> set (runningPlayerList (board h))" "j < 2"
  obtains h2 where "run_round GAME_STATE_FLOP h = Inr h2" "same_seats h h2" "rounds_ok sb h2"
    "currentPlayersTurnId (bero_of GAME_STATE_FLOP h2) = uid h2 j"
    "firstRound (bero_of GAME_STATE_FLOP h2) = (firstRound b \<and> uid h j \<noteq> firstRoundLastPlayersTurnId b)"
proof -
  let ?r = GAME_STATE_FLOP
  let ?h1 = "update_bero ?r (\<lambda>_. b) h"
  let ?h2 = "update_bero ?r (\<lambda>b. b\<lparr>currentPlayersTurnId := uid h j\<rparr>) ?h1"
  have len: "length (myBeRo h) = 5" and gui: "\<not> firstRunGui (bero_of ?r h)" using ok by (simp_all add: rounds_ok_def)
  have t: "currentPlayersTurnId (bero_of ?r ?h2) = uid ?h2 j" using len by (simp add: bero_of_update)
  have "j \<in> set (runningPlayerList (board ?h2))" using nxt(2) by simp
  then obtain k where k: "give_turn ?r ?h2 = Inr (on_board (on_seat k (\<lambda>p. p\<lparr>myTurn := True\<rparr>)) ?h2)"
    by (rule give_turn_running [OF t])
  let ?h3 = "on_board (on_seat k (\<lambda>p. p\<lparr>myTurn := True\<rparr>)) ?h2"
  let ?h4 = "update_bero ?r end_first_round ?h3"
  have same: "same_seats h ?h4" using same_seats_turn [of ?h2 k] by (simp add: same_seats_def)
  have two: "length (seats h) = 2" using inv by (simp add: table_inv_def)
  have u: "uid ?h4 m = uid h m" if "m < 2" for m
    using same_seats_nth(1) [OF same] that two by simp
  have "rounds_ok sb ?h4"
    using ok b(2-4) u len by (auto simp: rounds_ok_def bero_of_update)
  moreover have "run_round ?r h = Inr ?h4"
    using gui assms(3) b(1) active nxt(1) k by (auto simp: run_round_def Let_def)
  moreover have "currentPlayersTurnId (bero_of ?r ?h4) = uid ?h4 j"
    "firstRound (bero_of ?r ?h4) = (firstRound b \<and> uid h j \<noteq> firstRoundLastPlayersTurnId b)"
    using len u [OF nxt(3)] by (simp_all add: bero_of_update end_first_round_def)
  ultimately show thesis using same by (rule_tac that)
qed

text \<open>The flop with both players running: the big blind has the turn, in the first round, again and
  again. With one player running against an all-in, he has it.\<close>

lemma run_flop_both:
  assumes inv: "table_inv T (board h)" and ok: "rounds_ok sb h" and allin: "\<not> handAllInCondition h"
    and "firstRound (bero_of GAME_STATE_FLOP h)" "runningPlayerList (board h) = [0, 1]"
  obtains h2 where "run_round GAME_STATE_FLOP h = Inr h2" "same_seats h h2" "rounds_ok sb h2"
    "currentPlayersTurnId (bero_of GAME_STATE_FLOP h2) = uid h2 (1 - sb)"
    "firstRound (bero_of GAME_STATE_FLOP h2)"
proof -
  let ?b = "set_first_turn (uid h sb) (bero_of GAME_STATE_FLOP h)"
  have sb: "sb < 2" "smallBlindPositionId (bero_of GAME_STATE_FLOP h) = uid h sb"
    "\<not> firstRunGui (bero_of GAME_STATE_FLOP h)"
    using ok by (simp_all add: rounds_ok_def)
  have o: "open_round False (board h) (bero_of GAME_STATE_FLOP h) = Inr ?b"
    using inv assms(4) sb by (simp add: open_round_def table_inv_def)
  have "1 - sb \<in> set (runningPlayerList (board h))" "1 - sb < 2" using assms(5) sb(1) by auto
  moreover have "next_running (currentPlayersTurnId ?b) (board h) = Inr (uid h (1 - sb))"
    using next_running_both [OF inv assms(5) sb(1)] by simp
  ultimately show thesis
    using run_flop_active [OF inv ok allin o, of "1 - sb"] assms(4) sb(3) uid_other [OF inv sb(1)] that
    by auto
qed

lemma run_flop_alone:
  assumes inv: "table_inv T (board h)" and ok: "rounds_ok sb h" and allin: "\<not> handAllInCondition h"
    and runs: "runningPlayerList (board h) = [i]" "i < 2"
    and first: "firstRound (bero_of GAME_STATE_FLOP h) \<Longrightarrow> i = sb"
    and later: "\<not> firstRound (bero_of GAME_STATE_FLOP h) \<Longrightarrow>
      currentPlayersTurnId (bero_of GAME_STATE_FLOP h) = uid h i \<and>
      mySet (seats h ! i) < highestSet (bero_of GAME_STATE_FLOP h)"
  obtains h2 where "run_round GAME_STATE_FLOP h = Inr h2" "same_seats h h2" "rounds_ok sb h2"
    "currentPlayersTurnId (bero_of GAME_STATE_FLOP h2) = uid h2 i"
    "\<not> firstRound (bero_of GAME_STATE_FLOP h2)"
proof -
  let ?old = "bero_of GAME_STATE_FLOP h"
  let ?b = "if firstRound ?old then set_first_turn (uid h i) ?old else ?old"
  have o: "open_round False (board h) ?old = Inr ?b"
    using inv first ok by (auto simp: open_round_def table_inv_def rounds_ok_def)
  have nxt: "next_running (currentPlayersTurnId ?b) (board h) = Inr (uid h i)"
    using next_running_alone [OF runs(1)] later by auto
  have active: "firstRound ?b \<or> \<not> all_highest_set ?b (board h)"
    using later runs by (auto simp: all_highest_set_def)
  have gui: "\<not> firstRunGui ?b" using ok by (simp add: rounds_ok_def)
  have blinds: "smallBlindPositionId ?b = smallBlindPositionId ?old" "bigBlindPositionId ?b = bigBlindPositionId ?old"
    by simp_all
  have i: "i \<in> set (runningPlayerList (board h))" using runs by simp
  obtain h2 where h2: "run_round GAME_STATE_FLOP h = Inr h2" "same_seats h h2" "rounds_ok sb h2"
    "currentPlayersTurnId (bero_of GAME_STATE_FLOP h2) = uid h2 i"
    "firstRound (bero_of GAME_STATE_FLOP h2) = (firstRound ?b \<and> uid h i \<noteq> firstRoundLastPlayersTurnId ?b)"
    by (rule run_flop_active [OF inv ok allin o blinds gui active nxt i runs(2)])
  then have "\<not> firstRound (bero_of GAME_STATE_FLOP h2)" by (cases "firstRound ?old") simp_all
  with h2 show thesis by (intro that)
qed

lemma getRunningPlayerIt_running:
  "i \<in> set (runningPlayerList t) \<Longrightarrow> getRunningPlayerIt (myUniqueID (seatsList t ! i)) t \<noteq> None"
  by (auto simp: getRunningPlayerIt_def position_with_id_def first_some_None_iff in_set_conv_nth)

lemma runs_withI:
  assumes "runningPlayerList (board h) = [0, 1] \<or>
      (\<exists>i < 2. runningPlayerList (board h) = [i] \<and> mySet (seats h ! i) < highestSet (current_bero h))"
    and "i \<in> set (runningPlayerList (board h))"
  obtains j where "runs_with h i j"
  using assms by (auto simp: runs_with_def)

lemma run_preflop_two:
  assumes inv: "table_inv T (board h)" and ok: "rounds_ok sb h"
    and round: "currentRound h = GAME_STATE_PREFLOP" "firstRound (bero_of GAME_STATE_FLOP h)"
    and turn: "firstRunGui (bero_of GAME_STATE_PREFLOP h) \<or> turn_running h"
    and runs: "runningPlayerList (board h) = [0, 1] \<or>
      (\<exists>i < 2. runningPlayerList (board h) = [i] \<and> mySet (seats h ! i) < highestSet (current_bero h))"
  obtains hh i j where "run_preflop h = preflop_turn hh" "board hh = board h"
    "handAllInCondition hh = handAllInCondition h" "currentRound hh = GAME_STATE_PREFLOP" "rounds_ok sb hh"
    "firstRound (bero_of GAME_STATE_FLOP hh)" "turn_id hh = uid hh i" "runs_with hh i j"
proof (cases "firstRunGui (bero_of GAME_STATE_PREFLOP h)")
  case False
  then obtain i where i: "i \<in> set (runningPlayerList (board h))" "turn_id h = uid h i"
    using turn by (auto simp: turn_running_def)
  then obtain j where "runs_with h i j" using runs_withI [OF runs] by blast
  moreover have "run_preflop h = preflop_turn h" using False by (simp add: run_preflop_def)
  ultimately show thesis using that round ok i by blast
next
  case True
  let ?r = GAME_STATE_PREFLOP
  have len: "length (myBeRo h) = 5" and sb: "sb < 2"
    and blinds: "smallBlindPositionId (bero_of ?r h) = uid h sb" "bigBlindPositionId (bero_of ?r h) = uid h (1 - sb)"
    using ok by (simp_all add: rounds_ok_def)
  obtain i where i: "i \<in> set (runningPlayerList (board h))" "preflop_last_player (bero_of ?r h) (board h) = Inr (Some (uid h i))"
  proof (cases "1 - sb \<in> set (runningPlayerList (board h))")
    case True
    have "preflop_last_player (bero_of ?r h) (board h) = Inr (Some (uid h (1 - sb)))"
      using getRunningPlayerIt_running [OF True] blinds inv
      by (auto simp: preflop_last_player_def table_inv_def)
    with True show thesis by (rule that)
  next
    case False
    then have r: "runningPlayerList (board h) = [sb]" using runs sb by (auto simp: less_2_cases_iff)
    then have "getRunningPlayerIt (uid h (1 - sb)) (board h) = None"
      using uid_other [OF inv sb] by (simp add: getRunningPlayerIt_def position_with_id_def)
    then have "preflop_last_player (bero_of ?r h) (board h) = Inr (Some (uid h sb))"
      using getRunningPlayerIt_running [of sb "board h"] blinds inv r
      by (auto simp: preflop_last_player_def table_inv_def)
    with r show thesis by (intro that) simp_all
  qed
  let ?h = "update_bero ?r (\<lambda>b. (set_first_turn (uid h i) b)\<lparr>firstRunGui := False\<rparr>) h"
  have hs: "highestSet (current_bero ?h) = highestSet (current_bero h)"
    using round len by (simp add: bero_of_update)
  from runs have "runningPlayerList (board ?h) = [0, 1] \<or>
      (\<exists>i < 2. runningPlayerList (board ?h) = [i] \<and> mySet (seats ?h ! i) < highestSet (current_bero ?h))"
    unfolding hs by simp
  moreover have "i \<in> set (runningPlayerList (board ?h))" using i(1) by simp
  ultimately obtain j where "runs_with ?h i j" by (rule runs_withI)
  moreover have "run_preflop h = preflop_turn ?h" using True i(2) by (simp add: run_preflop_def)
  moreover have "turn_id ?h = uid ?h i" using round len by (simp add: bero_of_update)
  moreover have "rounds_ok sb ?h" by (rule rounds_ok_update [OF ok]) simp_all
  ultimately show thesis
    using that [of ?h i j] round len by (simp add: bero_of_update)
qed

section \<open>One run of the engine loop\<close>

lemma switch_frame:
  "myBeRo (switchRounds h) = myBeRo (refresh_runners h)"
  "map myUniqueID (seats (switchRounds h)) = map myUniqueID (seats h)"
proof -
  obtain xs where k: "board (refresh_runners h) = (board h)\<lparr>runningPlayerList := xs\<rparr>"
    using refresh_runners_fields(1) by blast
  show "myBeRo (switchRounds h) = myBeRo (refresh_runners h)"
    by (simp add: switchRounds_def detect_end_def all_in_routine_def Let_def)
  have "map myUniqueID (seats (detect_end (refresh_runners h))) = map myUniqueID (seats h)"
    by (simp add: detect_end_def k o_def)
  moreover have "map myUniqueID (seats (all_in_routine k)) = map myUniqueID (seats k)" for k
    by (simp add: all_in_routine_def Let_def o_def)
  ultimately show "map myUniqueID (seats (switchRounds h)) = map myUniqueID (seats h)"
    by (simp add: switchRounds_def)
qed

lemma refresh_beros:
  "myBeRo (refresh_runners h) = myBeRo h \<or>
   (\<exists>u. myBeRo (refresh_runners h) = myBeRo (update_bero (currentRound h) (\<lambda>b. b\<lparr>currentPlayersTurnId := u\<rparr>) h))"
  by (simp add: refresh_runners_def Let_def update_bero_def split: prod.split option.split) auto

lemma map_uid_nth:
  "map myUniqueID ps' = map myUniqueID ps \<Longrightarrow> i < length ps \<Longrightarrow> myUniqueID (ps' ! i) = myUniqueID (ps ! i)"
  by (metis length_map nth_map)

lemma switch_rounds_ok:
  assumes ok: "rounds_ok sb h" and round: "currentRound h < GAME_STATE_POST_RIVER" and "length (seats h) = 2"
  shows "rounds_ok sb (switchRounds h)"
    "firstRound (bero_of GAME_STATE_FLOP (switchRounds h)) = firstRound (bero_of GAME_STATE_FLOP h)"
proof -
  have u: "uid (switchRounds h) i = uid h i" if "i < 2" for i
    using map_uid_nth [OF switch_frame(2)] that assms(3) by simp
  have len: "length (myBeRo h) = 5" using ok by (simp add: rounds_ok_def)
  consider "myBeRo (switchRounds h) = myBeRo h"
    | v where "myBeRo (switchRounds h) = myBeRo (update_bero (currentRound h) (\<lambda>b. b\<lparr>currentPlayersTurnId := v\<rparr>) h)"
    using refresh_beros [of h] switch_frame(1) [of h] by auto
  then have "rounds_ok sb (switchRounds h) \<and>
    firstRound (bero_of GAME_STATE_FLOP (switchRounds h)) = firstRound (bero_of GAME_STATE_FLOP h)"
  proof cases
    case 1
    then show ?thesis using rounds_ok_same [OF ok 1] u by (simp add: bero_of_def)
  next
    case 2
    let ?k = "update_bero (currentRound h) (\<lambda>b. b\<lparr>currentPlayersTurnId := v\<rparr>) h"
    have "rounds_ok sb ?k" using ok round by (rule rounds_ok_update) simp_all
    then have "rounds_ok sb (switchRounds h)" by (rule rounds_ok_same [OF _ 2]) (use u in simp)
    moreover have "bero_of r (switchRounds h) = bero_of r ?k" for r using 2 by (simp add: bero_of_def)
    ultimately show ?thesis using len round by (simp add: bero_of_update)
  qed
  then show "rounds_ok sb (switchRounds h)"
    "firstRound (bero_of GAME_STATE_FLOP (switchRounds h)) = firstRound (bero_of GAME_STATE_FLOP h)" by simp_all
qed

lemma switch_all_in:
  assumes "table_inv T (board h)" "handAllInCondition h" "unfolded (board h) = 2"
    "currentRound h < GAME_STATE_POST_RIVER"
  shows "handAllInCondition (switchRounds h)" "currentRound (switchRounds h) = next_round (currentRound h)"
proof -
  let ?k = "refresh_runners h"
  obtain xs where k: "board ?k = (board h)\<lparr>runningPlayerList := xs\<rparr>" "currentRound ?k = currentRound h"
    using refresh_runners_fields [of h] by auto
  have kall: "handAllInCondition ?k"
    using assms(2) by (auto simp: refresh_runners_def Let_def split: prod.split option.split)
  have nf: "nonFoldPlayerCounter (board ?k) = 2"
    using nonFold_unfolded [of T "board ?k"] assms(1,3) by (simp add: k)
  let ?d = "detect_end ?k"
  have d: "handAllInCondition ?d" "currentRound ?d = currentRound h" "nonFoldPlayerCounter (board ?d) = 2"
    using nf kall k by (auto simp: detect_end_def nonFoldPlayerCounter_def)
  then show "handAllInCondition (switchRounds h)" "currentRound (switchRounds h) = next_round (currentRound h)"
    using assms(4) by (simp_all add: switchRounds_def all_in_routine_def Let_def)
qed

definition moved_on :: "nat \<Rightarrow> local_hand \<Rightarrow> local_hand \<Rightarrow> bool" where
  "moved_on sb h h2 \<longleftrightarrow> currentRound h2 = next_round (currentRound h) \<and> rounds_ok sb h2 \<and>
     (if handAllInCondition h2 then currentRound h2 \<noteq> GAME_STATE_PREFLOP else betting_ok sb h2)"

definition stayed :: "nat \<Rightarrow> local_hand \<Rightarrow> local_hand \<Rightarrow> bool" where
  "stayed sb h h2 \<longleftrightarrow> currentRound h2 = currentRound h \<and> rounds_ok sb h2 \<and> \<not> handAllInCondition h2 \<and>
     betting_ok sb h2 \<and> turn_running h2 \<and>
     (currentRound h2 = GAME_STATE_FLOP \<and> firstRound (bero_of GAME_STATE_FLOP h2) \<longrightarrow> turn_id h2 = uid h2 (1 - sb))"

lemma next_not_preflop: "r < GAME_STATE_POST_RIVER \<Longrightarrow> next_round r \<noteq> GAME_STATE_PREFLOP"
  by (auto simp: round_less_post next_round_def)

lemma all_in_moved_on:
  assumes "rounds_ok sb h" "currentRound h < GAME_STATE_POST_RIVER" "length (seats h) = 2"
    and "handAllInCondition (switchRounds h)" "currentRound (switchRounds h) = next_round (currentRound h)"
  shows "moved_on sb h (switchRounds h)"
  using switch_rounds_ok(1) [OF assms(1-3)] assms(2,4,5) next_not_preflop
  by (simp add: moved_on_def)

lemma clear_actions_two:
  assumes "runningPlayerList t = [0, 1]" "length (seatsList t) = 2" "i < 2"
  shows "myAction (seatsList (collect_round t) ! i) = PLAYER_ACTION_NONE"
    "runningPlayerList (collect_round t) = [0, 1]"
    "map myUniqueID (seatsList (collect_round t)) = map myUniqueID (seatsList t)"
proof -
  obtain p q where s: "seatsList t = [p, q]" using assms(2) by (auto dest: two_elements)
  have "i = 0 \<or> i = 1" using assms(3) by auto
  then show "myAction (seatsList (collect_round t) ! i) = PLAYER_ACTION_NONE"
    using assms(1) by (elim disjE) (simp_all add: collect_round_def clear_actions_def s update_seat_def)
  show "runningPlayerList (collect_round t) = [0, 1]"
    using assms(1) by (simp add: collect_round_def clear_actions_def)
  show "map myUniqueID (seatsList (collect_round t)) = map myUniqueID (seatsList t)"
    by (simp add: collect_round_def clear_actions_def o_def map_fold_on_seat)
qed

lemma unfolded_le: "table_inv T t \<Longrightarrow> unfolded t \<le> 2"
  unfolding unfolded_def table_inv_def by (metis length_filter_le length_map)

lemma running_ok_same:
  assumes "same_seats h h'" "length (seats h) = 2" "running_ok h"
  shows "running_ok h'"
  using assms same_seats_nth(2) [OF assms(1)] by (auto simp: running_ok_def same_seats_def)

text \<open>When both players have yet to act, nothing is all in.\<close>

lemma switch_no_all_in:
  assumes "table_inv T (board k)" "\<And>i. i < 2 \<Longrightarrow> myAction (seats k ! i) = PLAYER_ACTION_NONE"
    and "\<not> handAllInCondition k"
  shows "\<not> handAllInCondition (switchRounds k)"
proof -
  let ?k = "refresh_runners k"
  obtain xs where k: "board ?k = (board k)\<lparr>runningPlayerList := xs\<rparr>" using refresh_runners_fields [of k] by auto
  have active: "activePlayerList (board k) = [0, 1]" using assms(1) by (simp add: table_inv_def)
  have "allInPlayersCounter (board ?k) = 0" "nonFoldPlayerCounter (board ?k) = 2"
    using assms(2) [of 0] assms(2) [of 1] by (simp_all add: k allInPlayersCounter_def nonFoldPlayerCounter_def active)
  moreover have "\<not> handAllInCondition ?k"
    using assms(3) by (simp add: refresh_runners_def Let_def split: prod.split option.split)
  ultimately have "\<not> handAllInCondition (detect_end ?k)" by (simp add: detect_end_def all_in_reached_def)
  then show ?thesis by (simp add: switchRounds_def all_in_routine_def)
qed

lemma to_flop:
  assumes inv: "table_inv T (board k)" "unfolded (board k) = 2" and running: "runningPlayerList (board k) = [0, 1]"
    and "\<not> handAllInCondition k" and round: "currentRound k = GAME_STATE_FLOP"
    and ok: "rounds_ok sb k" "firstRound (bero_of GAME_STATE_FLOP k)" and "currentRound h = GAME_STATE_PREFLOP"
  shows "moved_on sb h (switchRounds (on_board collect_round k))"
proof -
  let ?k = "on_board collect_round k"
  have two: "length (seatsList (board k)) = 2" using inv(1) by (simp add: table_inv_def)
  note c = clear_actions_two [OF running two]
  have i: "table_inv T (board ?k)" "length (seats ?k) = 2"
    using collect_round_inv(1) [OF inv(1)] by (simp_all add: table_inv_def)
  have u: "unfolded (board ?k) = 2"
    using collect_round_inv(2) [OF inv(1)] inv(2) unfolded_le [OF i(1)] by simp
  have "rounds_ok sb ?k"
    by (rule rounds_ok_same [OF ok(1)]) (use map_uid_nth [OF c(3)] two in simp_all)
  note s = switch_rounds_ok [OF this _ i(2)]
  have len: "length (myBeRo ?k) = 5" and sb: "sb < 2" using ok(1) by (simp_all add: rounds_ok_def)
  have rk: "running_ok ?k" using c(2) [of 0] by (simp add: running_ok_def less_2_cases_iff)
  have less: "currentRound ?k < GAME_STATE_POST_RIVER" using round by simp
  show ?thesis
  proof (rule switch_two [OF i(1) rk len less _ u])
    show "\<not> handAllInCondition ?k" using assms(4) by simp
  next
    assume "handAllInCondition (switchRounds ?k)"
    moreover have "\<not> handAllInCondition (switchRounds ?k)"
      by (rule switch_no_all_in [OF i(1)]) (use c(1) assms(4) in simp_all)
    ultimately show ?thesis by simp
  next
    assume "both_go_on ?k (switchRounds ?k)"
    then show ?thesis
      using s round assms(8) ok(2) sb
      by (auto simp: moved_on_def both_go_on_def goes_on_def betting_ok_def flop_ok_def running_ok_def
          next_round_def less_2_cases_iff)
  next
    fix i assume a: "goes_on_alone ?k (switchRounds ?k) i"
    then have "myAction (seats ?k ! (1 - i)) = PLAYER_ACTION_ALLIN" "1 - i < 2" by (auto simp: goes_on_alone_def)
    with c(1) [of "1 - i"] show ?thesis by simp
  qed
qed

lemma preflop_loop:
  assumes inv: "table_inv T (board h)" "unfolded (board h) = 2" and ok: "rounds_ok sb h"
    and "\<not> handAllInCondition h" "running_ok h"
    and round: "currentRound h = GAME_STATE_PREFLOP" "firstRound (bero_of GAME_STATE_FLOP h)"
    and turn: "firstRunGui (bero_of GAME_STATE_PREFLOP h) \<or> turn_running h"
    and runs: "runningPlayerList (board h) = [0, 1] \<or>
      (\<exists>i < 2. runningPlayerList (board h) = [i] \<and> mySet (seats h ! i) < highestSet (current_bero h))"
  shows "\<exists>h2. run_preflop h = Inr h2 \<and> (stayed sb h h2 \<or> moved_on sb h h2)"
proof -
  have two: "length (seats h) = 2" using inv(1) by (simp add: table_inv_def)
  obtain k i j where k: "run_preflop h = preflop_turn k" "board k = board h"
    "handAllInCondition k = handAllInCondition h" "currentRound k = GAME_STATE_PREFLOP" "rounds_ok sb k"
    "firstRound (bero_of GAME_STATE_FLOP k)" "turn_id k = uid k i" "runs_with k i j"
    by (rule run_preflop_two [OF inv(1) ok round turn runs])
  have ik: "table_inv T (board k)" using inv(1) k(2) by simp
  show ?thesis
  proof (rule preflop_turn_two [OF ik k(5,4,6,7,8)])
    fix h2 assume h2: "preflop_turn k = Inr h2" "same_seats k h2" "rounds_ok sb h2"
      "firstRound (bero_of GAME_STATE_FLOP h2)" "turn_running h2"
    have rk: "running_ok k" using assms(5) k(2) by (simp add: running_ok_def)
    have "running_ok h2" by (rule running_ok_same [OF h2(2) _ rk]) (use two k(2) in simp)
    then have "stayed sb h h2"
      using h2 k assms(4) round by (simp add: stayed_def betting_ok_def same_seats_def)
    then show ?thesis using k(1) h2(1) by auto
  next
    fix h2 assume h2: "runningPlayerList (board k) = [0, 1]"
      "preflop_turn k = Inr (switchRounds (on_board collect_round h2))"
      "board h2 = board k" "handAllInCondition h2 = handAllInCondition k" "currentRound h2 = GAME_STATE_FLOP"
      "rounds_ok sb h2" "firstRound (bero_of GAME_STATE_FLOP h2)"
    have "moved_on sb h (switchRounds (on_board collect_round h2))"
      by (rule to_flop [of T]) (use h2 k inv assms(4) round in simp_all)
    then show ?thesis using k(1) h2(2) by auto
  qed
qed

lemma flop_loop:
  assumes inv: "table_inv T (board h)" and ok: "rounds_ok sb h" and allin: "\<not> handAllInCondition h"
    and rk: "running_ok h" and round: "currentRound h = GAME_STATE_FLOP"
    and runs: "firstRound (bero_of GAME_STATE_FLOP h) \<and> runningPlayerList (board h) = [0, 1] \<and> \<not> out_of_round (seats h ! sb) \<or>
      (\<exists>i < 2. runningPlayerList (board h) = [i] \<and> (if firstRound (bero_of GAME_STATE_FLOP h) then i = sb
         else turn_id h = uid h i \<and> mySet (seats h ! i) < highestSet (current_bero h)))"
  shows "\<exists>h2. run_round GAME_STATE_FLOP h = Inr h2 \<and> stayed sb h h2"
  using runs
proof (elim disjE exE conjE)
  have two: "length (seats h) = 2" and sb: "sb < 2" using inv ok by (simp_all add: table_inv_def rounds_ok_def)
  {
    assume r: "firstRound (bero_of GAME_STATE_FLOP h)" "runningPlayerList (board h) = [0, 1]"
      and out: "\<not> out_of_round (seats h ! sb)"
    obtain h2 where h2: "run_round GAME_STATE_FLOP h = Inr h2" "same_seats h h2" "rounds_ok sb h2"
      "currentPlayersTurnId (bero_of GAME_STATE_FLOP h2) = uid h2 (1 - sb)"
      "firstRound (bero_of GAME_STATE_FLOP h2)"
      by (rule run_flop_both [OF inv ok allin r])
    have "running_ok h2" by (rule running_ok_same [OF h2(2) two rk])
    then have "stayed sb h h2"
      using h2 r out round allin sb same_seats_nth(4) [OF h2(2), of sb] two
      by (auto simp: stayed_def same_seats_def betting_ok_def flop_ok_def turn_running_def less_2_cases_iff)
    then show ?thesis using h2(1) by blast
  next
    fix i assume i: "i < 2" "runningPlayerList (board h) = [i]"
      and turn: "if firstRound (bero_of GAME_STATE_FLOP h) then i = sb
         else turn_id h = uid h i \<and> mySet (seats h ! i) < highestSet (current_bero h)"
    obtain h2 where h2: "run_round GAME_STATE_FLOP h = Inr h2" "same_seats h h2" "rounds_ok sb h2"
      "currentPlayersTurnId (bero_of GAME_STATE_FLOP h2) = uid h2 i"
      "\<not> firstRound (bero_of GAME_STATE_FLOP h2)"
      by (rule run_flop_alone [OF inv ok allin i(2,1)]) (use turn round in \<open>auto split: if_splits\<close>)
    have "running_ok h2" by (rule running_ok_same [OF h2(2) two rk])
    then have "stayed sb h h2"
      using h2 i round allin by (auto simp: stayed_def same_seats_def betting_ok_def flop_ok_def turn_running_def)
    then show ?thesis using h2(1) by blast
  }
qed

lemma alone_bero:
  assumes "goes_on_alone h h1 i" "length (myBeRo h) = 5" "currentRound h < GAME_STATE_POST_RIVER"
  shows "highestSet (current_bero h1) = highestSet (current_bero h)"
    "firstRunGui (bero_of r h1) = firstRunGui (bero_of r h)" "firstRound (bero_of r h1) = firstRound (bero_of r h)"
    "runningPlayerList (board h) = [0, 1] \<Longrightarrow> turn_id h1 = uid h1 i"
    "runningPlayerList (board h) = [i] \<Longrightarrow> turn_id h1 = turn_id h"
proof -
  have s: "seats h1 = seats h" "currentRound h1 = currentRound h"
    using assms(1) by (simp_all add: goes_on_alone_def goes_on_def)
  note code = state_code_less [OF assms(3)]
  consider (same) "runningPlayerList (board h) = [i]" "myBeRo h1 = myBeRo h"
    | (turn) "runningPlayerList (board h) = [0, 1]"
      "myBeRo h1 = myBeRo (update_bero (currentRound h) (\<lambda>b. b\<lparr>currentPlayersTurnId := uid h i\<rparr>) h)"
    using assms(1) by (auto simp: goes_on_alone_def)
  then have "highestSet (current_bero h1) = highestSet (current_bero h) \<and>
    firstRunGui (bero_of r h1) = firstRunGui (bero_of r h) \<and> firstRound (bero_of r h1) = firstRound (bero_of r h) \<and>
    (runningPlayerList (board h) = [0, 1] \<longrightarrow> turn_id h1 = uid h1 i) \<and>
    (runningPlayerList (board h) = [i] \<longrightarrow> turn_id h1 = turn_id h)"
    by cases (use code assms(2) s in \<open>simp_all add: bero_of_def update_bero_def nth_list_update\<close>)
  then show "highestSet (current_bero h1) = highestSet (current_bero h)"
    "firstRunGui (bero_of r h1) = firstRunGui (bero_of r h)" "firstRound (bero_of r h1) = firstRound (bero_of r h)"
    "runningPlayerList (board h) = [0, 1] \<Longrightarrow> turn_id h1 = uid h1 i"
    "runningPlayerList (board h) = [i] \<Longrightarrow> turn_id h1 = turn_id h" by blast+
qed

lemma run_after_both:
  assumes "table_inv T (board h)" "rounds_ok sb h" "betting_ok sb h" "unfolded (board h) = 2"
    and both: "both_go_on h (switchRounds h)"
  shows "\<exists>h2. run_current (switchRounds h) = Inr h2 \<and> (stayed sb h h2 \<or> moved_on sb h h2)"
proof -
  let ?h1 = "switchRounds h"
  have two: "length (seats h) = 2" and sb: "sb < 2" using assms(1,2) by (simp_all add: table_inv_def rounds_ok_def)
  have b: "currentRound ?h1 = currentRound h" "\<not> handAllInCondition ?h1" "seats ?h1 = seats h"
    "runningPlayerList (board ?h1) = [0, 1]" "runningPlayerList (board h) = [0, 1]"
    "\<And>r. bero_of r ?h1 = bero_of r h" "\<not> out_of_round (seats h ! sb)"
    using both sb by (auto simp: both_go_on_def goes_on_def bero_of_def)
  have round: "currentRound h = GAME_STATE_PREFLOP \<or> currentRound h = GAME_STATE_FLOP"
    using assms(3) by (auto simp: betting_ok_def)
  then have less: "currentRound h < GAME_STATE_POST_RIVER" by auto
  note inv = switchRounds_inv(1,2) [OF assms(1)]
  note ok = switch_rounds_ok(1) [OF assms(2) less two]
  have rk: "running_ok ?h1" using b by (simp add: running_ok_def less_2_cases_iff)
  from round show ?thesis
  proof
    assume r: "currentRound h = GAME_STATE_PREFLOP"
    then have "firstRound (bero_of GAME_STATE_FLOP ?h1)"
      "firstRunGui (bero_of GAME_STATE_PREFLOP ?h1) \<or> turn_running ?h1"
      using assms(3) b by (auto simp: betting_ok_def turn_running_def)
    then show ?thesis
      using preflop_loop [OF inv(1) _ ok b(2) rk] r b(1,4) inv(2) assms(4)
      by (simp add: run_current_def stayed_def moved_on_def)
  next
    assume r: "currentRound h = GAME_STATE_FLOP"
    then have "firstRound (bero_of GAME_STATE_FLOP ?h1)"
      using assms(3) b by (auto simp: betting_ok_def flop_ok_def split: if_splits)
    then show ?thesis
      using flop_loop [OF inv(1) ok b(2) rk] r b by (auto simp: run_current_def stayed_def)
  qed
qed

lemma run_after_alone:
  assumes "table_inv T (board h)" "rounds_ok sb h" "betting_ok sb h" "unfolded (board h) = 2"
    and alone: "goes_on_alone h (switchRounds h) i"
  shows "\<exists>h2. run_current (switchRounds h) = Inr h2 \<and> (stayed sb h h2 \<or> moved_on sb h h2)"
proof -
  let ?h1 = "switchRounds h"
  have two: "length (seats h) = 2" and sb: "sb < 2" and len: "length (myBeRo h) = 5"
    using assms(1,2) by (simp_all add: table_inv_def rounds_ok_def)
  have b: "currentRound ?h1 = currentRound h" "\<not> handAllInCondition ?h1" "seats ?h1 = seats h" "i < 2"
    "runningPlayerList (board ?h1) = [i]" "mySet (seats h ! i) < highestSet (current_bero h)"
    "myAction (seats h ! (1 - i)) = PLAYER_ACTION_ALLIN"
    "runningPlayerList (board h) = [i] \<or> runningPlayerList (board h) = [0, 1]"
    using alone by (auto simp: goes_on_alone_def goes_on_def)
  have round: "currentRound h = GAME_STATE_PREFLOP \<or> currentRound h = GAME_STATE_FLOP"
    using assms(3) by (auto simp: betting_ok_def)
  then have less: "currentRound h < GAME_STATE_POST_RIVER" by auto
  note ab = alone_bero [OF alone len less]
  note inv = switchRounds_inv(1,2) [OF assms(1)]
  note ok = switch_rounds_ok(1) [OF assms(2) less two]
  have rk: "running_ok ?h1" using b by (auto simp: running_ok_def less_2_cases_iff)
  have runs: "runningPlayerList (board ?h1) = [i] \<and> mySet (seats ?h1 ! i) < highestSet (current_bero ?h1)"
    using b ab(1) by simp
  have turn: "turn_id ?h1 = uid ?h1 i" if "turn_running h \<or> runningPlayerList (board h) = [0, 1]"
    using that b(3,8) ab(4,5) by (auto simp: turn_running_def)
  from round show ?thesis
  proof
    assume r: "currentRound h = GAME_STATE_PREFLOP"
    have "firstRound (bero_of GAME_STATE_FLOP ?h1)" using r assms(3) ab(3) by (auto simp: betting_ok_def)
    moreover have "firstRunGui (bero_of GAME_STATE_PREFLOP ?h1) \<or> turn_running ?h1"
      using r assms(3) ab(2) turn b(5) by (auto simp: betting_ok_def turn_running_def)
    ultimately show ?thesis
      using preflop_loop [OF inv(1) _ ok b(2) rk] r b(1,4) runs inv(2) assms(4)
      by (auto simp: run_current_def stayed_def moved_on_def)
  next
    assume r: "currentRound h = GAME_STATE_FLOP"
    then have f: "flop_ok sb h" using assms(3) by (auto simp: betting_ok_def)
    have "if firstRound (bero_of GAME_STATE_FLOP ?h1) then i = sb
        else turn_id ?h1 = uid ?h1 i \<and> mySet (seats ?h1 ! i) < highestSet (current_bero ?h1)"
    proof (cases "firstRound (bero_of GAME_STATE_FLOP h)")
      case True
      then have "myAction (seats h ! sb) \<noteq> PLAYER_ACTION_ALLIN" using f by (simp add: flop_ok_def out_of_round_def)
      then have "sb \<noteq> 1 - i" using b(7) by auto
      then show ?thesis using True ab(3) b(4) sb by auto
    next
      case False
      then show ?thesis using f ab(3) turn runs by (simp add: flop_ok_def)
    qed
    then show ?thesis
      using flop_loop [OF inv(1) ok b(2) rk] r b runs by (auto simp: run_current_def stayed_def)
  qed
qed

text \<open>The state after \<open>switchRounds\<close> and \<open>run\<close> in the loop.\<close>

lemma switch_and_run:
  assumes "turns_ok T sb h" "unfolded (board h) = 2"
  shows "\<exists>h2. (if handAllInCondition (switchRounds h) then Inr (switchRounds h) else run_current (switchRounds h)) = Inr h2 \<and>
    (stayed sb h h2 \<or> moved_on sb h h2)"
proof -
  have t: "table_inv T (board h)" "rounds_ok sb h" "currentRound h < GAME_STATE_POST_RIVER" "length (seats h) = 2"
    "length (myBeRo h) = 5"
    using assms(1) by (simp_all add: turns_ok_def loop_ok_def table_inv_def rounds_ok_def)
  show ?thesis
  proof (cases "handAllInCondition h")
    case True
    from switch_all_in [OF t(1) True assms(2) t(3)] all_in_moved_on [OF t(2-4)] show ?thesis by simp
  next
    case False
    then have bet: "betting_ok sb h" using assms(1) by (simp add: turns_ok_def)
    then have rk: "running_ok h" by (simp add: betting_ok_def)
    show ?thesis
    proof (rule switch_two [OF t(1) rk t(5,3) False assms(2)])
      assume "handAllInCondition (switchRounds h)" "currentRound (switchRounds h) = next_round (currentRound h)"
      then show ?thesis using all_in_moved_on [OF t(2-4)] by simp
    next
      assume b: "both_go_on h (switchRounds h)"
      then have "\<not> handAllInCondition (switchRounds h)" by (simp add: both_go_on_def goes_on_def)
      then show ?thesis using run_after_both [OF t(1,2) bet assms(2) b] by simp
    next
      fix i assume a: "goes_on_alone h (switchRounds h) i"
      then have "\<not> handAllInCondition (switchRounds h)" by (simp add: goes_on_alone_def goes_on_def)
      then show ?thesis using run_after_alone [OF t(1,2) bet assms(2) a] by simp
    qed
  qed
qed

section \<open>Player actions\<close>

definition turn_fields :: "bero \<Rightarrow> nat \<times> nat \<times> bool \<times> bool \<times> nat" where
  "turn_fields b = (smallBlindPositionId b, bigBlindPositionId b, firstRound b, firstRunGui b, currentPlayersTurnId b)"

definition same_turns :: "local_hand \<Rightarrow> local_hand \<Rightarrow> bool" where
  "same_turns h h' \<longleftrightarrow> map turn_fields (myBeRo h') = map turn_fields (myBeRo h)"

lemma same_turns_update:
  "(\<And>b. turn_fields (f b) = turn_fields b) \<Longrightarrow> same_turns h (update_bero r f h)"
  unfolding same_turns_def update_bero_def
  by (cases "state_code r < length (myBeRo h)") (simp_all add: map_update list_update_same_conv list_update_beyond)

lemma same_turns_trans: "same_turns h h1 \<Longrightarrow> same_turns h1 h2 \<Longrightarrow> same_turns h h2"
  by (simp add: same_turns_def)

lemma same_turns_bero:
  assumes "same_turns h h'" "length (myBeRo h) = 5" "r < GAME_STATE_POST_RIVER"
  shows "length (myBeRo h') = 5" "turn_fields (bero_of r h') = turn_fields (bero_of r h)"
proof -
  have m: "map turn_fields (myBeRo h') = map turn_fields (myBeRo h)" using assms(1) by (simp add: same_turns_def)
  then show l: "length (myBeRo h') = 5" using assms(2) by (metis length_map)
  have "map turn_fields (myBeRo h') ! state_code r = map turn_fields (myBeRo h) ! state_code r" by (simp only: m)
  then show "turn_fields (bero_of r h') = turn_fields (bero_of r h)"
    using l assms(2) state_code_less [OF assms(3)] by (simp add: bero_of_def)
qed

lemma same_turns_same_list: "myBeRo h' = myBeRo h \<Longrightarrow> same_turns h h'"
  by (simp add: same_turns_def)

lemma PerformPlayerAction_turns:
  "same_turns h (PerformPlayerAction i a bet h)"
  "handAllInCondition (PerformPlayerAction i a bet h) = handAllInCondition h"
  "map myUniqueID (seats (PerformPlayerAction i a bet h)) = map myUniqueID (seats h)"
  "runningPlayerList (board (PerformPlayerAction i a bet h)) = runningPlayerList (board h)"
  "j \<noteq> i \<Longrightarrow> j < length (seats h) \<Longrightarrow>
     myAction (seats (PerformPlayerAction i a bet h) ! j) = myAction (seats h ! j)"
proof -
  let ?h1 = "on_board (on_seat i (\<lambda>p. p\<lparr>myAction := a\<rparr>)) h"
  let ?h2 = "on_board (on_seat i (setMySet bet)) ?h1"
  have "same_turns k (update_round a bet p k) \<and> handAllInCondition (update_round a bet p k) = handAllInCondition k" for p k
  proof -
    have upd: "same_turns k (setLastActionPlayerID u (update_bero r (\<lambda>b. b\<lparr>minimumRaise := v\<rparr>) k))"
      "same_turns k (update_bero r (\<lambda>b. b\<lparr>minimumRaise := v\<rparr>) k)" "same_turns k (setLastActionPlayerID u k)"
      "same_turns k k" for u r v
      using same_turns_update [of "\<lambda>b. b\<lparr>minimumRaise := v\<rparr>" k r]
      by (simp_all add: turn_fields_def same_turns_def)
    show ?thesis using upd by (cases a) (simp_all add: update_round_def Let_def)
  qed
  note ur = this
  have uh: "same_turns k (update_bero r (update_highest p) k)" for p r k
    by (rule same_turns_update) (simp add: update_highest_def turn_fields_def)
  have "same_turns h (update_bero r (update_highest p) (update_round a bet p ?h2))" for p r
    using same_turns_trans [OF same_turns_trans [OF same_turns_same_list conjunct1 [OF ur]] uh] by simp
  then show "same_turns h (PerformPlayerAction i a bet h)"
    by (simp add: PerformPlayerAction_def Let_def same_turns_def)
  show "handAllInCondition (PerformPlayerAction i a bet h) = handAllInCondition h"
    using ur [of ?h2] by (simp add: PerformPlayerAction_def Let_def)
  obtain u where b: "board (PerformPlayerAction i a bet h) =
     (if a = PLAYER_ACTION_FOLD \<or> a = PLAYER_ACTION_CHECK
      then on_seat i (\<lambda>p. p\<lparr>myAction := a\<rparr>) (board h)
      else collectSets ((on_seat i (setMySet bet) (on_seat i (\<lambda>p. p\<lparr>myAction := a\<rparr>) (board h)))
             \<lparr>lastActionPlayerID := u\<rparr>))"
    using PerformPlayerAction_seats(1) by blast
  show "map myUniqueID (seats (PerformPlayerAction i a bet h)) = map myUniqueID (seats h)"
    "runningPlayerList (board (PerformPlayerAction i a bet h)) = runningPlayerList (board h)"
    by (simp_all add: b map_update_seat)
  show "myAction (seats (PerformPlayerAction i a bet h) ! j) = myAction (seats h ! j)"
    if "j \<noteq> i" "j < length (seats h)"
    using that by (simp add: b nth_update_seat)
qed

lemma rounds_ok_turns:
  assumes "rounds_ok sb h" "same_turns h h'" "map myUniqueID (seats h') = map myUniqueID (seats h)" "length (seats h) = 2"
  shows "rounds_ok sb h'"
proof -
  have len: "length (myBeRo h) = 5" and sb: "sb < 2" using assms(1) by (simp_all add: rounds_ok_def)
  have u: "uid h' i = uid h i" if "i < 2" for i using map_uid_nth [OF assms(3)] that assms(4) by simp
  have f: "smallBlindPositionId (bero_of r h') = smallBlindPositionId (bero_of r h)"
    "bigBlindPositionId (bero_of r h') = bigBlindPositionId (bero_of r h)"
    "firstRunGui (bero_of r h') = firstRunGui (bero_of r h)" if "r < GAME_STATE_POST_RIVER" for r
    using same_turns_bero(2) [OF assms(2) len that] by (simp_all add: turn_fields_def)
  show ?thesis
    using assms(1) u f sb same_turns_bero(1) [OF assms(2) len less_post(1)] by (simp add: rounds_ok_def)
qed

text \<open>An action of the player who has the turn keeps the invariant, whatever it is.\<close>

lemma action_turns_ok:
  assumes given: "turn_given T sb h" and i: "i < 2" "turn_id h = uid h i"
  shows "turns_ok T sb (PerformPlayerAction i a bet h)"
proof -
  let ?h' = "PerformPlayerAction i a bet h"
  have t: "turns_ok T sb h" "\<not> handAllInCondition h" "unfolded (board h) = 2" "turn_running h"
    using given by (simp_all add: turn_given_def)
  have loop: "loop_ok T h" "rounds_ok sb h" "betting_ok sb h" using t(1,2) by (simp_all add: turns_ok_def)
  have inv: "table_inv T (board h)" "length (seats h) = 2" "sb < 2" "length (myBeRo h) = 5"
    using loop(1,2) by (simp_all add: loop_ok_def table_inv_def rounds_ok_def)
  note p = PerformPlayerAction_turns [where h = h and i = i and a = a and bet = bet]
  have round: "currentRound ?h' = currentRound h" by (rule PerformPlayerAction_seats(2))
  have u: "uid ?h' j = uid h j" if "j < 2" for j using map_uid_nth [OF p(3)] that inv(2) by simp
  have f: "turn_fields (bero_of r ?h') = turn_fields (bero_of r h)" if "r < GAME_STATE_POST_RIVER" for r
    using same_turns_bero(2) [OF p(1) inv(4) that] .
  have less: "currentRound h < GAME_STATE_POST_RIVER" using loop(1) by (simp add: loop_ok_def)
  have turn: "turn_id ?h' = turn_id h" using f [OF less] round by (simp add: turn_fields_def)
  have runs: "runningPlayerList (board h) \<in> {[0, 1], [0], [1]}"
    using loop(3) by (simp add: betting_ok_def running_ok_def)
  have inj: "j = k" if "j < 2" "k < 2" "uid h j = uid h k" for j k
  proof (rule ccontr)
    assume "j \<noteq> k"
    then have "k = 1 - j" using that(1,2) by auto
    then show False using uid_other [OF inv(1) that(1)] that(3) by simp
  qed
  obtain k where k: "k \<in> set (runningPlayerList (board h))" "turn_id h = uid h k"
    using t(4) by (auto simp: turn_running_def)
  moreover have "k < 2" using k(1) runs by auto
  ultimately have ir: "i \<in> set (runningPlayerList (board h))" using inj [of i k] i by simp
  have "loop_ok T ?h'"
    using PerformPlayerAction_loop_ok [of T h] loop(1) t(3) by (simp add: waiting_ok_def)
  moreover have "rounds_ok sb ?h'" by (rule rounds_ok_turns [OF loop(2) p(1,3) inv(2)])
  moreover have rk: "running_ok ?h'"
  proof -
    have "myAction (seats ?h' ! j) = PLAYER_ACTION_ALLIN" if "j < 2" "j \<notin> set (runningPlayerList (board h))" for j
    proof -
      have "j \<noteq> i" using ir that(2) by auto
      then show ?thesis using p(5) that inv(2) loop(3) by (simp add: betting_ok_def running_ok_def)
    qed
    then show ?thesis using runs by (simp add: running_ok_def p(4))
  qed
  moreover have tr: "turn_running ?h'"
    using t(4) turn p(4) u runs by (auto simp: turn_running_def)
  have "flop_ok sb ?h'" if r: "currentRound h = GAME_STATE_FLOP"
  proof -
    have fo: "flop_ok sb h" using loop(3) r by (auto simp: betting_ok_def)
    have first: "firstRound (bero_of GAME_STATE_FLOP ?h') = firstRound (bero_of GAME_STATE_FLOP h)"
      using f [OF less_post(2)] by (simp add: turn_fields_def)
    show ?thesis
    proof (cases "firstRound (bero_of GAME_STATE_FLOP h)")
      case True
      then have "uid h i = uid h (1 - sb)" using given i(2) r by (simp add: turn_given_def)
      then have "i = 1 - sb" using inj [of i "1 - sb"] i(1) by simp
      then have "sb \<noteq> i" using inv(3) by arith
      then have "myAction (seats ?h' ! sb) = myAction (seats h ! sb)" using p(5) inv by simp
      then show ?thesis using fo True first by (simp add: flop_ok_def out_of_round_def p(4))
    next
      case False
      then show ?thesis using fo first tr by (simp add: flop_ok_def p(4))
    qed
  qed
  then have "betting_ok sb ?h'"
    using loop(3) rk tr round f [OF less_post(2)] by (auto simp: betting_ok_def turn_fields_def)
  ultimately show ?thesis using t(2) by (simp add: turns_ok_def p(2))
qed

lemma current_seat:
  assumes "turn_given T sb h"
  obtains i where "getCurrentPlayer h = Inr i" "i < 2" "turn_id h = uid h i"
proof -
  have "loop_ok T h" "betting_ok sb h" using assms by (simp_all add: turn_given_def turns_ok_def)
  then have inv: "table_inv T (board h)" "runningPlayerList (board h) \<in> {[0, 1], [0], [1]}"
    by (simp_all add: loop_ok_def betting_ok_def running_ok_def)
  obtain i where "i \<in> set (runningPlayerList (board h))" and i: "turn_id h = uid h i"
    using assms by (auto simp: turn_given_def turn_running_def)
  then have "i < 2" using inv(2) by auto
  moreover have "seated (board h)" "length (seats h) = 2"
    using inv(1) by (simp_all add: seated_def table_inv_def money_ok_def)
  ultimately have "getCurrentPlayer h = Inr i"
    using getSeatIt_seat [of "board h" i] i by (simp add: getCurrentPlayer_def)
  then show thesis using \<open>i < 2\<close> i by (rule that)
qed

section \<open>The engine loop\<close>

definition turn_result :: "int \<Rightarrow> nat \<Rightarrow> loop_result \<Rightarrow> bool" where
  "turn_result T sb res = (case res of
     NextLoop h \<Rightarrow> turns_ok T sb h | WaitPlayerAction h \<Rightarrow> turn_given T sb h
   | ComputerAction h \<Rightarrow> turn_given T sb h | HandOver h \<Rightarrow> True)"

lemma continue_hand_turns:
  assumes "turn_given T sb h"
  shows "\<exists>res. continue_hand connected h = Inr res \<and> turn_result T sb res"
proof -
  obtain i where i: "getCurrentPlayer h = Inr i" "i < 2" "turn_id h = uid h i"
    by (rule current_seat [OF assms])
  have "table_inv T (board h)" using assms by (simp add: turn_given_def turns_ok_def loop_ok_def)
  then have "myActiveStatus (seats h ! i)"
    using i(2) by (auto simp: table_inv_def money_ok_def list_all_length seat_ok_def)
  then show ?thesis
    using i(1) assms action_turns_ok [OF assms i(2,3)]
    by (simp add: continue_hand_def turn_given_def turn_result_def Let_def)
qed

lemma turns_ok_cardsShown [simp]: "turns_ok T sb (h\<lparr>cardsShown := c\<rparr>) = turns_ok T sb h"
  by (simp add: turns_ok_def loop_ok_def rounds_ok_def betting_ok_def running_ok_def flop_ok_def
      turn_running_def bero_of_def)

lemma EngineLoop_turns:
  assumes "turns_ok T sb h" "T < 2 ^ 31"
  shows "\<exists>res. EngineLoop connected h = Inr res \<and> turn_result T sb res"
proof -
  have loop: "loop_ok T h" using assms(1) by (simp add: turns_ok_def)
  then have inv: "table_inv T (board h)" "currentRound h < GAME_STATE_POST_RIVER" "1 \<le> unfolded (board h)"
    by (simp_all add: loop_ok_def)
  show ?thesis
  proof (cases "unfolded (board h) = 1")
    case True
    obtain h' where "EngineLoop connected h = Inr (HandOver h')"
      using EngineLoop_last_player [OF loop assms(2) True] by blast
    then show ?thesis by (simp add: turn_result_def)
  next
    case False
    then have u: "unfolded (board h) = 2" using inv(3) unfolded_le [OF inv(1)] by simp
    obtain h2 where run: "(if handAllInCondition (switchRounds h) then Inr (switchRounds h)
        else run_current (switchRounds h)) = Inr h2" and h2: "stayed sb h h2 \<or> moved_on sb h h2"
      using switch_and_run [OF assms(1) u] by auto
    note kept = run_or_stop_kept [OF loop refl run]
    have unf: "unfolded (board h2) = 2"
      using kept(1) u unfolded_le [of T "board h2"] by (simp add: hand_kept_def)
    show ?thesis
    proof (cases "currentRound h2 = GAME_STATE_POST_RIVER")
      case True
      then have "no_bets (board h2)" "table_inv T (board h2)" using kept(1) by (simp_all add: hand_kept_def)
      from postRiverRun_pays [OF this(2,1) assms(2)] unf obtain h3 where "postRiverRun h2 = Inr h3" by auto
      then show ?thesis using run True by (simp add: EngineLoop_def Let_def turn_result_def)
    next
      case post: False
      then have l2: "loop_ok T h2" using kept(2) by (simp add: waiting_ok_def)
      from h2 show ?thesis
      proof
        assume s: "stayed sb h h2"
        then have "turn_given T sb h2" using l2 unf by (simp add: stayed_def turn_given_def turns_ok_def)
        from continue_hand_turns [OF this] show ?thesis
          using run post s by (simp add: EngineLoop_def Let_def stayed_def)
      next
        assume m: "moved_on sb h h2"
        then have "turns_ok T sb h2" using l2 unf next_not_preflop [OF inv(2)] by (simp add: moved_on_def turns_ok_def)
        then have "turns_ok T sb (show_all_in h2)" by (simp add: show_all_in_def)
        moreover have "\<not> currentRound h2 \<le> currentRound h"
          using m next_round_greater [OF inv(2)] by (simp add: moved_on_def not_le)
        then have "EngineLoop connected h = Inr (NextLoop (show_all_in h2))"
          using run post by (auto simp: EngineLoop_def Let_def)
        ultimately show ?thesis by (simp add: turn_result_def)
      qed
    qed
  qed
qed

corollary EngineLoop_result:
  "EngineLoop connected h = Inr res \<Longrightarrow> turns_ok T sb h \<Longrightarrow> T < 2 ^ 31 \<Longrightarrow> turn_result T sb res"
  using EngineLoop_turns [of T sb h connected] by simp

section \<open>A whole hand\<close>

definition phase_turns :: "int \<Rightarrow> nat \<Rightarrow> phase \<times> local_hand \<Rightarrow> bool" where
  "phase_turns T sb s = (case s of
     (Looping, h) \<Rightarrow> turns_ok T sb h | (Waiting, h) \<Rightarrow> turn_given T sb h
   | (Computing, h) \<Rightarrow> turn_given T sb h | (Over, h) \<Rightarrow> True)"

lemma session_turn_given:
  assumes "turn_given T sb h"
  shows "turn_given T sb (on_board (on_seat i (\<lambda>p. p\<lparr>myIsSessionActive := True\<rparr>)) h)"
proof -
  let ?h = "on_board (on_seat i (\<lambda>p. p\<lparr>myIsSessionActive := True\<rparr>)) h"
  have t: "turns_ok T sb h" "\<not> handAllInCondition h" "loop_ok T h" "rounds_ok sb h" "betting_ok sb h"
    using assms by (simp_all add: turn_given_def turns_ok_def)
  have two: "length (seats h) = 2" and sb: "sb < 2" using t(3,4) by (simp_all add: loop_ok_def table_inv_def rounds_ok_def)
  have same: "same_seats h ?h" by (simp add: same_seats_def map_update_seat)
  note n = same_seats_nth [OF same]
  have runs: "runningPlayerList (board h) \<in> {[0, 1], [0], [1]}" using t(5) by (simp add: betting_ok_def running_ok_def)
  have u: "unfolded (board ?h) = unfolded (board h)" by (simp add: unfolded_frame)
  have turn: "turn_running ?h = turn_running h" "turn_id ?h = turn_id h"
    using n(1) two runs by (auto simp: turn_running_def)
  have "loop_ok T ?h" using t(3) by (auto simp: loop_ok_def unfolded_frame)
  moreover have "rounds_ok sb ?h" by (rule rounds_ok_same [OF t(4)]) (use n(1) two in simp_all)
  moreover have "running_ok ?h" using running_ok_same [OF same two] t(5) by (simp add: betting_ok_def)
  moreover have "flop_ok sb ?h = flop_ok sb h" using n(4) [of sb] two sb turn by (simp add: flop_ok_def)
  ultimately show ?thesis
    using assms t turn u n(1) [of "1 - sb"] two by (simp add: turn_given_def turns_ok_def betting_ok_def)
qed

lemma handle_action_request_turns:
  assumes "turn_given T sb h" "handle_action_request gameId u q h = Inr (Accepted h')"
  shows "turns_ok T sb h'"
proof -
  obtain cur where cur: "getCurrentPlayer h = Inr cur" "cur < 2" "turn_id h = uid h cur"
    by (rule current_seat [OF assms(1)])
  obtain i a bet where i: "getSeatIt u (board h) = Some i"
    "h' = PerformPlayerAction i a bet (on_board (on_seat i (\<lambda>p. p\<lparr>myIsSessionActive := True\<rparr>)) h)"
    "action_code_of h i cur q = ACTION_CODE_VALID"
    using assms(2) cur(1) by (auto simp: handle_action_request_def Let_def split: if_splits option.splits)
  have inv: "table_inv T (board h)" "length (seats h) = 2"
    using assms(1) by (simp_all add: turn_given_def turns_ok_def loop_ok_def table_inv_def)
  have "uid h cur = uid h i" using i(3) by (auto simp: action_code_of_def Let_def split: if_splits)
  moreover have "i < 2"
    using i(1) inv(2) by (auto simp: getSeatIt_def seat_with_id_def dest!: first_some_SomeD split: if_splits)
  ultimately have "turn_id (on_board (on_seat i (\<lambda>p. p\<lparr>myIsSessionActive := True\<rparr>)) h) =
      uid (on_board (on_seat i (\<lambda>p. p\<lparr>myIsSessionActive := True\<rparr>)) h) i"
    using cur(3) inv(2) by (simp add: nth_update_seat)
  then show ?thesis
    unfolding i(2) using \<open>i < 2\<close> by (intro action_turns_ok session_turn_given assms(1))
qed

lemma player_timeout_turns:
  assumes "turn_given T sb h"
  shows "\<exists>h'. player_timeout h = Inr h' \<and> turns_ok T sb h'"
proof -
  obtain i where "getCurrentPlayer h = Inr i" "i < 2" "turn_id h = uid h i"
    by (rule current_seat [OF assms])
  then show ?thesis using action_turns_ok [OF assms, of i] by (simp add: player_timeout_def)
qed

lemma server_step_turns:
  assumes "server_step s s'" "phase_turns T sb s" "T < 2 ^ 31"
  shows "phase_turns T sb s'"
  using assms
proof cases
  case (timeout h h')
  then show ?thesis using assms(2) player_timeout_turns [of T sb h] by (auto simp: phase_turns_def)
qed (use assms(2,3) EngineLoop_result handle_action_request_turns in \<open>fastforce simp: phase_turns_def turn_result_def\<close>)+

lemma server_steps_turns:
  "server_steps s s' \<Longrightarrow> phase_turns T sb s \<Longrightarrow> T < 2 ^ 31 \<Longrightarrow> phase_turns T sb s'"
  by (induction rule: rtranclp_induct) (auto dest: server_step_turns)

end
