(* ===== verification/Blinds.thy ===== *)
theory Blinds
  imports Game
begin

text \<open>
  The raising of the blinds from hand to hand (\<open>Game::raiseBlinds\<close> as \<open>Game::initHand\<close> calls it,
  \<open>src/src/engine/game.cpp\<close>): the bounds it keeps and the schedule it follows.
\<close>

section \<open>Hands follow each other\<close>

text \<open>The first two lines of \<open>initHand\<close>: the next hand number and the blinds.\<close>

definition count_hand :: "int \<Rightarrow> game \<Rightarrow> game" where
  "count_hand minutes g = raiseBlinds minutes (g\<lparr>currentHandID := currentHandID g + 1\<rparr>)"

definition mark_raised :: "int \<Rightarrow> game \<Rightarrow> game" where
  "mark_raised minutes g = (case raiseIntervalMode (myGameData g) of
     RAISE_ON_HANDNUMBER \<Rightarrow> g\<lparr>lastHandBlindsRaised := currentHandID g\<rparr>
   | RAISE_ON_MINUTES \<Rightarrow> g\<lparr>lastTimeBlindsRaised := minutes\<rparr>)"

lemma maxBlind_fields [simp]:
  "maxBlind (g\<lparr>lastHandBlindsRaised := n\<rparr>) = maxBlind g"
  "maxBlind (g\<lparr>lastTimeBlindsRaised := n\<rparr>) = maxBlind g"
  "maxBlind (g\<lparr>currentHandID := n\<rparr>) = maxBlind g"
  "maxBlind (g\<lparr>currentSmallBlind := n\<rparr>) = maxBlind g"
  "maxBlind (g\<lparr>blindsList := xs\<rparr>) = maxBlind g"
  by (simp_all add: maxBlind_def)

lemma mark_raised_keeps [simp]:
  "maxBlind (mark_raised minutes g) = maxBlind g"
  "myGameData (mark_raised minutes g) = myGameData g"
  "currentHandID (mark_raised minutes g) = currentHandID g"
  "dealerPosition (mark_raised minutes g) = dealerPosition g"
  "currentHand (mark_raised minutes g) = currentHand g"
  "gameBoard (mark_raised minutes g) = gameBoard g"
  "currentSmallBlind (mark_raised minutes g) = currentSmallBlind g"
  "blindsList (mark_raised minutes g) = blindsList g"
  by (simp_all add: mark_raised_def split: RaiseIntervalMode.split)

lemma raised_blind_mark [simp]: "raised_blind (mark_raised minutes g) = raised_blind g"
  by (simp add: raised_blind_def Let_def split: RaiseMode.split)

lemma raiseBlinds_eq:
  "raiseBlinds minutes g =
    (if time_to_raise minutes g
     then (mark_raised minutes g)\<lparr>currentSmallBlind := min (fst (raised_blind g)) (maxBlind g),
                                  blindsList := snd (raised_blind g)\<rparr>
     else g)"
  by (simp add: raiseBlinds_def flip: mark_raised_def) (simp add: Let_def split: prod.split)

lemma raiseBlinds_keeps [simp]:
  "maxBlind (raiseBlinds minutes g) = maxBlind g"
  "myGameData (raiseBlinds minutes g) = myGameData g"
  "currentHandID (raiseBlinds minutes g) = currentHandID g"
  "dealerPosition (raiseBlinds minutes g) = dealerPosition g"
  "game_board (raiseBlinds minutes g) = game_board g"
  by (simp_all add: raiseBlinds_eq game_board_def split: option.split)

lemma count_hand_keeps [simp]:
  "maxBlind (count_hand minutes g) = maxBlind g"
  "myGameData (count_hand minutes g) = myGameData g"
  "currentHandID (count_hand minutes g) = currentHandID g + 1"
  by (simp_all add: count_hand_def)

section \<open>Bounds\<close>

text \<open>The settings of a game with positive blinds.\<close>

definition blinds_ok :: "game \<Rightarrow> bool" where
  "blinds_ok g \<longleftrightarrow> 1 \<le> currentSmallBlind g \<and> currentSmallBlind g \<le> maxBlind g \<and>
     list_all (\<lambda>b. 1 \<le> b) (blindsList g) \<and> 0 \<le> afterMBAlwaysRaiseValue (myGameData g)"

lemma doubled_blind_bounds:
  "1 \<le> c \<Longrightarrow> c \<le> m \<Longrightarrow> c \<le> doubled_blind c m \<and> doubled_blind c m \<le> m"
  by (auto simp: doubled_blind_def)

lemma doubled_blind_eq: "1 \<le> c \<Longrightarrow> c \<le> m \<Longrightarrow> doubled_blind c m = min (2 * c) m"
  by (auto simp: doubled_blind_def signed_divide_int_def)

lemma raised_blind_bounds:
  assumes "blinds_ok g" "raised_blind g = (b, rest)"
  shows "1 \<le> b" "list_all (\<lambda>b. 1 \<le> b) rest"
  using assms doubled_blind_bounds [of "currentSmallBlind g" "maxBlind g"]
  by (auto simp: raised_blind_def blinds_ok_def Let_def
      split: RaiseMode.splits AfterManualBlindsMode.splits list.splits if_splits)

lemma raiseBlinds_ok: "blinds_ok g \<Longrightarrow> blinds_ok (raiseBlinds minutes g)"
  using raised_blind_bounds [of g "fst (raised_blind g)" "snd (raised_blind g)"]
  by (auto simp: raiseBlinds_eq blinds_ok_def)

text \<open>Settings may start above the largest blind; this is what is left then.\<close>

definition blinds_pos :: "game \<Rightarrow> bool" where
  "blinds_pos g \<longleftrightarrow> 1 \<le> currentSmallBlind g \<and> 1 \<le> maxBlind g \<and>
     list_all (\<lambda>b. 1 \<le> b) (blindsList g) \<and> 0 \<le> afterMBAlwaysRaiseValue (myGameData g)"

lemma blinds_ok_pos: "blinds_ok g \<Longrightarrow> blinds_pos g"
  by (simp add: blinds_ok_def blinds_pos_def)

lemma raised_blind_pos:
  assumes "blinds_pos g" "raised_blind g = (b, rest)"
  shows "1 \<le> b" "list_all (\<lambda>b. 1 \<le> b) rest"
proof -
  have "1 \<le> doubled_blind (currentSmallBlind g) (maxBlind g)"
    using assms(1) by (auto simp: doubled_blind_def blinds_pos_def)
  then show "1 \<le> b" "list_all (\<lambda>b. 1 \<le> b) rest"
    using assms by (auto simp: raised_blind_def blinds_pos_def Let_def
        split: RaiseMode.splits AfterManualBlindsMode.splits list.splits if_splits)
qed

lemma raiseBlinds_pos: "blinds_pos g \<Longrightarrow> blinds_pos (raiseBlinds minutes g)"
  using raised_blind_pos [of g "fst (raised_blind g)" "snd (raised_blind g)"]
  by (auto simp: raiseBlinds_eq blinds_pos_def)

text \<open>C39: The small blind stays legal: when it is positive and at most the largest blind (half of all
  the chips in play, never above \<open>INT_MAX\<close>) and the manual blinds and the raise are not negative,
  then after any number of hands, in every raise mode and interval mode and whatever the timer
  says, it is still positive and at most the largest blind, which fits an int.\<close>

theorem blinds_stay_legal:
  assumes "blinds_ok g"
  shows "blinds_ok (fold count_hand minutes g) \<and> currentSmallBlind (fold count_hand minutes g) \<le> INT_MAX"
proof -
  have "blinds_ok (count_hand m g)" if "blinds_ok g" for m g
    using raiseBlinds_ok [of "g\<lparr>currentHandID := currentHandID g + 1\<rparr>" m] that
    by (simp add: count_hand_def blinds_ok_def)
  then have "blinds_ok (fold count_hand minutes g)"
    using assms by (induction minutes arbitrary: g) simp_all
  moreover from this have "currentSmallBlind (fold count_hand minutes g) \<le> INT_MAX"
    by (auto simp: blinds_ok_def maxBlind_def Let_def INT_MAX_def split: if_splits)
  ultimately show ?thesis ..
qed

theorem blinds_stay_legal_witness:
  "1 \<le> currentSmallBlind (fold count_hand [0, 3, 7, 9, 100] sample_game) \<and>
   currentSmallBlind (fold count_hand [0, 3, 7, 9, 100] sample_game) \<le> INT_MAX"
proof -
  have "blinds_ok sample_game"
    by (simp add: blinds_ok_def sample_game_def sample_data_def maxBlind_def INT_MAX_def)
  from blinds_stay_legal [OF this] show ?thesis unfolding blinds_ok_def by blast
qed

section \<open>The schedule\<close>

definition doubling :: "game \<Rightarrow> bool" where
  "doubling g \<longleftrightarrow> raiseMode (myGameData g) = DOUBLE_BLINDS \<and>
     raiseIntervalMode (myGameData g) = RAISE_ON_HANDNUMBER"

lemma raiseBlinds_doubling:
  assumes "doubling g"
  shows "raiseBlinds minutes g =
    (if lastHandBlindsRaised g + raiseSmallBlindEveryHandsValue (myGameData g) \<le> currentHandID g
     then g\<lparr>lastHandBlindsRaised := currentHandID g,
            currentSmallBlind := min (doubled_blind (currentSmallBlind g) (maxBlind g)) (maxBlind g)\<rparr>
     else g)"
  using assms by (simp add: raiseBlinds_eq time_to_raise_def raised_blind_def doubling_def mark_raised_def Let_def)

text \<open>The blind after \<open>j\<close> raises from the first one \<open>f\<close> below the limit \<open>m\<close>.\<close>

definition scheduled_blind :: "int \<Rightarrow> int \<Rightarrow> nat \<Rightarrow> int" where
  "scheduled_blind f m j = (if j = 0 then f else min (f * 2 ^ j) m)"

lemma doubled_schedule:
  assumes "1 \<le> f" "0 \<le> m"
  shows "min (doubled_blind (scheduled_blind f m j) m) m = scheduled_blind f m (Suc j)"
proof -
  let ?c = "f * 2 ^ j"
  have c: "1 * 1 \<le> ?c" using assms(1) by (intro mult_mono) simp_all
  have d: "min (doubled_blind x m) m = min (2 * x) m" if "0 \<le> x" for x
    using that assms(2) by (cases "m = 0") (auto simp: doubled_blind_def signed_divide_int_def min_def)
  have "min (2 * min ?c m) m = min (2 * ?c) m" using c assms(2) by auto
  then show ?thesis using c assms d [of f] d [of "min ?c m"] by (simp add: scheduled_blind_def ac_simps)
qed

text \<open>After hand \<open>n + 1\<close> of a game \<open>g\<close> that raises every \<open>k\<close> hands.\<close>

definition scheduled :: "game \<Rightarrow> nat \<Rightarrow> nat \<Rightarrow> game \<Rightarrow> bool" where
  "scheduled g k n x \<longleftrightarrow> myGameData x = myGameData g \<and> maxBlind x = maxBlind g \<and>
     currentHandID x = int (Suc n) \<and> lastHandBlindsRaised x = 1 + int (k * (n div k)) \<and>
     currentSmallBlind x = scheduled_blind (currentSmallBlind g) (maxBlind g) (n div k)"

lemma scheduled_first:
  assumes "doubling g" "currentHandID g = 0" "lastHandBlindsRaised g = 1"
    and "raiseSmallBlindEveryHandsValue (myGameData g) = int k" "0 < k"
  shows "scheduled g k 0 (count_hand minutes g)"
  using raiseBlinds_doubling [of "g\<lparr>currentHandID := 1\<rparr>" minutes] assms
  by (simp add: count_hand_def doubling_def scheduled_def scheduled_blind_def)

lemma scheduled_step:
  assumes "doubling g" "scheduled g k n x"
    and k: "raiseSmallBlindEveryHandsValue (myGameData g) = int k" "0 < k"
    and sb: "1 \<le> currentSmallBlind g" "0 \<le> maxBlind g"
  shows "scheduled g k (Suc n) (count_hand minutes x)"
proof -
  let ?x = "x\<lparr>currentHandID := currentHandID x + 1\<rparr>"
  note s = assms(2) [unfolded scheduled_def]
  have raise: "count_hand minutes x = (if int (k * (n div k) + k) \<le> int (Suc n)
      then ?x\<lparr>lastHandBlindsRaised := int (Suc (Suc n)),
              currentSmallBlind := scheduled_blind (currentSmallBlind g) (maxBlind g) (Suc (n div k))\<rparr>
      else ?x)"
    using raiseBlinds_doubling [of ?x minutes] assms(1) s k
    by (simp add: doubling_def count_hand_def doubled_schedule [OF sb])
  show ?thesis
  proof (cases "k dvd Suc n")
    case True
    then obtain q where q: "Suc n = k * q" ..
    then obtain r where r: "q = Suc r" by (cases q) simp_all
    have "k * r \<le> n" "n < k * Suc r" using q r k(2) by simp_all
    then have d: "n div k = r" using k(2) by (intro div_nat_eqI) (simp_all add: mult.commute)
    have "Suc n div k = Suc r" using q r k(2) by simp
    moreover have "int (k * (n div k) + k) \<le> int (Suc n)" using d q r by simp
    ultimately show ?thesis
      using s d q r by (simp add: raise scheduled_def)
  next
    case False
    then have d: "Suc n div k = n div k" by (simp add: div_Suc mod_eq_0_iff_dvd)
    have "Suc n < k + k * (n div k)"
      using dividend_less_times_div [OF k(2), of "Suc n"] d by simp
    then have "\<not> int (k * (n div k) + k) \<le> int (Suc n)" by (simp only: of_nat_le_iff)
    then show ?thesis using s d by (simp add: raise scheduled_def)
  qed
qed

text \<open>C38: The schedule of the blinds: in a new game that doubles the blinds every \<open>k\<close> hands, the first \<open>k\<close>
  hands have the first small blind, also when it is larger than half of the chips in play, and the
  small blind of a later hand \<open>n + 1\<close> is the first one doubled \<open>n div k\<close> times, but never more than
  half of the chips in play.\<close>

theorem blind_schedule:
  assumes "new_game players gd sd gameId = Inr g"
    and "raiseMode gd = DOUBLE_BLINDS" "raiseIntervalMode gd = RAISE_ON_HANDNUMBER"
    and "raiseSmallBlindEveryHandsValue gd = int k" "0 < k"
    and "1 \<le> firstSmallBlind gd" "0 \<le> maxBlind g"
  shows "currentHandID ((count_hand minutes ^^ Suc n) g) = int (Suc n) \<and>
    currentSmallBlind ((count_hand minutes ^^ Suc n) g) =
      (if n < k then firstSmallBlind gd else min (firstSmallBlind gd * 2 ^ (n div k)) (maxBlind g))"
proof -
  have g: "myGameData g = gd" "currentHandID g = 0" "lastHandBlindsRaised g = 1"
    "currentSmallBlind g = firstSmallBlind gd"
    using assms(1) by (auto simp: new_game_def Let_def split: if_splits)
  then have "scheduled g k n ((count_hand minutes ^^ Suc n) g)"
  proof (induction n)
    case 0 then show ?case using scheduled_first [of g k minutes] assms g by (simp add: doubling_def)
  next
    case (Suc n)
    then show ?case using scheduled_step [of g k n "(count_hand minutes ^^ Suc n) g" minutes] assms g
      by (simp add: doubling_def)
  qed
  then show ?thesis using g assms(5) by (simp add: scheduled_def scheduled_blind_def div_eq_0_iff)
qed

theorem blind_schedule_witness:
  "currentSmallBlind ((count_hand 0 ^^ Suc 16) sample_game) = 40"
proof -
  have "1 \<le> firstSmallBlind sample_data" "0 \<le> maxBlind sample_game"
    "raiseMode sample_data = DOUBLE_BLINDS" "raiseIntervalMode sample_data = RAISE_ON_HANDNUMBER"
    "raiseSmallBlindEveryHandsValue sample_data = int 8" "maxBlind sample_game = 1000"
    "firstSmallBlind sample_data = 10"
    by (simp_all add: sample_data_def sample_game_def maxBlind_def INT_MAX_def)
  with blind_schedule [OF sample_game_new this(3-5) _ this(1,2), of 16 0] show ?thesis
    by (simp del: funpow.simps)
qed

end
