(* ===== verification/Hand_Progress.thy ===== *)
theory Hand_Progress
  imports Heads_Up_Play Blinds
begin

text \<open>
  Two-player hands from their start: no step of a hand fails, and what the rounds after the flop
  look like. The results of \<open>Heads_Up_Play\<close> for the states that a hand reaches.
\<close>

section \<open>The start\<close>

lemma new_hand_not_all_in: "new_hand deck t ident sP dP sB sC = Inr h \<Longrightarrow> \<not> handAllInCondition h"
  by (auto simp: new_hand_def assignButtons_def setBlinds_def Let_def map_sum_Inr split: sum.splits option.splits)

lemma start_fields:
  "seats (start_on_server h) = seats h" "runningPlayerList (board (start_on_server h)) = runningPlayerList (board h)"
  "handAllInCondition (start_on_server h) = handAllInCondition h" "currentRound (start_on_server h) = currentRound h"
  by (simp_all add: start_on_server_def start_def skipFirstRunGui_def)

lemma start_beros:
  assumes "length (myBeRo h) = 5"
  shows "length (myBeRo (start_on_server h)) = 5" "r < GAME_STATE_POST_RIVER \<Longrightarrow> bero_of r (start_on_server h) =
    (if r = GAME_STATE_PREFLOP then bero_of r h else (bero_of r h)\<lparr>firstRunGui := False\<rparr>)"
proof -
  have b: "bero_of r (start k) = bero_of r k" for r k by (simp add: start_def bero_of_def)
  show "length (myBeRo (start_on_server h)) = 5"
    using assms by (simp add: start_on_server_def start_def skipFirstRunGui_def)
  assume "r < GAME_STATE_POST_RIVER"
  then show "bero_of r (start_on_server h) =
      (if r = GAME_STATE_PREFLOP then bero_of r h else (bero_of r h)\<lparr>firstRunGui := False\<rparr>)"
    unfolding start_on_server_def b skipFirstRunGui_def
    using assms by (cases r) (simp_all add: bero_of_update round_less_post)
qed

lemma opening_turns_ok:
  assumes "deck_ok deck" "between_hands T t" "d < 2" "0 \<le> sB"
  shows "\<exists>h. new_hand deck (prepare_board t) ident sP (myUniqueID (seatsList t ! d)) sB sC = Inr h \<and>
    turns_ok T d (start_on_server h) \<and> map myUniqueID (seats h) = map myUniqueID (seatsList t) \<and>
    activePlayerList (board h) = [0, 1]"
proof -
  obtain h where new: "new_hand deck (prepare_board t) ident sP (myUniqueID (seatsList t ! d)) sB sC = Inr h"
    and p: "posts sB (seatsList t ! d) (seats h ! d)" "posts (2 * sB) (seatsList t ! (1 - d)) (seats h ! (1 - d))"
    and running: "runningPlayerList (board h) = [0, 1]"
    and bs: "map smallBlindPositionId (myBeRo h) = replicate 5 (myUniqueID (seatsList t ! d))"
      "map bigBlindPositionId (myBeRo h) = replicate 5 (myUniqueID (seatsList t ! (1 - d)))"
      "map firstRound (myBeRo h) = replicate 5 True" "map firstRunGui (myBeRo h) = replicate 5 True"
    using new_hand_two [OF assms, of ident sP sC] by blast
  note st = new_hand_staged [OF assms(1,2) new]
  have two: "length (seats h) = 2" "length (seatsList t) = 2" "activePlayerList (board h) = [0, 1]"
    using st(1) assms(2) by (simp_all add: staged_def between_hands_def)
  have d: "d = 0 \<or> d = 1" using assms(3) by auto
  have u: "uid h d = myUniqueID (seatsList t ! d)" "uid h (1 - d) = myUniqueID (seatsList t ! (1 - d))"
    using p by (simp_all add: posts_def)
  have ids: "map myUniqueID (seats h) = map myUniqueID (seatsList t)"
    using u d two by (auto intro!: nth_equalityI simp: less_2_cases_iff)
  have len: "length (myBeRo h) = 5" using bs(1) by (metis length_map length_replicate)
  have b: "smallBlindPositionId (bero_of r h) = uid h d" "bigBlindPositionId (bero_of r h) = uid h (1 - d)"
    "firstRound (bero_of r h)" "firstRunGui (bero_of r h)" if "r < GAME_STATE_POST_RIVER" for r
  proof -
    have at: "f (myBeRo h ! state_code r) = x" if "map f (myBeRo h) = replicate 5 x" for f :: "bero \<Rightarrow> 'a" and x
      using that state_code_less [OF \<open>r < GAME_STATE_POST_RIVER\<close>] len
      by (metis nth_map nth_replicate)
    show "smallBlindPositionId (bero_of r h) = uid h d" "bigBlindPositionId (bero_of r h) = uid h (1 - d)"
      "firstRound (bero_of r h)" "firstRunGui (bero_of r h)"
      using bs u by (simp_all add: bero_of_def at)
  qed
  let ?h = "start_on_server h"
  have "rounds_ok d ?h"
    using assms(3) b len by (simp add: rounds_ok_def start_fields start_beros)
  moreover have "betting_ok d ?h"
    using running b len st(2) by (simp add: betting_ok_def running_ok_def start_fields start_beros less_2_cases_iff)
  ultimately have "turns_ok T d ?h"
    using start_on_server_ok [OF st] new_hand_not_all_in [OF new] by (simp add: turns_ok_def start_fields)
  with new ids two(3) show ?thesis by blast
qed

lemma initHand_dealt:
  fixes g minutes
  defines "g1 \<equiv> raiseBlinds minutes (g\<lparr>currentHandID := currentHandID g + 1\<rparr>)"
  assumes "deck_ok deck" "between_hands T (game_board g)" "blinds_pos g"
    and dealer: "dealerPosition g \<in> set (map myUniqueID (seatsList (game_board g)))"
  shows "\<exists>h d u. initHand deck minutes g = Inr (g1\<lparr>currentHand := Some h, dealerPosition := u\<rparr>) \<and>
    turns_ok T d (start_on_server h) \<and> blinds_pos g1 \<and>
    new_hand deck (prepare_board (game_board g)) (currentHandID g1) (gameStartQuantityPlayers g1)
      (dealerPosition g) (currentSmallBlind g1) (gameStartCash g1) = Inr h \<and>
    activePlayerList (board h) = [0, 1] \<and> u \<in> set (map myUniqueID (seats h))"
proof -
  let ?g = "g\<lparr>currentHandID := currentHandID g + 1\<rparr>"
  let ?g1 = "raiseBlinds minutes ?g"
  have gb: "game_board ?g = game_board g" by (simp add: game_board_def split: option.split)
  have g1: "game_board ?g1 = game_board g" "dealerPosition ?g1 = dealerPosition g"
    by (simp_all only: raiseBlinds_keeps gb) simp
  have bp: "blinds_pos ?g1" by (rule raiseBlinds_pos) (use assms(4) in \<open>simp add: blinds_pos_def\<close>)
  then have sb: "0 \<le> currentSmallBlind ?g1" by (simp add: blinds_pos_def)
  have two: "length (seatsList (game_board g)) = 2" using assms(3) by (simp add: between_hands_def)
  then obtain d where d: "d < 2" "dealerPosition g = myUniqueID (seatsList (game_board g) ! d)"
    using dealer by (auto simp: in_set_conv_nth)
  obtain h where h: "new_hand deck (prepare_board (game_board g)) (currentHandID ?g1) (gameStartQuantityPlayers ?g1)
      (dealerPosition g) (currentSmallBlind ?g1) (gameStartCash ?g1) = Inr h"
    "turns_ok T d (start_on_server h)" "map myUniqueID (seats h) = map myUniqueID (seatsList (game_board g))"
    "activePlayerList (board h) = [0, 1]"
    using opening_turns_ok [OF assms(2,3) d(1) sb, folded d(2)] by blast
  have two': "length (seats h) = 2" using h(3) two by (metis length_map)
  have "seated (board h)"
    using h(3,4) two' assms(3) by (simp add: seated_def between_hands_def)
  moreover have "uid h d = dealerPosition g" using map_uid_nth [OF h(3)] d two by simp
  ultimately obtain s where s: "next_dealer (dealerPosition g) (board h) = Inr (uid h s)" "s < 2"
    using next_dealer_spec [of "board h" d] two' d(1) h(4) by auto
  then have "initHand deck minutes g = Inr (?g1\<lparr>currentHand := Some h, dealerPosition := uid h s\<rparr>)"
    using h(1) by (simp add: initHand_def Let_def gb)
  moreover have "uid h s \<in> set (map myUniqueID (seats h))" using s(2) two' by simp
  ultimately show ?thesis unfolding g1_def using h bp by blast
qed

lemma initHand_turns_ok:
  assumes "deck_ok deck" "between_hands T (game_board g)" "blinds_pos g"
    and "dealerPosition g \<in> set (map myUniqueID (seatsList (game_board g)))"
  shows "\<exists>g' h d. initHand deck minutes g = Inr g' \<and> currentHand g' = Some h \<and> turns_ok T d (start_on_server h)"
  using initHand_dealt [OF assms, of minutes] by auto

section \<open>No step fails\<close>

lemma reached_turns:
  assumes "deck_ok deck" "between_hands T (game_board g)" "blinds_pos g" "T < 2 ^ 31"
    and "dealerPosition g \<in> set (map myUniqueID (seatsList (game_board g)))"
    and "initHand deck minutes g = Inr g'" "currentHand g' = Some h"
    and "server_steps (Looping, start_on_server h) s"
  shows "\<exists>d. phase_turns T d s"
proof -
  obtain d where "turns_ok T d (start_on_server h)"
    using initHand_turns_ok [OF assms(1-3,5), of minutes] assms(6,7) by auto
  then have "phase_turns T d (Looping, start_on_server h)" by (simp add: phase_turns_def)
  from server_steps_turns [OF assms(8) this assms(4)] show ?thesis ..
qed

text \<open>A two-player hand never throws. From two players with cash, legal blinds and the dealer at
  the table, \<open>initHand\<close> succeeds with any shuffled deck, and in every state that the hand reaches the
  engine loop, whoever is connected, and the timeout of the player it waits for succeed: no player,
  round or dealer is ever missing and the rounds only go forward.\<close>

theorem hand_never_fails:
  assumes "deck_ok deck" "between_hands T (game_board g)" "blinds_pos g" "T < 2 ^ 31"
    and "dealerPosition g \<in> set (map myUniqueID (seatsList (game_board g)))"
  shows "\<exists>g' h. initHand deck minutes g = Inr g' \<and> currentHand g' = Some h \<and>
    (\<forall>h' connected. server_steps (Looping, start_on_server h) (Looping, h') \<longrightarrow>
       (\<exists>res. EngineLoop connected h' = Inr res)) \<and>
    (\<forall>h'. server_steps (Looping, start_on_server h) (Waiting, h') \<longrightarrow> (\<exists>h''. player_timeout h' = Inr h''))"
proof -
  obtain g' h where gh: "initHand deck minutes g = Inr g'" "currentHand g' = Some h"
    using initHand_turns_ok [OF assms(1-3,5)] by blast
  note r = reached_turns [OF assms gh]
  have "\<exists>res. EngineLoop connected h' = Inr res"
    if s: "server_steps (Looping, start_on_server h) (Looping, h')" for h' connected
    using r [OF s] EngineLoop_turns [OF _ assms(4), of _ h' connected] by (auto simp: phase_turns_def)
  moreover have "\<exists>h''. player_timeout h' = Inr h''"
    if s: "server_steps (Looping, start_on_server h) (Waiting, h')" for h'
    using r [OF s] player_timeout_turns [of T _ h'] by (auto simp: phase_turns_def)
  ultimately show ?thesis using gh by blast
qed

section \<open>The rounds after the flop\<close>

text \<open>C32: A two-player hand gets past the flop only all in. \<open>LocalBeRo::run\<close> gives the turn back to the
  player before the big blind on every call of the first round, so that the big blind is asked
  again and again and the first round of the flop does not end while both players run: whenever a
  hand is in the turn or the river, the all-in condition holds.\<close>

theorem turn_only_all_in:
  assumes "deck_ok deck" "between_hands T (game_board g)" "blinds_pos g" "T < 2 ^ 31"
    and "dealerPosition g \<in> set (map myUniqueID (seatsList (game_board g)))"
    and "initHand deck minutes g = Inr g'" "currentHand g' = Some h"
    and "server_steps (Looping, start_on_server h) (phase, h')" "phase \<noteq> Over"
    and "currentRound h' = GAME_STATE_TURN \<or> currentRound h' = GAME_STATE_RIVER"
  shows "handAllInCondition h'"
proof -
  obtain d where "phase_turns T d (phase, h')" using reached_turns [OF assms(1-8)] ..
  then have "turns_ok T d h'"
    using assms(9) by (cases phase) (auto simp: phase_turns_def turn_given_def)
  then show ?thesis using assms(10) by (auto simp: turns_ok_def betting_ok_def split: if_splits)
qed

section \<open>The run-out\<close>

lemma all_in_step:
  assumes "turns_ok T sb h" "handAllInCondition h" "T < 2 ^ 31"
  shows "(if next_round (currentRound h) = GAME_STATE_POST_RIVER then \<exists>h'. EngineLoop connected h = Inr (HandOver h')
    else \<exists>h'. EngineLoop connected h = Inr (NextLoop h') \<and> turns_ok T sb h' \<and> handAllInCondition h' \<and>
           currentRound h' = next_round (currentRound h))"
proof -
  have loop: "loop_ok T h" and inv: "table_inv T (board h)" "unfolded (board h) = 2"
    "currentRound h < GAME_STATE_POST_RIVER"
    using assms(1,2) by (simp_all add: turns_ok_def loop_ok_def)
  let ?h1 = "switchRounds h"
  note s = switch_all_in [OF inv(1) assms(2) inv(2,3)]
  have run: "(if handAllInCondition ?h1 then Inr ?h1 else run_current ?h1) = Inr ?h1" using s(1) by simp
  note kept = run_or_stop_kept(1) [OF loop refl run]
  show ?thesis
  proof (cases "next_round (currentRound h) = GAME_STATE_POST_RIVER")
    case True
    then have "no_bets (board ?h1)" "table_inv T (board ?h1)" "1 \<le> unfolded (board ?h1)"
      using kept s(2) inv(2) by (simp_all add: hand_kept_def)
    from postRiverRun_pays [OF this(2,1) assms(3) this(3)] obtain h3 where "postRiverRun ?h1 = Inr h3" by blast
    then show ?thesis using True s by (simp add: EngineLoop_def Let_def)
  next
    case False
    have "\<not> currentRound ?h1 \<le> currentRound h" "currentRound ?h1 \<noteq> currentRound h"
      using next_round_greater [OF inv(3)] s(2) by auto
    then have e: "EngineLoop connected h = Inr (NextLoop (show_all_in ?h1))"
      using False s by (simp add: EngineLoop_def Let_def)
    have "turns_ok T sb (show_all_in ?h1)"
      using EngineLoop_result [OF e assms(1,3)] by (simp add: turn_result_def)
    moreover have "handAllInCondition (show_all_in ?h1)" "currentRound (show_all_in ?h1) = next_round (currentRound h)"
      using s by (simp_all add: show_all_in_def)
    ultimately show ?thesis using e False by auto
  qed
qed

text \<open>\<open>n\<close> runs of the loop, as long as it asks for another one.\<close>

fun loops :: "nat \<Rightarrow> (nat \<Rightarrow> bool) \<Rightarrow> local_hand \<Rightarrow> server_error + loop_result" where
  "loops 0 connected h = Inr (NextLoop h)"
| "loops (Suc n) connected h =
    (case EngineLoop connected h of
       Inr (NextLoop h') \<Rightarrow> loops n connected h'
     | other \<Rightarrow> other)"

lemma all_in_loops:
  assumes "turns_ok T sb h" "handAllInCondition h" "T < 2 ^ 31"
    and "state_code GAME_STATE_POST_RIVER - state_code (currentRound h) \<le> n"
  shows "\<exists>h'. loops n connected h = Inr (HandOver h')"
  using assms(1,2,4)
proof (induction n arbitrary: h)
  case 0
  then have "currentRound h < GAME_STATE_POST_RIVER" by (simp add: turns_ok_def loop_ok_def)
  then show ?case using 0(3) by (simp add: less_GameState_def)
next
  case (Suc n)
  have less: "currentRound h < GAME_STATE_POST_RIVER" using Suc.prems(1) by (simp add: turns_ok_def loop_ok_def)
  note st = all_in_step [OF Suc.prems(1,2) assms(3), of connected]
  show ?case
  proof (cases "next_round (currentRound h) = GAME_STATE_POST_RIVER")
    case True
    then show ?thesis using st by auto
  next
    case False
    then obtain h' where h': "EngineLoop connected h = Inr (NextLoop h')" "turns_ok T sb h'" "handAllInCondition h'"
      "currentRound h' = next_round (currentRound h)" using st by auto
    have "state_code GAME_STATE_POST_RIVER - state_code (currentRound h') \<le> n"
      using next_round_greater [OF less] Suc.prems(3) h'(4) by (simp add: less_GameState_def)
    with Suc.IH [OF h'(2,3)] h'(1) show ?thesis by simp
  qed
qed

text \<open>C31: When the betting is over because of the all-ins, the hand ends by itself: from any state of the
  loop that a two-player hand reaches with the all-in condition, four runs of the engine loop deal
  the remaining rounds, distribute the pot and finish the hand, without any request.\<close>

theorem all_in_runs_out:
  assumes "deck_ok deck" "between_hands T (game_board g)" "blinds_pos g" "T < 2 ^ 31"
    and "dealerPosition g \<in> set (map myUniqueID (seatsList (game_board g)))"
    and "initHand deck minutes g = Inr g'" "currentHand g' = Some h"
    and "server_steps (Looping, start_on_server h) (Looping, h')" "handAllInCondition h'"
  shows "\<exists>h''. loops 4 connected h' = Inr (HandOver h'')"
proof -
  obtain d where "phase_turns T d (Looping, h')" using reached_turns [OF assms(1-8)] ..
  then have "turns_ok T d h'" by (simp add: phase_turns_def)
  from all_in_loops [OF this assms(9,4)] show ?thesis by (simp add: state_code_def)
qed

section \<open>Examples\<close>

text \<open>A hand with an all-in before the flop: the small blind moves all in, the big blind calls, and the
  loop runs twice more.\<close>

definition next_loop :: "local_hand \<Rightarrow> local_hand option" where
  "next_loop h = (case EngineLoop (\<lambda>_. True) h of Inr (NextLoop h') \<Rightarrow> Some h' | _ \<Rightarrow> None)"

definition waits :: "local_hand \<Rightarrow> local_hand option" where
  "waits h = (case EngineLoop (\<lambda>_. True) h of Inr (WaitPlayerAction h') \<Rightarrow> Some h' | _ \<Rightarrow> None)"

definition requested :: "nat \<Rightarrow> int \<Rightarrow> local_hand \<Rightarrow> local_hand option" where
  "requested u action h =
    (case handle_action_request 1 u \<lparr>req_gameid = 1, req_gamestate = 0, req_action = action, req_bet = 0\<rparr> h of
       Inr (Accepted h') \<Rightarrow> Some h' | _ \<Rightarrow> None)"

definition turn_hand :: "local_hand option" where
  "turn_hand = Option.bind (requested 9 6 waiting_hand) (\<lambda>h1. Option.bind (waits h1) (\<lambda>h2.
     Option.bind (requested 7 3 h2) (\<lambda>h3. Option.bind (next_loop h3) next_loop)))"

lemma turn_hand_steps:
  assumes "turn_hand = Some h"
  shows "server_steps (Waiting, waiting_hand) (Looping, h)"
proof -
  have steps: "requested u a k = Some k' \<Longrightarrow> server_step (Waiting, k) (Looping, k')"
    "waits k = Some k' \<Longrightarrow> server_step (Looping, k) (Waiting, k')"
    "next_loop k = Some k' \<Longrightarrow> server_step (Looping, k) (Looping, k')" for u a k k'
    by (auto simp: requested_def waits_def next_loop_def intro: server_step.intros
        split: sum.splits reply.splits loop_result.splits)
  obtain h1 h2 h3 h4 where "requested 9 6 waiting_hand = Some h1" "waits h1 = Some h2"
    "requested 7 3 h2 = Some h3" "next_loop h3 = Some h4" "next_loop h4 = Some h"
    using assms by (auto simp: turn_hand_def bind_eq_Some_conv)
  note this(1) [THEN steps(1)] this(2) [THEN steps(2)] this(3) [THEN steps(1)] this(4,5) [THEN steps(3)]
  then show ?thesis by (meson converse_rtranclp_into_rtranclp rtranclp.rtrancl_refl)
qed

lemma sample_dealer: "dealerPosition sample_game \<in> set (map myUniqueID (seatsList (game_board sample_game)))"
  by code_simp

lemma sample_blinds: "blinds_pos sample_game"
  by code_simp

lemma sample_waiting: "server_steps (Looping, start_on_server dealt_hand) (Waiting, waiting_hand)"
  using sample_hand_steps(1,2) by (auto intro!: r_into_rtranclp server_step.wait)

theorem hand_never_fails_witness:
  "\<exists>h res. server_steps (Looping, start_on_server h) (Looping, start_on_server h) \<and>
     EngineLoop (\<lambda>_. False) (start_on_server h) = Inr res"
  using hand_never_fails [OF sorted_deck_ok sample_game_ok sample_blinds _ sample_dealer] by fastforce

lemma turn_hand_defined:
  obtains h where "turn_hand = Some h" "currentRound h = GAME_STATE_TURN" "handAllInCondition h"
    "server_steps (Looping, start_on_server dealt_hand) (Looping, h)"
proof -
  have "case turn_hand of None \<Rightarrow> False | Some h \<Rightarrow> currentRound h = GAME_STATE_TURN \<and> handAllInCondition h"
    by code_simp
  then obtain h where h: "turn_hand = Some h" "currentRound h = GAME_STATE_TURN" "handAllInCondition h"
    by (auto split: option.splits)
  moreover have "server_steps (Looping, start_on_server dealt_hand) (Looping, h)"
    using sample_waiting turn_hand_steps [OF h(1)] by (rule rtranclp_trans)
  ultimately show thesis by (rule that)
qed

theorem turn_only_all_in_witness:
  "\<exists>h :: local_hand. currentRound h = GAME_STATE_TURN \<and> handAllInCondition h"
proof -
  obtain h where h: "currentRound h = GAME_STATE_TURN"
    "server_steps (Looping, start_on_server dealt_hand) (Looping, h)" by (rule turn_hand_defined)
  obtain g where g: "initHand sorted_deck 0 sample_game = Inr g" "currentHand g = Some dealt_hand"
    using sample_game_dealt by (auto split: sum.splits)
  from turn_only_all_in [OF sorted_deck_ok sample_game_ok sample_blinds _ sample_dealer g h(2)] h(1)
  have "handAllInCondition h" by simp
  with h show ?thesis by blast
qed

theorem all_in_runs_out_witness:
  "\<exists>h h'. server_steps (Looping, start_on_server dealt_hand) (Looping, h) \<and>
     loops 4 (\<lambda>_. True) h = Inr (HandOver h')"
proof -
  obtain h where h: "handAllInCondition h"
    "server_steps (Looping, start_on_server dealt_hand) (Looping, h)" by (rule turn_hand_defined)
  obtain g where g: "initHand sorted_deck 0 sample_game = Inr g" "currentHand g = Some dealt_hand"
    using sample_game_dealt by (auto split: sum.splits)
  from all_in_runs_out [OF sorted_deck_ok sample_game_ok sample_blinds _ sample_dealer g h(2,1)] h(2)
  show ?thesis by auto
qed

end
