(* ===== verification/Lineup.thy ===== *)
theory Lineup
  imports Hand_Progress
begin

text \<open>
  Who sits at the table: no step of the server changes the players' ids, names, types, activity,
  hole cards or the cash they began the hand with, nor the list of the active players and the cards
  of the board. Only chips, actions and turns change during a hand.
\<close>

section \<open>The identity of a seat\<close>

type_synonym identity = "nat \<times> PlayerType \<times> string \<times> bool \<times> int \<times> int list"

definition who :: "local_player \<Rightarrow> identity" where
  "who p = (myUniqueID p, myType p, myName p, myActiveStatus p, myRoundStartCash p, myCards p)"

definition lineup :: "table \<Rightarrow> identity list \<times> nat list \<times> int list" where
  "lineup t = (map who (seatsList t), activePlayerList t, boardCards t)"

lemma who_updates [simp]:
  "who (p\<lparr>myAction := a\<rparr>) = who p" "who (p\<lparr>myTurn := b\<rparr>) = who p"
  "who (p\<lparr>myIsSessionActive := b\<rparr>) = who p" "who (setMySet v p) = who p"
  "who (setMySetNull p) = who p" "who (setMyAggressive b p) = who p"
  "who (award v p) = who p" "who (reset_won p) = who p"
  by (simp_all add: who_def setMySet_def setMySetNull_def setMyAggressive_def award_def reset_won_def Let_def)

lemma map_who_update_seat [simp]:
  "(\<And>p. who (f p) = who p) \<Longrightarrow> map who (update_seat i f ps) = map who ps"
  by (simp add: update_seat_def map_update) (metis list_update_id nth_map list_update_beyond not_le length_map)

lemma lineup_on_seat [simp]: "(\<And>p. who (f p) = who p) \<Longrightarrow> lineup (on_seat i f t) = lineup t"
  by (simp add: lineup_def on_seat_def)

lemma lineup_more [simp]:
  "lineup (t\<lparr>runningPlayerList := xs\<rparr>) = lineup t" "lineup (t\<lparr>allInCondition := c\<rparr>) = lineup t"
  "lineup (t\<lparr>lastActionPlayerID := u\<rparr>) = lineup t" "lineup (t\<lparr>pot := n\<rparr>) = lineup t"
  "lineup (t\<lparr>winners := ws\<rparr>) = lineup t" "lineup (collectSets t) = lineup t" "lineup (collectPot t) = lineup t"
  by (simp_all add: lineup_def collectSets_def collectPot_def o_def)

lemma lineup_fold:
  "(\<And>i t. lineup (f i t) = lineup t) \<Longrightarrow> lineup (fold f xs t) = lineup t"
  by (induction xs arbitrary: t) simp_all

lemma lineup_collect_round [simp]: "lineup (collect_round t) = lineup t"
  by (simp add: collect_round_def clear_actions_def lineup_fold)

section \<open>The betting\<close>

definition lineup_of :: "local_hand \<Rightarrow> identity list \<times> nat list \<times> int list" where
  "lineup_of h = lineup (board h)"

lemma lineup_of_updates [simp]:
  "lineup_of (update_bero r f h) = lineup_of h" "lineup_of (set_all_in h) = lineup_of h"
  "lineup_of (remember_round h) = lineup_of h" "lineup_of (h\<lparr>currentRound := r\<rparr>) = lineup_of h"
  "lineup_of (h\<lparr>previousPlayerID := u\<rparr>) = lineup_of h" "lineup_of (h\<lparr>cardsShown := c\<rparr>) = lineup_of h"
  "lineup_of (setLastActionPlayerID v h) = lineup_of h"
  by (simp_all add: lineup_of_def update_bero_def setLastActionPlayerID_def remember_round_def)

lemma lineup_of_on_board [simp]: "lineup (f (board h)) = lineup (board h) \<Longrightarrow> lineup_of (on_board f h) = lineup_of h"
  by (simp add: lineup_of_def)

lemma lineup_switchRounds [simp]: "lineup_of (switchRounds h) = lineup_of h"
proof -
  have "lineup_of (refresh_runners h) = lineup_of h"
    by (simp add: refresh_runners_def Let_def split: prod.split option.split)
  moreover have "lineup_of (detect_end h) = lineup_of h" for h by (simp add: detect_end_def)
  moreover have "lineup_of (all_in_routine h) = lineup_of h" for h by (simp add: all_in_routine_def Let_def)
  ultimately show ?thesis by (simp add: switchRounds_def)
qed

lemma lineup_give_turn: "give_turn r h = Inr h' \<Longrightarrow> lineup_of h' = lineup_of h"
  by (auto simp: give_turn_def split: option.splits)

lemma lineup_run_round: "run_round r h = Inr h' \<Longrightarrow> lineup_of h' = lineup_of h"
  by (auto simp: run_round_def finish_round_def Let_def map_sum_Inr dest!: lineup_give_turn
      split: if_splits sum.splits)

lemma lineup_preflop_turn: "preflop_turn h = Inr h' \<Longrightarrow> lineup_of h' = lineup_of h"
  by (auto simp: preflop_turn_def Let_def dest!: lineup_give_turn split: if_splits sum.splits)

lemma lineup_run_preflop: "run_preflop h = Inr h' \<Longrightarrow> lineup_of h' = lineup_of h"
  by (auto simp: run_preflop_def Let_def dest!: lineup_preflop_turn split: if_splits sum.splits option.splits)

lemma lineup_run_current: "run_current h = Inr h' \<Longrightarrow> lineup_of h' = lineup_of h"
  by (auto simp: run_current_def dest: lineup_run_preflop lineup_run_round split: GameState.splits)

lemma lineup_PerformPlayerAction [simp]: "lineup_of (PerformPlayerAction i a bet h) = lineup_of h"
proof -
  have "lineup_of (update_round a bet p h) = lineup_of h" for a p h
    by (simp add: update_round_def Let_def split: PlayerAction.split)
  then show ?thesis by (simp add: PerformPlayerAction_def Let_def)
qed

section \<open>The end of the hand\<close>

lemma mark_only_player_frame:
  assumes "\<And>b p. view (setMyAggressive b p) = view p"
  shows "map view (seatsList (mark_only_player t)) = map view (seatsList t)"
    "view (seatsList (mark_only_player t) ! i) = view (seatsList t ! i)"
    "activePlayerList (mark_only_player t) = activePlayerList t"
proof -
  let ?step = "\<lambda>i t. if myAction (seatsList t ! i) \<noteq> PLAYER_ACTION_FOLD
                     then on_seat i (setMyAggressive True) t else t"
  have nth: "view (update_seat k (setMyAggressive True) ps ! i) = view (ps ! i)" for k ps
    by (cases "k < length ps"; cases "i = k")
       (simp_all add: update_seat_def assms list_update_beyond)
  have "map view (seatsList (fold ?step xs t)) = map view (seatsList t) \<and>
      view (seatsList (fold ?step xs t) ! i) = view (seatsList t ! i) \<and>
      activePlayerList (fold ?step xs t) = activePlayerList t" for xs
    by (induction xs arbitrary: t) (simp_all add: map_update_seat assms nth)
  then show "map view (seatsList (mark_only_player t)) = map view (seatsList t)"
    "view (seatsList (mark_only_player t) ! i) = view (seatsList t ! i)"
    "activePlayerList (mark_only_player t) = activePlayerList t"
    by (simp_all add: mark_only_player_def)
qed

text \<open>What the distribution of the pot does not change: any view of a player that awards keep.\<close>

locale award_view =
  fixes view :: "local_player \<Rightarrow> 'a"
  assumes view_award: "view (award v p) = view p"
    and view_reset: "view (reset_won p) = view p"
begin

lemma view_seat [simp]: "map view (update_seat i (award v) ps) = map view ps"
  by (simp add: map_update_seat view_award)

lemma view_award_each: "award_each share ids (ps, ws) = Inr (ps', ws') \<Longrightarrow> map view ps' = map view ps"
  by (induction ids arbitrary: ps ws) (fastforce split: option.splits)+

lemma view_award_after: "award_after ids share m js it (ps, ws) = (ps', ws') \<Longrightarrow> map view ps' = map view ps"
proof (induction js arbitrary: it ps ws)
  case (Cons j js)
  obtain it' b where "next_winner MAX_NUMBER_OF_PLAYERS ids ps it = (it', b)" by fastforce
  then show ?case using Cons by (cases b) fastforce+
qed simp

lemma view_pot_level: "pot_level d i s = Inr s' \<Longrightarrow> map view (lv_seats s') = map view (lv_seats s)"
  by (auto simp: pot_level_def distribute_level_def reevaluate_sets_def Let_def map_sum_Inr
      dest: view_award_each view_award_after split: if_splits sum.splits option.splits prod.splits)

lemma view_pot_levels: "pot_levels d is s = Inr s' \<Longrightarrow> map view (lv_seats s') = map view (lv_seats s)"
  by (induction "is" arbitrary: s) (auto dest: view_pot_level split: sum.splits)

lemma view_distributePot:
  assumes "distributePot d t = Inr t'"
  shows "map view (seatsList t') = map view (seatsList t)"
proof -
  let ?s = "\<lparr>lv_seats = map reset_won (seatsList t), lv_pot = pot t, lv_winners = [],
             playerSets = map player_contribution (seatsList t), potCarryOver = 0\<rparr>"
  obtain s' where s': "pot_levels d [0..<length (seatsList t)] ?s = Inr s'" and t': "t' = settle_rest s' t"
    using assms by (auto simp: distributePot_def Let_def map_sum_Inr)
  have "map view (lv_seats s') = map view (seatsList t)" using view_pot_levels [OF s'] by (simp add: o_def view_reset)
  moreover have "map view (seatsList (settle_rest s' t)) = map view (lv_seats s')"
    by (simp add: settle_rest_def Let_def split: option.split)
  ultimately show ?thesis unfolding t' by simp
qed

end

interpretation identity_view: award_view who
  by unfold_locales simp_all

interpretation action_view: award_view myAction
  by unfold_locales (simp_all add: award_def reset_won_def)

lemma distributePot_frame:
  assumes "distributePot d t = Inr t'"
  shows "activePlayerList t' = activePlayerList t" "boardCards t' = boardCards t"
    "playerNeedToShowCards t' = playerNeedToShowCards t"
  using assms by (auto simp: distributePot_def settle_rest_def Let_def map_sum_Inr)

lemma lineup_distributePot: "distributePot d t = Inr t' \<Longrightarrow> lineup t' = lineup t"
  using identity_view.view_distributePot by (simp add: lineup_def distributePot_frame)

lemma lineup_postRiverRun: "postRiverRun h = Inr h' \<Longrightarrow> lineup_of h' = lineup_of h"
proof -
  have d: "lineup (determinePlayerNeedToShowCards t) = lineup t" for t
    by (simp add: lineup_def determinePlayerNeedToShowCards_def Let_def split: option.split)
  have m: "lineup (mark_only_player t) = lineup t" for t
    by (simp add: mark_only_player_def lineup_fold)
  show "lineup_of h' = lineup_of h" if "postRiverRun h = Inr h'"
    using that by (auto simp: postRiverRun_def lineup_of_def d m dest!: lineup_distributePot split: sum.splits)
qed

lemma postRiverRun_shows:
  assumes "postRiverRun h = Inr h'"
  shows "map myAction (seats h') = map myAction (seats h)"
    "playerNeedToShowCards (board h') = remdups (sort (showdown_ids (active_players (board h))))"
proof -
  let ?t = "mark_only_player (board h)"
  obtain t where t: "distributePot (beroDealerPosition (bero_of GAME_STATE_POST_RIVER h))
      (determinePlayerNeedToShowCards ?t) = Inr t"
    and h': "board h' = t\<lparr>pot := 0\<rparr>"
    using assms by (auto simp: postRiverRun_def split: sum.splits)
  have m: "myAction (setMyAggressive b p) = myAction p" "myUniqueID (setMyAggressive b p) = myUniqueID p" for b p
    by (simp_all add: setMyAggressive_def)
  note frame = mark_only_player_frame [of myAction, OF m(1)] mark_only_player_frame [of myUniqueID, OF m(2)]
  show "map myAction (seats h') = map myAction (seats h)"
    using action_view.view_distributePot [OF t] by (simp add: h' determine_fields frame)
  have "showdown_ids (active_players ?t) = showdown_ids (active_players (board h))"
    by (simp add: showdown_ids_def active_players_def frame filter_map o_def)
  then show "playerNeedToShowCards (board h') = remdups (sort (showdown_ids (active_players (board h))))"
    using distributePot_frame(3) [OF t] by (simp add: h' everybody_shows)
qed

section \<open>The steps of the server\<close>

definition result_hand :: "loop_result \<Rightarrow> local_hand" where
  "result_hand res = (case res of
     NextLoop h \<Rightarrow> h | WaitPlayerAction h \<Rightarrow> h | ComputerAction h \<Rightarrow> h | HandOver h \<Rightarrow> h)"

lemma lineup_EngineLoop:
  assumes "EngineLoop connected h = Inr res"
  shows "lineup_of (result_hand res) = lineup_of h"
proof -
  have c: "lineup_of (result_hand res) = lineup_of h" if "continue_hand connected h = Inr res" for h res
    using that by (auto simp: continue_hand_def result_hand_def Let_def split: if_splits sum.splits)
  have s: "lineup_of (show_all_in h) = lineup_of h" for h by (simp add: show_all_in_def)
  obtain h2 where run: "(if handAllInCondition (switchRounds h) then Inr (switchRounds h)
      else run_current (switchRounds h)) = Inr h2"
    using assms by (auto simp: EngineLoop_def Let_def split: sum.splits)
  then have h2: "lineup_of h2 = lineup_of h"
    using lineup_run_current [of "switchRounds h" h2] by (auto split: if_splits)
  have "lineup_of (result_hand res) = lineup_of h2"
    using assms c [of h2] unfolding EngineLoop_def Let_def run
    by (auto simp: result_hand_def s dest: lineup_postRiverRun split: if_splits sum.splits)
  with h2 show ?thesis by simp
qed

lemma lineup_server_step:
  assumes "server_step s s'"
  shows "lineup_of (snd s') = lineup_of (snd s)"
  using assms
proof cases
  case (request gameId uid q h h')
  then show ?thesis
    by (auto simp: handle_action_request_def Let_def split: if_splits option.splits sum.splits)
next
  case (timeout h h')
  then show ?thesis by (auto simp: player_timeout_def split: sum.splits)
qed (auto simp: result_hand_def dest!: lineup_EngineLoop)

lemma lineup_server_steps: "server_steps s s' \<Longrightarrow> lineup_of (snd s') = lineup_of (snd s)"
  by (induction rule: rtranclp_induct) (auto dest: lineup_server_step)

end
