(* ===== verification/Hand_Flags.thy ===== *)
theory Hand_Flags
  imports Lineup Server_Game
begin

text \<open>
  What the server changes at a seat while a hand is played: whether the session is active, and
  whether the player is muted or kicked and may come back. None of it touches the hand: the
  invariants of the hand hold on, by a locale that every such change instantiates.
\<close>

section \<open>Changes of the flags of a seat\<close>

locale flag_op = quiet_op +
  assumes op_action: "myAction (f p) = myAction p"
    and op_who: "who (f p) = who p"
    and op_cash: "myCash (f p) = myCash p"
begin

lemma flag_same_seats: "same_seats h (on_board (on_seat i f) h)"
  by (simp add: same_seats_def map_update_seat op_uid op_action op_set)

lemma flag_table_inv: "table_inv T t \<Longrightarrow> table_inv T (on_seat i f t)"
  by (simp add: table_inv_def on_seat_money on_seat_sets)

lemma flag_loop_ok: "loop_ok T h \<Longrightarrow> loop_ok T (on_board (on_seat i f) h)"
  by (simp add: loop_ok_def flag_table_inv unfolded_frame op_action)

lemma flag_paid_out:
  assumes "paid_out T h"
  shows "paid_out T (on_board (on_seat i f) h)"
proof -
  have "list_all (\<lambda>p. 0 \<le> myCash p \<and> mySet p = 0) (update_seat i f (seats h))"
    using assms by (intro list_all_update_seat) (simp_all add: paid_out_def op_cash op_set)
  moreover have "map myCash (update_seat i f (seats h)) = map myCash (seats h)"
    by (simp add: map_update_seat op_cash)
  ultimately show ?thesis using assms by (simp add: paid_out_def on_seat_def)
qed

lemma flag_between_hands:
  assumes "between_hands T t"
  shows "between_hands T (on_seat i f t)"
proof -
  have "list_all (\<lambda>p. 0 < myCash p \<and> mySet p = 0 \<and> myActiveStatus p) (update_seat i f (seatsList t))"
    using assms op_who by (intro list_all_update_seat) (simp_all add: between_hands_def op_cash op_set who_def)
  then show ?thesis
    using assms by (simp add: between_hands_def on_seat_def map_update_seat op_cash op_uid)
qed

lemma flag_lineup: "lineup_of (on_board (on_seat i f) h) = lineup_of h"
  by (simp add: op_who)

lemma flag_turns:
  assumes "turns_ok T sb h"
  shows "turns_ok T sb (on_board (on_seat i f) h)"
    and "turn_given T sb h \<Longrightarrow> turn_given T sb (on_board (on_seat i f) h)"
proof -
  let ?h = "on_board (on_seat i f) h"
  have t: "loop_ok T h" "rounds_ok sb h" "\<not> handAllInCondition h \<Longrightarrow> betting_ok sb h"
    using assms by (simp_all add: turns_ok_def)
  have two: "length (seats h) = 2" and sb: "sb < 2" using t(1,2) by (simp_all add: loop_ok_def table_inv_def rounds_ok_def)
  note same = flag_same_seats [of h i] and n = same_seats_nth [OF flag_same_seats [of h i]]
  have u: "unfolded (board ?h) = unfolded (board h)" by (simp add: unfolded_frame op_action)
  have loop: "loop_ok T ?h" using t(1) by (rule flag_loop_ok)
  have rounds: "rounds_ok sb ?h" by (rule rounds_ok_same [OF t(2)]) (use n(1) two in simp_all)
  have turn: "turn_running ?h = turn_running h" "turn_id ?h = turn_id h" if "betting_ok sb h"
  proof -
    have "runningPlayerList (board h) \<in> {[0, 1], [0], [1]}" using that by (simp add: betting_ok_def running_ok_def)
    then show "turn_running ?h = turn_running h" "turn_id ?h = turn_id h"
      using n(1) two by (auto simp: turn_running_def)
  qed
  have betting: "betting_ok sb ?h" if b: "betting_ok sb h"
  proof -
    have "running_ok ?h" using running_ok_same [OF same two] b by (simp add: betting_ok_def)
    moreover have "flop_ok sb ?h = flop_ok sb h" using n(4) [of sb] two sb turn [OF b] by (simp add: flop_ok_def)
    ultimately show ?thesis using b turn [OF b] by (simp add: betting_ok_def)
  qed
  show ok: "turns_ok T sb ?h" using assms loop rounds betting u by (simp add: turns_ok_def)
  show "turn_given T sb ?h" if g: "turn_given T sb h"
  proof -
    have b: "betting_ok sb h" using g t(3) by (simp add: turn_given_def)
    show ?thesis using g ok u turn [OF b] n(1) [of "1 - sb"] two by (simp add: turn_given_def)
  qed
qed

lemma flag_phase: "phase_turns T sb (ph, h) \<Longrightarrow> phase_turns T sb (ph, on_board (on_seat i f) h)"
  using flag_turns by (cases ph) (auto simp: phase_turns_def turn_given_def)

lemma flag_phase_ok: "phase_ok T (ph, h) \<Longrightarrow> phase_ok T (ph, on_board (on_seat i f) h)"
  using flag_loop_ok flag_paid_out
  by (cases ph) (auto simp: phase_ok_def waiting_ok_def unfolded_frame op_action)

end

interpretation session_flag: flag_op "\<lambda>p. p\<lparr>myIsSessionActive := b\<rparr>" for b
  by unfold_locales simp_all

interpretation muted_flag: flag_op "\<lambda>p. p\<lparr>myIsMuted := b\<rparr>" for b
  by unfold_locales (simp_all add: seat_ok_def chips_def who_def)

interpretation kicked_flag: flag_op mark_kicked
  by unfold_locales (simp_all add: seat_ok_def chips_def who_def mark_kicked_def)

end
