(* ===== verification/Crypt_Helper.thy ===== *)
theory Crypt_Helper
  imports Poker_Prelude "HOL-Library.Word" "HOL-Library.Char_ord"
begin

text \<open>
  The helpers around the cryptographic library (\<open>src/src/core/crypthelper.cpp\<close>): hash buffers and their
  text, the key derivation, the padding and the encryption of a text under a password. The library
  itself (SHA-1 and AES-128 in CBC mode of OpenSSL or gcrypt) is a record of functions; bytes are
  characters.
\<close>

unbundle bit_operations_syntax

section \<open>Hash buffers\<close>

definition MD5_DATA_SIZE :: nat where "MD5_DATA_SIZE = 16"
definition SHA1_DATA_SIZE :: nat where "SHA1_DATA_SIZE = 20"

definition fromHex :: "char \<Rightarrow> int" where
  "fromHex ch =
    (let c = of_char ch :: nat in
     if 48 \<le> c \<and> c \<le> 57 then int c - 48
     else if 97 \<le> c \<and> c \<le> 102 then int c - 97 + 10
     else if 65 \<le> c \<and> c \<le> 70 then int c - 65 + 10
     else -1)"

definition hex_digit :: "nat \<Rightarrow> char" where
  "hex_digit n = (if n < 10 then char_of (48 + n) else char_of (87 + n))"

definition hash_ToString :: "string \<Rightarrow> string" where
  "hash_ToString h = concat (map (\<lambda>c. [hex_digit (of_char c div 16), hex_digit (of_char c mod 16)]) h)"

text \<open>\<open>FromString\<close> overwrites the buffer byte by byte and stops at the first character that is no digit.\<close>

fun read_hex :: "string \<Rightarrow> string \<Rightarrow> bool \<times> string" where
  "read_hex [] t = (True, [])"
| "read_hex (d # ds) (a # b # t) =
    (if fromHex a = -1 \<or> fromHex b = -1 then (False, d # ds)
     else (let (ok, r) = read_hex ds t in (ok, char_of (nat (16 * fromHex a + fromHex b)) # r)))"
| "read_hex ds t = (False, ds)"

definition hash_FromString :: "string \<Rightarrow> string \<Rightarrow> bool \<times> string" where
  "hash_FromString t h = (if length t = 2 * length h then read_hex h t else (False, h))"

definition hash_IsZero :: "string \<Rightarrow> bool" where
  "hash_IsZero h = list_all (\<lambda>c. c = CHR 0x00) h"

text \<open>The comparison in constant time collects the differing bits of all bytes.\<close>

definition hash_equal :: "string \<Rightarrow> string \<Rightarrow> bool" where
  "hash_equal a b =
    (if length a \<noteq> length b then False
     else fold (\<lambda>(x, y) r. r OR (of_char x XOR of_char y)) (zip a b) (0 :: 8 word) = 0)"

lemma hex_digit_value: "n < 16 \<Longrightarrow> fromHex (hex_digit n) = int n"
  by (auto simp: fromHex_def hex_digit_def Let_def simp del: of_nat_of_char)

lemma hash_string_roundtrip: "length h0 = length h \<Longrightarrow> hash_FromString (hash_ToString h) h0 = (True, h)"
proof -
  have len: "length (hash_ToString h) = 2 * length h"
    by (simp add: hash_ToString_def length_concat o_def sum_list_triv)
  have "read_hex h0 (hash_ToString h) = (True, h)" if "length h0 = length h"
    using that
  proof (induction h arbitrary: h0)
    case (Cons c h)
    then obtain d ds where d: "h0 = d # ds" by (cases h0) auto
    have byte: "(of_char c :: nat) div 16 < 16" using nat_of_char_less_256 [of c] by linarith
    have digit: "16 * int (of_char c div 16) + int (of_char c mod 16) = int (of_char c)"
      by (metis of_nat_add of_nat_mult of_nat_numeral mult_div_mod_eq)
    have "read_hex ds (hash_ToString h) = (True, h)" using Cons d by simp
    then show ?case
      using byte by (simp add: hash_ToString_def d hex_digit_value digit del: of_nat_of_char)
  qed (simp add: hash_ToString_def)
  then show "length h0 = length h \<Longrightarrow> ?thesis" by (simp add: hash_FromString_def len)
qed

lemma or_zero_iff: "r OR s = 0 \<longleftrightarrow> r = 0 \<and> s = (0 :: 8 word)"
  by (auto simp: bit_eq_iff bit_or_iff)

lemma xor_zero_iff: "r XOR s = 0 \<longleftrightarrow> r = (s :: 8 word)"
  by (auto simp: bit_eq_iff bit_xor_iff)

lemma or_differing: "fold (\<lambda>(x, y) r. r OR (f x XOR f y)) xs r = 0 \<longleftrightarrow> r = (0 :: 8 word) \<and> (\<forall>(x, y) \<in> set xs. f x = f y)"
  by (induction xs arbitrary: r) (auto simp: or_zero_iff xor_zero_iff)

lemma byte_eq_iff: "of_char x = (of_char y :: 8 word) \<longleftrightarrow> x = y"
proof
  assume "of_char x = (of_char y :: 8 word)"
  then have "unat (of_nat (of_char x) :: 8 word) = unat (of_nat (of_char y) :: 8 word)"
    by (simp only: of_nat_of_char)
  then have "of_char x = (of_char y :: nat)"
    using nat_of_char_less_256 by (simp only: unat_of_nat) simp
  then show "x = y" by simp
qed simp

text \<open>Two hashes compare as equal exactly if all their bytes are.\<close>

lemma hash_equal_iff: "hash_equal a b \<longleftrightarrow> a = b"
  by (auto simp: hash_equal_def or_differing byte_eq_iff list_eq_iff_zip_eq)

section \<open>The library\<close>

text \<open>What the code uses of the library: the SHA-1 sum that is left in the buffer, and encryption and
  decryption with AES-128 in CBC mode without padding, from the key, the initial vector and bytes
  whose number is a multiple of the block size; \<open>None\<close> is a failure.\<close>

record crypt_library =
  libSHA1 :: "string \<Rightarrow> string"
  libCBCEncrypt :: "string \<Rightarrow> string \<Rightarrow> string \<Rightarrow> string option"
  libCBCDecrypt :: "string \<Rightarrow> string \<Rightarrow> string \<Rightarrow> string option"

definition AES_BLOCK_SIZE :: nat where "AES_BLOCK_SIZE = 16"

text \<open>The documented law of a block cipher in CBC mode: the cipher text has the length of the plain text,
  and decryption with the same key and the same initial vector gives the plain text back.\<close>

definition cbc_law :: "crypt_library \<Rightarrow> bool" where
  "cbc_law L \<longleftrightarrow> (\<forall>key iv s e. 16 dvd length s \<longrightarrow> libCBCEncrypt L key iv s = Some e \<longrightarrow>
     length e = length s \<and> libCBCDecrypt L key iv e = Some s)"

section \<open>Encryption under a password\<close>

definition ADD_PADDING :: "32 word \<Rightarrow> 32 word" where
  "ADD_PADDING x = (if x \<le> - 1 - 15 then push_bit 4 (drop_bit 4 (x + 15)) else 0)"

text \<open>\<open>BytesToKey\<close> hashes the password twice for the first 20 bytes, and that hash followed by the
  password twice for the next ones. \<open>None\<close> is the early return for a password of nearly
  4 GB, which leaves key and initial vector undefined.\<close>

definition BytesToKey :: "crypt_library \<Rightarrow> string \<Rightarrow> (string \<times> string) option" where
  "BytesToKey L keyData =
    (let keyBuf1 = libSHA1 L (libSHA1 L keyData) in
     if of_nat (length keyData) > (- 1 - of_nat SHA1_DATA_SIZE :: 32 word) then None
     else
       (let keyBuf2 = libSHA1 L (libSHA1 L (keyBuf1 @ keyData));
            tmpivBytes = SHA1_DATA_SIZE - AES_BLOCK_SIZE
        in Some (take AES_BLOCK_SIZE keyBuf1,
                 take tmpivBytes (drop AES_BLOCK_SIZE keyBuf1) @ take (AES_BLOCK_SIZE - tmpivBytes) keyBuf2)))"

text \<open>The two operations on a text; \<open>None\<close> is the result \<open>false\<close>. Sizes are \<open>unsigned\<close>.\<close>

definition AES128Encrypt :: "crypt_library \<Rightarrow> string \<Rightarrow> string \<Rightarrow> string option" where
  "AES128Encrypt L keyData plainStr =
    (let keySize = of_nat (length keyData) :: 32 word; plainSize = of_nat (length plainStr) :: 32 word in
     if of_nat AES_BLOCK_SIZE \<le> keySize \<and> plainSize \<noteq> 0 \<and> plainSize \<le> - 1 - 15 then
       (case BytesToKey L keyData of
          None \<Rightarrow> None
        | Some (key, iv) \<Rightarrow>
            (let paddedPlainSize = ADD_PADDING plainSize in
             if paddedPlainSize = 0 then None
             else libCBCEncrypt L key iv
                    (take (unat plainSize) plainStr @ replicate (unat paddedPlainSize - unat plainSize) CHR 0x00)))
     else None)"

definition AES128Decrypt :: "crypt_library \<Rightarrow> string \<Rightarrow> string \<Rightarrow> string option" where
  "AES128Decrypt L keyData cipher =
    (let keySize = of_nat (length keyData) :: 32 word; cipherSize = of_nat (length cipher) :: 32 word in
     if of_nat AES_BLOCK_SIZE \<le> keySize \<and> cipherSize \<noteq> 0 \<and> cipherSize mod of_nat AES_BLOCK_SIZE = 0 then
       (case BytesToKey L keyData of
          None \<Rightarrow> None
        | Some (key, iv) \<Rightarrow> map_option (takeWhile (\<lambda>c. c \<noteq> CHR 0x00)) (libCBCDecrypt L key iv cipher))
     else None)"

lemma padded_size:
  assumes "n < 2 ^ 32 - 15"
  shows "unat (ADD_PADDING (of_nat n)) = (n + 15) div 16 * 16"
    "(of_nat n :: 32 word) \<le> - 1 - 15" "unat (of_nat n :: 32 word) = n"
proof -
  show n: "unat (of_nat n :: 32 word) = n" using assms by (simp add: unat_of_nat)
  show small: "(of_nat n :: 32 word) \<le> - 1 - 15" using assms by (simp add: word_le_nat_alt n)
  have sum: "unat (of_nat n + 15 :: 32 word) = n + 15"
    using assms by (simp add: unat_word_ariths n)
  have "(n + 15) div 16 * 16 < 2 ^ 32" using assms by linarith
  then show "unat (ADD_PADDING (of_nat n)) = (n + 15) div 16 * 16"
    using small
    by (simp add: ADD_PADDING_def push_bit_eq_mult unat_word_ariths(2) unat_drop_bit_eq sum drop_bit_eq_div unat_div)
qed

text \<open>A text without the character 0 that was encrypted under a password is decrypted under it; the
  padding goes with it. Passwords of less than 16 bytes are refused.\<close>

lemma takeWhile_padding:
  "list_all (\<lambda>c. c \<noteq> CHR 0x00) s \<Longrightarrow> takeWhile (\<lambda>c. c \<noteq> CHR 0x00) (s @ replicate k CHR 0x00) = s"
  by (simp add: takeWhile_append2 list_all_iff takeWhile_replicate)

lemma encrypted_shape:
  assumes law: "cbc_law L" and e: "AES128Encrypt L pw s = Some e" and s: "length s < 2 ^ 32 - 15"
  obtains key iv k where "BytesToKey L pw = Some (key, iv)" "of_nat AES_BLOCK_SIZE \<le> (of_nat (length pw) :: 32 word)"
    "libCBCDecrypt L key iv e = Some (s @ replicate k CHR 0x00)" "e \<noteq> []" "16 dvd length e" "length e < 2 ^ 32"
proof -
  let ?n = "length s"
  let ?p = "s @ replicate ((?n + 15) div 16 * 16 - ?n) CHR 0x00"
  obtain key iv where k: "BytesToKey L pw = Some (key, iv)"
    and size: "of_nat AES_BLOCK_SIZE \<le> (of_nat (length pw) :: 32 word)" "(of_nat ?n :: 32 word) \<noteq> 0"
    and enc: "libCBCEncrypt L key iv ?p = Some e"
    using e padded_size [OF s] by (auto simp: AES128Encrypt_def Let_def split: if_splits option.splits)
  have n: "?n > 0" using size(2) by (cases s) auto
  have len: "length ?p = (?n + 15) div 16 * 16" by simp
  have "16 dvd length ?p" unfolding len by simp
  then have "length e = length ?p \<and> libCBCDecrypt L key iv e = Some ?p"
    using law enc unfolding cbc_law_def by blast
  then have e': "length e = (?n + 15) div 16 * 16" "libCBCDecrypt L key iv e = Some ?p" unfolding len by simp_all
  have "length e < 2 ^ 32" "0 < length e" "16 dvd length e" using s n unfolding e'(1) by linarith+ simp
  then show ?thesis using that [OF k size(1) e'(2)] by auto
qed

lemma encrypted_decrypts:
  assumes "cbc_law L" "AES128Encrypt L pw s = Some e" "list_all (\<lambda>c. c \<noteq> CHR 0x00) s" "length s < 2 ^ 32 - 15"
  shows "AES128Decrypt L pw e = Some s \<and> e \<noteq> []"
proof -
  obtain key iv k where k: "BytesToKey L pw = Some (key, iv)" "of_nat AES_BLOCK_SIZE \<le> (of_nat (length pw) :: 32 word)"
    "libCBCDecrypt L key iv e = Some (s @ replicate k CHR 0x00)" "e \<noteq> []" "16 dvd length e" "length e < 2 ^ 32"
    by (rule encrypted_shape [OF assms(1,2,4)])
  have "(of_nat (length e) :: 32 word) \<noteq> 0 \<and> (of_nat (length e) :: 32 word) mod of_nat AES_BLOCK_SIZE = 0"
    using k(4-6) by (simp add: unat_eq_0 [symmetric] unat_of_nat unat_mod AES_BLOCK_SIZE_def mod_eq_0_iff_dvd)
  then show ?thesis
    using k(2,4) by (simp add: AES128Decrypt_def Let_def k(1,3) takeWhile_padding [OF assms(3)])
qed

lemma short_password: "length pw < 16 \<Longrightarrow> AES128Encrypt L pw s = None"
  by (simp add: AES128Encrypt_def AES_BLOCK_SIZE_def Let_def word_le_nat_alt unat_of_nat)

end
