(* ===== verification/Server_Messages.thy ===== *)
theory Server_Messages
  imports Lineup Crypt_Helper
begin

text \<open>
  What the server tells the clients about a hand (\<open>src/src/net/servergamestate.cpp\<close>): the cards of
  each player at the start, the actions, the turns, the cards of the board and who shows at the
  end. The loop and the steps around it are translated again with the messages they send, and agree
  with \<open>Engine_Loop\<close>. A message carries what its packet carries, without the id of the game; all
  but \<open>HandStart\<close> and \<open>YourActionRejected\<close> go to every player in the game.
\<close>

section \<open>Messages\<close>

text \<open>The state of a game in a packet: the rounds have their own codes, the blinds 4 and 5.\<close>

definition netStatePreflopSmallBlind :: nat where "netStatePreflopSmallBlind = 4"
definition netStatePreflopBigBlind :: nat where "netStatePreflopBigBlind = 5"

record action_done =
  ad_gamestate :: nat
  ad_playerid :: nat
  ad_action :: PlayerAction
  ad_totalplayerbet :: int
  ad_playermoney :: int
  ad_highestset :: int
  ad_minimumraise :: int

record player_result =
  pr_playerid :: nat
  pr_resultcards :: "int list"
  pr_besthandposition :: "int list"
  pr_cardsvalue :: "int option"
  pr_moneywon :: int
  pr_playermoney :: int

datatype start_cards =
    PlainCards "int list"
  | EncryptedCards string

datatype NetPlayerState = netPlayerStateNormal | netPlayerStateSessionInactive | netPlayerStateNoMoney

record hand_start =
  hs_cards :: start_cards
  hs_seatstates :: "NetPlayerState list"
  hs_smallblind :: int
  hs_dealerplayerid :: nat

datatype hand_message =
    HandStart nat hand_start
  | PlayersActionDone action_done
  | PlayersTurn GameState nat
  | DealFlopCards int int int
  | DealTurnCard int
  | DealRiverCard int
  | AllInShowCards "(nat \<times> int list) list"
  | EndOfHandHideCards nat int int
  | EndOfHandShowCards "player_result list"
  | YourActionRejected nat PlayerActionCode action_request
  | AfterHandShowCards player_result

section \<open>The start of a hand\<close>

fun decimal :: "nat \<Rightarrow> string" where
  "decimal n = (if n < 10 then [char_of (48 + n)] else decimal (n div 10) @ [char_of (48 + n mod 10)])"

declare decimal.simps [simp del]

definition decimal_int :: "int \<Rightarrow> string" where
  "decimal_int z = (if z < 0 then CHR ''-'' # decimal (nat (- z)) else decimal (nat z))"

text \<open>The text that is encrypted: player, game, hand and the two cards.\<close>

definition plain_card_data :: "nat \<Rightarrow> int \<Rightarrow> local_player \<Rightarrow> string" where
  "plain_card_data gameId handId p =
     decimal (myUniqueID p) @ '' '' @ decimal gameId @ '' '' @ decimal_int handId @ '' '' @
     decimal_int (myCards p ! 0) @ '' '' @ decimal_int (myCards p ! 1)"

text \<open>The cards of a player for his session with the password \<open>pw\<close>; \<open>None\<close> when they cannot be
  encrypted, and then the player is removed from the game. \<open>L\<close> is the cryptographic library.\<close>

definition start_cards_for ::
  "crypt_library \<Rightarrow> nat \<Rightarrow> int \<Rightarrow> string \<Rightarrow> local_player \<Rightarrow> start_cards option" where
  "start_cards_for L gameId handId pw p =
    (if pw = [] then Some (PlainCards [myCards p ! 0, myCards p ! 1])
     else (case AES128Encrypt L pw (plain_card_data gameId handId p) of
             None \<Rightarrow> None
           | Some tmpCipher \<Rightarrow> if tmpCipher = [] then None else Some (EncryptedCards tmpCipher)))"

definition seat_state :: "local_player \<Rightarrow> NetPlayerState" where
  "seat_state p =
    (if \<not> myActiveStatus p then netPlayerStateNoMoney
     else if \<not> myIsSessionActive p then netPlayerStateSessionInactive
     else netPlayerStateNormal)"

text \<open>\<open>password\<close> is the password of a player's session, \<open>None\<close> when there is no session.\<close>

definition hand_start_message ::
  "(nat \<Rightarrow> string option) \<Rightarrow> crypt_library \<Rightarrow> nat \<Rightarrow> nat \<Rightarrow> local_hand \<Rightarrow>
     local_player \<Rightarrow> hand_message list" where
  "hand_start_message password L gameId numPlayers h p =
    (case password (myUniqueID p) of
       None \<Rightarrow> []
     | Some pw \<Rightarrow>
         (case start_cards_for L gameId (handID h) pw p of
            None \<Rightarrow> []
          | Some c \<Rightarrow>
              [HandStart (myUniqueID p)
                 \<lparr>hs_cards = c, hs_seatstates = map seat_state (take numPlayers (seats h)),
                  hs_smallblind = smallBlind h, hs_dealerplayerid = handDealerPosition h\<rparr>]))"

definition action_report :: "nat \<Rightarrow> bero \<Rightarrow> local_player \<Rightarrow> action_done" where
  "action_report state b p =
     \<lparr>ad_gamestate = state, ad_playerid = myUniqueID p, ad_action = myAction p, ad_totalplayerbet = mySet p,
      ad_playermoney = myCash p, ad_highestset = highestSet b, ad_minimumraise = minimumRaise b\<rparr>"

definition blind_message :: "Button \<Rightarrow> nat \<Rightarrow> local_hand \<Rightarrow> hand_message list" where
  "blind_message b state h =
    (case filter (\<lambda>p. myButton p = b) (active_players (board h)) of
       [] \<Rightarrow> []
     | p # _ \<Rightarrow> [PlayersActionDone (action_report state (current_bero h) p)])"

text \<open>The messages of \<open>StartNewHand\<close> for the hand that \<open>initHand\<close> has dealt; those of the blinds are
  sent after the start of the hand.\<close>

definition start_messages ::
  "(nat \<Rightarrow> string option) \<Rightarrow> crypt_library \<Rightarrow> nat \<Rightarrow> nat \<Rightarrow> local_hand \<Rightarrow> hand_message list" where
  "start_messages password L gameId numPlayers h =
     concat (map (hand_start_message password L gameId numPlayers h) (seats h)) @
     blind_message BUTTON_SMALL_BLIND netStatePreflopSmallBlind (start_on_server h) @
     blind_message BUTTON_BIG_BLIND netStatePreflopBigBlind (start_on_server h)"

section \<open>The loop with its messages\<close>

definition SendPlayerAction :: "nat \<Rightarrow> local_hand \<Rightarrow> hand_message" where
  "SendPlayerAction i h =
     PlayersActionDone (action_report (state_code (currentRound h)) (current_bero h) (seats h ! i))"

definition SendNewRoundCards :: "local_hand \<Rightarrow> GameState \<Rightarrow> hand_message list" where
  "SendNewRoundCards h r =
    (let cards = boardCards (board h) in
     case r of
       GAME_STATE_FLOP \<Rightarrow> [DealFlopCards (cards ! 0) (cards ! 1) (cards ! 2)]
     | GAME_STATE_TURN \<Rightarrow> [DealTurnCard (cards ! 3)]
     | GAME_STATE_RIVER \<Rightarrow> [DealRiverCard (cards ! 4)]
     | _ \<Rightarrow> [])"

definition nonFoldPlayers :: "local_hand \<Rightarrow> local_player list" where
  "nonFoldPlayers h = filter (\<lambda>p. myAction p \<noteq> PLAYER_ACTION_FOLD) (active_players (board h))"

text \<open>A new round. After the cards of the players the timer (\<open>TimerShowCards\<close>) deals those of the round.\<close>

definition new_round_messages :: "local_hand \<Rightarrow> hand_message list" where
  "new_round_messages h =
    (if handAllInCondition h \<and> \<not> cardsShown h \<and> length (nonFoldPlayers h) > 1
     then AllInShowCards (map (\<lambda>p. (myUniqueID p, [myCards p ! 0, myCards p ! 1])) (nonFoldPlayers h)) #
            SendNewRoundCards h (currentRound h)
     else SendNewRoundCards h (currentRound h))"

definition SetPlayerResult :: "local_player \<Rightarrow> GameState \<Rightarrow> player_result" where
  "SetPlayerResult p roundBefore =
     \<lparr>pr_playerid = myUniqueID p, pr_resultcards = [myCards p ! 0, myCards p ! 1],
      pr_besthandposition = myBestHandPosition p,
      pr_cardsvalue = (if roundBefore = GAME_STATE_RIVER then Some (myCardsValueInt p) else None),
      pr_moneywon = myLastMoneyWon p, pr_playermoney = myCash p\<rparr>"

definition player_result_of :: "local_hand \<Rightarrow> nat \<Rightarrow> player_result list" where
  "player_result_of h u =
    (case getSeatIt u (board h) of
       None \<Rightarrow> []
     | Some i \<Rightarrow> [SetPlayerResult (seats h ! i) GAME_STATE_RIVER])"

definition end_of_hand_message :: "local_hand \<Rightarrow> hand_message" where
  "end_of_hand_message h =
    (case nonFoldPlayers h of
       [p] \<Rightarrow> EndOfHandHideCards (myUniqueID p) (myLastMoneyWon p) (myCash p)
     | _ \<Rightarrow> EndOfHandShowCards (concat (map (player_result_of h) (playerNeedToShowCards (board h)))))"

definition continue_hand_out ::
  "(nat \<Rightarrow> bool) \<Rightarrow> local_hand \<Rightarrow> server_error + loop_result \<times> hand_message list" where
  "continue_hand_out connected h =
    (if handAllInCondition h then Inl ERR_NET_INTERNAL_GAME_ERROR
     else (case getCurrentPlayer h of
       Inl e \<Rightarrow> Inl (ENGINE e)
     | Inr i \<Rightarrow>
         (let p = seats h ! i; turn = PlayersTurn (currentRound h) (myUniqueID p) in
          if \<not> myActiveStatus p then Inl ERR_NET_PLAYER_NOT_ACTIVE
          else if myType p = PLAYER_TYPE_COMPUTER then Inr (ComputerAction h, [turn])
          else if \<not> connected (myUniqueID p) \<or> \<not> myIsSessionActive p then
            (let h' = PerformPlayerAction i PLAYER_ACTION_FOLD 0 h
             in Inr (NextLoop h', [turn, SendPlayerAction i h']))
          else Inr (WaitPlayerAction h, [turn]))))"

definition EngineLoop_out ::
  "(nat \<Rightarrow> bool) \<Rightarrow> local_hand \<Rightarrow> server_error + loop_result \<times> hand_message list" where
  "EngineLoop_out connected h =
    (let curRound = currentRound h; h1 = switchRounds h in
     case (if handAllInCondition h1 then Inr h1 else run_current h1) of
       Inl e \<Rightarrow> Inl (ENGINE e)
     | Inr h2 \<Rightarrow>
         (let newRound = currentRound h2 in
          if newRound \<noteq> curRound \<and> newRound \<noteq> GAME_STATE_POST_RIVER then
            (if newRound \<le> curRound then Inl ERR_NET_INVALID_GAME_ROUND
             else Inr (NextLoop (show_all_in h2), new_round_messages h2))
          else if newRound \<noteq> GAME_STATE_POST_RIVER then continue_hand_out connected h2
          else (case postRiverRun h2 of
                  Inl e \<Rightarrow> Inl (ENGINE e)
                | Inr h3 \<Rightarrow> Inr (HandOver h3, [end_of_hand_message h3]))))"

text \<open>After the hand a player may show his cards: the request in the state that waits for the next hand.\<close>

definition show_my_cards :: "nat \<Rightarrow> local_hand \<Rightarrow> hand_message list" where
  "show_my_cards u h =
    (case getSeatIt u (board h) of
       None \<Rightarrow> []
     | Some i \<Rightarrow> [AfterHandShowCards (SetPlayerResult (seats h ! i) (roundBeforePostRiver h))])"

section \<open>The steps with their messages\<close>

text \<open>The handler of a request in the state that waits for a player, and his timeout.\<close>

definition request_messages :: "nat \<Rightarrow> reply \<Rightarrow> hand_message list" where
  "request_messages u r =
    (case r of
       Ignored \<Rightarrow> []
     | Accepted h' \<Rightarrow> (case getSeatIt u (board h') of None \<Rightarrow> [] | Some i \<Rightarrow> [SendPlayerAction i h'])
     | Rejected code q \<Rightarrow> [YourActionRejected u code q])"

definition timeout_messages :: "local_hand \<Rightarrow> local_hand \<Rightarrow> hand_message list" where
  "timeout_messages h h' =
    (case getCurrentPlayer h of Inl e \<Rightarrow> [] | Inr i \<Rightarrow> [SendPlayerAction i h'])"

inductive server_send :: "phase \<times> local_hand \<Rightarrow> hand_message list \<Rightarrow> phase \<times> local_hand \<Rightarrow> bool" where
  loop: "EngineLoop_out connected h = Inr (NextLoop h', ms) \<Longrightarrow> server_send (Looping, h) ms (Looping, h')"
| wait: "EngineLoop_out connected h = Inr (WaitPlayerAction h', ms) \<Longrightarrow> server_send (Looping, h) ms (Waiting, h')"
| computer: "EngineLoop_out connected h = Inr (ComputerAction h', ms) \<Longrightarrow> server_send (Looping, h) ms (Computing, h')"
| over: "EngineLoop_out connected h = Inr (HandOver h', ms) \<Longrightarrow> server_send (Looping, h) ms (Over, h')"
| request: "handle_action_request gameId u q h = Inr (Accepted h') \<Longrightarrow>
    server_send (Waiting, h) (request_messages u (Accepted h')) (Looping, h')"
| rejected: "handle_action_request gameId u q h = Inr (Rejected code q') \<Longrightarrow>
    server_send (Waiting, h) (request_messages u (Rejected code q')) (Waiting, h)"
| timeout: "player_timeout h = Inr h' \<Longrightarrow> server_send (Waiting, h) (timeout_messages h h') (Looping, h')"

text \<open>All that is sent between two states.\<close>

inductive server_talk :: "phase \<times> local_hand \<Rightarrow> hand_message list \<Rightarrow> phase \<times> local_hand \<Rightarrow> bool" where
  none: "server_talk s [] s"
| more: "server_talk s ms s' \<Longrightarrow> server_send s' ns s'' \<Longrightarrow> server_talk s (ms @ ns) s''"

section \<open>The messages do not change the steps\<close>

lemma continue_hand_out_eq: "map_sum id fst (continue_hand_out connected h) = continue_hand connected h"
  by (simp add: continue_hand_out_def continue_hand_def Let_def split: sum.split)

lemma EngineLoop_out_eq: "map_sum id fst (EngineLoop_out connected h) = EngineLoop connected h"
  unfolding EngineLoop_out_def EngineLoop_def Let_def
  by (auto simp: continue_hand_out_eq split: sum.split)

lemma EngineLoop_outD: "EngineLoop_out connected h = Inr (res, ms) \<Longrightarrow> EngineLoop connected h = Inr res"
  by (simp flip: EngineLoop_out_eq)

lemma EngineLoop_outI: "EngineLoop connected h = Inr res \<Longrightarrow> \<exists>ms. EngineLoop_out connected h = Inr (res, ms)"
  by (auto simp flip: EngineLoop_out_eq simp: map_sum_Inr)

lemma server_send_step: "server_send s ms s' \<Longrightarrow> server_step s s' \<or> s' = s"
  by (induction rule: server_send.induct) (auto intro: server_step.intros dest: EngineLoop_outD)

lemma server_step_send: "server_step s s' \<Longrightarrow> \<exists>ms. server_send s ms s'"
  by (induction rule: server_step.induct) (blast intro: server_send.intros dest: EngineLoop_outI)+

lemma server_talk_steps: "server_talk s ms s' \<Longrightarrow> server_steps s s'"
  by (induction rule: server_talk.induct) (auto dest!: server_send_step intro: rtranclp.rtrancl_into_rtrancl)

lemma server_steps_talk: "server_steps s s' \<Longrightarrow> \<exists>ms. server_talk s ms s'"
  by (induction rule: rtranclp_induct) (blast intro: server_talk.intros dest: server_step_send)+

text \<open>The translation with messages is the same machine: a run of the server with its messages leads
  from one state to another exactly when the steps of the hand do, so that what is proved about the
  steps holds for what the clients see, and no step depends on a message.\<close>

theorem messages_follow_steps:
  "(\<exists>ms. server_talk s ms s') \<longleftrightarrow> server_steps s s'"
  using server_talk_steps server_steps_talk by blast

end
