(* ===== verification/Secrecy.thy ===== *)
theory Secrecy
  imports Server_Messages
begin

text \<open>
  What the clients learn about the cards from the messages of the server: who shows his hole cards
  and when, and that the cards of the board come in the order of the deck, those of a round with the
  round.
\<close>

section \<open>What a message tells everybody\<close>

definition hole_cards :: "local_player \<Rightarrow> nat \<times> int list" where
  "hole_cards p = (myUniqueID p, [myCards p ! 0, myCards p ! 1])"

fun shown :: "hand_message \<Rightarrow> (nat \<times> int list) list" where
  "shown (AllInShowCards xs) = xs"
| "shown (EndOfHandShowCards rs) = map (\<lambda>r. (pr_playerid r, pr_resultcards r)) rs"
| "shown (AfterHandShowCards r) = [(pr_playerid r, pr_resultcards r)]"
| "shown _ = []"

fun dealt :: "hand_message \<Rightarrow> int list" where
  "dealt (DealFlopCards a b c) = [a, b, c]"
| "dealt (DealTurnCard a) = [a]"
| "dealt (DealRiverCard a) = [a]"
| "dealt _ = []"

abbreviation all_shown :: "hand_message list \<Rightarrow> (nat \<times> int list) list" where
  "all_shown ms \<equiv> concat (map shown ms)"

abbreviation all_dealt :: "hand_message list \<Rightarrow> int list" where
  "all_dealt ms \<equiv> concat (map dealt ms)"

section \<open>Who shows\<close>

text \<open>Who is at the table with cards that nobody has folded.\<close>

definition in_play :: "local_hand \<Rightarrow> nat \<times> int list \<Rightarrow> bool" where
  "in_play h x \<longleftrightarrow> (\<exists>i \<in> set (activePlayerList (board h)).
     hole_cards (seats h ! i) = x \<and> myAction (seats h ! i) \<noteq> PLAYER_ACTION_FOLD)"

definition seating_ok :: "local_hand \<Rightarrow> bool" where
  "seating_ok h \<longleftrightarrow> distinct (map myUniqueID (seats h)) \<and>
     (\<forall>i \<in> set (activePlayerList (board h)). i < length (seats h))"

lemma SendNewRoundCards_shown [simp]: "\<forall>m \<in> set (SendNewRoundCards h r). shown m = []"
  by (simp add: SendNewRoundCards_def Let_def split: GameState.split)

lemma new_round_messages_content:
  "all_shown (new_round_messages h) =
     (if handAllInCondition h \<and> \<not> cardsShown h \<and> length (nonFoldPlayers h) > 1
      then map hole_cards (nonFoldPlayers h) else [])"
  "all_dealt (new_round_messages h) = all_dealt (SendNewRoundCards h (currentRound h))"
  by (simp_all add: new_round_messages_def hole_cards_def [abs_def])

lemma new_round_shown: "x \<in> set (all_shown (new_round_messages h)) \<Longrightarrow> in_play h x"
  unfolding new_round_messages_content
  by (auto simp: nonFoldPlayers_def active_players_def in_play_def split: if_splits)

lemma SetPlayerResult_fields [simp]:
  "pr_playerid (SetPlayerResult p r) = myUniqueID p"
  "pr_resultcards (SetPlayerResult p r) = [myCards p ! 0, myCards p ! 1]"
  by (simp_all add: SetPlayerResult_def)

lemma getSeatIt_nth:
  assumes "distinct (map myUniqueID (seats h))" "i < length (seats h)"
  shows "getSeatIt (myUniqueID (seats h ! i)) (board h) = Some i"
  unfolding getSeatIt_def seat_with_id_def
  by (rule first_some_unique [of i]) (use assms in \<open>auto simp: distinct_conv_nth split: if_splits\<close>)

lemma player_result_of_nth:
  "distinct (map myUniqueID (seats h)) \<Longrightarrow> i < length (seats h) \<Longrightarrow>
    player_result_of h (myUniqueID (seats h ! i)) = [SetPlayerResult (seats h ! i) GAME_STATE_RIVER]"
  by (simp add: player_result_of_def getSeatIt_nth)

lemma lineup_same:
  assumes "lineup_of h' = lineup_of h"
  shows "length (seats h') = length (seats h)" "map myUniqueID (seats h') = map myUniqueID (seats h)"
    "activePlayerList (board h') = activePlayerList (board h)" "boardCards (board h') = boardCards (board h)"
    "i < length (seats h) \<Longrightarrow> who (seats h' ! i) = who (seats h ! i)"
proof -
  have w: "map who (seats h') = map who (seats h)" using assms by (simp add: lineup_of_def lineup_def)
  then show l: "length (seats h') = length (seats h)" by (metis length_map)
  have "map (fst \<circ> who) (seats h') = map (fst \<circ> who) (seats h)" using w by (metis map_map)
  then show "map myUniqueID (seats h') = map myUniqueID (seats h)" by (simp add: who_def o_def)
  show "activePlayerList (board h') = activePlayerList (board h)" "boardCards (board h') = boardCards (board h)"
    using assms by (simp_all add: lineup_of_def lineup_def)
  show "i < length (seats h) \<Longrightarrow> who (seats h' ! i) = who (seats h ! i)" using w l by (metis nth_map)
qed

lemma who_holes: "who p = who q \<Longrightarrow> hole_cards p = hole_cards q \<and> myUniqueID p = myUniqueID q"
  by (simp add: who_def hole_cards_def)

lemma seating_same: "lineup_of h' = lineup_of h \<Longrightarrow> seating_ok h' = seating_ok h"
  using lineup_same(1-3) [of h' h] by (simp add: seating_ok_def)

lemma end_of_hand_message_shown:
  "shown (end_of_hand_message h) =
     (if length (nonFoldPlayers h) = 1 then []
      else map (\<lambda>r. (pr_playerid r, pr_resultcards r))
             (concat (map (player_result_of h) (playerNeedToShowCards (board h)))))"
proof (cases "nonFoldPlayers h")
  case (Cons p ps)
  then show ?thesis by (cases ps) (simp_all add: end_of_hand_message_def)
qed (simp add: end_of_hand_message_def)

text \<open>The results at the end of a hand are those of the players who have not folded.\<close>

lemma end_of_hand_shown:
  assumes ok: "seating_ok h" and run: "postRiverRun h = Inr h'" and x: "x \<in> set (shown (end_of_hand_message h'))"
  shows "in_play h' x"
proof -
  note same = lineup_same [OF lineup_postRiverRun [OF run]]
  note ends = postRiverRun_shows [OF run]
  obtain u where u: "u \<in> set (playerNeedToShowCards (board h'))"
    "x \<in> set (map (\<lambda>r. (pr_playerid r, pr_resultcards r)) (player_result_of h' u))"
    using x unfolding end_of_hand_message_shown by (auto split: if_splits)
  then obtain i where i: "i \<in> set (activePlayerList (board h))" "u = myUniqueID (seats h ! i)"
    "myAction (seats h ! i) \<noteq> PLAYER_ACTION_FOLD"
    by (auto simp: ends(2) showdown_ids_def active_players_def)
  then have len: "i < length (seats h)" using ok by (simp add: seating_ok_def)
  have "u = myUniqueID (seats h' ! i)" using who_holes [OF same(5) [OF len]] i(2) by simp
  moreover have "myAction (seats h' ! i) = myAction (seats h ! i)" using ends(1) len same(1) by (metis nth_map)
  moreover have "distinct (map myUniqueID (seats h'))" using ok by (simp add: seating_ok_def same(2))
  ultimately show ?thesis
    using u(2) i len same by (auto simp: in_play_def hole_cards_def player_result_of_nth)
qed

lemma EngineLoop_out_cases:
  assumes "EngineLoop_out connected h = Inr (res, ms)"
  obtains h2 where "(if handAllInCondition (switchRounds h) then Inr (switchRounds h)
      else run_current (switchRounds h)) = Inr h2"
    "res = NextLoop (show_all_in h2)" "ms = new_round_messages h2" "currentRound h2 \<noteq> GAME_STATE_POST_RIVER"
    "currentRound h < currentRound h2"
  | h2 where "(if handAllInCondition (switchRounds h) then Inr (switchRounds h)
      else run_current (switchRounds h)) = Inr h2"
    "continue_hand_out connected h2 = Inr (res, ms)" "currentRound h2 = currentRound h"
    "currentRound h2 \<noteq> GAME_STATE_POST_RIVER"
  | h2 h3 where "(if handAllInCondition (switchRounds h) then Inr (switchRounds h)
      else run_current (switchRounds h)) = Inr h2"
    "currentRound h2 = GAME_STATE_POST_RIVER" "postRiverRun h2 = Inr h3" "res = HandOver h3"
    "ms = [end_of_hand_message h3]"
  using assms that unfolding EngineLoop_out_def Let_def
  by (auto simp: not_le split: sum.splits if_splits)

lemma continue_hand_out_silent:
  "continue_hand_out connected h = Inr (res, ms) \<Longrightarrow> all_shown ms = [] \<and> all_dealt ms = []"
  by (auto simp: continue_hand_out_def SendPlayerAction_def Let_def split: if_splits sum.splits)

lemma loop_lineup:
  assumes "(if handAllInCondition (switchRounds h) then Inr (switchRounds h)
      else run_current (switchRounds h)) = Inr h2"
  shows "lineup_of h2 = lineup_of h"
  using assms lineup_run_current [of "switchRounds h" h2] by (auto split: if_splits)

lemma EngineLoop_shown:
  assumes ok: "seating_ok h" and out: "EngineLoop_out connected h = Inr (res, ms)" and x: "x \<in> set (all_shown ms)"
  shows "in_play (result_hand res) x"
  using out
proof (cases rule: EngineLoop_out_cases)
  case (1 h2)
  have "board (show_all_in h2) = board h2" by (simp add: show_all_in_def)
  then show ?thesis using new_round_shown [of x h2] x 1 by (simp add: result_hand_def in_play_def)
next
  case (2 h2)
  then show ?thesis using continue_hand_out_silent x by fastforce
next
  case (3 h2 h3)
  have "seating_ok h2" using seating_same [OF loop_lineup [OF 3(1)]] ok by simp
  from end_of_hand_shown [OF this 3(3)] x show ?thesis by (simp add: 3 result_hand_def)
qed

text \<open>C22: Folded cards are never shown, with any number of players: whatever hole cards a run of the
  engine loop announces to everybody, all in or at the end of the hand, are the cards of an active
  player who has not folded, under his own id.\<close>

theorem only_unfolded_shown:
  assumes "seating_ok h" "EngineLoop_out connected h = Inr (res, ms)" "(u, cs) \<in> set (all_shown ms)"
  shows "\<exists>i \<in> set (activePlayerList (board (result_hand res))).
    myAction (seats (result_hand res) ! i) \<noteq> PLAYER_ACTION_FOLD \<and>
    myUniqueID (seats (result_hand res) ! i) = u \<and>
    cs = [myCards (seats (result_hand res) ! i) ! 0, myCards (seats (result_hand res) ! i) ! 1]"
  using EngineLoop_shown [OF assms] by (auto simp: in_play_def hole_cards_def)


section \<open>Two players\<close>

text \<open>How many cards of the board the clients know in a round.\<close>

fun cards_out :: "GameState \<Rightarrow> nat" where
  "cards_out GAME_STATE_FLOP = 3"
| "cards_out GAME_STATE_TURN = 4"
| "cards_out GAME_STATE_RIVER = 5"
| "cards_out GAME_STATE_POST_RIVER = 5"
| "cards_out _ = 0"

lemma next_round_dealt:
  assumes "r < GAME_STATE_POST_RIVER" "next_round r \<noteq> GAME_STATE_POST_RIVER" "length (boardCards (board h)) = 5"
  shows "take (cards_out r) (boardCards (board h)) @ all_dealt (SendNewRoundCards h (next_round r)) =
    take (cards_out (next_round r)) (boardCards (board h))"
proof -
  obtain a b c d e where "boardCards (board h) = [a, b, c, d, e]"
    using assms(3) by (auto simp: numeral_eq_Suc length_Suc_conv)
  then show ?thesis
    using assms(1,2) by (auto simp: round_less_post next_round_def SendNewRoundCards_def numeral_eq_Suc)
qed

lemma turns_two:
  assumes "turns_ok T sb h"
  shows "length (seats h) = 2" "activePlayerList (board h) = [0, 1]" "currentRound h < GAME_STATE_POST_RIVER"
    "table_inv T (board h)" "loop_ok T h" "unfolded (board h) \<in> {1, 2}"
    "handAllInCondition h \<Longrightarrow> unfolded (board h) = 2"
proof -
  show l: "loop_ok T h" and t: "table_inv T (board h)" using assms by (simp_all add: turns_ok_def loop_ok_def)
  then show "length (seats h) = 2" "activePlayerList (board h) = [0, 1]" "currentRound h < GAME_STATE_POST_RIVER"
    by (simp_all add: loop_ok_def table_inv_def)
  show "unfolded (board h) \<in> {1, 2}" using l unfolded_le [OF t] by (auto simp: loop_ok_def)
  show "handAllInCondition h \<Longrightarrow> unfolded (board h) = 2" using assms by (simp add: turns_ok_def)
qed

text \<open>A run of the rounds in a two-player hand: it stays in the round or moves on to the next one, and
  once all in it stays all in.\<close>

lemma loop_two:
  assumes ok: "turns_ok T sb h" and less: "currentRound h2 \<noteq> GAME_STATE_POST_RIVER"
    and run: "(if handAllInCondition (switchRounds h) then Inr (switchRounds h)
      else run_current (switchRounds h)) = Inr h2"
  shows "currentRound h2 = currentRound h \<and> \<not> handAllInCondition h2 \<or> currentRound h2 = next_round (currentRound h)"
    "handAllInCondition h \<Longrightarrow> handAllInCondition h2"
proof -
  note two = turns_two [OF ok]
  have "unfolded (board h) \<noteq> 1"
  proof
    assume "unfolded (board h) = 1"
    then have "currentRound (switchRounds h) = GAME_STATE_POST_RIVER" by (rule switchRounds_inv(3) [OF two(4)])
    then have "h2 = switchRounds h" using run by (auto simp: run_current_def split: if_splits)
    with less \<open>currentRound (switchRounds h) = GAME_STATE_POST_RIVER\<close> show False by simp
  qed
  then have u: "unfolded (board h) = 2" using two(6) by simp
  show "currentRound h2 = currentRound h \<and> \<not> handAllInCondition h2 \<or> currentRound h2 = next_round (currentRound h)"
    using switch_and_run [OF ok u] run by (auto simp: stayed_def moved_on_def)
  show "handAllInCondition h \<Longrightarrow> handAllInCondition h2"
    using switch_all_in(1) [OF two(4) _ u two(3)] run by auto
qed

text \<open>What the clients have been told when the server is in a state.\<close>

definition told :: "local_hand \<Rightarrow> hand_message list \<Rightarrow> phase \<times> local_hand \<Rightarrow> bool" where
  "told h0 ms s = (case s of (ph, h) \<Rightarrow>
     if ph = Over then (all_shown ms = [] \<or> unfolded (board h) = 2) \<and>
       (\<exists>r. all_dealt ms = take (cards_out r) (boardCards (board h0)))
     else all_dealt ms = take (cards_out (currentRound h)) (boardCards (board h0)) \<and>
       (all_shown ms = [] \<or> ph = Looping \<and> handAllInCondition h))"

lemma told_next:
  assumes ok: "turns_ok T sb h" and out: "EngineLoop_out connected h = Inr (NextLoop h', ns)"
    and told: "told h0 ms (Looping, h)" and cards: "boardCards (board h) = boardCards (board h0)" "length (boardCards (board h0)) = 5"
  shows "told h0 (ms @ ns) (Looping, h')"
  using out
proof (cases rule: EngineLoop_out_cases)
  case (1 h2)
  have h': "board h' = board h2" "currentRound h' = currentRound h2" "handAllInCondition h' = handAllInCondition h2"
    using 1(2) by (simp_all add: show_all_in_def)
  have c: "boardCards (board h2) = boardCards (board h0)"
    using lineup_same(4) [OF loop_lineup [OF 1(1)]] cards(1) by simp
  note two = loop_two [OF ok 1(4,1)]
  then have r: "currentRound h2 = next_round (currentRound h)" using 1(5) by auto
  have "all_dealt (ms @ ns) = take (cards_out (currentRound h2)) (boardCards (board h0))"
    using next_round_dealt [OF turns_two(3) [OF ok], of h2] told 1(4) c cards(2)
    by (simp add: told_def 1(3) new_round_messages_content(2) r del: map_append concat_append)
       (simp add: told_def 1(3) new_round_messages_content(2) r)
  moreover have "all_shown (ms @ ns) = [] \<or> handAllInCondition h2"
    using two(2) told by (auto simp: told_def 1(3) new_round_messages_content(1))
  ultimately show ?thesis by (simp add: told_def h')
next
  case (2 h2)
  then have silent: "all_shown ns = []" "all_dealt ns = []" using continue_hand_out_silent by blast+
  have na: "\<not> handAllInCondition h2" and r: "currentRound h' = currentRound h2"
    using 2(2) by (auto simp: continue_hand_out_def PerformPlayerAction_seats(2) Let_def split: if_splits sum.splits)
  then have "\<not> handAllInCondition h" using loop_two(2) [OF ok 2(4,1)] by blast
  then show ?thesis using told silent r 2(3) by (simp add: told_def)
qed (use out in simp)

lemma told_wait:
  assumes ok: "turns_ok T sb h" and out: "EngineLoop_out connected h = Inr (res, ns)"
    and res: "res = WaitPlayerAction h' \<or> res = ComputerAction h'" and told: "told h0 ms (Looping, h)"
  shows "ph \<noteq> Over \<Longrightarrow> told h0 (ms @ ns) (ph, h')"
  using out
proof (cases rule: EngineLoop_out_cases)
  case (2 h2)
  assume ph: "ph \<noteq> Over"
  have silent: "all_shown ns = []" "all_dealt ns = []" using continue_hand_out_silent [OF 2(2)] by simp_all
  have h': "h' = h2" "\<not> handAllInCondition h2"
    using 2(2) res by (auto simp: continue_hand_out_def Let_def split: if_splits sum.splits)
  then have "\<not> handAllInCondition h" using loop_two(2) [OF ok 2(4,1)] by blast
  then show ?thesis using told silent 2(3) h' ph by (simp add: told_def)
qed (use res in auto)

lemma told_over:
  assumes ok: "turns_ok T sb h" and out: "EngineLoop_out connected h = Inr (HandOver h', ns)"
    and told: "told h0 ms (Looping, h)"
  shows "told h0 (ms @ ns) (Over, h')"
  using out
proof (cases rule: EngineLoop_out_cases)
  case (3 h2 h3)
  note two = turns_two [OF ok]
  have h': "h3 = h'" using 3(4) by simp
  note kept = run_or_stop_kept(1) [OF two(5) refl 3(1)]
  have lineup: "lineup_of h' = lineup_of h2" using lineup_postRiverRun [OF 3(3)] h' by simp
  note same = lineup_same [OF lineup] and seats2 = kept [unfolded hand_kept_def table_inv_def]
  have u: "unfolded (board h') = unfolded (board h2)"
    by (rule unfolded_cong) (use postRiverRun_shows(1) [OF 3(3)] h' in simp)
  have "nonFoldPlayerCounter (board h') = unfolded (board h')"
    using same(1,3) seats2 by (auto simp: nonFoldPlayerCounter_def unfolded_def dest!: two_elements)
  moreover have "length (nonFoldPlayers h') = nonFoldPlayerCounter (board h')"
    by (simp add: nonFoldPlayers_def active_players_def nonFoldPlayerCounter_def filter_map o_def)
  moreover have "unfolded (board h2) \<le> 2" using kept by (auto simp: hand_kept_def dest: unfolded_le)
  moreover have "unfolded (board h) \<le> unfolded (board h2)" using kept by (simp add: hand_kept_def)
  moreover have "shown (end_of_hand_message h') = [] \<or> length (nonFoldPlayers h') \<noteq> 1"
    by (simp add: end_of_hand_message_shown)
  moreover have "all_shown ms = [] \<or> unfolded (board h) = 2" using told two(7) by (auto simp: told_def)
  ultimately have "all_shown ms = [] \<and> shown (end_of_hand_message h') = [] \<or> unfolded (board h') = 2"
    using two(6) u by auto
  moreover have "dealt (end_of_hand_message h') = []" by (simp add: end_of_hand_message_def split: list.split)
  ultimately show ?thesis using 3(5) h' told by (auto simp: told_def)
qed (use continue_hand_out_def in \<open>auto simp: Let_def split: if_splits sum.splits\<close>)

text \<open>Requests and timeouts say nothing about cards.\<close>

lemma request_messages_silent: "all_shown (request_messages u r) = []" "all_dealt (request_messages u r) = []"
  by (auto simp: request_messages_def SendPlayerAction_def split: reply.split option.split)

lemma timeout_messages_silent: "all_shown (timeout_messages h h') = []" "all_dealt (timeout_messages h h') = []"
  by (auto simp: timeout_messages_def SendPlayerAction_def split: sum.split)

lemma told_silent:
  assumes "told h0 ms (Waiting, h)" "all_shown ns = []" "all_dealt ns = []" "currentRound h' = currentRound h" "ph \<noteq> Over"
  shows "told h0 (ms @ ns) (ph, h')"
  using assms by (simp add: told_def)

lemma request_round: "handle_action_request gameId u q h = Inr (Accepted h') \<Longrightarrow> currentRound h' = currentRound h"
  by (auto simp: handle_action_request_def PerformPlayerAction_seats(2) Let_def split: if_splits option.splits sum.splits)

lemma timeout_round: "player_timeout h = Inr h' \<Longrightarrow> currentRound h' = currentRound h"
  by (auto simp: player_timeout_def PerformPlayerAction_seats(2) split: sum.splits)

lemma told_step:
  assumes "server_send s ns s'" "phase_turns T sb s" "told h0 ms s"
    and "boardCards (board (snd s)) = boardCards (board h0)" "length (boardCards (board h0)) = 5"
  shows "told h0 (ms @ ns) s'"
  using assms(1)
proof cases
  case (loop connected h h')
  then show ?thesis using told_next assms by (simp add: phase_turns_def)
next
  case (wait connected h h')
  then show ?thesis using told_wait [of T sb h connected "WaitPlayerAction h'" ns h' h0 ms Waiting] assms by (simp add: phase_turns_def)
next
  case (computer connected h h')
  then show ?thesis using told_wait [of T sb h connected "ComputerAction h'" ns h' h0 ms Computing] assms by (simp add: phase_turns_def)
next
  case (over connected h h')
  then show ?thesis using told_over assms by (simp add: phase_turns_def)
next
  case (request gameId u q h h')
  then show ?thesis using told_silent request_messages_silent request_round assms(3) by simp
next
  case (rejected gameId u q h code q')
  then show ?thesis using told_silent request_messages_silent assms(3) by simp
next
  case (timeout h h')
  then show ?thesis using told_silent timeout_messages_silent timeout_round assms(3) by simp
qed

lemma told_talk:
  assumes "server_talk s0 ms s" "phase_turns T sb s0" "T < 2 ^ 31" "s0 = (Looping, h0)" "currentRound h0 = GAME_STATE_PREFLOP"
    and "length (boardCards (board h0)) = 5"
  shows "told h0 ms s"
  using assms
proof (induction rule: server_talk.induct)
  case (none s)
  then show ?case by (simp add: told_def)
next
  case (more s ms s' ns s'')
  note steps = server_talk_steps [OF more.hyps(1)]
  obtain d where "phase_turns T d s'" using server_steps_turns [OF steps more.prems(1,2)] by blast
  moreover have "boardCards (board (snd s')) = boardCards (board h0)"
    using lineup_same(4) [OF lineup_server_steps [OF steps]] more.prems(3) by simp
  ultimately show ?case
    using told_step [OF more.hyps(2)] more.IH more.prems by blast
qed

section \<open>A hand from its start\<close>

lemma deal_players_holes:
  assumes "between_hands T t" "deck_ok deck" "deal deck (prepare_board t) = Inr t'"
  shows "map hole_cards (seatsList t') =
      [(myUniqueID (seatsList t ! k), [deck ! (2 * k + 5), deck ! (2 * k + 6)]). k \<leftarrow> [0, 1]]"
    "boardCards t' = take 5 deck"
proof -
  obtain p q where s: "seatsList t = [p, q]" using assms(1) by (auto simp: between_hands_def dest!: two_elements)
  then show "map hole_cards (seatsList t') =
      [(myUniqueID (seatsList t ! k), [deck ! (2 * k + 5), deck ! (2 * k + 6)]). k \<leftarrow> [0, 1]]"
    "boardCards t' = take 5 deck"
    using assms(1,3) by (auto simp: prepare_board_two [OF assms(1)] deal_def between_hands_def update_seat_def hole_cards_def)
qed

lemma new_hand_board:
  assumes "new_hand deck t ident sP dP sB sC = Inr h"
  obtains t' where "deal deck t = Inr t'" "boardCards (board h) = boardCards t'"
    "map hole_cards (seats h) = map hole_cards (seatsList t')"
proof -
  have on: "map hole_cards (seatsList (on_seat i f t)) = map hole_cards (seatsList t)" if "\<And>p. hole_cards (f p) = hole_cards p" for i f t
    by (simp add: map_update_seat that)
  have button: "hole_cards (set_button b p) = hole_cards p" and blind: "hole_cards (post_blind b v p) = hole_cards p" for b v p
    by (simp_all add: set_button_def post_blind_def setMySet_def hole_cards_def Let_def)
  have blinds: "map hole_cards (seatsList (post_blinds b v t)) = map hole_cards (seatsList t)" "boardCards (post_blinds b v t) = boardCards t" for b v t
  proof -
    have "map hole_cards (seatsList (fold (\<lambda>i. on_seat i (post_blind b v)) xs t)) = map hole_cards (seatsList t) \<and>
        boardCards (fold (\<lambda>i. on_seat i (post_blind b v)) xs t) = boardCards t" for xs
      by (induction xs arbitrary: t) (simp_all add: map_update_seat blind)
    then show "map hole_cards (seatsList (post_blinds b v t)) = map hole_cards (seatsList t)" "boardCards (post_blinds b v t) = boardCards t"
      by (simp_all add: post_blinds_def)
  qed
  have assign: "map hole_cards (seats k') = map hole_cards (seats k) \<and> boardCards (board k') = boardCards (board k)"
    if "assignButtons k = Inr k'" for k k'
    using that by (auto simp: assignButtons_def Let_def map_seats_def button map_update_seat split: option.splits)
  have "\<exists>t'. deal deck t = Inr t' \<and> boardCards (board h) = boardCards t' \<and>
      map hole_cards (seats h) = map hole_cards (seatsList t')"
    using assms by (auto simp: new_hand_def Let_def setBlinds_def blinds map_sum_Inr dest!: assign split: sum.splits)
  with that show thesis by blast
qed

lemma initHand_cards:
  assumes "deck_ok deck" "between_hands T (game_board g)" "initHand deck minutes g = Inr g'" "currentHand g' = Some h"
  shows "boardCards (board h) = take 5 deck"
    "hole_cards ` set (seats h) = {(myUniqueID (seatsList (game_board g) ! k), [deck ! (2 * k + 5), deck ! (2 * k + 6)]) |k. k < 2}"
    "currentRound h = GAME_STATE_PREFLOP" "seating_ok h"
proof -
  let ?g1 = "raiseBlinds minutes (g\<lparr>currentHandID := currentHandID g + 1\<rparr>)"
  have gb: "game_board ?g1 = game_board g" by (simp only: raiseBlinds_keeps) (simp add: game_board_def split: option.split)
  obtain ident sP dP sB sC where
    new: "new_hand deck (prepare_board (game_board g)) ident sP dP sB sC = Inr h"
    using assms(3,4) gb by (auto simp: initHand_def Let_def map_sum_Inr split: sum.splits)
  show "currentRound h = GAME_STATE_PREFLOP" by (rule new_hand_staged [OF assms(1,2) new])
  have "staged T (board h)" by (rule new_hand_staged [OF assms(1,2) new])
  then show "seating_ok h" by (auto simp: staged_def money_ok_def seating_ok_def)
  obtain t' where t': "deal deck (prepare_board (game_board g)) = Inr t'" "boardCards (board h) = boardCards t'"
    "map hole_cards (seats h) = map hole_cards (seatsList t')" by (rule new_hand_board [OF new])
  note d = deal_players_holes [OF assms(2,1) t'(1)]
  show "boardCards (board h) = take 5 deck" using t'(2) d(2) by simp
  have "hole_cards ` set (seats h) = set (map hole_cards (seatsList t'))" using t'(3) by (metis set_map)
  then show "hole_cards ` set (seats h) = {(myUniqueID (seatsList (game_board g) ! k), [deck ! (2 * k + 5), deck ! (2 * k + 6)]) |k. k < 2}"
    unfolding d(1) by (auto simp: less_2_cases_iff)
qed

lemma talk_shown:
  assumes "server_talk s0 ms s" "seating_ok (snd s0)" "x \<in> set (all_shown ms)"
  shows "x \<in> hole_cards ` set (seats (snd s0))"
  using assms
proof (induction rule: server_talk.induct)
  case (more s ms s' ns s'')
  have lineup: "lineup_of (snd s') = lineup_of (snd s)" by (rule lineup_server_steps [OF server_talk_steps [OF more.hyps(1)]])
  have new: "x \<in> hole_cards ` set (seats (snd s))" if x: "x \<in> set (all_shown ns)"
  proof -
    obtain connected res where out: "EngineLoop_out connected (snd s') = Inr (res, ns)"
      using more.hyps(2) x by cases (auto simp: request_messages_def timeout_messages_def SendPlayerAction_def
          split: option.splits sum.splits)
    have ok: "seating_ok (snd s')" using more.prems(1) seating_same [OF lineup] by simp
    obtain i where i: "i \<in> set (activePlayerList (board (result_hand res)))" "hole_cards (seats (result_hand res) ! i) = x"
      using EngineLoop_shown [OF ok out x] by (auto simp: in_play_def)
    have "lineup_of (result_hand res) = lineup_of (snd s)"
      using lineup_EngineLoop [OF EngineLoop_outD [OF out]] lineup by simp
    note same = lineup_same [OF this]
    have "i < length (seats (snd s))" using i(1) more.prems(1) same(3) by (simp add: seating_ok_def)
    then show ?thesis using i(2) who_holes [OF same(5)] by (metis image_eqI nth_mem)
  qed
  then show ?case using more.IH more.prems by auto
qed simp

lemma talk_told:
  assumes "deck_ok deck" "between_hands T (game_board g)" "blinds_pos g" "T < 2 ^ 31"
    and "dealerPosition g \<in> set (map myUniqueID (seatsList (game_board g)))"
    and "initHand deck minutes g = Inr g'" "currentHand g' = Some h"
    and "server_talk (Looping, start_on_server h) ms s"
  shows "told (start_on_server h) ms s"
proof -
  obtain d where "turns_ok T d (start_on_server h)"
    using initHand_turns_ok [OF assms(1-3,5), of minutes] assms(6,7) by auto
  then have "phase_turns T d (Looping, start_on_server h)" by (simp add: phase_turns_def)
  moreover have "boardCards (board (start_on_server h)) = boardCards (board h)"
    by (simp add: start_on_server_def start_def skipFirstRunGui_def)
  moreover note initHand_cards [OF assms(1,2,6,7)]
  ultimately show ?thesis
    using told_talk [OF assms(8) _ assms(4) refl] assms(1) by (simp add: start_fields deck_ok_def)
qed

text \<open>C21: The clients see the shuffled deck and nothing before its time. In a two-player hand, whatever
  the players, the timeouts and the connections do: the cards of the board that the server has
  announced are exactly the first cards of the deck that belong to the current round (none before
  the flop, three in the flop, four, five), at the end of the hand those of the round it ended in; and
  all hole cards that it shows to everybody, those of the players who are all in and those in the
  results at the end of the hand, are the two cards that the player was dealt.\<close>

theorem cards_as_dealt:
  assumes "deck_ok deck" "between_hands T (game_board g)" "blinds_pos g" "T < 2 ^ 31"
    and "dealerPosition g \<in> set (map myUniqueID (seatsList (game_board g)))"
    and "initHand deck minutes g = Inr g'" "currentHand g' = Some h"
    and "server_talk (Looping, start_on_server h) ms (ph, h')"
  shows "(if ph = Over then \<exists>r. all_dealt ms = take (cards_out r) deck
          else all_dealt ms = take (cards_out (currentRound h')) deck) \<and>
    (\<forall>(u, cs) \<in> set (all_shown ms). \<exists>k < 2. u = myUniqueID (seatsList (game_board g) ! k) \<and>
       cs = [deck ! (2 * k + 5), deck ! (2 * k + 6)])"
proof -
  note init = initHand_cards [OF assms(1,2,6,7)]
  have board: "boardCards (board (start_on_server h)) = take 5 deck" "seats (start_on_server h) = seats h"
    "seating_ok (start_on_server h)"
    using init(1,4) by (simp_all add: start_on_server_def start_def skipFirstRunGui_def seating_ok_def)
  have "cards_out r \<le> 5" for r by (cases r) simp_all
  then have "take (cards_out r) (boardCards (board (start_on_server h))) = take (cards_out r) deck" for r
    unfolding board(1) by (simp add: min_def)
  then have "if ph = Over then \<exists>r. all_dealt ms = take (cards_out r) deck
      else all_dealt ms = take (cards_out (currentRound h')) deck"
    using talk_told [OF assms(1-8)] by (auto simp: told_def)
  moreover have "x \<in> hole_cards ` set (seats h)" if "x \<in> set (all_shown ms)" for x
    using talk_shown [OF assms(8) _ that] board by simp
  ultimately show ?thesis unfolding init(2) by fastforce
qed

text \<open>C20: A hand that ends with a fold keeps all hole cards secret: when a two-player hand is over and only
  one player has not folded, no message that was sent during the hand or at its end has shown the
  hole cards of anybody.\<close>

theorem fold_keeps_secret:
  assumes "deck_ok deck" "between_hands T (game_board g)" "blinds_pos g" "T < 2 ^ 31"
    and "dealerPosition g \<in> set (map myUniqueID (seatsList (game_board g)))"
    and "initHand deck minutes g = Inr g'" "currentHand g' = Some h"
    and "server_talk (Looping, start_on_server h) ms (Over, h')" "unfolded (board h') = 1"
  shows "all_shown ms = []"
  using talk_told [OF assms(1-8)] assms(9) by (simp add: told_def)

section \<open>Examples\<close>

text \<open>The big blind has called the all-in of the small blind.\<close>

definition called_hand :: "local_hand option" where
  "called_hand = Option.bind (requested 9 6 waiting_hand) (\<lambda>h1. Option.bind (waits h1) (requested 7 3))"

theorem only_unfolded_shown_witness:
  "\<exists>h res ms. EngineLoop_out (\<lambda>_. True) h = Inr (res, ms) \<and> (7, [5, 6]) \<in> set (all_shown ms) \<and>
     (\<exists>i \<in> set (activePlayerList (board (result_hand res))). myUniqueID (seats (result_hand res) ! i) = 7)"
proof -
  have "case called_hand of None \<Rightarrow> False | Some h \<Rightarrow> seating_ok h \<and>
      (case EngineLoop_out (\<lambda>_. True) h of Inl _ \<Rightarrow> False | Inr (res, ms) \<Rightarrow> (7, [5, 6]) \<in> set (all_shown ms))"
    by code_simp
  then obtain h res ms where h: "seating_ok h" "EngineLoop_out (\<lambda>_. True) h = Inr (res, ms)" "(7, [5, 6]) \<in> set (all_shown ms)"
    by (auto split: option.splits sum.splits prod.splits)
  from only_unfolded_shown [OF this] h show ?thesis by blast
qed

theorem cards_as_dealt_witness:
  "\<exists>ms h. server_talk (Looping, start_on_server dealt_hand) ms (Looping, h) \<and>
     currentRound h = GAME_STATE_TURN \<and> all_dealt ms = [0, 1, 2, 3]"
proof -
  obtain h where h: "currentRound h = GAME_STATE_TURN"
    "server_steps (Looping, start_on_server dealt_hand) (Looping, h)" by (rule turn_hand_defined)
  obtain ms where ms: "server_talk (Looping, start_on_server dealt_hand) ms (Looping, h)"
    using server_steps_talk [OF h(2)] ..
  obtain g where g: "initHand sorted_deck 0 sample_game = Inr g" "currentHand g = Some dealt_hand"
    using sample_game_dealt by (auto split: sum.splits)
  have "take 4 sorted_deck = [0, 1, 2, 3]" by code_simp
  with cards_as_dealt [OF sorted_deck_ok sample_game_ok sample_blinds _ sample_dealer g ms] h(1) ms
  show ?thesis by auto
qed

lemma last_player_unfolded:
  assumes "loop_ok T h" "unfolded (board h) = 1" "EngineLoop_out connected h = Inr (HandOver h', ms)"
  shows "unfolded (board h') = 1"
  using assms(3)
proof (cases rule: EngineLoop_out_cases)
  case (2 h2)
  then show ?thesis by (auto simp: continue_hand_out_def Let_def split: if_splits sum.splits)
next
  case (3 h2 h3)
  have inv: "table_inv T (board h)" using assms(1) by (simp add: loop_ok_def)
  have "currentRound (switchRounds h) = GAME_STATE_POST_RIVER" by (rule switchRounds_inv(3) [OF inv assms(2)])
  then have "h2 = switchRounds h" using 3(1) by (auto simp: run_current_def split: if_splits)
  then have "unfolded (board h2) = 1" using switchRounds_inv(2) [OF inv] assms(2) by simp
  moreover have "unfolded (board h') = unfolded (board h2)"
    by (rule unfolded_cong) (use postRiverRun_shows(1) [OF 3(3)] 3(4) in simp)
  ultimately show ?thesis by simp
qed simp

lemma given_up_ends:
  obtains h' where "server_steps (Looping, start_on_server dealt_hand) (Over, h')" "unfolded (board h') = 1"
proof -
  obtain g where g: "initHand sorted_deck 0 sample_game = Inr g" "currentHand g = Some dealt_hand"
    using sample_game_dealt by (auto split: sum.splits)
  have steps: "server_steps (Looping, start_on_server dealt_hand) (Looping, given_up_hand)"
    using sample_waiting server_step.timeout [OF sample_hand_steps(3)] by (rule rtranclp.rtrancl_into_rtrancl)
  have "phase_ok 1500 (Looping, start_on_server dealt_hand)"
    using initHand_loop_ok [OF sorted_deck_ok sample_game_ok g] by (simp add: phase_ok_def)
  then have ok: "loop_ok 1500 given_up_hand" using server_steps_ok [OF steps] by (simp add: phase_ok_def)
  obtain h' where h': "EngineLoop (\<lambda>_. True) given_up_hand = Inr (HandOver h')"
    using EngineLoop_last_player [OF ok _ sample_hand_steps(4)] by auto
  then obtain ms where "EngineLoop_out (\<lambda>_. True) given_up_hand = Inr (HandOver h', ms)" using EngineLoop_outI by blast
  from last_player_unfolded [OF ok sample_hand_steps(4) this] steps server_step.over [OF h'] show thesis
    by (meson that rtranclp.rtrancl_into_rtrancl)
qed

theorem fold_keeps_secret_witness:
  "\<exists>ms h'. server_talk (Looping, start_on_server dealt_hand) ms (Over, h') \<and> unfolded (board h') = 1 \<and> all_shown ms = []"
proof -
  obtain h' where h': "server_steps (Looping, start_on_server dealt_hand) (Over, h')" "unfolded (board h') = 1"
    by (rule given_up_ends)
  obtain ms where ms: "server_talk (Looping, start_on_server dealt_hand) ms (Over, h')"
    using server_steps_talk [OF h'(1)] ..
  obtain g where g: "initHand sorted_deck 0 sample_game = Inr g" "currentHand g = Some dealt_hand"
    using sample_game_dealt by (auto split: sum.splits)
  from fold_keeps_secret [OF sorted_deck_ok sample_game_ok sample_blinds _ sample_dealer g ms h'(2)] ms h'(2)
  show ?thesis by auto
qed

end
