(* ===== verification/Bets.thy ===== *)
theory Bets
  imports Secrecy
begin

text \<open>
  What a run of the engine loop does to the money: inside a round it moves nothing; with a new round
  all sets go to the pot. For any number of players. The limits of the rounds (highest set and
  minimum raise) only change with the actions of the players.
\<close>

section \<open>Cash and set of a player\<close>

definition money_of :: "table \<Rightarrow> nat \<Rightarrow> (int \<times> int) option" where
  "money_of t u = map_option (\<lambda>i. (myCash (seatsList t ! i), mySet (seatsList t ! i))) (getSeatIt u t)"

lemma money_of_more [simp]:
  "money_of (t\<lparr>runningPlayerList := xs\<rparr>) = money_of t" "money_of (t\<lparr>allInCondition := c\<rparr>) = money_of t"
  "money_of (t\<lparr>sets := n\<rparr>) = money_of t" "money_of (t\<lparr>pot := n\<rparr>) = money_of t"
  "money_of (t\<lparr>winners := ws\<rparr>) = money_of t" "money_of (t\<lparr>playerNeedToShowCards := ws\<rparr>) = money_of t"
  "money_of (t\<lparr>lastActionPlayerID := v\<rparr>) = money_of t" "money_of (t\<lparr>boardCards := cs\<rparr>) = money_of t"
  by (simp_all add: money_of_def [abs_def] getSeatIt_def)

definition ids :: "table \<Rightarrow> nat list" where
  "ids t = map myUniqueID (seatsList t)"

lemma getSeatIt_Some:
  assumes "getSeatIt u t = Some i"
  shows "i < length (seatsList t)" "myUniqueID (seatsList t ! i) = u"
  using assms by (auto simp: getSeatIt_def seat_with_id_def dest!: first_some_SomeD split: if_splits)

lemma getSeatIt_None: "getSeatIt u t = None \<longleftrightarrow> u \<notin> set (ids t)"
proof -
  have "ids t = map (\<lambda>i. myUniqueID (seatsList t ! i)) [0..<length (seatsList t)]"
    unfolding ids_def by (rule nth_equalityI) simp_all
  then show ?thesis by (auto simp: getSeatIt_def seat_with_id_def first_some_None_iff)
qed

lemma getSeatIt_id:
  assumes "distinct (ids t)" "i < length (seatsList t)"
  shows "getSeatIt (myUniqueID (seatsList t ! i)) t = Some i"
proof -
  obtain j where j: "getSeatIt (myUniqueID (seatsList t ! i)) t = Some j"
    using assms(2) getSeatIt_None [of "myUniqueID (seatsList t ! i)" t] by (auto simp: ids_def)
  then have "ids t ! j = ids t ! i" "j < length (ids t)" using getSeatIt_Some [OF j] assms(2) by (simp_all add: ids_def)
  then have "j = i" using nth_eq_iff_index_eq [OF assms(1), of j i] assms(2) by (simp add: ids_def)
  with j show ?thesis by simp
qed

lemma getSeatIt_cong: "ids t' = ids t \<Longrightarrow> getSeatIt u t' = getSeatIt u t"
proof -
  assume e: "ids t' = ids t"
  then have l: "length (seatsList t') = length (seatsList t)" by (metis ids_def length_map)
  have "myUniqueID (seatsList t' ! i) = myUniqueID (seatsList t ! i)" if "i < length (seatsList t)" for i
    using e l that by (metis ids_def nth_map)
  then show ?thesis unfolding getSeatIt_def seat_with_id_def l by (intro first_some_cong) auto
qed

lemma ids_on_seat [simp]: "(\<And>p. myUniqueID (f p) = myUniqueID p) \<Longrightarrow> ids (on_seat i f t) = ids t"
  by (simp add: ids_def map_update_seat)

lemma money_of_dom: "money_of t u = None \<longleftrightarrow> u \<notin> set (ids t)"
  by (simp add: money_of_def getSeatIt_None)

text \<open>Two tables with the same ids in the same order and the same money.\<close>

lemma money_of_cong:
  assumes "ids t' = ids t" "map myCash (seatsList t') = map myCash (seatsList t)" "map mySet (seatsList t') = map mySet (seatsList t)"
  shows "money_of t' = money_of t"
proof
  fix u
  have l: "length (seatsList t') = length (seatsList t)" using assms(2) by (metis length_map)
  show "money_of t' u = money_of t u"
  proof (cases "getSeatIt u t")
    case (Some i)
    then show ?thesis
      using getSeatIt_Some(1) [OF Some] assms(2,3) l getSeatIt_cong [OF assms(1)]
      by (auto simp: money_of_def) (metis nth_map)+
  qed (simp add: money_of_def getSeatIt_cong [OF assms(1)])
qed

lemma money_of_on_seat:
  assumes "\<And>p. myUniqueID (f p) = myUniqueID p" "getSeatIt u t = Some i" "distinct (ids t)"
  shows "money_of (on_seat i f t) = (money_of t)(u \<mapsto> (myCash (f (seatsList t ! i)), mySet (f (seatsList t ! i))))"
proof
  fix v
  note i = getSeatIt_Some [OF assms(2)]
  have g: "getSeatIt v (on_seat i f t) = getSeatIt v t" by (rule getSeatIt_cong) (simp add: assms(1))
  show "money_of (on_seat i f t) v = ((money_of t)(u \<mapsto> (myCash (f (seatsList t ! i)), mySet (f (seatsList t ! i))))) v"
  proof (cases "getSeatIt v t")
    case None
    then have "v \<noteq> u" using assms(2) by auto
    then show ?thesis using None by (simp add: money_of_def g)
  next
    case (Some j)
    note j = getSeatIt_Some [OF Some]
    show ?thesis
    proof (cases "v = u")
      case True
      then show ?thesis using assms(2) i(1) g by (simp add: money_of_def nth_update_seat)
    next
      case False
      then have "j \<noteq> i" using i(2) j(2) by auto
      then show ?thesis using False Some j(1) by (simp add: money_of_def g nth_update_seat)
    qed
  qed
qed

text \<open>The sets add up to the same sum when the money is the same.\<close>

lemma sets_from_money:
  assumes "distinct (ids t)"
  shows "sum_list (map mySet (seatsList t)) = (\<Sum>u \<in> set (ids t). snd (the (money_of t u)))"
proof -
  have "map mySet (seatsList t) = map (\<lambda>u. snd (the (money_of t u))) (ids t)"
    using assms by (intro nth_equalityI) (simp_all add: ids_def money_of_def getSeatIt_id [unfolded ids_def])
  then show ?thesis using assms by (simp add: sum_list_distinct_conv_sum_set)
qed

lemma same_sets:
  assumes "distinct (ids t)" "distinct (ids t')" "money_of t = money_of t'"
  shows "sum_list (map mySet (seatsList t)) = sum_list (map mySet (seatsList t'))" "set (ids t) = set (ids t')"
proof -
  show "set (ids t) = set (ids t')"
    using assms(3) money_of_dom [of t] money_of_dom [of t'] by auto
  then show "sum_list (map mySet (seatsList t)) = sum_list (map mySet (seatsList t'))"
    using assms by (simp add: sets_from_money)
qed

section \<open>Sweeping the sets into the pot\<close>

definition swept :: "(int \<times> int) option \<Rightarrow> (int \<times> int) option" where
  "swept m = map_option (\<lambda>(c, s). (c, 0)) m"

lemma swept_swept [simp]: "swept (swept m) = swept m"
  by (cases m) (auto simp: swept_def)

definition bets :: "table \<Rightarrow> (nat \<Rightarrow> (int \<times> int) option) \<times> int \<times> int" where
  "bets t = (money_of t, pot t, sets t)"

definition sweep :: "(nat \<Rightarrow> (int \<times> int) option) \<times> int \<times> int \<Rightarrow> (nat \<Rightarrow> (int \<times> int) option) \<times> int \<times> int" where
  "sweep b = (case b of (m, p, s) \<Rightarrow> (swept \<circ> m, p + s, 0))"

lemma sweep_sweep [simp]: "sweep (sweep b) = sweep b"
  by (cases b) (simp add: sweep_def fun_eq_iff)

lemma money_of_null:
  assumes "seatsList t' = map setMySetNull (seatsList t)"
  shows "money_of t' = swept \<circ> money_of t"
proof
  fix u
  have "ids t' = ids t" by (simp add: ids_def assms o_def)
  then have g: "getSeatIt u t' = getSeatIt u t" by (rule getSeatIt_cong)
  show "money_of t' u = (swept \<circ> money_of t) u"
    by (cases "getSeatIt u t") (auto simp: money_of_def swept_def g assms dest: getSeatIt_Some(1))
qed

lemma bets_collectPot: "bets (collectPot t) = sweep (bets t)"
  by (simp add: bets_def sweep_def money_of_null)

lemma bets_more [simp]:
  "bets (t\<lparr>runningPlayerList := xs\<rparr>) = bets t" "bets (t\<lparr>allInCondition := c\<rparr>) = bets t"
  by (simp_all add: bets_def)

lemma bets_frame:
  assumes "\<And>p. myUniqueID (f p) = myUniqueID p \<and> myCash (f p) = myCash p \<and> mySet (f p) = mySet p"
  shows "bets (on_seat i f t) = bets t" "bets (fold (\<lambda>i. on_seat i f) xs t) = bets t"
    "sets_ok (on_seat i f t) = sets_ok t" "sets_ok (fold (\<lambda>i. on_seat i f) xs t) = sets_ok t"
proof -
  have b: "bets (on_seat i f t) = bets t" for i t
  proof -
    have "money_of (on_seat i f t) = money_of t"
      by (rule money_of_cong) (simp_all add: assms ids_def map_update_seat)
    then show ?thesis by (simp add: bets_def)
  qed
  have s: "sets_ok (on_seat i f t) = sets_ok t" for i t
    using assms by (simp add: sets_ok_def map_update_seat)
  show "bets (on_seat i f t) = bets t" "sets_ok (on_seat i f t) = sets_ok t" by (rule b, rule s)
  show "bets (fold (\<lambda>i. on_seat i f) xs t) = bets t" "sets_ok (fold (\<lambda>i. on_seat i f) xs t) = sets_ok t"
    by (induction xs arbitrary: t) (simp_all add: b s)
qed

lemma bets_collect_round:
  assumes "sets_ok t"
  shows "bets (collect_round t) = sweep (bets t)" "sets_ok (collect_round t)"
proof -
  have c: "bets (clear_actions t) = bets t" "sets_ok (clear_actions t)"
    using assms by (simp_all add: clear_actions_def bets_frame)
  have "bets (collectSets t) = bets t" if "sets_ok t" for t
    using that by (simp add: bets_def collectSets_eq sets_ok_def)
  with c show "bets (collect_round t) = sweep (bets t)" by (simp add: collect_round_def bets_collectPot)
  show "sets_ok (collect_round t)" by (simp add: collect_round_def)
qed

section \<open>A run of the loop\<close>

text \<open>Nothing has moved in the round, or the round has ended with all sets in the pot.\<close>

definition round_moved :: "local_hand \<Rightarrow> local_hand \<Rightarrow> bool" where
  "round_moved h h' \<longleftrightarrow> sets_ok (board h') \<and>
     (if currentRound h' = currentRound h then bets (board h') = bets (board h)
      else bets (board h') = sweep (bets (board h)))"

lemma sets_ok_collectPot: "sets_ok (collectPot t)"
  by simp

lemma refresh_bets:
  "bets (board (refresh_runners h)) = bets (board h)" "sets_ok (board (refresh_runners h)) = sets_ok (board h)"
  using refresh_runners_fields(1) [of h] by auto

lemma all_in_routine_bets:
  assumes "sets_ok (board h)"
  shows "currentRound h < GAME_STATE_POST_RIVER \<Longrightarrow> round_moved h (all_in_routine h)"
    "currentRound h = GAME_STATE_POST_RIVER \<Longrightarrow> currentRound (all_in_routine h) = GAME_STATE_POST_RIVER \<and>
       bets (board (all_in_routine h)) \<in> {bets (board h), sweep (bets (board h))} \<and> sets_ok (board (all_in_routine h))"
proof -
  assume less: "currentRound h < GAME_STATE_POST_RIVER"
  have "next_round (currentRound h) \<noteq> currentRound h" using next_round_greater [OF less] by auto
  then show "round_moved h (all_in_routine h)"
    using assms less by (simp add: all_in_routine_def round_moved_def bets_collectPot Let_def)
qed (use assms in \<open>auto simp: all_in_routine_def bets_collectPot Let_def\<close>)

lemma switchRounds_bets:
  assumes ok: "sets_ok (board h)" and less: "currentRound h < GAME_STATE_POST_RIVER"
  shows "round_moved h (switchRounds h)"
proof -
  let ?k = "refresh_runners h" and ?d = "detect_end (refresh_runners h)"
  have k: "sets_ok (board ?k)" "currentRound ?k = currentRound h" "bets (board ?k) = bets (board h)"
    using ok by (simp_all add: refresh_bets refresh_runners_fields)
  have "round_moved h (all_in_routine ?d)"
  proof (cases "nonFoldPlayerCounter (board ?k) = 1")
    case True
    then have "?d = (on_board collectPot ?k)\<lparr>currentRound := GAME_STATE_POST_RIVER\<rparr>" by (simp add: detect_end_def)
    then have "bets (board ?d) = sweep (bets (board h))" "sets_ok (board ?d)" "currentRound ?d = GAME_STATE_POST_RIVER"
      using k by (simp_all add: bets_collectPot)
    then show ?thesis using all_in_routine_bets(2) [of ?d] less by (auto simp: round_moved_def)
  next
    case False
    then have "bets (board ?d) = bets (board h)" "sets_ok (board ?d)" "currentRound ?d = currentRound h"
      using k by (auto simp: detect_end_def)
    then show ?thesis using all_in_routine_bets(1) [of ?d] less by (simp add: round_moved_def)
  qed
  then show ?thesis by (simp add: switchRounds_def round_moved_def)
qed

lemma switchRounds_round:
  "currentRound (switchRounds h) \<in> {currentRound h, next_round (currentRound h), GAME_STATE_POST_RIVER}"
proof -
  have "currentRound (detect_end k) \<in> {currentRound k, GAME_STATE_POST_RIVER}" for k by (simp add: detect_end_def)
  moreover have "currentRound (all_in_routine k) \<in> {currentRound k, next_round (currentRound k)}" for k
    by (simp add: all_in_routine_def Let_def)
  moreover have "next_round GAME_STATE_POST_RIVER = GAME_STATE_POST_RIVER" by (simp add: next_round_def)
  ultimately show ?thesis
    by (simp add: switchRounds_def) (metis insertE refresh_runners_fields(2) singletonD)
qed

text \<open>\<open>switchRounds\<close> after a sweep leaves it, whatever the round.\<close>

lemma switchRounds_swept:
  assumes "sets_ok (board h)" "bets (board h) = sweep b" "currentRound h < GAME_STATE_POST_RIVER"
  shows "bets (board (switchRounds h)) = sweep b \<and> sets_ok (board (switchRounds h))"
  using switchRounds_bets [OF assms(1,3)] assms(2) by (auto simp: round_moved_def split: if_splits)

lemma give_turn_bets:
  "give_turn r h = Inr h' \<Longrightarrow> bets (board h') = bets (board h) \<and> sets_ok (board h') = sets_ok (board h) \<and>
     currentRound h' = currentRound h"
  by (auto simp: give_turn_def bets_frame split: option.splits)

lemma finish_round_bets:
  assumes "sets_ok (board h)" "currentRound h = r" "r < GAME_STATE_POST_RIVER"
  shows "round_moved h (finish_round r h)"
proof -
  let ?k = "on_board collect_round h"
  have c: "bets (board ?k) = sweep (bets (board h))" "sets_ok (board ?k)"
    using bets_collect_round [OF assms(1)] by simp_all
  have "currentRound ?k < GAME_STATE_POST_RIVER" using assms by simp
  from switchRounds_swept [OF c(2,1) this] next_round_greater [OF assms(3)] show ?thesis
    using assms(2,3) by (auto simp: round_moved_def finish_round_def Let_def)
qed

lemma run_round_bets:
  assumes "sets_ok (board h)" "currentRound h = r" "r < GAME_STATE_POST_RIVER" "run_round r h = Inr h'"
  shows "round_moved h h'"
proof -
  have f: "round_moved h (finish_round r (update_bero r (\<lambda>_. b) h))" for b
    using finish_round_bets [of "update_bero r (\<lambda>_. b) h" r] assms by (simp add: round_moved_def)
  show ?thesis
    using assms(1,2,4) f
    by (auto simp: run_round_def round_moved_def Let_def map_sum_Inr dest!: give_turn_bets split: if_splits sum.splits)
qed

lemma preflop_turn_bets:
  assumes "sets_ok (board h)" "currentRound h = GAME_STATE_PREFLOP" "preflop_turn h = Inr h'"
  shows "round_moved h h'"
proof -
  have f: "round_moved h (switchRounds (on_board collect_round (k\<lparr>currentRound := GAME_STATE_FLOP\<rparr>)))"
    if "board k = board h" for k
  proof -
    let ?k = "on_board collect_round (k\<lparr>currentRound := GAME_STATE_FLOP\<rparr>)"
    have c: "bets (board ?k) = sweep (bets (board h))" "sets_ok (board ?k)"
      using bets_collect_round [OF assms(1)] that by simp_all
    have "currentRound ?k < GAME_STATE_POST_RIVER" by simp
    note s = switchRounds_swept [OF c(2,1) this]
    have "currentRound (switchRounds ?k) \<noteq> GAME_STATE_PREFLOP"
      using switchRounds_round [of ?k] by (auto simp: next_round_def)
    then show ?thesis using s assms(2) by (simp add: round_moved_def)
  qed
  show ?thesis
    using assms f
    by (auto simp: preflop_turn_def round_moved_def Let_def dest!: give_turn_bets split: if_splits sum.splits)
qed

lemma run_preflop_bets:
  assumes "sets_ok (board h)" "currentRound h = GAME_STATE_PREFLOP" "run_preflop h = Inr h'"
  shows "round_moved h h'"
proof -
  have m: "round_moved k h' \<Longrightarrow> board k = board h \<Longrightarrow> currentRound k = currentRound h \<Longrightarrow> round_moved h h'" for k
    by (simp add: round_moved_def)
  show ?thesis
    using assms(3,1,2)
    by (auto simp: run_preflop_def Let_def round_moved_def split: if_splits sum.splits option.splits
        dest!: preflop_turn_bets [rotated 2])
qed

lemma run_current_bets:
  assumes "sets_ok (board h)" "currentRound h \<le> GAME_STATE_POST_RIVER" "run_current h = Inr h'"
  shows "round_moved h h'"
proof (cases "currentRound h = GAME_STATE_POST_RIVER")
  case True
  then show ?thesis using assms by (simp add: run_current_def round_moved_def)
next
  case False
  then have less: "currentRound h < GAME_STATE_POST_RIVER" using assms(2) by simp
  show ?thesis
  proof (cases "currentRound h = GAME_STATE_PREFLOP")
    case True
    then show ?thesis using run_preflop_bets [OF assms(1) True] assms(3) by (simp add: run_current_def)
  next
    case False
    then have "run_round (currentRound h) h = Inr h'"
      using assms(3) less by (auto simp: run_current_def round_less_post)
    then show ?thesis using run_round_bets [OF assms(1) refl less] by simp
  qed
qed

lemma round_moved_refl: "sets_ok (board h) \<Longrightarrow> round_moved h h"
  by (simp add: round_moved_def)

text \<open>The loop: all that \<open>switchRounds\<close> and \<open>run\<close> do to the money.\<close>

lemma loop_bets:
  assumes ok: "sets_ok (board h)" and less: "currentRound h < GAME_STATE_POST_RIVER"
    and run: "(if handAllInCondition (switchRounds h) then Inr (switchRounds h)
      else run_current (switchRounds h)) = Inr h2"
  shows "round_moved h h2"
proof -
  let ?k = "switchRounds h"
  have k: "round_moved h ?k" by (rule switchRounds_bets [OF ok less])
  show ?thesis
  proof (cases "handAllInCondition ?k")
    case True
    then show ?thesis using k run by simp
  next
    case False
    then have r: "run_current ?k = Inr h2" using run by simp
    have not_all_in: "currentRound ?k = currentRound h \<or> currentRound ?k = GAME_STATE_POST_RIVER"
      using False by (auto simp: switchRounds_def all_in_routine_def detect_end_def refresh_runners_fields Let_def)
    show ?thesis
    proof (cases "currentRound ?k = currentRound h")
      case True
      have "round_moved ?k h2" using k True less r by (intro run_current_bets) (simp_all add: round_moved_def)
      then show ?thesis using k True by (simp add: round_moved_def)
    next
      case False
      then have "h2 = ?k" using r not_all_in by (simp add: run_current_def)
      then show ?thesis using k by simp
    qed
  qed
qed

section \<open>The limits of the rounds\<close>

definition limits :: "local_hand \<Rightarrow> (int \<times> int) list" where
  "limits h = map (\<lambda>b. (highestSet b, minimumRaise b)) (myBeRo h)"

definition limits_of :: "GameState \<Rightarrow> local_hand \<Rightarrow> int \<times> int" where
  "limits_of r h = (highestSet (bero_of r h), minimumRaise (bero_of r h))"

lemma limits_of_eq: "limits h' = limits h \<Longrightarrow> state_code r < length (myBeRo h) \<Longrightarrow> limits_of r h' = limits_of r h"
  unfolding limits_of_def limits_def bero_of_def
  by (metis (no_types, lifting) length_map nth_map)

lemma map_update_same: "(k < length xs \<Longrightarrow> g x = g (xs ! k)) \<Longrightarrow> map g (xs[k := x]) = map g xs"
  by (metis list_update_beyond list_update_id map_update linorder_not_less)

lemma limits_update [simp]:
  assumes "\<And>b. highestSet (f b) = highestSet b \<and> minimumRaise (f b) = minimumRaise b"
  shows "limits (update_bero r f h) = limits h"
  unfolding limits_def update_bero_def by (simp add: map_update_same assms)

lemma limits_first [simp]: "limits (update_bero r end_first_round h) = limits h"
  by (rule limits_update) (simp add: end_first_round_def)

lemma limits_more [simp]:
  "limits (on_board f h) = limits h" "limits (set_all_in h) = limits h" "limits (remember_round h) = limits h"
  "limits (h\<lparr>currentRound := r\<rparr>) = limits h" "limits (h\<lparr>previousPlayerID := u\<rparr>) = limits h"
  "limits (h\<lparr>cardsShown := c\<rparr>) = limits h"
  by (simp_all add: limits_def)

lemma limits_refresh [simp]: "limits (refresh_runners h) = limits h"
  by (simp add: refresh_runners_def Let_def split: prod.split option.split)

lemma limits_switch [simp]: "limits (switchRounds h) = limits h"
proof -
  have "limits (detect_end h) = limits h" for h by (simp add: detect_end_def)
  moreover have "limits (all_in_routine h) = limits h" for h by (simp add: all_in_routine_def Let_def)
  ultimately show ?thesis by (simp add: switchRounds_def)
qed

lemma limits_give_turn: "give_turn r h = Inr h' \<Longrightarrow> limits h' = limits h"
  by (auto simp: give_turn_def split: option.splits)

lemma open_round_limits:
  "open_round a t b = Inr b' \<Longrightarrow> highestSet b' = highestSet b \<and> minimumRaise b' = minimumRaise b"
  by (auto simp: open_round_def set_first_turn_def split: if_splits option.splits)

lemma limits_update_at:
  assumes "highestSet b = highestSet (bero_of r h)" "minimumRaise b = minimumRaise (bero_of r h)"
  shows "limits (update_bero r (\<lambda>_. b) h) = limits h"
  using assms unfolding limits_def update_bero_def bero_of_def by (simp add: map_update_same)

lemma limits_run_round: "run_round r h = Inr h' \<Longrightarrow> limits h' = limits h"
  by (auto simp: run_round_def finish_round_def Let_def map_sum_Inr limits_update_at
      dest!: limits_give_turn open_round_limits split: if_splits sum.splits)

lemma limits_preflop_turn: "preflop_turn h = Inr h' \<Longrightarrow> limits h' = limits h"
  by (auto simp: preflop_turn_def Let_def dest!: limits_give_turn split: if_splits sum.splits)

lemma limits_run_preflop: "run_preflop h = Inr h' \<Longrightarrow> limits h' = limits h"
  by (auto simp: run_preflop_def Let_def set_first_turn_def dest!: limits_preflop_turn split: if_splits sum.splits option.splits)

lemma loop_limits:
  assumes "(if handAllInCondition (switchRounds h) then Inr (switchRounds h)
      else run_current (switchRounds h)) = Inr h2"
  shows "limits h2 = limits h"
proof -
  have "run_current k = Inr h2 \<Longrightarrow> limits h2 = limits k" for k
    by (auto simp: run_current_def dest: limits_run_preflop limits_run_round split: GameState.splits)
  with assms show ?thesis by (auto split: if_splits)
qed

end
