(* ===== verification/Game_Play.thy ===== *)
theory Game_Play
  imports Hand_Flags Game_Settings Bets
begin

text \<open>
  A whole game on the server: hand after hand, with players who leave, are kicked, come back or time
  out between and during the hands. The step relation composes the hand (\<open>Engine_Loop\<close>) with the
  end of a hand and the start of the next one (\<open>Server_Game\<close>); its invariant says that the game
  between two hands is always one that can be dealt.
\<close>

section \<open>The steps of a game\<close>

datatype play_phase = InHand phase | BetweenHands | Finished hand_end

text \<open>The ids of the players are given out by the lobby, each to one name only.\<close>

definition one_name :: "session \<Rightarrow> server_game \<Rightarrow> bool" where
  "one_name s sg \<longleftrightarrow>
     list_all (\<lambda>s'. session_uid s' = session_uid s \<longrightarrow> pdName (sessionPlayer s') = pdName (sessionPlayer s)) (sessions sg) \<and>
     (case runningGame sg of None \<Rightarrow> True | Some g \<Rightarrow>
        list_all (\<lambda>p. myUniqueID p = session_uid s \<longrightarrow> myName p = pdName (sessionPlayer s)) (seatsList (game_board g)))"

definition AddReactivatePlayer :: "nat \<Rightarrow> server_game \<Rightarrow> server_game" where
  "AddReactivatePlayer u sg = sg\<lparr>reactivatePlayers := reactivatePlayers sg @ [u]\<rparr>"

inductive session_step :: "server_game \<Rightarrow> server_game \<Rightarrow> bool" where
  join: "join_running_game s sg = Some sg' \<Longrightarrow> one_name s sg \<Longrightarrow> session_step sg sg'"
| leave: "session_step sg (RemoveSession s sg)"
| kick: "session_step sg (KickPlayer u sg)"
| mute: "session_step sg (MutePlayer u b sg)"
| inactive: "session_step sg (MarkPlayerAsInactive u sg)"
| reset_timeout: "session_step sg (AddReactivatePlayer u sg)"

definition set_hand :: "local_hand \<Rightarrow> server_game \<Rightarrow> server_game" where
  "set_hand h = on_running (\<lambda>g. g\<lparr>currentHand := Some h\<rparr>)"

inductive game_step :: "play_phase \<times> server_game \<Rightarrow> play_phase \<times> server_game \<Rightarrow> bool" where
  hand: "runningGame sg = Some g \<Longrightarrow> currentHand g = Some h \<Longrightarrow> server_step (ph, h) (ph', h') \<Longrightarrow>
    game_step (InHand ph, sg) (InHand ph', set_hand h' sg)"
| over: "end_of_hand sg = Some (e, r, sg') \<Longrightarrow>
    game_step (InHand Over, sg) (if e = NextHand then BetweenHands else Finished e, sg')"
| next_hand: "deck_ok deck \<Longrightarrow> StartNewHand deck minutes secs encryptable sg = Inr sg' \<Longrightarrow>
    game_step (BetweenHands, sg) (InHand Looping, sg')"
| session: "session_step sg sg' \<Longrightarrow> game_step (ph, sg) (ph, sg')"

abbreviation game_steps :: "play_phase \<times> server_game \<Rightarrow> play_phase \<times> server_game \<Rightarrow> bool" where
  "game_steps \<equiv> game_step\<^sup>*\<^sup>*"

section \<open>The persons at the table\<close>

definition person :: "local_player \<Rightarrow> nat \<times> string \<times> bool \<times> PlayerType" where
  "person p = (myUniqueID p, myName p, myActiveStatus p, myType p)"

definition people_ok :: "table \<Rightarrow> bool" where
  "people_ok t \<longleftrightarrow> length (seatsList t) = 2 \<and> activePlayerList t = [0, 1] \<and>
     distinct (map myUniqueID (seatsList t)) \<and> distinct (map myName (seatsList t)) \<and>
     list_all (\<lambda>p. myName p \<noteq> [] \<and> myActiveStatus p) (seatsList t)"

lemma people_ok_persons:
  "people_ok t \<longleftrightarrow> length (map person (seatsList t)) = 2 \<and> activePlayerList t = [0, 1] \<and>
     distinct (map fst (map person (seatsList t))) \<and> distinct (map (fst \<circ> snd) (map person (seatsList t))) \<and>
     list_all (\<lambda>(u, n, a, t). n \<noteq> [] \<and> a) (map person (seatsList t))"
  by (simp add: people_ok_def person_def o_def list_all_length)

lemma people_ok_cong:
  "map person (seatsList t') = map person (seatsList t) \<Longrightarrow> activePlayerList t' = activePlayerList t \<Longrightarrow>
    people_ok t' = people_ok t"
  by (simp only: people_ok_persons)

lemma uids_persons:
  assumes "map person ps = map person qs"
  shows "map myUniqueID ps = map myUniqueID qs" "map myName ps = map myName qs" "map myType ps = map myType qs"
proof -
  have u: "map myUniqueID xs = map fst (map person xs)" for xs by (simp add: person_def o_def)
  have n: "map myName xs = map (fst \<circ> snd) (map person xs)" for xs by (simp add: person_def o_def)
  have t: "map myType xs = map (snd \<circ> snd \<circ> snd) (map person xs)" for xs by (simp add: person_def o_def)
  show "map myType ps = map myType qs" unfolding t [of ps] t [of qs] assms ..
  show "map myUniqueID ps = map myUniqueID qs" unfolding u [of ps] u [of qs] assms ..
  show "map myName ps = map myName qs" unfolding n [of ps] n [of qs] assms ..
qed

lemma lineup_persons:
  assumes "lineup_of h' = lineup_of h"
  shows "map person (seats h') = map person (seats h)" "activePlayerList (board h') = activePlayerList (board h)"
proof -
  have w: "map who (seats h') = map who (seats h)" and a: "activePlayerList (board h') = activePlayerList (board h)"
    using assms by (simp_all add: lineup_of_def lineup_def)
  have p: "map person xs = map (\<lambda>(u, ty, n, b, c). (u, n, b, ty)) (map who xs)" for xs
    by (simp add: person_def who_def o_def)
  show "map person (seats h') = map person (seats h)" unfolding p [of "seats h'"] p [of "seats h"] w ..
  show "activePlayerList (board h') = activePlayerList (board h)" by (rule a)
qed

text \<open>The start of a hand.\<close>

lemma person_ops [simp]:
  "person (set_button b p) = person p" "person (post_blind b v p) = person p"
  "person (deal_player deck k p) = person p" "person (p\<lparr>myCardsFlip := c\<rparr>) = person p"
  "person (p\<lparr>myAction := a\<rparr>) = person p"
  by (simp_all add: person_def set_button_def post_blind_def setMySet_def deal_player_def Let_def split: prod.split)

lemma map_person_update_seat [simp]:
  "(\<And>p. person (f p) = person p) \<Longrightarrow> map person (update_seat i f ps) = map person ps"
  by (simp add: map_update_seat)

lemma deal_players_persons: "deal_players deck act k ps = Inr ps' \<Longrightarrow> map person ps' = map person ps"
  by (induction act arbitrary: k ps) (auto split: if_splits)

lemma assignButtons_persons:
  assumes "assignButtons h = Inr h'"
  shows "map person (seats h') = map person (seats h)"
  using assms by (auto simp: assignButtons_def Let_def on_seat_def map_seats_def o_def split: option.splits)

lemma new_hand_persons:
  assumes "new_hand deck t ident sP dP sB sC = Inr h"
  shows "map person (seats h) = map person (seatsList t)"
  using assms deal_players_persons
  by (fastforce simp: new_hand_def deal_def Let_def map_sum_Inr setBlinds_def post_blinds_def
      map_fold_on_seat [where g = person] o_def dest: assignButtons_persons split: sum.splits)

section \<open>The invariant\<close>

definition badge :: "session \<Rightarrow> nat \<times> string" where
  "badge s = (session_uid s, pdName (sessionPlayer s))"

definition tag :: "local_player \<Rightarrow> nat \<times> string" where
  "tag p = (myUniqueID p, myName p)"

text \<open>No id of a session belongs to a player with another name.\<close>

definition named :: "(nat \<times> string) set \<Rightarrow> (nat \<times> string) set \<Rightarrow> bool" where
  "named B S \<longleftrightarrow> (\<forall>b \<in> B. \<forall>c \<in> B \<union> S. fst b = fst c \<longrightarrow> snd b = snd c)"

definition playing :: "server_game \<Rightarrow> game \<Rightarrow> bool" where
  "playing sg g \<longleftrightarrow> runningGame sg = Some g \<and> people_ok (game_board g) \<and> blinds_pos g \<and>
     dealerPosition g \<in> set (map myUniqueID (seatsList (game_board g))) \<and>
     named (set (map badge (sessions sg))) (set (map tag (seatsList (game_board g))))"

definition game_inv :: "int \<Rightarrow> play_phase \<times> server_game \<Rightarrow> bool" where
  "game_inv T = (\<lambda>(ph, sg). case ph of
     InHand p \<Rightarrow> (\<exists>g h d. playing sg g \<and> currentHand g = Some h \<and> phase_turns T d (p, h) \<and> phase_ok T (p, h))
   | BetweenHands \<Rightarrow> (\<exists>g. playing sg g \<and> between_hands T (game_board g))
   | Finished e \<Rightarrow> True)"

lemma named_mono: "named B S \<Longrightarrow> B' \<subseteq> B \<Longrightarrow> S' \<subseteq> S \<Longrightarrow> named B' S'"
  by (auto simp: named_def)

lemma game_board_change [simp]: "game_board (on_game_board f g) = f (game_board g)"
  by (simp add: game_board_def on_game_board_def split: option.split)

lemma on_game_board_fields [simp]:
  "dealerPosition (on_game_board f g) = dealerPosition g" "currentSmallBlind (on_game_board f g) = currentSmallBlind g"
  "maxBlind (on_game_board f g) = maxBlind g" "blindsList (on_game_board f g) = blindsList g"
  "myGameData (on_game_board f g) = myGameData g"
  "currentHand (on_game_board f g) = map_option (on_board f) (currentHand g)"
  by (simp_all add: on_game_board_def maxBlind_def)

lemma tags_persons: "map person ps = map person qs \<Longrightarrow> map tag ps = map tag qs"
proof -
  assume e: "map person ps = map person qs"
  have t: "map tag xs = map (\<lambda>(u, n, a, t). (u, n)) (map person xs)" for xs by (simp add: person_def tag_def o_def)
  show ?thesis unfolding t [of ps] t [of qs] e ..
qed

lemma maxBlind_hand [simp]:
  "maxBlind (g\<lparr>currentHand := x\<rparr>) = maxBlind g" "maxBlind (g\<lparr>dealerPosition := u\<rparr>) = maxBlind g"
  by (simp_all add: maxBlind_def)

lemma game_inv_InHand:
  "playing sg g \<Longrightarrow> currentHand g = Some h \<Longrightarrow> phase_turns T d (ph, h) \<Longrightarrow> phase_ok T (ph, h) \<Longrightarrow>
    game_inv T (InHand ph, sg)"
  by (simp only: game_inv_def prod.case play_phase.case) blast

text \<open>A game whose seats have the same persons, with the same settings, is as well to play.\<close>

lemma playing_cong:
  assumes "playing sg g" "runningGame sg' = Some g'"
    and "map person (seatsList (game_board g')) = map person (seatsList (game_board g))"
      "activePlayerList (game_board g') = activePlayerList (game_board g)"
    and "blinds_pos g'" "dealerPosition g' \<in> set (map myUniqueID (seatsList (game_board g)))"
    and "set (map badge (sessions sg')) \<subseteq> set (map badge (sessions sg))"
  shows "playing sg' g'"
proof -
  have "people_ok (game_board g')"
    using people_ok_cong [OF assms(3,4)] assms(1) by (simp add: playing_def)
  moreover have "named (set (map badge (sessions sg'))) (set (map tag (seatsList (game_board g'))))"
    unfolding tags_persons [OF assms(3)] using assms(1,7) named_mono by (fastforce simp: playing_def)
  ultimately show ?thesis
    using assms(2,5,6) by (simp only: playing_def uids_persons(1) [OF assms(3)])
qed

section \<open>Sessions and flags\<close>

text \<open>What the operations on sessions do to the running game: at most a flag of one seat.\<close>

definition flag_change :: "game \<Rightarrow> game \<Rightarrow> bool" where
  "flag_change g g' \<longleftrightarrow> g' = g \<or> (\<exists>i f. flag_op f \<and> g' = on_game_board (on_seat i f) g)"

lemma flag_person: "flag_op f \<Longrightarrow> person (f p) = person p"
  using flag_op.op_who [of f p] by (simp add: person_def who_def)

lemma flag_change_playing:
  assumes "flag_change g g'" "playing sg g" "runningGame sg' = Some g'"
    and "set (map badge (sessions sg')) \<subseteq> set (map badge (sessions sg))"
  shows "playing sg' g'"
  using assms(1) unfolding flag_change_def
proof
  assume "g' = g"
  then show ?thesis using playing_cong [OF assms(2,3) _ _ _ _ assms(4)] assms(2) by (simp add: playing_def)
next
  assume "\<exists>i f. flag_op f \<and> g' = on_game_board (on_seat i f) g"
  then obtain i f where f: "flag_op f" "g' = on_game_board (on_seat i f) g" by blast
  show ?thesis
    by (rule playing_cong [OF assms(2,3) _ _ _ _ assms(4)])
       (use assms(2) in \<open>simp_all add: f playing_def on_seat_def flag_person [OF f(1)] blinds_pos_def\<close>)
qed

lemma flag_change_inv:
  assumes "flag_change g g'" "playing sg g" "runningGame sg' = Some g'"
    and "set (map badge (sessions sg')) \<subseteq> set (map badge (sessions sg))"
    and "game_inv T (ph, sg)"
  shows "game_inv T (ph, sg')"
proof -
  have p: "playing sg' g'" by (rule flag_change_playing [OF assms(1-4)])
  have run: "runningGame sg = Some g" using assms(2) by (simp add: playing_def)
  consider "g' = g" | i f where "flag_op f" "g' = on_game_board (on_seat i f) g"
    using assms(1) by (auto simp: flag_change_def)
  then show ?thesis
  proof cases
    case 1
    then show ?thesis using p assms(5) run by (cases ph) (auto simp: game_inv_def playing_def)
  next
    case (2 i f)
    then show ?thesis
      using p assms(5) run flag_op.flag_between_hands [OF 2(1)] flag_op.flag_phase [OF 2(1)] flag_op.flag_phase_ok [OF 2(1)]
      by (cases ph) (fastforce simp: game_inv_def playing_def)+
  qed
qed

text \<open>The operations one by one.\<close>

definition session_change :: "server_game \<Rightarrow> server_game \<Rightarrow> bool" where
  "session_change sg sg' \<longleftrightarrow> set (map badge (sessions sg')) \<subseteq> set (map badge (sessions sg)) \<and>
     (\<forall>g. runningGame sg = Some g \<longrightarrow> (\<exists>g'. runningGame sg' = Some g' \<and> flag_change g g'))"

lemma session_change_inv:
  assumes "session_change sg sg'" "game_inv T (ph, sg)"
  shows "game_inv T (ph, sg')"
proof (cases "\<exists>g. playing sg g")
  case True
  then obtain g g' where "playing sg g" "runningGame sg' = Some g'" "flag_change g g'"
    using assms(1) by (auto simp: session_change_def playing_def)
  then show ?thesis using flag_change_inv assms by (simp add: session_change_def)
next
  case False
  then show ?thesis using assms(2) by (cases ph) (auto simp: game_inv_def)
qed

lemma badge_set_admin [simp]: "badge (set_admin b s) = badge s"
  by (simp add: badge_def set_admin_def)

lemma remove_player_data:
  "map badge (sessions (RemovePlayerData d sg)) = map badge (sessions sg)"
  "runningGame (RemovePlayerData d sg) = runningGame sg"
  by (simp_all add: RemovePlayerData_def if_distrib [of badge] o_def split: list.split)

lemma remove_session_change: "session_change sg (RemoveSession s sg)"
proof -
  have "set (map badge (filter P xs)) \<subseteq> set (map badge xs)" for P and xs :: "session list" by auto
  then show ?thesis
    by (simp add: session_change_def RemoveSession_def Let_def remove_player_data flag_change_def del: set_map)
qed

lemma remove_session_game [simp]: "runningGame (RemoveSession s sg) = runningGame sg"
  by (simp add: RemoveSession_def Let_def remove_player_data)

lemma remove_session_badges: "set (map badge (sessions (RemoveSession s sg))) \<subseteq> set (map badge (sessions sg))"
  using remove_session_change [of sg s] by (simp only: session_change_def)

lemma send_cards_sessions:
  "runningGame (send_cards encryptable ps sg) = runningGame sg \<and>
   set (map badge (sessions (send_cards encryptable ps sg))) \<subseteq> set (map badge (sessions sg))"
proof (induction ps arbitrary: sg)
  case (Cons p ps)
  have "runningGame (RemovePlayer u sg) = runningGame sg \<and> set (map badge (sessions (RemovePlayer u sg))) \<subseteq> set (map badge (sessions sg))" for u
    using remove_session_badges by (simp add: RemovePlayer_def del: set_map split: option.split)
  then show ?case
    using Cons.IH [of "if encryptable (myUniqueID p) then sg else RemovePlayer (myUniqueID p) sg"]
    by (auto simp: send_cards_def simp del: set_map split: if_splits)
qed (simp add: send_cards_def)

lemma on_player_change: "flag_op f \<Longrightarrow> session_change sg (on_running (on_player u f) sg)"
  by (auto simp: session_change_def on_running_def on_player_def flag_change_def split: option.split)

lemma flags [simp]:
  "flag_op (\<lambda>p. p\<lparr>myIsSessionActive := b\<rparr>)" "flag_op (\<lambda>p. p\<lparr>myIsMuted := b\<rparr>)" "flag_op mark_kicked"
  by (rule session_flag.flag_op_axioms muted_flag.flag_op_axioms kicked_flag.flag_op_axioms)+

lemma kick_inv: "game_inv T (ph, sg) \<Longrightarrow> game_inv T (ph, KickPlayer u sg)"
proof -
  assume inv: "game_inv T (ph, sg)"
  have m: "game_inv T (ph, MarkPlayerAsKicked u sg)"
    unfolding MarkPlayerAsKicked_def by (rule session_change_inv [OF on_player_change inv]) simp
  then show ?thesis
    by (auto simp: KickPlayer_def Let_def split: option.split intro: session_change_inv remove_session_change)
qed

lemma set_AddSession: "set (map badge (AddSession s ss)) = insert (badge s) (set (map badge ss))"
proof -
  have "set (AddSession s ss) = insert s (set ss)"
    unfolding AddSession_def by (metis Un_insert_right list.simps(15) set_append takeWhile_dropWhile_id)
  then show ?thesis by simp
qed

lemma named_insert:
  assumes "named B S" "\<And>c. c \<in> B \<union> S \<Longrightarrow> fst c = fst b \<Longrightarrow> snd c = snd b"
  shows "named (insert b B) S"
  using assms by (auto simp: named_def)

lemma join_playing:
  assumes "playing sg g" "join_running_game s sg = Some sg'" "one_name s sg"
  shows "playing sg' g"
proof -
  have run: "runningGame sg = Some g" using assms(1) by (simp add: playing_def)
  have sg': "runningGame sg' = Some g" "set (map badge (sessions sg')) = insert (badge s) (set (map badge (sessions sg)))"
    using assms(2) run
    by (auto simp: join_running_game_def AcceptNewSession_def set_AddSession simp del: set_map split: option.splits if_splits)
  have "named (insert (badge s) (set (map badge (sessions sg)))) (set (map tag (seatsList (game_board g))))"
  proof (rule named_insert)
    show "named (set (map badge (sessions sg))) (set (map tag (seatsList (game_board g))))"
      using assms(1) by (simp add: playing_def)
    show "snd c = snd (badge s)"
      if "c \<in> set (map badge (sessions sg)) \<union> set (map tag (seatsList (game_board g)))" "fst c = fst (badge s)" for c
      using that assms(3) run by (auto simp: one_name_def list_all_iff badge_def tag_def)
  qed
  then show ?thesis using assms(1) sg' by (simp add: playing_def)
qed

lemma join_inv:
  assumes "game_inv T (ph, sg)" "join_running_game s sg = Some sg'" "one_name s sg"
  shows "game_inv T (ph, sg')"
  using assms(1) join_playing [OF _ assms(2,3)] by (cases ph) (auto simp: game_inv_def)

lemma on_player_inv: "flag_op f \<Longrightarrow> game_inv T (ph, sg) \<Longrightarrow> game_inv T (ph, on_running (on_player u f) sg)"
  by (rule session_change_inv [OF on_player_change])

lemma session_step_inv:
  assumes "session_step sg sg'" "game_inv T (ph, sg)"
  shows "game_inv T (ph, sg')"
  using assms(1)
proof cases
  case (reset_timeout u)
  have "session_change sg (AddReactivatePlayer u sg)"
    by (simp add: session_change_def flag_change_def AddReactivatePlayer_def)
  then show ?thesis using reset_timeout assms(2) session_change_inv by simp
next
  case (join s)
  then show ?thesis using join_inv assms(2) by blast
next
  case (leave s)
  then show ?thesis using session_change_inv [OF remove_session_change assms(2)] by simp
next
  case (kick u)
  then show ?thesis using kick_inv [OF assms(2)] by simp
next
  case (mute u b)
  show ?thesis unfolding mute(1) MutePlayer_def by (rule on_player_inv [OF flags(2) assms(2)])
next
  case (inactive u)
  show ?thesis unfolding inactive(1) MarkPlayerAsInactive_def by (rule on_player_inv [OF flags(1) assms(2)])
qed

section \<open>The next hand can be dealt\<close>

abbreviation ready :: "int \<Rightarrow> server_game \<Rightarrow> bool" where
  "ready T sg \<equiv> game_inv T (BetweenHands, sg)"

lemma fold_ready:
  assumes "\<And>x sg. ready T sg \<Longrightarrow> ready T (f x sg)" "ready T sg"
  shows "ready T (fold f xs sg)"
  using assms(2) by (induction xs arbitrary: sg) (simp_all add: assms(1))

lemma on_running_fold: "on_running (fold F us) sg = fold (\<lambda>u. on_running (F u)) us sg"
proof (induction us arbitrary: sg)
  case Nil
  then show ?case by (simp add: on_running_def option.map_id0 [unfolded id_def])
next
  case (Cons u us)
  have "on_running (fold F (u # us)) sg = on_running (fold F us) (on_running (F u) sg)"
    by (simp add: on_running_def option.map_comp o_def)
  also have "\<dots> = fold (\<lambda>u. on_running (F u)) us (on_running (F u) sg)" by (rule Cons.IH)
  also have "\<dots> = fold (\<lambda>u. on_running (F u)) (u # us) sg" by simp
  finally show ?case .
qed

lemma ready_lists [simp]:
  "ready T (sg\<lparr>reactivatePlayers := us\<rparr>) = ready T sg" "ready T (sg\<lparr>rejoinPlayers := us\<rparr>) = ready T sg"
  "ready T (sg\<lparr>rankingMap := r\<rparr>) = ready T sg"
  by (simp_all add: game_inv_def playing_def)

lemma reactivate_ready: "ready T sg \<Longrightarrow> ready T (ReactivatePlayers sg)"
  by (simp add: ReactivatePlayers_def on_running_fold fold_ready on_player_inv)

lemma check_timeouts_ready: "ready T sg \<Longrightarrow> ready T (CheckPlayerTimeouts secs sg)"
proof -
  have "ready T (check_timeout secs i sg)" if r: "ready T sg" for i sg
  proof -
    have "session_change sg (on_running (on_game_board (on_seat i (\<lambda>p. p\<lparr>myIsSessionActive := False\<rparr>))) sg)"
      by (auto simp: session_change_def on_running_def flag_change_def intro: flags)
    from session_change_inv [OF this r] show ?thesis
      using r by (auto simp: check_timeout_def Let_def kick_inv split: option.split)
  qed
  then show "ready T sg \<Longrightarrow> ready T (CheckPlayerTimeouts secs sg)"
    by (simp add: CheckPlayerTimeouts_def fold_ready split: option.split)
qed

text \<open>A player who comes back takes his seat under his new id.\<close>

lemma by_name_seat:
  assumes "getPlayerByName name g = Some i"
  shows "i < length (seatsList (game_board g))" "myName (seatsList (game_board g) ! i) = name"
  using assms by (auto simp: getPlayerByName_def split: if_splits dest!: first_some_SomeD)

definition reseat :: "player_data \<Rightarrow> local_player \<Rightarrow> local_player" where
  "reseat d p = p\<lparr>myUniqueID := pdUniqueId d, myGuid := pdGuid d, myIsSessionActive := True\<rparr>"

lemma reseat_fields [simp]:
  "myUniqueID (reseat d p) = pdUniqueId d" "myName (reseat d p) = myName p" "myCash (reseat d p) = myCash p"
  "mySet (reseat d p) = mySet p" "myActiveStatus (reseat d p) = myActiveStatus p"
  by (simp_all add: reseat_def)

lemma reseat_table:
  assumes "people_ok t" "i < 2" "myName (seatsList t ! i) = n" "\<forall>p \<in> set (seatsList t). myUniqueID p = pdUniqueId d \<longrightarrow> myName p = n"
  shows "people_ok (on_seat i (reseat d) t)"
    "between_hands T t \<Longrightarrow> between_hands T (on_seat i (reseat d) t)"
    "set (map tag (seatsList (on_seat i (reseat d) t))) \<subseteq> insert (pdUniqueId d, n) (set (map tag (seatsList t)))"
    "u \<in> set (map myUniqueID (seatsList t)) \<Longrightarrow>
      (if u = myUniqueID (seatsList t ! i) then pdUniqueId d else u) \<in> set (map myUniqueID (seatsList (on_seat i (reseat d) t)))"
proof -
  obtain p q where s: "seatsList t = [p, q]" using assms(1) by (auto simp: people_ok_def dest!: two_elements)
  have i: "i = 0 \<or> i = 1" using assms(2) by auto
  have np: "myName p \<noteq> myName q" using assms(1) by (simp add: people_ok_def s)
  have i': "seatsList (on_seat i (reseat d) t) = (if i = 0 then [reseat d p, q] else [p, reseat d q])"
    using i by (auto simp: s on_seat_def update_seat_def)
  have fresh: "i = 0 \<Longrightarrow> myUniqueID q \<noteq> pdUniqueId d" "i = 1 \<Longrightarrow> myUniqueID p \<noteq> pdUniqueId d"
    using assms(3,4) np by (auto simp: s)
  show "people_ok (on_seat i (reseat d) t)"
    using i fresh assms(1) unfolding people_ok_def i' by (elim disjE) (simp_all add: s eq_commute [of "pdUniqueId d"])
  show "between_hands T (on_seat i (reseat d) t)" if "between_hands T t"
    using i fresh that unfolding between_hands_def i' by (elim disjE) (simp_all add: s eq_commute [of "pdUniqueId d"])
  show "set (map tag (seatsList (on_seat i (reseat d) t))) \<subseteq> insert (pdUniqueId d, n) (set (map tag (seatsList t)))"
    using i assms(3) unfolding i' by (elim disjE) (simp_all add: s tag_def)
  show "(if u = myUniqueID (seatsList t ! i) then pdUniqueId d else u) \<in> set (map myUniqueID (seatsList (on_seat i (reseat d) t)))"
    if "u \<in> set (map myUniqueID (seatsList t))"
    using i that unfolding i' by (elim disjE) (simp_all add: s, blast+)
qed

lemma game_board_replaceDealer [simp]: "game_board (replaceDealer old new g) = game_board g"
  by (simp add: game_board_def replaceDealer_def split: option.split)

lemma replaceDealer_rest:
  "currentSmallBlind (replaceDealer old new g) = currentSmallBlind g" "blindsList (replaceDealer old new g) = blindsList g"
  "myGameData (replaceDealer old new g) = myGameData g"
  by (simp_all add: replaceDealer_def)

lemma maxBlind_replaceDealer [simp]: "maxBlind (replaceDealer old new g) = maxBlind g"
  by (simp add: maxBlind_def replaceDealer_def)

lemma named_known: "named B S \<Longrightarrow> b \<in> B \<Longrightarrow> named B (insert b S)"
  by (auto simp: named_def)

lemma rejoin_ready:
  assumes "ready T sg" "s \<in> set (sessions sg)"
  shows "ready T (PerformRejoin s sg)"
proof -
  let ?d = "sessionPlayer s"
  obtain g where g: "playing sg g" "between_hands T (game_board g)" "runningGame sg = Some g"
    using assms(1) by (auto simp: game_inv_def playing_def)
  let ?t = "game_board g"
  show ?thesis
  proof (cases "getPlayerByName (pdName ?d) g")
    case None
    then have "PerformRejoin s sg = RemoveSession s sg" using g(3) by (simp add: PerformRejoin_def)
    then show ?thesis using session_change_inv [OF remove_session_change assms(1)] by simp
  next
    case (Some i)
    let ?old = "myUniqueID (seatsList ?t ! i)"
    let ?ps = "seatsList ?t"
    let ?g = "on_game_board (on_seat i (reseat ?d)) (replaceDealer ?old (pdUniqueId ?d) g)"
    have p: "people_ok ?t" "i < 2" "myName (seatsList ?t ! i) = pdName ?d"
      using g(1) by_name_seat [OF Some] by (simp_all add: playing_def people_ok_def)
    have b: "badge s \<in> set (map badge (sessions sg))" using assms(2) by simp
    have "\<forall>q \<in> set (seatsList ?t). myUniqueID q = pdUniqueId ?d \<longrightarrow> myName q = pdName ?d"
    proof (intro ballI impI)
      fix q assume q: "q \<in> set (seatsList ?t)" "myUniqueID q = pdUniqueId ?d"
      have "tag q \<in> set (map tag (seatsList ?t))" using q(1) by simp
      with g(1) b have "fst (badge s) = fst (tag q) \<longrightarrow> snd (badge s) = snd (tag q)"
        unfolding playing_def named_def by blast
      then show "myName q = pdName ?d" using q(2) by (simp add: badge_def tag_def)
    qed
    note r = reseat_table [OF p this]
    have gb: "game_board ?g = on_seat i (reseat ?d) ?t" by simp
    have dealer: "dealerPosition ?g = (if dealerPosition g = ?old then pdUniqueId ?d else dealerPosition g)"
      by (simp add: replaceDealer_def)
    have "named (set (map badge (sessions sg))) (set (map tag ?ps))" using g(1) by (simp only: playing_def)
    from named_known [OF this b] have n: "named (set (map badge (sessions sg))) (set (map tag (seatsList (game_board ?g))))"
      unfolding gb by (rule named_mono) (use r(3) in \<open>simp_all only: badge_def order.refl\<close>)
    have bl: "blinds_pos ?g" using g(1) by (simp add: playing_def blinds_pos_def replaceDealer_rest)
    have de: "dealerPosition ?g \<in> set (map myUniqueID (seatsList (game_board ?g)))"
      unfolding gb dealer by (rule r(4)) (use g(1) in \<open>simp only: playing_def\<close>)
    have e: "PerformRejoin s sg = sg\<lparr>runningGame := Some ?g,
        rankingMap := ReplaceRankingPlayer ?old (pdUniqueId ?d) (rankingMap sg)\<rparr>"
      using g(3) Some by (simp add: PerformRejoin_def Let_def reseat_def [abs_def])
    have "playing (PerformRejoin s sg) ?g"
      unfolding playing_def e using n bl de r(1) gb by simp
    then show ?thesis using r(2) [OF g(2)] gb by (auto simp: game_inv_def)
  qed
qed

lemma rejoining_ready: "ready T sg \<Longrightarrow> ready T (InitRejoiningPlayers sg)"
  unfolding InitRejoiningPlayers_def
  by (rule fold_ready)
     (auto simp: GetSessionByUniquePlayerId_def find_Some_iff intro: rejoin_ready split: option.split)

lemma prepared_persons:
  assumes "between_hands T t"
  shows "map person (seatsList (prepare_board t)) = map person (seatsList t)"
  by (simp add: prepare_board_two [OF assms] o_def)

lemma start_ready:
  assumes "ready T sg" "deck_ok deck" "runningGame sg = Some g"
  shows "\<exists>g'. initHand deck minutes g = Inr g' \<and>
    game_inv T (InHand Looping, sg\<lparr>runningGame := Some (g'\<lparr>currentHand := map_option start_on_server (currentHand g')\<rparr>)\<rparr>)"
proof -
  let ?g1 = "raiseBlinds minutes (g\<lparr>currentHandID := currentHandID g + 1\<rparr>)"
  have g: "playing sg g" "between_hands T (game_board g)"
    using assms(1,3) by (auto simp: game_inv_def playing_def)
  then have p: "people_ok (game_board g)" "blinds_pos g"
    "dealerPosition g \<in> set (map myUniqueID (seatsList (game_board g)))"
    by (simp_all only: playing_def)
  obtain h d u where h: "initHand deck minutes g = Inr (?g1\<lparr>currentHand := Some h, dealerPosition := u\<rparr>)"
    "turns_ok T d (start_on_server h)" "blinds_pos ?g1" "activePlayerList (board h) = [0, 1]"
    "u \<in> set (map myUniqueID (seats h))"
    "new_hand deck (prepare_board (game_board g)) (currentHandID ?g1) (gameStartQuantityPlayers ?g1)
      (dealerPosition g) (currentSmallBlind ?g1) (gameStartCash ?g1) = Inr h"
    using initHand_dealt [OF assms(2) g(2) p(2,3), of minutes] by blast
  let ?g' = "?g1\<lparr>dealerPosition := u, currentHand := Some (start_on_server h)\<rparr>"
  let ?sg = "sg\<lparr>runningGame := Some ?g'\<rparr>"
  have gb: "game_board ?g' = board (start_on_server h)" by (simp add: game_board_def)
  have persons: "map person (seats h) = map person (seatsList (game_board g))"
    using new_hand_persons [OF h(6)] prepared_persons [OF g(2)] by (rule trans)
  have act: "activePlayerList (board (start_on_server h)) = [0, 1]"
    using h(4) by (simp add: start_on_server_def start_def skipFirstRunGui_def)
  have "playing ?sg ?g'"
  proof (rule playing_cong [OF g(1)])
    show "map person (seatsList (game_board ?g')) = map person (seatsList (game_board g))"
      unfolding gb start_fields by (rule persons)
    show "activePlayerList (game_board ?g') = activePlayerList (game_board g)"
      using act p(1) by (simp add: gb people_ok_def)
    show "blinds_pos ?g'" using h(3) by (simp add: blinds_pos_def)
    show "dealerPosition ?g' \<in> set (map myUniqueID (seatsList (game_board g)))"
      using h(5) by (simp add: uids_persons(1) [OF persons] del: set_map)
  qed simp_all
  moreover have "phase_ok T (Looping, start_on_server h)"
    using h(2) by (simp add: phase_ok_def turns_ok_def)
  moreover have "phase_turns T d (Looping, start_on_server h)"
    using h(2) by (simp add: phase_turns_def)
  ultimately have "game_inv T (InHand Looping, ?sg)"
    by (intro game_inv_InHand [of _ ?g']) simp_all
  then show ?thesis using h(1) by simp
qed

lemma StartNewHand_game:
  assumes "runningGame (CheckPlayerTimeouts secs (InitRejoiningPlayers (ReactivatePlayers sg))) = Some g"
    "runningGame sg \<noteq> None" "initHand deck minutes g = Inr g'"
  obtains sg' where "StartNewHand deck minutes secs encryptable sg = Inr sg'"
    "runningGame sg' = Some (g'\<lparr>currentHand := map_option start_on_server (currentHand g')\<rparr>)"
    "set (map badge (sessions sg')) \<subseteq> set (map badge (sessions (CheckPlayerTimeouts secs (InitRejoiningPlayers (ReactivatePlayers sg)))))"
proof -
  let ?sg = "CheckPlayerTimeouts secs (InitRejoiningPlayers (ReactivatePlayers sg))"
  let ?sg2 = "send_cards encryptable (seatsList (game_board g')) (?sg\<lparr>runningGame := Some g'\<rparr>)"
  have "runningGame ?sg2 = Some g'" "set (map badge (sessions ?sg2)) \<subseteq> set (map badge (sessions ?sg))"
    using send_cards_sessions [of encryptable "seatsList (game_board g')" "?sg\<lparr>runningGame := Some g'\<rparr>"]
    by (simp_all del: set_map)
  then show ?thesis
    using assms that by (simp add: StartNewHand_def Let_def on_running_def del: set_map)
qed

lemma StartNewHand_ready:
  assumes "ready T sg" "deck_ok deck"
  shows "\<exists>sg'. StartNewHand deck minutes secs encryptable sg = Inr sg' \<and> game_inv T (InHand Looping, sg')"
proof -
  let ?sg = "CheckPlayerTimeouts secs (InitRejoiningPlayers (ReactivatePlayers sg))"
  have r: "ready T ?sg" by (intro check_timeouts_ready rejoining_ready reactivate_ready assms(1))
  then obtain g where g: "runningGame ?sg = Some g" by (auto simp: game_inv_def playing_def)
  have run: "runningGame sg \<noteq> None" using assms(1) by (auto simp: game_inv_def playing_def)
  from start_ready [OF r assms(2) g, of minutes] obtain g' where g': "initHand deck minutes g = Inr g'"
    "game_inv T (InHand Looping, ?sg\<lparr>runningGame := Some (g'\<lparr>currentHand := map_option start_on_server (currentHand g')\<rparr>)\<rparr>)"
    by blast
  obtain sg' where sg': "StartNewHand deck minutes secs encryptable sg = Inr sg'"
    "runningGame sg' = Some (g'\<lparr>currentHand := map_option start_on_server (currentHand g')\<rparr>)"
    "set (map badge (sessions sg')) \<subseteq> set (map badge (sessions ?sg))"
    by (rule StartNewHand_game [OF g run g'(1)])
  have "session_change (?sg\<lparr>runningGame := Some (g'\<lparr>currentHand := map_option start_on_server (currentHand g')\<rparr>)\<rparr>) sg'"
    using sg'(2,3) by (simp add: session_change_def flag_change_def del: set_map)
  from session_change_inv [OF this g'(2)] sg'(1) show ?thesis by blast
qed

section \<open>The invariant of a game\<close>

lemma hand_step_inv:
  assumes "game_inv T (InHand ph, sg)" "runningGame sg = Some g" "currentHand g = Some h"
    and "server_step (ph, h) (ph', h')" "T < 2 ^ 31"
  shows "game_inv T (InHand ph', set_hand h' sg)"
proof -
  obtain d where d: "playing sg g" "phase_turns T d (ph, h)" "phase_ok T (ph, h)"
    using assms(1-3) by (auto simp: game_inv_def playing_def)
  let ?g = "g\<lparr>currentHand := Some h'\<rparr>"
  have l: "lineup_of h' = lineup_of h" using lineup_server_step [OF assms(4)] by simp
  have gb: "game_board g = board h" "game_board ?g = board h'" using assms(3) by (simp_all add: game_board_def)
  have "playing (set_hand h' sg) ?g"
    by (rule playing_cong [OF d(1)])
       (use d(1) assms(2) lineup_persons [OF l] in
         \<open>simp_all add: set_hand_def on_running_def gb playing_def blinds_pos_def maxBlind_def del: set_map\<close>)
  moreover have "currentHand ?g = Some h'" by simp
  ultimately show ?thesis
    by (rule game_inv_InHand [OF _ _ server_step_turns [OF assms(4) d(2) assms(5)] server_step_ok [OF assms(4) d(3) assms(5)]])
qed

text \<open>When two players still have cash at the end of the hand, nobody was taken off the table.\<close>

lemma remove_disconnected_fields [simp]:
  "person (remove_disconnected sg p) = person p" "mySet (remove_disconnected sg p) = mySet p"
  by (simp_all add: remove_disconnected_def person_def)

lemma remove_disconnected_cash:
  "0 < myCash (remove_disconnected sg p) \<Longrightarrow> myCash (remove_disconnected sg p) = myCash p"
  by (auto simp: remove_disconnected_def split: if_splits)

lemma remove_disconnected_table:
  assumes "seatsList t = [p, q]" "activePlayerList t = [0, 1]" "pot t = 0" "myCash p + myCash q = T"
    and "mySet p = 0" "mySet q = 0" "people_ok t" "game_board g = map_seats (remove_disconnected sg) t"
    and "hand_end_of g = NextHand"
  shows "between_hands T (game_board g)"
proof -
  let ?p = "remove_disconnected sg p" and ?q = "remove_disconnected sg q"
  have cash: "0 < myCash ?p" "0 < myCash ?q"
    using assms(9) by (auto simp: hand_end_of_def players_with_cash_def assms(1,2,8) map_seats_def split: if_splits)
  have "person ?p = person p" "person ?q = person q" by simp_all
  then show ?thesis
    using cash assms(3-7) remove_disconnected_cash [OF cash(1)] remove_disconnected_cash [OF cash(2)]
    by (simp add: between_hands_def assms(1,2,8) map_seats_def people_ok_def person_def)
qed

lemma over_step_inv:
  assumes "game_inv T (InHand Over, sg)" "end_of_hand sg = Some (e, r, sg')"
  shows "game_inv T (if e = NextHand then BetweenHands else Finished e, sg')"
proof (cases "e = NextHand")
  case True
  obtain g h where g: "playing sg g" "currentHand g = Some h" "paid_out T h"
    using assms(1) by (auto simp: game_inv_def phase_ok_def)
  have b: "game_board g = board h" using g(2) by (simp add: game_board_def)
  have run: "runningGame sg = Some g" and people: "people_ok (board h)"
    using g(1) by (simp_all only: playing_def b)
  let ?f = "map_seats (remove_disconnected sg)"
  let ?g = "on_game_board ?f g"
  have sg': "hand_end_of ?g = NextHand" "runningGame sg' = Some ?g" "sessions sg' = sessions sg"
    using assms(2) True run
    by (auto simp: end_of_hand_def RemoveDisconnectedPlayers_def on_running_def Let_def split: if_splits)
  obtain p q where s: "seats h = [p, q]" using g(3) by (auto simp: paid_out_def dest!: two_elements)
  have "between_hands T (game_board ?g)"
    by (rule remove_disconnected_table [OF s _ _ _ _ _ people _ sg'(1)])
       (use g(3) people in \<open>simp_all add: b paid_out_def s people_ok_def\<close>)
  moreover have "playing sg' ?g"
    by (rule playing_cong [OF g(1) sg'(2)])
       (use g(1) in \<open>simp_all add: sg'(3) map_seats_def o_def playing_def blinds_pos_def\<close>)
  ultimately show ?thesis using True by (auto simp: game_inv_def)
qed (simp add: game_inv_def)

lemma game_step_inv:
  assumes "game_step s s'" "game_inv T s" "T < 2 ^ 31"
  shows "game_inv T s'"
  using assms(1)
proof cases
  case (hand sg g h ph ph' h')
  then show ?thesis using hand_step_inv assms(2,3) by simp
next
  case (over sg e r sg')
  then show ?thesis using over_step_inv assms(2) by simp
next
  case (next_hand deck minutes secs encryptable sg sg')
  then show ?thesis using StartNewHand_ready [of T sg deck minutes secs encryptable] assms(2) by simp
next
  case (session sg sg' ph)
  then show ?thesis using session_step_inv assms(2) by simp
qed

lemma game_steps_inv: "game_steps s s' \<Longrightarrow> game_inv T s \<Longrightarrow> T < 2 ^ 31 \<Longrightarrow> game_inv T s'"
  by (induction rule: rtranclp_induct) (auto dest: game_step_inv)

section \<open>Only persons play\<close>

text \<open>Who sits at the table as a person and who as a computer never changes during a game.\<close>

definition types :: "server_game \<Rightarrow> PlayerType list option" where
  "types sg = map_option (\<lambda>g. map myType (seatsList (game_board g))) (runningGame sg)"

lemma types_running: "runningGame sg' = runningGame sg \<Longrightarrow> types sg' = types sg"
  by (simp add: types_def)

lemma types_on_running:
  "(\<And>g. map myType (seatsList (game_board (f g))) = map myType (seatsList (game_board g))) \<Longrightarrow>
    types (on_running f sg) = types sg"
  by (simp add: types_def on_running_def option.map_comp o_def)

lemma types_fold: "(\<And>x sg. types (f x sg) = types sg) \<Longrightarrow> types (fold f xs sg) = types sg"
  by (induction xs arbitrary: sg) simp_all

lemma on_player_types:
  "flag_op f \<Longrightarrow> map myType (seatsList (game_board (on_player u f g))) = map myType (seatsList (game_board g))"
  using flag_person by (auto simp: on_player_def on_seat_def map_update_seat person_def split: option.split)

lemma types_flag: "flag_op f \<Longrightarrow> types (on_running (on_player u f) sg) = types sg"
  by (rule types_on_running) (rule on_player_types)

lemma types_kick: "types (KickPlayer u sg) = types sg"
proof -
  have "types (MarkPlayerAsKicked u sg) = types sg"
    unfolding MarkPlayerAsKicked_def by (rule types_flag) simp
  then show ?thesis
    by (simp add: KickPlayer_def Let_def types_running [OF remove_session_game] split: option.split)
qed

lemma types_session_step: "session_step sg sg' \<Longrightarrow> types sg' = types sg"
proof (induction rule: session_step.induct)
  case (join s sg sg')
  then show ?case
    by (auto simp: join_running_game_def AcceptNewSession_def types_def split: option.splits if_splits)
next
  case (leave sg s)
  then show ?case by (rule types_running [OF remove_session_game])
next
  case (kick sg u)
  then show ?case by (rule types_kick)
next
  case (reset_timeout sg u)
  show ?case by (simp add: AddReactivatePlayer_def types_def)
qed (simp_all add: MutePlayer_def MarkPlayerAsInactive_def types_flag)

lemma types_rejoin: "types (PerformRejoin s sg) = types sg"
  by (simp add: PerformRejoin_def Let_def types_running [OF remove_session_game] split: option.split)
     (simp add: types_def on_seat_def map_update_seat)

lemma types_between:
  "types (CheckPlayerTimeouts secs (InitRejoiningPlayers (ReactivatePlayers sg))) = types sg"
proof -
  have seat: "types (on_running (on_game_board (on_seat i (\<lambda>p. p\<lparr>myIsSessionActive := b\<rparr>))) sg) = types sg" for i b sg
    by (rule types_on_running) (simp add: on_seat_def map_update_seat)
  have "types (check_timeout secs i sg) = types sg" for i sg
    by (simp add: check_timeout_def Let_def types_kick seat split: option.split)
  then have t: "types (CheckPlayerTimeouts secs sg) = types sg" for sg
    by (simp add: CheckPlayerTimeouts_def types_fold split: option.split)
  have lists: "types (sg\<lparr>rejoinPlayers := us\<rparr>) = types sg" "types (sg\<lparr>reactivatePlayers := us\<rparr>) = types sg" for us sg
    by (simp_all add: types_def)
  have r: "types (InitRejoiningPlayers sg) = types sg" for sg
    unfolding InitRejoiningPlayers_def
    by (subst types_fold) (simp_all add: types_rejoin lists split: option.split)
  have a: "types (ReactivatePlayers sg) = types sg"
    unfolding ReactivatePlayers_def on_running_fold lists by (rule types_fold) (simp add: types_flag)
  show ?thesis by (simp only: t r a)
qed

lemma initHand_types:
  assumes "initHand deck minutes g = Inr g'"
  shows "map myType (seatsList (game_board g')) = map myType (seatsList (game_board g))"
proof -
  let ?g = "raiseBlinds minutes (g\<lparr>currentHandID := currentHandID g + 1\<rparr>)"
  obtain h where h: "new_hand deck (prepare_board (game_board ?g)) (currentHandID ?g) (gameStartQuantityPlayers ?g)
      (dealerPosition ?g) (currentSmallBlind ?g) (gameStartCash ?g) = Inr h" "game_board g' = board h"
    using assms by (auto simp: initHand_def Let_def game_board_def map_sum_Inr split: sum.splits)
  have gb: "game_board (g\<lparr>currentHandID := k\<rparr>) = game_board g" for k
    by (simp add: game_board_def split: option.split)
  have "map myType (seatsList (prepare_board t)) = map myType (seatsList t)" for t
    by (simp add: prepare_board_def drop_broke_def Let_def map_fold_on_seat map_seats_def o_def)
  then show ?thesis using uids_persons(3) [OF new_hand_persons [OF h(1)]] by (simp add: h(2) gb)
qed

lemma StartNewHand_types: "StartNewHand deck minutes secs encryptable sg = Inr sg' \<Longrightarrow> types sg' = types sg"
proof -
  assume s: "StartNewHand deck minutes secs encryptable sg = Inr sg'"
  let ?sg = "CheckPlayerTimeouts secs (InitRejoiningPlayers (ReactivatePlayers sg))"
  obtain g g' where g: "runningGame sg \<noteq> None" "runningGame ?sg = Some g" "initHand deck minutes g = Inr g'"
    using s by (auto simp: StartNewHand_def Let_def split: if_splits option.splits sum.splits)
  have "runningGame sg' = Some (g'\<lparr>currentHand := map_option start_on_server (currentHand g')\<rparr>)"
    using StartNewHand_game [OF g(2,1,3)] s by (metis sum.inject(2))
  moreover have "map myType (seatsList (game_board (g'\<lparr>currentHand := map_option start_on_server (currentHand g')\<rparr>)))
      = map myType (seatsList (game_board g'))"
    by (auto simp: game_board_def start_fields split: option.split)
  ultimately have "types sg' = types ?sg" using g(2) initHand_types [OF g(3)] by (simp add: types_def)
  then show ?thesis by (simp only: types_between)
qed

text \<open>The loop waits for a computer only if one sits at the table.\<close>

definition humans :: "play_phase \<times> server_game \<Rightarrow> bool" where
  "humans = (\<lambda>(ph, sg). ph \<noteq> InHand Computing \<and>
     (\<forall>ts. types sg = Some ts \<longrightarrow> list_all (\<lambda>ty. ty = PLAYER_TYPE_HUMAN) ts))"

lemma EngineLoop_computer:
  assumes "EngineLoop connected h = Inr (ComputerAction h')"
  shows "PLAYER_TYPE_COMPUTER \<in> set (map myType (seats h'))"
proof -
  obtain i where "getCurrentPlayer h' = Inr i" "myType (seats h' ! i) = PLAYER_TYPE_COMPUTER"
    using assms by (auto simp: EngineLoop_def continue_hand_def Let_def split: sum.splits if_splits)
  moreover then have "i < length (seats h')"
    by (auto simp: getCurrentPlayer_def dest: getSeatIt_Some(1) split: option.splits)
  ultimately show ?thesis by (metis nth_mem length_map nth_map)
qed

lemma hand_types: "runningGame sg = Some g \<Longrightarrow> currentHand g = Some h \<Longrightarrow> types sg = Some (map myType (seats h))"
  by (simp add: types_def game_board_def)

lemma humans_step:
  assumes "game_step s s'" "humans s"
  shows "humans s'"
  using assms(1)
proof cases
  case (hand sg g h ph ph' h')
  have l: "map who (seats h') = map who (seats h)"
    using lineup_server_step [OF hand(5)] by (simp add: lineup_of_def lineup_def)
  have "map myType xs = map (\<lambda>(u, ty, n, b, c). ty) (map who xs)" for xs by (simp add: who_def o_def)
  then have ty: "map myType (seats h') = map myType (seats h)" using l by metis
  have sg': "types (set_hand h' sg) = types sg"
    using hand(3,4) by (simp add: hand_types set_hand_def on_running_def types_def game_board_def ty)
  have "ph' \<noteq> Computing"
  proof
    assume "ph' = Computing"
    with hand(5) have "\<exists>connected. EngineLoop connected h = Inr (ComputerAction h')" by cases auto
    then have "PLAYER_TYPE_COMPUTER \<in> set (map myType (seats h))" using EngineLoop_computer ty by metis
    then show False
      using assms(2) hand(1) hand_types [OF hand(3,4)] by (auto simp: humans_def list_all_iff)
  qed
  then show ?thesis using assms(2) hand(1,2) sg' by (simp add: humans_def)
next
  case (over sg e r sg')
  have "types sg' = types sg \<or> types sg' = None"
    using over(3) by (auto simp: end_of_hand_def Let_def types_def RemoveDisconnectedPlayers_def InternalEndGame_def
        on_running_def map_seats_def o_def remove_disconnected_def split: option.splits if_splits)
  then show ?thesis using assms(2) over(1,2) by (auto simp: humans_def)
next
  case (next_hand deck minutes secs encryptable sg sg')
  then show ?thesis using StartNewHand_types [OF next_hand(4)] assms(2) by (simp add: humans_def)
next
  case (session sg sg' ph)
  then show ?thesis using types_session_step assms(2) by (simp add: humans_def)
qed

lemma humans_steps: "game_steps s s' \<Longrightarrow> humans s \<Longrightarrow> humans s'"
  by (induction rule: rtranclp_induct) (auto dest: humans_step)

section \<open>The start of a game\<close>

text \<open>Two players are in a game whose settings the server accepted.\<close>

definition startable :: "net_game_info \<Rightarrow> string \<Rightarrow> ServerMode \<Rightarrow> server_game \<Rightarrow> bool" where
  "startable i password mode sg \<longleftrightarrow>
     accepted i password mode \<and> gameData sg = GetGameData i new_game_data \<and>
     computerPlayers sg = [] \<and> length (sessions sg) = 2 \<and> distinct (session_uids sg) \<and>
     distinct (map (pdName \<circ> sessionPlayer) (sessions sg)) \<and>
     list_all (\<lambda>s. pdName (sessionPlayer s) \<noteq> [] \<and> pdStartCash (sessionPlayer s) < 0) (sessions sg) \<and>
     int (gameNum sg) < MAX_SAFE_GAME_NUM"

definition shuffle :: "(player_data list \<Rightarrow> player_data list) \<Rightarrow> bool" where
  "shuffle f \<longleftrightarrow> (\<forall>ds. mset (f ds) = mset ds)"

lemma AssignPlayerNumbers_map:
  assumes "\<And>d n. f (d\<lparr>pdNumber := n\<rparr>) = f d"
  shows "map f (AssignPlayerNumbers ds) = map f ds"
proof -
  have "map f (AssignPlayerNumbers ds) = map (f \<circ> snd) (zip [0..<length ds] ds)"
    by (simp add: AssignPlayerNumbers_def assms split_def o_def)
  also have "\<dots> = map f ds" by (simp add: map_snd_zip flip: map_map)
  finally show ?thesis .
qed

lemma new_game_exists:
  assumes "length pds = 2" "k < 2" "numberOfPlayers sd = 2" "startDealerPlayerId sd = pdUniqueId (pds ! k)"
  shows "\<exists>g. new_game pds gd sd num = Inr g"
proof -
  have "list_ex (\<lambda>d. pdUniqueId d = startDealerPlayerId sd) pds"
    using assms by (auto simp: list_ex_iff intro: bexI [of _ "pds ! k"])
  then show ?thesis using assms(3) by (simp add: new_game_def MAX_NUMBER_OF_PLAYERS_def)
qed

lemma shuffled_players:
  assumes "shuffle f" "\<And>d n. g (d\<lparr>pdNumber := n\<rparr>) = g d"
  shows "mset (map g (AssignPlayerNumbers (f ds))) = mset (map g ds)"
    "set (map g (AssignPlayerNumbers (f ds))) = set (map g ds)"
    "distinct (map g (AssignPlayerNumbers (f ds))) = distinct (map g ds)"
proof -
  have "mset (map g (f ds)) = mset (map g ds)"
    using assms(1) unfolding shuffle_def by (simp only: mset_map)
  then show m: "mset (map g (AssignPlayerNumbers (f ds))) = mset (map g ds)"
    by (simp only: AssignPlayerNumbers_map [of g, OF assms(2)])
  show "set (map g (AssignPlayerNumbers (f ds))) = set (map g ds)" by (rule mset_eq_setD [OF m])
  show "distinct (map g (AssignPlayerNumbers (f ds))) = distinct (map g ds)" by (rule mset_eq_imp_distinct_iff [OF m])
qed

lemma shuffled_all:
  assumes "shuffle f" "\<And>d n. P (d\<lparr>pdNumber := n\<rparr>) = P d"
  shows "list_all P (AssignPlayerNumbers (f ds)) = list_all P ds"
proof -
  have "list_all P xs = (\<forall>b \<in> set (map P xs). b)" for xs by (simp add: list_all_iff)
  then show ?thesis by (simp only: shuffled_players(2) [of f P, OF assms])
qed

lemma started_people:
  assumes "new_game pds d sd num = Inr g" "length pds = 2" "numberOfPlayers sd = 2"
    and "distinct (map pdUniqueId pds)" "distinct (map pdName pds)" "list_all (\<lambda>p. pdName p \<noteq> []) pds"
  shows "people_ok (game_board g)"
    "set (map tag (seatsList (game_board g))) = set (map (\<lambda>d. (pdUniqueId d, pdName d)) pds)"
    "map myType (seatsList (game_board g)) = map pdType pds"
proof -
  obtain a b where pds: "pds = [a, b]" using assms(2) by (auto dest!: two_elements)
  have g: "game_board g = new_board [new_seat d sd pds 0, new_seat d sd pds 1] [0, 1]"
    using assms(1,3) by (auto simp: new_game_def game_board_def MAX_NUMBER_OF_PLAYERS_def upt_two split: if_splits)
  show "people_ok (game_board g)"
    using assms(3-6) by (simp add: g new_board_def people_ok_def new_seat_def new_player_def pds)
  show "set (map tag (seatsList (game_board g))) = set (map (\<lambda>d. (pdUniqueId d, pdName d)) pds)"
    by (simp add: g new_board_def tag_def new_seat_def new_player_def pds)
  show "map myType (seatsList (game_board g)) = map pdType pds"
    by (simp add: g new_board_def new_seat_def new_player_def pds)
qed

lemma game_starts:
  assumes "startable i password mode sg" "shuffle f" "k < 2"
  shows "\<exists>sg'. InternalStartGame f k sg = Some sg' \<and>
    game_inv (2 * startMoney (gameData sg)) (BetweenHands, sg')"
proof -
  let ?ds = "map sessionPlayer (sessions sg)" and ?d = "gameData sg"
  let ?pds = "AssignPlayerNumbers (f ?ds)"
  let ?sd = "\<lparr>startDealerPlayerId = pdUniqueId (?pds ! k), numberOfPlayers = int (length ?pds)\<rparr>"
  note s = assms(1) [unfolded startable_def]
  note perm = shuffled_players [OF assms(2), of _ ?ds]
  note bounds = accepted_bounds [OF conjunct1 [OF s] conjunct1 [OF conjunct2 [OF s]]]
  have full: "GetFullPlayerDataList sg = ?ds" using s by (simp add: GetFullPlayerDataList_def list_all_iff)
  have two: "length ?pds = 2" using s mset_eq_length [OF perm(1) [of pdUniqueId]] by simp
  obtain g where g: "new_game ?pds ?d ?sd (int (gameNum sg)) = Inr g"
    using new_game_exists [OF two assms(3), of ?sd] two by auto
  have distinct: "distinct (map pdUniqueId ?pds)" "distinct (map pdName ?pds)"
    using s perm(3) [of pdUniqueId] perm(3) [of pdName] by (simp_all add: o_def)
  have people: "list_all (\<lambda>p. pdName p \<noteq> []) ?pds" "list_all (\<lambda>p. pdStartCash p < 0) ?pds"
    unfolding shuffled_all [OF assms(2), of "\<lambda>p. pdName p \<noteq> []", simplified]
      shuffled_all [OF assms(2), of "\<lambda>p. pdStartCash p < 0", simplified]
    using s by (simp_all add: list_all_iff)
  have n: "numberOfPlayers ?sd = 2" using two by simp
  note started = started_people [OF g two n distinct people(1)] new_game_two [OF two distinct(1) people(2) bounds(4) n g]
  let ?sg = "sg\<lparr>gameNum := gameNum sg + 1, runningGame := Some g, rankingMap := InitRankingMap ?pds (rankingMap sg)\<rparr>"
  have "InternalStartGame f k sg = Some ?sg"
    using s two assms(3) g by (simp add: InternalStartGame_def full Let_def GetNextGameNum_def)
  moreover have "game_inv (2 * startMoney ?d) (BetweenHands, ?sg)"
  proof -
    have "named (set (map badge (sessions sg))) (set (map badge (sessions sg)))"
      using s by (auto simp: named_def badge_def distinct_map inj_on_def)
    moreover have "set (map tag (seatsList (game_board g))) = set (map badge (sessions sg))"
      unfolding started(2) using perm(2) [of "\<lambda>d. (pdUniqueId d, pdName d)"] by (simp add: badge_def image_image)
    moreover have "blinds_pos g"
      using bounds by (simp add: blinds_pos_def started maxBlind_def INT_MAX_def Let_def signed_divide_int_def)
    ultimately have "playing ?sg g" using started(1,10) by (simp add: playing_def)
    then show ?thesis using started(4) by (auto simp: game_inv_def)
  qed
  ultimately show ?thesis by blast
qed

text \<open>A game of persons.\<close>

lemma started_humans:
  assumes "startable i password mode sg" "shuffle f" "k < 2" "InternalStartGame f k sg = Some sg1"
    and "list_all (\<lambda>s. pdType (sessionPlayer s) = PLAYER_TYPE_HUMAN) (sessions sg)"
  shows "humans (BetweenHands, sg1)"
proof -
  let ?pds = "AssignPlayerNumbers (f (map sessionPlayer (sessions sg)))"
  note s = assms(1) [unfolded startable_def]
  have full: "GetFullPlayerDataList sg = map sessionPlayer (sessions sg)" using s by (simp add: GetFullPlayerDataList_def list_all_iff)
  have two: "length ?pds = 2"
    using s mset_eq_length [OF shuffled_players(1) [OF assms(2), of pdUniqueId "map sessionPlayer (sessions sg)"]] by simp
  have names: "list_all (\<lambda>p. pdName p \<noteq> []) ?pds" and ty: "list_all (\<lambda>p. pdType p = PLAYER_TYPE_HUMAN) ?pds"
    unfolding shuffled_all [OF assms(2), of "\<lambda>p. pdName p \<noteq> []", simplified]
      shuffled_all [OF assms(2), of "\<lambda>p. pdType p = PLAYER_TYPE_HUMAN", simplified]
    using s assms(5) by (simp_all add: list_all_iff)
  have distinct: "distinct (map pdUniqueId ?pds)" "distinct (map pdName ?pds)"
    using s shuffled_players(3) [OF assms(2), of pdUniqueId "map sessionPlayer (sessions sg)"]
      shuffled_players(3) [OF assms(2), of pdName "map sessionPlayer (sessions sg)"] by (simp_all add: o_def)
  obtain g where g: "runningGame sg1 = Some g"
    "new_game ?pds (gameData sg) \<lparr>startDealerPlayerId = pdUniqueId (?pds ! k), numberOfPlayers = int (length ?pds)\<rparr>
       (int (gameNum sg)) = Inr g"
    using assms(3,4) two s by (auto simp: InternalStartGame_def full Let_def GetNextGameNum_def split: if_splits sum.splits)
  have "map myType (seatsList (game_board g)) = map pdType ?pds"
    by (rule started_people(3) [OF g(2) two _ distinct names]) (simp add: two)
  then show ?thesis using ty by (auto simp: humans_def types_def g(1) list_all_iff)
qed

lemma startable_chips:
  "startable i password mode sg \<Longrightarrow> 2 * startMoney (gameData sg) < 2 ^ 31"
  using accepted_bounds(5) by (fastforce simp: startable_def)

lemma reached_inv:
  assumes "startable i password mode sg" "shuffle f" "k < 2"
    and "InternalStartGame f k sg = Some sg1" "game_steps (BetweenHands, sg1) s"
  shows "game_inv (2 * startMoney (gameData sg)) s"
  using game_starts [OF assms(1-3)] game_steps_inv [OF assms(5) _ startable_chips [OF assms(1)]] assms(4) by auto

section \<open>Properties of a game\<close>

text \<open>What the server does next is done without an exception. An action request that arrives while it
  waits is answered; only the request of a session whose id no seat has is an error.\<close>

definition request_answered :: "local_hand \<Rightarrow> nat \<Rightarrow> nat \<Rightarrow> action_request \<Rightarrow> bool" where
  "request_answered h gameId u q \<longleftrightarrow>
    (if req_gameid q \<noteq> gameId \<or> u \<in> set (map myUniqueID (seats h))
     then \<exists>answer. handle_action_request gameId u q h = Inr answer
     else handle_action_request gameId u q h = Inl ERR_NET_UNKNOWN_PLAYER_ID)"

definition goes_on :: "play_phase \<times> server_game \<Rightarrow> bool" where
  "goes_on = (\<lambda>(ph, sg). case ph of
     InHand p \<Rightarrow> (\<exists>g h. runningGame sg = Some g \<and> currentHand g = Some h \<and>
       (case p of
          Looping \<Rightarrow> (\<forall>connected. \<exists>res. EngineLoop connected h = Inr res)
        | Waiting \<Rightarrow> (\<exists>h'. player_timeout h = Inr h') \<and> (\<forall>gameId u q. request_answered h gameId u q)
        | Computing \<Rightarrow> False
        | Over \<Rightarrow> (\<exists>res. end_of_hand sg = Some res)))
   | BetweenHands \<Rightarrow> (\<forall>deck minutes secs encryptable. deck_ok deck \<longrightarrow>
       (\<exists>sg'. StartNewHand deck minutes secs encryptable sg = Inr sg'))
   | Finished e \<Rightarrow> True)"

lemma turn_given_answers:
  assumes "turn_given T sb h"
  shows "request_answered h gameId u q"
proof -
  obtain i where "getCurrentPlayer h = Inr i" by (rule current_seat [OF assms])
  moreover have "getSeatIt u (board h) = None \<longleftrightarrow> u \<notin> set (map myUniqueID (seats h))"
    by (simp only: getSeatIt_None ids_def)
  ultimately show ?thesis
    by (cases "getSeatIt u (board h)") (auto simp: request_answered_def handle_action_request_def Let_def)
qed

lemma inv_goes_on:
  assumes "game_inv T s" "T < 2 ^ 31" "humans s"
  shows "goes_on s"
proof (cases s)
  case (Pair ph sg)
  show ?thesis
  proof (cases ph)
    case BetweenHands
    then show ?thesis using assms(1) StartNewHand_ready by (fastforce simp: Pair goes_on_def)
  next
    case (InHand p)
    then obtain g h d where g: "runningGame sg = Some g" "currentHand g = Some h" "phase_turns T d (p, h)"
      using assms(1) by (auto simp: Pair game_inv_def playing_def)
    have "\<exists>res. end_of_hand sg = Some res"
      using g(1) by (simp add: end_of_hand_def RemoveDisconnectedPlayers_def on_running_def Let_def)
    moreover have "p \<noteq> Computing" using assms(3) by (simp add: Pair InHand humans_def)
    ultimately show ?thesis
      using g EngineLoop_turns [OF _ assms(2)] player_timeout_turns turn_given_answers
      by (cases p) (fastforce simp: Pair InHand goes_on_def phase_turns_def)+
  qed (simp add: Pair goes_on_def)
qed

lemma inv_chips:
  assumes "game_inv T (ph, sg)" "\<forall>e. ph \<noteq> Finished e"
  shows "\<exists>g. runningGame sg = Some g \<and> table_chips (game_board g) = T"
proof (cases ph)
  case (InHand p)
  then obtain g h d where g: "runningGame sg = Some g" "currentHand g = Some h" "phase_ok T (p, h)"
    using assms(1) by (auto simp: game_inv_def playing_def)
  have "table_chips (board h) = T" if over: "paid_out T h"
  proof -
    obtain q r where "seats h = [q, r]" using over by (auto simp: paid_out_def dest!: two_elements)
    then show ?thesis using over by (simp add: paid_out_def table_chips_def chips_def)
  qed
  then have "table_chips (board h) = T"
    using g(3) by (cases p) (auto simp: phase_ok_def waiting_ok_def loop_ok_def table_inv_def money_ok_def)
  then show ?thesis using g by (simp add: game_board_def)
next
  case BetweenHands
  then obtain g where g: "runningGame sg = Some g" "between_hands T (game_board g)"
    using assms(1) by (auto simp: game_inv_def playing_def)
  then obtain q r where "seatsList (game_board g) = [q, r]" by (auto simp: between_hands_def dest!: two_elements)
  then show ?thesis using g by (simp add: between_hands_def table_chips_def chips_def)
qed (use assms(2) in simp)

text \<open>A lobby with two players and legal settings.\<close>

definition sample_info :: net_game_info where
  "sample_info = \<lparr>gamename = ''A'', netgametype = GAME_TYPE_NORMAL, maxnumplayers = 2,
     raiseintervalmode = RAISE_ON_HANDNUMBER, raiseeveryhands = Some 8, raiseeveryminutes = None,
     endraisemode = AFTERMB_DOUBLE_BLINDS, endraisesmallblindvalue = Some 0, proposedguispeed = 5,
     delaybetweenhands = 7, playeractiontimeout = 20, firstsmallblind = 50, startmoney = 5000,
     manualblinds = []\<rparr>"

definition sample_session :: "nat \<Rightarrow> string \<Rightarrow> session" where
  "sample_session u name = \<lparr>sessionId = u, sessionPlayer = \<lparr>pdUniqueId = u, pdDBId = 0, pdNumber = 0,
     pdType = PLAYER_TYPE_HUMAN, pdName = name, pdStartCash = -1, pdGuid = ''g'', pdOldGuid = '''',
     pdGameAdmin = False\<rparr>\<rparr>"

definition sample_lobby :: server_game where
  "sample_lobby = \<lparr>sessions = [sample_session 11 ''ann'', sample_session 12 ''bob''], computerPlayers = [],
     adminPlayerId = 11, gameData = GetGameData sample_info new_game_data, runningGame = None,
     rankingMap = (\<lambda>_. None), numJoinsPerPlayer = (\<lambda>_. None), rejoinPlayers = [], reactivatePlayers = [],
     gameNum = 1\<rparr>"

lemma sample_lobby_startable: "startable sample_info '''' SERVER_MODE_INTERNET_NOAUTH sample_lobby"
  by code_simp

text \<open>C5: A whole two-player game goes on without an exception. From a lobby with two persons whose
  settings passed the validation of the packet and the check of the server, with any order of the
  players and either dealer, the game starts, and in every state that it reaches, through any number
  of hands and whatever the players do, whoever rejoins, leaves, is kicked, muted, marked inactive or
  comes back under a new id: the engine loop of the hand, the timeout of the player it waits for, the
  end of the hand and the start of the next one with any shuffled deck succeed, also when cards
  cannot be encrypted. While it waits, an action request of any player who has a seat is answered;
  the one error is the unknown player id for a request under an id that no seat has, which is the
  id of a player who came back and has not got his seat yet. The game never waits for a computer.\<close>

theorem game_never_fails:
  assumes "startable i password mode sg" "shuffle f" "k < 2"
    and "list_all (\<lambda>s. pdType (sessionPlayer s) = PLAYER_TYPE_HUMAN) (sessions sg)"
  shows "\<exists>sg1. InternalStartGame f k sg = Some sg1 \<and> (\<forall>s. game_steps (BetweenHands, sg1) s \<longrightarrow> goes_on s)"
  using game_starts [OF assms(1-3)] reached_inv [OF assms(1-3)] inv_goes_on startable_chips [OF assms(1)]
    started_humans [OF assms(1-3) _ assms(4)] humans_steps by blast

theorem game_never_fails_witness:
  "\<exists>sg1. InternalStartGame rev 1 sample_lobby = Some sg1 \<and>
     (\<forall>s. game_steps (BetweenHands, sg1) s \<longrightarrow> goes_on s)"
  by (rule game_never_fails [OF sample_lobby_startable])
     (simp_all add: shuffle_def sample_lobby_def sample_session_def)

text \<open>C6: A whole two-player game conserves the chips. From the start of the game until it is finished,
  through any number of hands and whatever happens to the sessions, the chips on the table, in the
  pot, in front of the players and in their cash, are two times the start money of the settings.\<close>

theorem game_conserves_chips:
  assumes "startable i password mode sg" "shuffle f" "k < 2"
    and "InternalStartGame f k sg = Some sg1" "game_steps (BetweenHands, sg1) (ph, sg')"
    and "\<forall>e. ph \<noteq> Finished e"
  shows "\<exists>g. runningGame sg' = Some g \<and> table_chips (game_board g) = 2 * startMoney (gameData sg)"
  using inv_chips [OF reached_inv [OF assms(1-5)] assms(6)] .

theorem game_conserves_chips_witness:
  "\<exists>sg1 g. InternalStartGame rev 1 sample_lobby = Some sg1 \<and>
     runningGame (KickPlayer 11 (MutePlayer 12 True sg1)) = Some g \<and> table_chips (game_board g) = 10000"
proof -
  have f: "shuffle rev" "1 < (2 :: nat)" by (simp_all add: shuffle_def)
  obtain sg1 where sg1: "InternalStartGame rev 1 sample_lobby = Some sg1"
    using game_starts [OF sample_lobby_startable f] by blast
  have "game_steps (BetweenHands, sg1) (BetweenHands, KickPlayer 11 (MutePlayer 12 True sg1))"
    by (meson game_step.session session_step.kick session_step.mute r_into_rtranclp rtranclp_trans)
  from game_conserves_chips [OF sample_lobby_startable f sg1 this] sg1 show ?thesis
    by (simp add: sample_lobby_def GetGameData_def sample_info_def)
qed

end
