(* ===== verification/Membership.thy ===== *)
theory Membership
  imports Game_Play
begin

text \<open>
  Who is in a game on the server: the administration of the game is handed over when the admin
  leaves, and what a kicked player can do.
\<close>

section \<open>The admin of a game\<close>

text \<open>A session joins an open game or the running game, leaves, or is kicked. The lobby gives every
  session a number and a player of its own, and a session is in one game only.\<close>

definition joiner :: "session \<Rightarrow> server_game \<Rightarrow> bool" where
  "joiner s sg \<longleftrightarrow> session_uid s \<notin> set (session_uids sg) \<and> sessionId s \<notin> sessionId ` set (sessions sg) \<and>
     pdName (sessionPlayer s) \<noteq> []"

inductive member_step :: "server_game \<Rightarrow> server_game \<Rightarrow> bool" where
  enter: "join_open_game s sg = Some sg' \<Longrightarrow> joiner s sg \<Longrightarrow> member_step sg sg'"
| rejoin: "join_running_game s sg = Some sg' \<Longrightarrow> joiner s sg \<Longrightarrow> member_step sg sg'"
| leave: "s \<in> set (sessions sg) \<Longrightarrow> member_step sg (RemoveSession s sg)"
| kick: "member_step sg (KickPlayer u sg)"

text \<open>The rights of the admin belong to the player whom the game calls its admin; when \<open>b\<close>, he is there
  as long as the game has players.\<close>

definition admin_ok :: "bool \<Rightarrow> server_game \<Rightarrow> bool" where
  "admin_ok b sg \<longleftrightarrow> distinct (session_uids sg) \<and> distinct (map sessionId (sessions sg)) \<and>
     (\<forall>s \<in> set (sessions sg). pdName (sessionPlayer s) \<noteq> [] \<and>
        (pdGameAdmin (sessionPlayer s) \<longleftrightarrow> session_uid s = adminPlayerId sg)) \<and>
     (b \<longrightarrow> sessions sg \<noteq> [] \<longrightarrow> adminPlayerId sg \<in> set (session_uids sg))"

lemma AddSession_perm: "mset (AddSession s ss) = add_mset s (mset ss)"
  unfolding AddSession_def by (metis mset.simps(2) mset_append takeWhile_dropWhile_id union_mset_add_mset_right)

lemma AddSession_set: "set (AddSession s ss) = insert s (set ss)"
  using mset_eq_setD [of "AddSession s ss" "s # ss"] AddSession_perm by simp

lemma accept_admin_ok:
  assumes "admin_ok b sg" "joiner s sg" "b \<Longrightarrow> sessions sg = [] \<Longrightarrow> session_uid s = adminPlayerId sg"
    and "sessions sg' = sessions (AcceptNewSession s sg)" "adminPlayerId sg' = adminPlayerId sg"
  shows "admin_ok b sg'"
proof -
  let ?s = "set_admin (session_uid s = adminPlayerId sg) s"
  have ss: "sessions sg' = AddSession ?s (sessions sg)" using assms(4) by (simp add: AcceptNewSession_def)
  have fields: "session_uid ?s = session_uid s" "sessionId ?s = sessionId s" by (simp_all add: set_admin_def)
  have dist: "distinct (map f (sessions sg'))" if "distinct (map f (sessions sg))" "f ?s \<notin> f ` set (sessions sg)"
    for f :: "session \<Rightarrow> nat"
  proof -
    have "mset (map f (sessions sg')) = mset (f ?s # map f (sessions sg))" by (simp add: ss AddSession_perm)
    from mset_eq_imp_distinct_iff [OF this] show ?thesis using that by simp
  qed
  have "set (sessions sg') = insert ?s (set (sessions sg))"
    unfolding ss by (rule AddSession_set)
  then show ?thesis
    using assms(1,2,3,5) dist [of session_uid] dist [of sessionId] fields
    unfolding admin_ok_def joiner_def by (auto simp: set_admin_def)
qed

lemma map_keep: "(\<And>x. x \<in> set xs \<Longrightarrow> f (g x) = f x) \<Longrightarrow> map f (map g xs) = map f xs"
  by simp

lemma set_admin_fields [simp]:
  "session_uid (set_admin b s) = session_uid s" "sessionId (set_admin b s) = sessionId s"
  "pdName (sessionPlayer (set_admin b s)) = pdName (sessionPlayer s)" "pdGameAdmin (sessionPlayer (set_admin b s)) = b"
  by (simp_all add: set_admin_def)

text \<open>The sessions without the one that left; when it was the admin, the first of them takes over.\<close>

lemma RemoveSession_eq:
  assumes "admin_ok b sg" "s \<in> set (sessions sg)"
  shows "RemoveSession s sg =
    (let ss = filter (\<lambda>s'. sessionId s' \<noteq> sessionId s) (sessions sg) in
     if session_uid s \<noteq> adminPlayerId sg \<or> ss = [] then sg\<lparr>sessions := ss\<rparr>
     else sg\<lparr>adminPlayerId := session_uid (hd ss),
             sessions := map (\<lambda>s'. if sessionId s' = sessionId (hd ss) then set_admin True s' else s') ss\<rparr>)"
proof -
  let ?ss = "filter (\<lambda>s'. sessionId s' \<noteq> sessionId s) (sessions sg)"
  have ok: "distinct (session_uids sg)" "pdName (sessionPlayer s) \<noteq> []"
    "pdGameAdmin (sessionPlayer s) = (session_uid s = adminPlayerId sg)"
    using assms by (auto simp: admin_ok_def)
  have "pdName (sessionPlayer s') \<noteq> [] \<and> session_uid s' \<noteq> session_uid s" if "s' \<in> set ?ss" for s'
    using that assms ok(1) by (auto simp: admin_ok_def distinct_map inj_on_def)
  then have "filter (\<lambda>s'. pdName (sessionPlayer s') \<noteq> [] \<and> session_uid s' \<noteq> session_uid s) ?ss = ?ss"
    by (simp only: filter_id_conv) blast
  then have e: "RemoveSession s sg = (if pdGameAdmin (sessionPlayer s) then
      (case ?ss of [] \<Rightarrow> sg\<lparr>sessions := ?ss\<rparr> | n # _ \<Rightarrow> sg\<lparr>adminPlayerId := session_uid n,
         sessions := map (\<lambda>s'. if sessionId s' = sessionId n then set_admin True s' else s') ?ss\<rparr>)
     else sg\<lparr>sessions := ?ss\<rparr>)"
    using assms(2) ok(2)
    by (auto simp: RemoveSession_def RemovePlayerData_def Let_def list_ex_iff simp del: filter_filter cong: list.case_cong)
  show ?thesis unfolding e ok(3) Let_def by (cases ?ss) simp_all
qed

lemma handed_over:
  assumes "distinct (map session_uid ss)" "distinct (map sessionId ss)" "ss \<noteq> []"
    and "\<And>s. s \<in> set ss \<Longrightarrow> pdName (sessionPlayer s) \<noteq> [] \<and> \<not> pdGameAdmin (sessionPlayer s)"
  shows "admin_ok b (sg\<lparr>adminPlayerId := session_uid (hd ss),
    sessions := map (\<lambda>s. if sessionId s = sessionId (hd ss) then set_admin True s else s) ss\<rparr>)"
proof -
  obtain n rest where ss: "ss = n # rest" using assms(3) by (cases ss) auto
  have rest: "sessionId s \<noteq> sessionId n" "session_uid s \<noteq> session_uid n" if "s \<in> set rest" for s
    using assms(1,2) that unfolding ss by (simp_all, (metis imageI)+)
  have "map (\<lambda>s. if sessionId s = sessionId n then set_admin True s else s) rest = rest"
    by (rule map_idI) (simp add: rest)
  then show ?thesis
    using assms rest by (auto simp: ss admin_ok_def)
qed

lemma remove_admin_ok:
  assumes "admin_ok b sg" "s \<in> set (sessions sg)"
  shows "admin_ok b (RemoveSession s sg)"
proof -
  let ?ss = "filter (\<lambda>s'. sessionId s' \<noteq> sessionId s) (sessions sg)"
  note ok = assms(1) [unfolded admin_ok_def]
  have d: "distinct (map session_uid ?ss)" "distinct (map sessionId ?ss)"
    using ok by (simp_all add: distinct_map_filter)
  have gone: "session_uid s' \<noteq> session_uid s" if "s' \<in> set ?ss" for s'
    using that ok assms(2) by (auto simp: distinct_map inj_on_def)
  show ?thesis
  proof (cases "session_uid s \<noteq> adminPlayerId sg \<or> ?ss = []")
    case True
    have "adminPlayerId sg \<in> set (map session_uid ?ss)" if "b" "session_uid s \<noteq> adminPlayerId sg"
    proof -
      obtain a where a: "a \<in> set (sessions sg)" "session_uid a = adminPlayerId sg" using ok assms(2) \<open>b\<close> by auto
      have "sessionId a \<noteq> sessionId s"
        using a that(2) assms(2) ok by (auto simp: distinct_map inj_on_def)
      then show ?thesis using a by force
    qed
    then show ?thesis
      using True ok d unfolding RemoveSession_eq [OF assms] Let_def admin_ok_def by auto
  next
    case False
    have "admin_ok b (sg\<lparr>adminPlayerId := session_uid (hd ?ss),
        sessions := map (\<lambda>s'. if sessionId s' = sessionId (hd ?ss) then set_admin True s' else s') ?ss\<rparr>)"
      by (rule handed_over [OF d]) (use False ok gone in auto)
    then show ?thesis using False by (simp add: RemoveSession_eq [OF assms] Let_def)
  qed
qed

lemma flag_admin_ok: "admin_ok b (on_running f sg) = admin_ok b sg"
  by (simp add: admin_ok_def on_running_def)

lemma kick_admin_ok: "admin_ok b sg \<Longrightarrow> admin_ok b (KickPlayer u sg)"
proof -
  assume ok: "admin_ok b sg"
  let ?sg = "MarkPlayerAsKicked u sg"
  have m: "admin_ok b ?sg" using ok by (simp add: MarkPlayerAsKicked_def flag_admin_ok)
  then show ?thesis
    by (auto simp: KickPlayer_def Let_def GetSessionByUniquePlayerId_def find_Some_iff intro!: remove_admin_ok split: option.split)
qed

lemma join_sessions:
  assumes "join_open_game s sg = Some sg' \<or> join_running_game s sg = Some sg'"
  shows "sessions sg' = sessions (AcceptNewSession s sg)" "adminPlayerId sg' = adminPlayerId sg"
  using assms
  by (auto simp: join_open_game_def join_running_game_def AcceptNewSession_def AddPlayerToNumJoinsPerPlayer_def Let_def
      split: if_splits option.splits)

text \<open>A step that takes the admin rights away for good: somebody else enters the empty game.\<close>

definition enters :: "session \<Rightarrow> server_game \<Rightarrow> server_game \<Rightarrow> bool" where
  "enters s sg sg' \<longleftrightarrow> joiner s sg \<and> (join_open_game s sg = Some sg' \<or> join_running_game s sg = Some sg')"

definition taken_over :: "session \<Rightarrow> server_game \<Rightarrow> server_game \<Rightarrow> bool" where
  "taken_over s sg sg' \<longleftrightarrow> sessions sg = [] \<and> session_uid s \<noteq> adminPlayerId sg \<and> enters s sg sg'"

lemma enters_admin_ok:
  assumes "admin_ok b sg" "enters s sg sg'" "b \<Longrightarrow> \<not> taken_over s sg sg'"
  shows "admin_ok b sg'"
  by (rule accept_admin_ok [OF assms(1)])
     (use assms(2,3) join_sessions [of s sg sg'] in \<open>auto simp: enters_def taken_over_def\<close>)

lemma member_step_admin:
  assumes "member_step sg sg'" "admin_ok b sg" "b \<Longrightarrow> \<nexists>s. taken_over s sg sg'"
  shows "admin_ok b sg'"
  using assms(1)
proof cases
  case (enter s)
  then show ?thesis using enters_admin_ok [OF assms(2), of s sg'] assms(3) by (auto simp: enters_def)
next
  case (rejoin s)
  then show ?thesis using enters_admin_ok [OF assms(2), of s sg'] assms(3) by (auto simp: enters_def)
next
  case (leave s)
  then show ?thesis using remove_admin_ok [OF assms(2)] by simp
next
  case (kick u)
  then show ?thesis using kick_admin_ok [OF assms(2)] by simp
qed

text \<open>Without such a step, the admin is there.\<close>

definition left_alone :: "server_game \<Rightarrow> server_game \<Rightarrow> bool" where
  "left_alone sg sg' \<longleftrightarrow> (\<exists>sg1 s sg2. member_step\<^sup>*\<^sup>* sg sg1 \<and> taken_over s sg1 sg2 \<and> member_step\<^sup>*\<^sup>* sg2 sg')"

lemma taken_over_step: "taken_over s sg sg' \<Longrightarrow> member_step sg sg'"
  by (auto simp: taken_over_def enters_def intro: member_step.intros)

lemma member_steps_admin:
  assumes "member_step\<^sup>*\<^sup>* sg sg'" "admin_ok True sg"
  shows "admin_ok False sg' \<and> (admin_ok True sg' \<or> left_alone sg sg')"
  using assms(1)
proof (induction rule: rtranclp_induct)
  case base
  then show ?case using assms(2) by (auto simp: admin_ok_def)
next
  case (step y z)
  have "admin_ok False z" using member_step_admin [OF step.hyps(2), of False] step.IH by simp
  moreover have "admin_ok True z \<or> left_alone sg z"
  proof (cases "left_alone sg y")
    case True
    then show ?thesis using step.hyps(2) by (meson left_alone_def rtranclp.rtrancl_into_rtrancl)
  next
    case False
    then have "admin_ok True y" using step.IH by simp
    then show ?thesis
      using member_step_admin [OF step.hyps(2)] step.hyps(1) by (meson left_alone_def rtranclp.rtrancl_refl)
  qed
  ultimately show ?case ..
qed

lemma filter_unique:
  assumes "distinct (map f xs)" "x \<in> set xs"
  shows "filter (\<lambda>y. f y = f x) xs = [x]"
  using assms
proof (induction xs)
  case (Cons y ys)
  show ?case
  proof (cases "y = x")
    case True
    then have "f z \<noteq> f x" if "z \<in> set ys" for z using Cons.prems(1) that by (simp, metis imageI)
    then have "filter (\<lambda>y. f y = f x) ys = []" by (simp add: filter_empty_conv)
    then show ?thesis using True by simp
  next
    case False
    then have "x \<in> set ys" using Cons.prems(2) by simp
    then have "f y \<noteq> f x" using Cons.prems(1) by (simp, metis imageI)
    then show ?thesis using Cons.IH Cons.prems(1) \<open>x \<in> set ys\<close> by simp
  qed
qed simp

lemma admin_rights:
  assumes "admin_ok b sg"
  shows "filter (pdGameAdmin \<circ> sessionPlayer) (sessions sg) = filter (\<lambda>s. session_uid s = adminPlayerId sg) (sessions sg)"
  by (rule filter_cong) (use assms in \<open>simp_all add: admin_ok_def\<close>)

lemma admin_unique:
  assumes "admin_ok b sg" "adminPlayerId sg \<in> set (session_uids sg)"
  shows "\<exists>a. filter (pdGameAdmin \<circ> sessionPlayer) (sessions sg) = [a] \<and> session_uid a = adminPlayerId sg"
proof -
  obtain a where a: "a \<in> set (sessions sg)" "session_uid a = adminPlayerId sg" using assms(2) by auto
  have "distinct (session_uids sg)" using assms(1) unfolding admin_ok_def by blast
  from filter_unique [OF this a(1)] show ?thesis unfolding admin_rights [OF assms(1)] using a(2) by simp
qed

text \<open>C24: A game never has two admins, and while it has players it has one, however players join, come
  back, leave or are kicked: one session has the rights of the admin, it is the one whose player the
  game calls its admin, and when the admin leaves, another player takes over. The one exception:
  when the last player has left and, before the lobby removes the empty game, somebody enters it who
  is not the player the game still calls its admin, then no session may have the rights.\<close>

theorem one_game_admin:
  assumes "sessions sg = []" "member_step\<^sup>*\<^sup>* sg sg'" "sessions sg' \<noteq> []"
  shows "(\<exists>a. filter (pdGameAdmin \<circ> sessionPlayer) (sessions sg') = [a] \<and> session_uid a = adminPlayerId sg') \<or>
    (filter (pdGameAdmin \<circ> sessionPlayer) (sessions sg') = [] \<and> left_alone sg sg')"
proof -
  have "admin_ok True sg" using assms(1) by (simp add: admin_ok_def)
  then have ok: "admin_ok False sg'" "admin_ok True sg' \<or> left_alone sg sg'"
    using member_steps_admin [OF assms(2)] by simp_all
  show ?thesis
  proof (cases "adminPlayerId sg' \<in> set (session_uids sg')")
    case True
    then show ?thesis using admin_unique [OF ok(1)] by blast
  next
    case False
    then have "left_alone sg sg'" using ok(2) assms(3) unfolding admin_ok_def by blast
    moreover have "filter (\<lambda>s. session_uid s = adminPlayerId sg') (sessions sg') = []"
      using False by (force simp: filter_empty_conv)
    ultimately show ?thesis unfolding admin_rights [OF ok(1)] by blast
  qed
qed

theorem one_game_admin_witness:
  "\<exists>sg. member_step\<^sup>*\<^sup>* (sample_lobby\<lparr>sessions := []\<rparr>) sg \<and> session_uids sg = [12] \<and>
     (\<exists>a. filter (pdGameAdmin \<circ> sessionPlayer) (sessions sg) = [a] \<and> session_uid a = adminPlayerId sg)"
proof -
  let ?sg = "sample_lobby\<lparr>sessions := []\<rparr>" and ?a = "sample_session 11 ''ann''" and ?b = "sample_session 12 ''bob''"
  note defs = sample_lobby_def sample_session_def sample_info_def GetGameData_def join_open_game_def
    GetCurNumberOfPlayers_def GetFullPlayerDataList_def GetNumJoinsPerPlayer_def GAME_MAX_NUM_JOINS_PER_PLAYER_def
    AcceptNewSession_def AddPlayerToNumJoinsPerPlayer_def AddSession_def joiner_def set_admin_def or_zero_def Let_def
  obtain sg1 where sg1: "join_open_game ?a ?sg = Some sg1" "sessions sg1 = [set_admin True ?a]"
    "gameData sg1 = gameData sample_lobby" "computerPlayers sg1 = []" "numJoinsPerPlayer sg1 ''bob'' = None" "adminPlayerId sg1 = 11"
    by (simp add: defs)
  have m1: "member_step ?sg sg1" by (rule member_step.enter [OF sg1(1)]) (simp add: defs)
  obtain sg2 where sg2: "join_open_game ?b sg1 = Some sg2" "sessions sg2 = [set_admin True ?a, set_admin False ?b]"
    "adminPlayerId sg2 = 11"
    using sg1(2-) by (simp add: defs)
  have m2: "member_step sg1 sg2" by (rule member_step.enter [OF sg2(1)]) (simp add: sg1(2) defs)
  let ?sg3 = "RemoveSession (set_admin True ?a) sg2"
  have m3: "member_step sg2 ?sg3" by (rule member_step.leave) (simp add: sg2(2))
  have s3: "sessions ?sg3 = [set_admin True ?b]"
    using sg2(2) by (simp add: RemoveSession_def RemovePlayerData_def sample_session_def set_admin_def Let_def)
  have steps: "member_step\<^sup>*\<^sup>* ?sg ?sg3" 
    by (rule rtranclp.rtrancl_into_rtrancl [where r = member_step, OF _ m3],
        rule rtranclp.rtrancl_into_rtrancl [where r = member_step, OF _ m2]) (rule r_into_rtranclp [where r = member_step, OF m1])
  have "filter (pdGameAdmin \<circ> sessionPlayer) (sessions ?sg3) \<noteq> []" by (simp add: s3)
  then have "\<exists>a. filter (pdGameAdmin \<circ> sessionPlayer) (sessions ?sg3) = [a] \<and> session_uid a = adminPlayerId ?sg3"
    using one_game_admin [OF _ steps] by (simp add: s3)
  then show ?thesis using steps s3 by (intro exI [of _ ?sg3]) (simp add: sample_session_def set_admin_def)
qed

text \<open>The exception happens: the game of a player who left is entered by another one.\<close>

lemma game_without_admin:
  "\<exists>sg'. member_step\<^sup>*\<^sup>* (sample_lobby\<lparr>sessions := [set_admin True (sample_session 11 ''ann'')]\<rparr>) sg' \<and>
     session_uids sg' = [12] \<and> filter (pdGameAdmin \<circ> sessionPlayer) (sessions sg') = []"
proof -
  let ?a = "set_admin True (sample_session 11 ''ann'')" and ?b = "sample_session 12 ''bob''"
  let ?sg = "sample_lobby\<lparr>sessions := [?a]\<rparr>"
  let ?sg1 = "RemoveSession ?a ?sg"
  have m1: "member_step ?sg ?sg1" by (rule member_step.leave) simp
  have s1: "?sg1 = sample_lobby\<lparr>sessions := []\<rparr>"
    by (simp add: RemoveSession_def RemovePlayerData_def sample_session_def set_admin_def sample_lobby_def)
  obtain sg2 where sg2: "join_open_game ?b ?sg1 = Some sg2" "sessions sg2 = [set_admin False ?b]"
    unfolding s1 by (simp add: sample_lobby_def sample_session_def sample_info_def GetGameData_def join_open_game_def
        GetCurNumberOfPlayers_def GetFullPlayerDataList_def GetNumJoinsPerPlayer_def GAME_MAX_NUM_JOINS_PER_PLAYER_def
        AcceptNewSession_def AddPlayerToNumJoinsPerPlayer_def AddSession_def set_admin_def or_zero_def Let_def)
  have m2: "member_step ?sg1 sg2"
    by (rule member_step.enter [OF sg2(1)]) (simp only: s1, simp add: joiner_def sample_session_def)
  have "member_step\<^sup>*\<^sup>* ?sg sg2"
    by (rule rtranclp.rtrancl_into_rtrancl [where r = member_step, OF _ m2]) (rule r_into_rtranclp [where r = member_step, OF m1])
  then show ?thesis by (intro exI [of _ sg2]) (simp add: sg2(2) sample_session_def set_admin_def)
qed

section \<open>A kicked player\<close>

lemma on_player_board:
  "getPlayerByUniqueId u g = Some i \<Longrightarrow> game_board (on_player u f g) = on_seat i f (game_board g)"
  by (simp add: on_player_def)

lemma getPlayerByName_cong:
  assumes "map myName (seatsList (game_board g')) = map myName (seatsList (game_board g))"
  shows "getPlayerByName n g' = getPlayerByName n g"
proof -
  have e: "getPlayerByName n x = (if n = [] then None
      else find (\<lambda>i. map myName (seatsList (game_board x)) ! i = n) [0..<length (map myName (seatsList (game_board x)))])" for x
    by (auto simp: getPlayerByName_def first_some_find intro!: find_cong)
  show ?thesis unfolding e [of g] e [of g'] assms ..
qed

text \<open>The code clears the id of the last session of a kicked player, so that he cannot come back, and a
  player who comes in without such an id has the same empty one.\<close>

text \<open>A kicked player may come back. When a player of the running game is kicked and his session
  asks to come back without the id of an earlier session, as that of every player who logged in
  afresh, the game accepts it, and at the end of the hand he keeps his seat and his chips.\<close>

theorem kicked_player_may_rejoin:
  assumes "runningGame sg = Some g" "getPlayerByUniqueId u g = Some i"
    and "s \<in> set (sessions sg)" "session_uid s = u" "pdOldGuid (sessionPlayer s) = ''''"
    and "getPlayerByName (pdName (sessionPlayer s)) g = Some i"
    and "myType (seatsList (game_board g) ! i) = PLAYER_TYPE_HUMAN"
  shows "\<exists>sg' g'. join_running_game s (KickPlayer u sg) = Some sg' \<and>
    runningGame (RemoveDisconnectedPlayers sg') = Some g' \<and>
    myUniqueID (seatsList (game_board g') ! i) = u \<and>
    myCash (seatsList (game_board g') ! i) = myCash (seatsList (game_board g) ! i)"
proof -
  let ?g = "on_player u mark_kicked g" and ?k = "KickPlayer u sg"
  have i: "i < length (seatsList (game_board g))" using by_name_seat [OF assms(6)] by simp
  have uid: "myUniqueID (seatsList (game_board g) ! i) = u"
    using assms(2) by (auto simp: getPlayerByUniqueId_def getSeatIt_def seat_with_id_def dest!: first_some_SomeD split: if_splits)
  have b: "game_board ?g = on_seat i mark_kicked (game_board g)" by (rule on_player_board [OF assms(2)])
  have seat: "seatsList (game_board ?g) ! i = mark_kicked (seatsList (game_board g) ! i)"
    using i by (simp add: b nth_update_seat)
  have run: "runningGame ?k = Some ?g"
    using assms(1) by (simp add: KickPlayer_def MarkPlayerAsKicked_def on_running_def Let_def RemoveSession_def
        remove_player_data split: option.split)
  have "map myName (seatsList (game_board ?g)) = map myName (seatsList (game_board g))"
    by (simp add: b map_update_seat mark_kicked_def)
  then have name: "getPlayerByName (pdName (sessionPlayer s)) ?g = Some i"
    using getPlayerByName_cong [of ?g g] assms(6) by simp
  have "myGuid (seatsList (game_board ?g) ! i) = pdOldGuid (sessionPlayer s)"
    using assms(5) by (simp add: seat mark_kicked_def)
  then obtain sg' where sg': "join_running_game s ?k = Some sg'" "runningGame sg' = Some ?g"
    "set (sessions sg') = insert (set_admin (session_uid s = adminPlayerId ?k) s) (set (sessions ?k))"
    using run name by (simp add: join_running_game_def AcceptNewSession_def AddSession_set)
  have "\<exists>s' \<in> set (sessions sg'). session_uid s' = u" using sg'(3) assms(4) by simp
  then have "IsPlayerConnected u sg'"
    by (auto simp: IsPlayerConnected_def GetSessionByUniquePlayerId_def find_None_iff)
  then have conn: "remove_disconnected sg' (mark_kicked (seatsList (game_board g) ! i)) = mark_kicked (seatsList (game_board g) ! i)"
    using uid assms(7) by (simp add: remove_disconnected_def disconnected_def mark_kicked_def)
  let ?g' = "on_game_board (map_seats (remove_disconnected sg')) ?g"
  have "runningGame (RemoveDisconnectedPlayers sg') = Some ?g'"
    using sg'(2) by (simp add: RemoveDisconnectedPlayers_def on_running_def)
  moreover have "seatsList (game_board ?g') ! i = mark_kicked (seatsList (game_board g) ! i)"
    using i conn seat by (simp add: map_seats_def b on_seat_def)
  ultimately show ?thesis using sg'(1) uid by (auto simp: mark_kicked_def)
qed

theorem kicked_player_may_rejoin_witness:
  "\<exists>sg' g'. join_running_game (sample_session 9 ''B'') (KickPlayer 9
       (sample_lobby\<lparr>sessions := [sample_session 9 ''B''], runningGame := Some sample_game\<rparr>)) = Some sg' \<and>
     runningGame (RemoveDisconnectedPlayers sg') = Some g' \<and>
     myUniqueID (seatsList (game_board g') ! 1) = 9 \<and> myCash (seatsList (game_board g') ! 1) = 500"
proof -
  let ?s = "sample_session 9 ''B''"
  let ?sg = "sample_lobby\<lparr>sessions := [?s], runningGame := Some sample_game\<rparr>"
  have seats: "getPlayerByUniqueId 9 sample_game = Some 1" "getPlayerByName ''B'' sample_game = Some 1"
    "myType (seatsList (game_board sample_game) ! 1) = PLAYER_TYPE_HUMAN"
    "myCash (seatsList (game_board sample_game) ! 1) = 500"
    by code_simp+
  show ?thesis
    using kicked_player_may_rejoin [of ?sg sample_game 9 1 ?s] seats by (simp add: sample_session_def)
qed

end
