(* ===== verification/Packet_Flow.thy ===== *)
theory Packet_Flow
  imports Packet_Validator Vote_Kick Membership
begin

text \<open>
  The packets that the server makes in a game (\<open>src/src/net/servergamestate.cpp\<close>,
  \<open>src/src/net/servergame.cpp\<close>) and what happens to them on the other side: what the server sends
  about the settings of a game, a vote kick and the start of a hand is parsed and accepted by the
  clients, but for one refusal of a vote kick. The enumerations are sent as their codes.
\<close>

section \<open>Packets\<close>

abbreviation id_field :: "nat \<Rightarrow> field" where
  "id_field u \<equiv> UInt (word_of_nat u)"

definition CreateNetPacketPlayerJoined :: "uint32 \<Rightarrow> player_data \<Rightarrow> net_packet" where
  "CreateNetPacketPlayerJoined gameId d =
     \<lparr>messagetype = Type_GamePlayerJoinedMessage,
      GetMsg = [(''gameplayerjoinedmessage'', Msg
        [(''gameid'', UInt gameId), (''playerid'', id_field (pdUniqueId d)),
         (''isgameadmin'', UInt (if pdGameAdmin d then 1 else 0))])]\<rparr>"

definition CreateNetPacketJoinGameAck :: "uint32 \<Rightarrow> string \<Rightarrow> game_data \<Rightarrow> player_data \<Rightarrow> net_packet" where
  "CreateNetPacketJoinGameAck gameId name gd d =
     \<lparr>messagetype = Type_JoinGameAckMessage,
      GetMsg = [(''joingameackmessage'', Msg
        [(''gameid'', UInt gameId), (''areyougameadmin'', UInt (if pdGameAdmin d then 1 else 0)),
         (''gameinfo'', Info ((SetGameData gd no_game_info)\<lparr>gamename := name\<rparr>))])]\<rparr>"

definition netPlayerState :: "local_player \<Rightarrow> uint32" where
  "netPlayerState p = (if \<not> myActiveStatus p then 2 else if \<not> myIsSessionActive p then 1 else 0)"

text \<open>\<open>numPlayers\<close> is the number of players in the start data of the server.\<close>

definition CreateNetPacketHandStart :: "uint32 \<Rightarrow> nat \<Rightarrow> game \<Rightarrow> net_packet" where
  "CreateNetPacketHandStart gameId numPlayers g =
    (let states = map (\<lambda>p. UInt (netPlayerState p)) (take numPlayers (seatsList (game_board g)));
         start = [(''gameid'', UInt gameId), (''seatstates'', Many states)]
     in \<lparr>messagetype = Type_HandStartMessage,
         GetMsg = [(''handstartmessage'', Msg
           (case currentHand g of
              None \<Rightarrow> start
            | Some h \<Rightarrow> start @ [(''smallblind'', UInt (word_of_int (smallBlind h))),
                                (''dealerplayerid'', id_field (handDealerPosition h))]))]\<rparr>)"

text \<open>The packets of a vote kick.\<close>

definition end_code :: "EndPetitionReason \<Rightarrow> uint32" where
  "end_code reason = (case reason of
     PETITION_END_ENOUGH_VOTES \<Rightarrow> 0 | PETITION_END_NOT_ENOUGH_PLAYERS \<Rightarrow> 1 | PETITION_END_PLAYER_LEFT \<Rightarrow> 2
   | PETITION_END_TIMEOUT \<Rightarrow> 3)"

definition deny_vote_code :: "DenyVoteReason \<Rightarrow> uint32" where
  "deny_vote_code reason = (case reason of VOTE_DENIED_ALREADY_VOTED \<Rightarrow> 2 | _ \<Rightarrow> 1)"

definition vote_packet :: "uint32 \<Rightarrow> vote_message \<Rightarrow> net_packet" where
  "vote_packet gameId m =
    (case m of
       AskKickDenied target reason \<Rightarrow>
         \<lparr>messagetype = Type_AskKickDeniedMessage,
          GetMsg = [(''askkickdeniedmessage'', Msg
            [(''gameid'', UInt gameId), (''playerid'', id_field target),
             (''kickdeniedreason'', UInt (word_of_int (deny_code reason)))])]\<rparr>
     | StartKickPetition i byWhom target timeoutSec votes \<Rightarrow>
         \<lparr>messagetype = Type_StartKickPetitionMessage,
          GetMsg = [(''startkickpetitionmessage'', Msg
            [(''gameid'', UInt gameId), (''petitionid'', UInt i), (''proposingplayerid'', id_field byWhom),
             (''kickplayerid'', id_field target), (''kicktimeoutsec'', UInt (word_of_int timeoutSec)),
             (''numvotesneededtokick'', UInt (word_of_int votes))])]\<rparr>
     | KickPetitionUpdate i against favour needed \<Rightarrow>
         \<lparr>messagetype = Type_KickPetitionUpdateMessage,
          GetMsg = [(''kickpetitionupdatemessage'', Msg
            [(''gameid'', UInt gameId), (''petitionid'', UInt i),
             (''numvotesagainstkicking'', UInt (word_of_int against)),
             (''numvotesinfavourofkicking'', UInt (word_of_int favour)),
             (''numvotesneededtokick'', UInt (word_of_int needed))])]\<rparr>
     | VoteKickDenied i reason \<Rightarrow>
         \<lparr>messagetype = Type_VoteKickReplyMessage,
          GetMsg = [(''votekickreplymessage'', Msg
            [(''gameid'', UInt gameId), (''petitionid'', UInt i), (''votekickreplytype'', UInt (deny_vote_code reason))])]\<rparr>
     | EndKickPetition i against favour kicked reason \<Rightarrow>
         \<lparr>messagetype = Type_EndKickPetitionMessage,
          GetMsg = [(''endkickpetitionmessage'', Msg
            [(''gameid'', UInt gameId), (''petitionid'', UInt i),
             (''numvotesagainstkicking'', UInt (word_of_int against)),
             (''numvotesinfavourofkicking'', UInt (word_of_int favour)),
             (''resultplayerkicked'', UInt (if kicked then 1 else 0)),
             (''petitionendreason'', UInt (end_code reason))])]\<rparr>)"

text \<open>A client first parses a packet: protobuf refuses a required enumeration with a value that the
  protocol (\<open>src/pokerth.proto\<close>) does not declare. The enumerations of the packets of a vote:\<close>

definition declared_enums :: "(PokerTHMessageType \<times> string \<times> string \<times> uint32 list) list" where
  "declared_enums = [
     (Type_AskKickDeniedMessage, ''askkickdeniedmessage'', ''kickdeniedreason'', [0, 1, 2, 3, 4]),
     (Type_VoteKickReplyMessage, ''votekickreplymessage'', ''votekickreplytype'', [0, 1, 2]),
     (Type_EndKickPetitionMessage, ''endkickpetitionmessage'', ''petitionendreason'', [0, 1, 2, 3])]"

definition parses :: "net_packet \<Rightarrow> bool" where
  "parses p = list_all (\<lambda>(t, f, e, codes). messagetype p = t \<longrightarrow> uint_field e (msg_field f (GetMsg p)) \<in> set codes)
     declared_enums"

definition client_accepts :: "net_packet \<Rightarrow> bool" where
  "client_accepts p \<longleftrightarrow> parses p \<and> IsValidPacket p"

section \<open>Their validation\<close>

lemma validator_map:
  "map_of m_validationMap Type_GamePlayerJoinedMessage = Some ValidateGamePlayerJoinedMessage"
  "map_of m_validationMap Type_JoinGameAckMessage = Some ValidateJoinGameAckMessage"
  "map_of m_validationMap Type_HandStartMessage = Some ValidateHandStartMessage"
  "map_of m_validationMap Type_AskKickDeniedMessage = Some ValidateAskKickDeniedMessage"
  "map_of m_validationMap Type_StartKickPetitionMessage = Some ValidateStartKickPetitionMessage"
  "map_of m_validationMap Type_KickPetitionUpdateMessage = Some ValidateKickPetitionUpdateMessage"
  "map_of m_validationMap Type_VoteKickReplyMessage = Some ValidateVoteKickReplyMessage"
  "map_of m_validationMap Type_EndKickPetitionMessage = Some ValidateEndKickPetitionMessage"
  by (simp_all add: m_validationMap_def)

lemmas packet_validators = IsValidPacket_def validator_map ValidateGamePlayerJoinedMessage_def
  ValidateJoinGameAckMessage_def ValidateHandStartMessage_def ValidateAskKickDeniedMessage_def
  ValidateStartKickPetitionMessage_def ValidateKickPetitionUpdateMessage_def ValidateVoteKickReplyMessage_def
  ValidateEndKickPetitionMessage_def

lemmas message_fields = has_body_def has_field_def uint_field_def msg_field_def list_field_def game_info_field_def

text \<open>An id of the server is a positive 32 bit number.\<close>

definition id32 :: "nat \<Rightarrow> bool" where
  "id32 u \<longleftrightarrow> 0 < u \<and> u < 2 ^ 32"

lemma id32_word: "id32 u \<Longrightarrow> (word_of_nat u :: uint32) \<noteq> 0"
  by (simp add: id32_def word_of_nat_eq_0_iff nat_dvd_not_less)

lemma int32_word: "0 < n \<Longrightarrow> n < 2 ^ 32 \<Longrightarrow> (word_of_int n :: uint32) \<noteq> 0"
  by (simp add: word_of_int_eq_0_iff zdvd_not_zless)

lemma petition_id_pos:
  "vote_trace es v \<Longrightarrow> voteKickData v = Some p \<Longrightarrow> petitionId p \<noteq> 0"
proof (induction arbitrary: p rule: vote_trace.induct)
  case (ask es v b now t w i s n v')
  have "fst (next_petition_id c) \<noteq> 0" for c by (simp add: next_petition_id_def)
  moreover have "voteKickData v' = Some p \<Longrightarrow> petitionId p = fst (next_petition_id (curPetitionId v))"
    using ask.hyps(3) by (auto simp: InternalAskVoteKick_def Let_def split: if_splits option.splits prod.splits)
  ultimately show ?case using ask.prems by simp
next
  case (vote es v u i x a f n v')
  have "petitionId (record_vote u x p) = petitionId p" for p by (simp add: record_vote_def Let_def)
  with vote_counted [OF vote.hyps(3)] show ?case using vote.IH vote.prems by auto
next
  case (timer es v now m v')
  from timer_petition [OF timer.hyps(2)] show ?case using timer.IH timer.prems by auto
qed simp_all

text \<open>What the server answers in a vote.\<close>

definition vote_answer :: "vote_game \<Rightarrow> vote_message \<Rightarrow> bool" where
  "vote_answer v m \<longleftrightarrow>
     (\<exists>now byWhom target. id32 byWhom \<and> id32 target \<and> m = fst (InternalAskVoteKick now SERVER_VOTE_KICK_TIMEOUT_SEC byWhom target v)) \<or>
     (\<exists>byWhom petition vote. petition \<noteq> 0 \<and> m = fst (InternalVoteKick byWhom petition vote v)) \<or>
     (\<exists>now. fst (TimerVoteKick now v) = Some m)"

text \<open>The enumerations are those that the protocol declares, but for one refusal.\<close>

lemma vote_packet_parses:
  "parses (vote_packet gameId m) \<longleftrightarrow> (\<forall>target. m \<noteq> AskKickDenied target KICK_DENIED_CANNOT_KICK_SELF)"
proof (cases m)
  case (AskKickDenied target reason)
  then show ?thesis by (cases reason) (simp_all add: parses_def declared_enums_def vote_packet_def message_fields deny_code_def)
next
  case (VoteKickDenied i reason)
  then show ?thesis by (cases reason) (simp_all add: parses_def declared_enums_def vote_packet_def message_fields deny_vote_code_def)
next
  case (EndKickPetition i a f k reason)
  then show ?thesis by (cases reason) (simp_all add: parses_def declared_enums_def vote_packet_def message_fields end_code_def)
qed (simp_all add: parses_def declared_enums_def vote_packet_def message_fields)

lemma vote_packet_valid:
  assumes "vote_trace es v" "vote_answer v m" "gameId \<noteq> 0" "length (session_uids (theGame v)) < 2 ^ 31"
  shows "IsValidPacket (vote_packet gameId m)"
proof -
  have "0 < votes_needed n \<and> votes_needed n < 2 ^ 32" if "2 < n" "n < 2 ^ 31" for n
  proof -
    have n: "2 < int n" "int n < 2147483648" using that by simp_all
    have "0 < votes_needed n" "votes_needed n < 4294967296" unfolding votes_needed_def using n by linarith+
    then show ?thesis by simp
  qed
  then have votes: "(word_of_int (votes_needed n) :: uint32) \<noteq> 0" if "2 < n" "n < 2 ^ 31" for n
    using int32_word that by blast
  note pos = petition_id_pos [OF assms(1)]
  have first: "fst (next_petition_id c) \<noteq> 0" for c by (simp add: next_petition_id_def)
  from assms(2) consider (ask) now byWhom target where "id32 byWhom" "id32 target"
      "m = fst (InternalAskVoteKick now SERVER_VOTE_KICK_TIMEOUT_SEC byWhom target v)"
    | (vote) byWhom petition x where "petition \<noteq> 0" "m = fst (InternalVoteKick byWhom petition x v)"
    | (timer) now where "fst (TimerVoteKick now v) = Some m"
    unfolding vote_answer_def by blast
  then show ?thesis
  proof cases
    case ask
    then consider reason where "m = AskKickDenied target reason"
      | "m = StartKickPetition (fst (next_petition_id (curPetitionId v))) byWhom target SERVER_VOTE_KICK_TIMEOUT_SEC
            (votes_needed (length (session_uids (theGame v))))" "2 < length (session_uids (theGame v))"
      by (auto simp: InternalAskVoteKick_def Let_def split: if_splits option.splits prod.splits)
    then show ?thesis
      using ask(1,2) assms(3,4) votes [of "length (session_uids (theGame v))"] first
      by cases (simp_all add: vote_packet_def packet_validators message_fields id32_word SERVER_VOTE_KICK_TIMEOUT_SEC_def
          word_neq_0_conv [symmetric])
  next
    case vote
    then consider reason where "m = VoteKickDenied petition reason" | a f n where "m = KickPetitionUpdate petition a f n"
      by (auto simp: InternalVoteKick_def Let_def split: if_splits option.splits)
    then show ?thesis
      using vote(1) assms(3) by cases (simp_all add: vote_packet_def packet_validators message_fields)
  next
    case timer
    then obtain p a f k r where "voteKickData v = Some p" "m = EndKickPetition (petitionId p) a f k r"
      by (auto simp: TimerVoteKick_def Let_def split: option.splits)
    then show ?thesis using pos assms(3) by (simp add: vote_packet_def packet_validators message_fields)
  qed
qed

text \<open>C29: The clients accept every packet about a vote kick but one. Through any sequence of petitions,
  votes, runs of the timer and changes of the game with players whose ids are 32 bit numbers: what the
  server answers to a request that passed the validation, and what the timer announces, is parsed by
  the clients and passes their validation, unless it is the refusal of a player's petition against
  himself, whose code the protocol does not declare. The id of a petition is never 0, also when its
  counter wraps around.\<close>

theorem vote_packets_accepted:
  assumes "vote_trace es v" "vote_answer v m" "gameId \<noteq> 0" "length (session_uids (theGame v)) < 2 ^ 31"
  shows "(client_accepts (vote_packet gameId m) \<longleftrightarrow> (\<forall>target. m \<noteq> AskKickDenied target KICK_DENIED_CANNOT_KICK_SELF)) \<and>
    (\<forall>p. voteKickData v = Some p \<longrightarrow> petitionId p \<noteq> 0)"
  using vote_packet_valid [OF assms] vote_packet_parses petition_id_pos [OF assms(1)] by (simp add: client_accepts_def)

theorem vote_packets_accepted_witness:
  "client_accepts (vote_packet 5 (StartKickPetition 1 11 13 30 2))"
proof -
  let ?v = "\<lparr>theGame = voting_game, voteKickData = None, curPetitionId = 1\<rparr>"
  have "StartKickPetition 1 11 13 30 2 = fst (InternalAskVoteKick 0 SERVER_VOTE_KICK_TIMEOUT_SEC 11 13 ?v)"
    by (simp add: InternalAskVoteKick_def voting_game_simps votes_needed_def next_petition_id_def
        SERVER_VOTE_KICK_TIMEOUT_SEC_def Let_def)
  moreover have "id32 11" "id32 13" by (simp_all add: id32_def)
  ultimately have "vote_answer ?v (StartKickPetition 1 11 13 30 2)" unfolding vote_answer_def by blast
  from vote_packets_accepted [OF vote_trace.start this] show ?thesis by (simp add: voting_game_simps)
qed

text \<open>A player who joins a game gets settings that his own validation accepts: from settings that
  passed the validation and the check of the server, the acknowledgement that the server makes from
  its copy of them is valid again.\<close>

theorem join_ack_accepted:
  assumes "accepted i password mode" "gameId \<noteq> 0"
  shows "IsValidPacket (CreateNetPacketJoinGameAck gameId (gamename i) (GetGameData i new_game_data) d)"
proof -
  let ?gd = "GetGameData i new_game_data"
  have v: "ValidateGameInfo i" and hands: "raiseintervalmode i = RAISE_ON_HANDNUMBER \<Longrightarrow> or_zero (raiseeveryhands i) \<noteq> 0"
    "raiseintervalmode i = RAISE_ON_MINUTES \<Longrightarrow> or_zero (raiseeveryminutes i) \<noteq> 0"
    using assms(1) by (auto simp: accepted_def CheckSettings_def GetGameData_def)
  have set: "P (or_zero x)" if "if_set P x" "or_zero x \<noteq> 0" for P x
    using that by (cases x) (simp_all add: if_set_def or_zero_def)
  have "list_all (\<lambda>v. VALIDATE_UINT_RANGE v 1 1000000) (map (word_of_int \<circ> sint) (manualblinds i))"
    using v by (simp add: ValidateGameInfo_def ValidateListIntRange_def list_all_iff)
  moreover have "if_set (\<lambda>v. VALIDATE_UINT_UPPER v 1000000) (Some (or_zero (endraisesmallblindvalue i)))"
    using v by (cases "endraisesmallblindvalue i") (simp_all add: ValidateGameInfo_def if_set_def or_zero_def VALIDATE_UINT_UPPER_def)
  ultimately have "ValidateGameInfo ((SetGameData ?gd no_game_info)\<lparr>gamename := gamename i\<rparr>)"
    using v hands set [of _ "raiseeveryhands i"] set [of _ "raiseeveryminutes i"]
    by (cases "raiseintervalmode i")
       (auto simp: ValidateGameInfo_def SetGameData_def GetGameData_def new_game_data_def no_game_info_def if_set_def
          VALIDATE_LIST_SIZE_def ValidateListIntRange_def)
  then show ?thesis
    using assms(2) by (simp add: CreateNetPacketJoinGameAck_def packet_validators message_fields)
qed

theorem join_ack_accepted_witness:
  "IsValidPacket (CreateNetPacketJoinGameAck 5 ''A'' (GetGameData sample_info new_game_data) (sessionPlayer (sample_session 11 ''ann'')))"
  using join_ack_accepted [of sample_info "''''" SERVER_MODE_INTERNET_NOAUTH 5] sample_lobby_startable
  by (simp add: startable_def sample_info_def)

section \<open>The blinds that are announced\<close>

text \<open>The small blind and the largest blind of the running game: only the start of a hand changes them.\<close>

definition stakes :: "server_game \<Rightarrow> (int \<times> int) option" where
  "stakes sg = map_option (\<lambda>g. (currentSmallBlind g, maxBlind g)) (runningGame sg)"

lemma stakes_on_running:
  "(\<And>g. currentSmallBlind (f g) = currentSmallBlind g \<and> maxBlind (f g) = maxBlind g) \<Longrightarrow> stakes (on_running f sg) = stakes sg"
  by (simp add: stakes_def on_running_def option.map_comp o_def)

lemma stakes_lists [simp]:
  "stakes (sg\<lparr>reactivatePlayers := us\<rparr>) = stakes sg" "stakes (sg\<lparr>rejoinPlayers := us\<rparr>) = stakes sg"
  "stakes (sg\<lparr>rankingMap := r\<rparr>) = stakes sg"
  by (simp_all add: stakes_def)

lemma stakes_running: "runningGame sg' = runningGame sg \<Longrightarrow> stakes sg' = stakes sg"
  by (simp add: stakes_def)

lemma stakes_fold: "(\<And>x sg. stakes (f x sg) = stakes sg) \<Longrightarrow> stakes (fold f xs sg) = stakes sg"
  by (induction xs arbitrary: sg) simp_all

lemma on_player_stakes:
  "currentSmallBlind (on_player u f g) = currentSmallBlind g \<and> maxBlind (on_player u f g) = maxBlind g"
  by (simp add: on_player_def split: option.split)

lemma stakes_kick: "stakes (KickPlayer u sg) = stakes sg"
proof -
  have "stakes (MarkPlayerAsKicked u sg) = stakes sg"
    unfolding MarkPlayerAsKicked_def by (rule stakes_on_running) (rule on_player_stakes)
  then show ?thesis
    by (simp add: KickPlayer_def Let_def stakes_running [OF remove_session_game] split: option.split)
qed

lemma stakes_session_step: "session_step sg sg' \<Longrightarrow> stakes sg' = stakes sg"
proof (induction rule: session_step.induct)
  case (join s sg sg')
  then show ?case
    by (auto simp: join_running_game_def AcceptNewSession_def stakes_def split: option.splits if_splits)
next
  case (leave sg s)
  then show ?case by (rule stakes_running [OF remove_session_game])
next
  case (kick sg u)
  then show ?case by (rule stakes_kick)
qed (simp_all add: MutePlayer_def MarkPlayerAsInactive_def AddReactivatePlayer_def stakes_on_running on_player_stakes)

lemma stakes_rejoin: "stakes (PerformRejoin s sg) = stakes sg"
  by (simp add: PerformRejoin_def Let_def stakes_running [OF remove_session_game] split: option.split)
     (simp add: stakes_def replaceDealer_rest)

lemma stakes_between:
  "stakes (CheckPlayerTimeouts secs (InitRejoiningPlayers (ReactivatePlayers sg))) = stakes sg"
proof -
  have t: "stakes (CheckPlayerTimeouts secs sg) = stakes sg" for sg
    by (auto simp: CheckPlayerTimeouts_def check_timeout_def Let_def stakes_kick stakes_on_running
        intro!: stakes_fold split: option.split)
  have r: "stakes (InitRejoiningPlayers sg) = stakes sg" for sg
    unfolding InitRejoiningPlayers_def
    by (subst stakes_fold) (simp_all add: stakes_rejoin split: option.split)
  have a: "stakes (ReactivatePlayers sg) = stakes sg"
    unfolding ReactivatePlayers_def on_running_fold
    by (simp add: stakes_fold stakes_on_running on_player_stakes)
  show ?thesis by (simp only: t r a)
qed

text \<open>Both stay below a bound that the settings give.\<close>

definition stakes_le :: "int \<Rightarrow> server_game \<Rightarrow> bool" where
  "stakes_le B sg = (case stakes sg of None \<Rightarrow> True | Some (b, m) \<Rightarrow> b \<le> B \<and> m \<le> B)"

lemma raiseBlinds_le: "currentSmallBlind g \<le> B \<Longrightarrow> maxBlind g \<le> B \<Longrightarrow> currentSmallBlind (raiseBlinds minutes g) \<le> B"
  by (auto simp: raiseBlinds_eq min_def)

lemma new_hand_blind:
  assumes "new_hand deck t ident sP dP sB sC = Inr h"
  shows "smallBlind h = sB"
  using assms
  by (auto simp: new_hand_def Let_def setBlinds_def assignButtons_def map_sum_Inr split: sum.splits option.splits)

lemma map_sum_InrE: "map_sum f g x = Inr y \<Longrightarrow> (\<And>z. x = Inr z \<Longrightarrow> y = g z \<Longrightarrow> thesis) \<Longrightarrow> thesis"
  by (cases x) auto

text \<open>The hand that \<open>StartNewHand\<close> starts has the small blind of the game.\<close>

lemma start_stakes:
  assumes "StartNewHand deck minutes secs encryptable sg = Inr sg'" "stakes_le B sg"
  shows "stakes_le B sg'"
    and "runningGame sg' = Some g \<Longrightarrow> runningGame sg \<noteq> None \<Longrightarrow>
      (\<exists>h. currentHand g = Some h \<and> smallBlind h = currentSmallBlind g)"
proof -
  let ?sg = "CheckPlayerTimeouts secs (InitRejoiningPlayers (ReactivatePlayers sg))"
  have st: "stakes ?sg = stakes sg" by (rule stakes_between)
  have "stakes_le B sg' \<and> (runningGame sg' = Some g \<longrightarrow> runningGame sg \<noteq> None \<longrightarrow>
      (\<exists>h. currentHand g = Some h \<and> smallBlind h = currentSmallBlind g))"
  proof -
    obtain g0 g1 where g0: "runningGame sg \<noteq> None" "runningGame ?sg = Some g0" "initHand deck minutes g0 = Inr g1"
      using assms(1) by (auto simp: StartNewHand_def Let_def split: if_splits option.splits sum.splits)
    let ?g1 = "raiseBlinds minutes (g0\<lparr>currentHandID := currentHandID g0 + 1\<rparr>)"
    have le: "currentSmallBlind g0 \<le> B" "maxBlind g0 \<le> B"
      using st assms(2) g0(2) by (auto simp: stakes_le_def stakes_def split: option.splits)
    obtain h d where h: "g1 = ?g1\<lparr>currentHand := Some h, dealerPosition := d\<rparr>" "smallBlind h = currentSmallBlind ?g1"
      using g0(3) by (auto simp: initHand_def Let_def elim!: map_sum_InrE split: sum.splits dest!: new_hand_blind)
    have sg': "runningGame sg' = Some (?g1\<lparr>currentHand := Some (start_on_server h), dealerPosition := d\<rparr>)"
    proof -
      obtain sg'' where "StartNewHand deck minutes secs encryptable sg = Inr sg''"
        "runningGame sg'' = Some (g1\<lparr>currentHand := map_option start_on_server (currentHand g1)\<rparr>)"
        by (rule StartNewHand_game [OF g0(2,1,3)])
      then show ?thesis using assms(1) by (simp add: h(1))
    qed
    have "smallBlind (start_on_server h) = smallBlind h"
      by (simp add: start_on_server_def start_def skipFirstRunGui_def)
    moreover have "currentSmallBlind ?g1 \<le> B" by (rule raiseBlinds_le) (use le in simp_all)
    ultimately show ?thesis using h(2) sg' le by (auto simp: stakes_le_def stakes_def)
  qed
  then show "stakes_le B sg'"
    and "runningGame sg' = Some g \<Longrightarrow> runningGame sg \<noteq> None \<Longrightarrow>
      (\<exists>h. currentHand g = Some h \<and> smallBlind h = currentSmallBlind g)" by blast+
qed

lemma game_step_stakes:
  assumes "game_step (ph, sg) (ph', sg')" "stakes_le B sg"
  shows "stakes_le B sg'"
  using assms(1)
proof cases
  case (hand g h ph ph' h')
  then show ?thesis using assms(2) by (simp add: set_hand_def stakes_le_def stakes_on_running)
next
  case (over e r)
  have "stakes sg' = stakes sg \<or> stakes sg' = None"
    using over(3) by (auto simp: end_of_hand_def RemoveDisconnectedPlayers_def InternalEndGame_def stakes_on_running
        stakes_def on_running_def Let_def split: option.splits if_splits)
  then show ?thesis using assms(2) by (auto simp: stakes_le_def)
next
  case (next_hand deck minutes secs encryptable)
  then show ?thesis using start_stakes(1) assms(2) by blast
next
  case session
  then show ?thesis using stakes_session_step assms(2) by (simp add: stakes_le_def)
qed

lemma game_steps_stakes: "game_steps s s' \<Longrightarrow> stakes_le B (snd s) \<Longrightarrow> stakes_le B (snd s')"
  by (induction rule: rtranclp_induct) (metis game_step_stakes prod.collapse)+

lemma start_stakes_le:
  assumes "startable i password mode sg" "shuffle f" "InternalStartGame f k sg = Some sg1"
  shows "stakes_le 1000000 sg1"
proof -
  note s = assms(1) [unfolded startable_def]
  note bounds = accepted_bounds [OF conjunct1 [OF s] conjunct1 [OF conjunct2 [OF s]]]
  have full: "GetFullPlayerDataList sg = map sessionPlayer (sessions sg)"
    using s by (simp add: GetFullPlayerDataList_def list_all_iff)
  have two: "length (AssignPlayerNumbers (f (map sessionPlayer (sessions sg)))) = 2"
    using mset_eq_length [OF shuffled_players(1) [OF assms(2), of pdUniqueId "map sessionPlayer (sessions sg)"]] s by simp
  let ?pds = "AssignPlayerNumbers (f (map sessionPlayer (sessions sg)))"
  let ?sd = "\<lparr>startDealerPlayerId = pdUniqueId (?pds ! k), numberOfPlayers = int (length ?pds)\<rparr>"
  obtain g where g: "runningGame sg1 = Some g" "new_game ?pds (gameData sg) ?sd (int (gameNum sg)) = Inr g"
    using assms(3) s two
    by (auto simp: InternalStartGame_def full Let_def GetNextGameNum_def split: if_splits sum.splits)
  have "currentSmallBlind g = firstSmallBlind (gameData sg)" "gameStartQuantityPlayers g = 2"
    "gameStartCash g = startMoney (gameData sg)"
    using g(2) two by (auto simp: new_game_def split: if_splits)
  then show ?thesis
    using g(1) bounds(3,4,5) by (simp add: stakes_le_def stakes_def maxBlind_def INT_MAX_def Let_def signed_divide_int_def)
qed

text \<open>C28: Every hand that is dealt can be announced. In a game of two players started from accepted
  settings, whatever happened in it before, the packet that tells the clients about the next hand
  passes their validation: it names a small blind between 1 and the limit of the protocol and a
  state for each of the two seats.\<close>

theorem hand_start_accepted:
  assumes "startable i password mode sg" "shuffle f" "k < 2" "InternalStartGame f k sg = Some sg1"
    and "game_steps (BetweenHands, sg1) (BetweenHands, sg2)" "deck_ok deck"
    and "StartNewHand deck minutes secs encryptable sg2 = Inr sg3" "gameId \<noteq> 0"
  shows "\<exists>g. runningGame sg3 = Some g \<and> IsValidPacket (CreateNetPacketHandStart gameId 2 g)"
proof -
  let ?T = "2 * startMoney (gameData sg)"
  have inv2: "game_inv ?T (BetweenHands, sg2)" by (rule reached_inv [OF assms(1-5)])
  have "game_inv ?T (InHand Looping, sg3)"
    using game_step_inv [OF game_step.next_hand [OF assms(6,7)] inv2 startable_chips [OF assms(1)]] .
  then obtain g where g: "playing sg3 g" "runningGame sg3 = Some g" by (auto simp: game_inv_def playing_def)
  then have two: "length (seatsList (game_board g)) = 2" and pos: "1 \<le> currentSmallBlind g"
    by (simp_all add: playing_def people_ok_def blinds_pos_def)
  have "stakes_le 1000000 sg2"
    using game_steps_stakes [OF assms(5)] start_stakes_le [OF assms(1,2,4)] by simp
  note start = start_stakes [OF assms(7) this]
  have "runningGame sg2 \<noteq> None" using inv2 by (auto simp: game_inv_def playing_def)
  with start(2) [OF g(2)] obtain h where h: "currentHand g = Some h" "smallBlind h = currentSmallBlind g" by blast
  have "currentSmallBlind g \<le> 1000000" using start(1) g(2) by (simp add: stakes_le_def stakes_def)
  then have "VALIDATE_UINT_RANGE (word_of_int (smallBlind h)) 1 100000000"
    using pos by (simp add: VALIDATE_UINT_RANGE_def h(2) word_le_def uint_word_of_int_eq take_bit_int_eq_self)
  then have "IsValidPacket (CreateNetPacketHandStart gameId 2 g)"
    using assms(8) two h(1)
    by (simp add: CreateNetPacketHandStart_def packet_validators message_fields Let_def VALIDATE_LIST_SIZE_def MAX_NUMBER_OF_PLAYERS_def)
  then show ?thesis using g(2) by blast
qed

theorem hand_start_accepted_witness:
  "\<exists>sg1 sg2 g. InternalStartGame rev 1 sample_lobby = Some sg1 \<and>
     StartNewHand (map int [0..<52]) 0 (\<lambda>_. 0) (\<lambda>_. True) (MutePlayer 11 True sg1) = Inr sg2 \<and>
     runningGame sg2 = Some g \<and> IsValidPacket (CreateNetPacketHandStart 5 2 g)"
proof -
  have f: "shuffle rev" "1 < (2 :: nat)" by (simp_all add: shuffle_def)
  have deck: "deck_ok (map int [0..<52])" by (auto simp: deck_ok_def distinct_map inj_on_def image_int_atLeastLessThan)
  obtain sg1 where sg1: "InternalStartGame rev 1 sample_lobby = Some sg1"
    "game_inv (2 * startMoney (gameData sample_lobby)) (BetweenHands, sg1)"
    using game_starts [OF sample_lobby_startable f] by blast
  have steps: "game_steps (BetweenHands, sg1) (BetweenHands, MutePlayer 11 True sg1)"
    by (meson game_step.session session_step.mute r_into_rtranclp)
  obtain sg2 where sg2: "StartNewHand (map int [0..<52]) 0 (\<lambda>_. 0) (\<lambda>_. True) (MutePlayer 11 True sg1) = Inr sg2"
    using StartNewHand_ready [OF session_step_inv [OF session_step.mute sg1(2)] deck, of 0 "\<lambda>_. 0" "\<lambda>_. True"] by blast
  from hand_start_accepted [OF sample_lobby_startable f sg1(1) steps deck sg2, of 5] sg1(1) sg2 show ?thesis by auto
qed

end
