(* ===== verification/Client_Hand.thy ===== *)
theory Client_Hand
  imports Server_Messages
begin

text \<open>
  The hand as a client keeps it: \<open>ClientHand\<close>, \<open>ClientBoard\<close>, \<open>ClientPlayer\<close>, \<open>ClientBeRo\<close>
  (\<open>src/src/engine/network_engine\<close>) and the handlers of the client states that run a hand
  (\<open>src/src/net/clientstate.cpp\<close>). The classes of the client implement the interfaces of the local
  engine with the same data, so their objects are values of the same records; what a client class
  does not have keeps its value. The calls of the user interface and of the log are left out.
\<close>

section \<open>The objects of the client\<close>

datatype client_error =
    CLIENT_ENGINE engine_error
  | ERR_NET_INVALID_REQUEST_ID
  | ERR_CLIENT_UNKNOWN_PLAYER_ID
  | ERR_NET_INVALID_BET
  | ERR_NET_INVALID_STATE

definition setMySetAbsolute :: "int \<Rightarrow> local_player \<Rightarrow> local_player" where
  "setMySetAbsolute v p = p\<lparr>mySet := v\<rparr>"

text \<open>The pot is collected without touching the players.\<close>

definition client_collectPot :: "table \<Rightarrow> table" where
  "client_collectPot t = t\<lparr>pot := pot t + sets t, sets := 0\<rparr>"

definition client_bero :: "int \<Rightarrow> GameState \<Rightarrow> bero" where
  "client_bero sB r =
     \<lparr>myBeRoID = r, beroDealerPosition = 0, beroSmallBlind = sB, smallBlindPositionId = 0, bigBlindPositionId = 0,
      highestSet = 0, minimumRaise = 2 * sB, fullBetRule = False, firstRound = True, firstRunGui = True,
      currentPlayersTurnId = 0, firstRoundLastPlayersTurnId = 0\<rparr>"

text \<open>The constructor of \<open>ClientHand\<close>. The other buttons come from the server.\<close>

definition start_seat :: "nat \<Rightarrow> local_player \<Rightarrow> local_player" where
  "start_seat dealer p =
     p\<lparr>myRoundStartCash := myCash p, myCardsValueInt := 0,
       myButton := (if myUniqueID p = dealer then BUTTON_DEALER else BUTTON_NONE)\<rparr>"

definition new_client_hand :: "table \<Rightarrow> int \<Rightarrow> int \<Rightarrow> nat \<Rightarrow> int \<Rightarrow> int \<Rightarrow> local_hand" where
  "new_client_hand t ident sP dP sB sC =
    (let t1 = map_seats (\<lambda>p. p\<lparr>myCardsFlip := False\<rparr>) t;
         t2 = fold (\<lambda>i. on_seat i (start_seat dP)) (activePlayerList t1) t1
     in \<lparr> board = t2,
          myBeRo = map (client_bero sB)
            [GAME_STATE_PREFLOP, GAME_STATE_FLOP, GAME_STATE_TURN, GAME_STATE_RIVER, GAME_STATE_POST_RIVER],
          handID = ident, startQuantityPlayers = sP, handDealerPosition = dP, smallBlindPosition = 0,
          bigBlindPosition = 0, currentRound = GAME_STATE_PREFLOP, roundBeforePostRiver = GAME_STATE_PREFLOP,
          smallBlind = sB, startCash = sC, previousPlayerID = UINT_MAX, handLastActionPlayerID = 0,
          handAllInCondition = False, cardsShown = False, highestCardsValue = 0 \<rparr>)"

text \<open>\<open>Game::initHand\<close> with the factory of the client, whose hands cannot fail.\<close>

definition client_initHand :: "int \<Rightarrow> game \<Rightarrow> engine_error + game" where
  "client_initHand elapsedMinutes g =
    (let g1 = raiseBlinds elapsedMinutes (g\<lparr>currentHandID := currentHandID g + 1\<rparr>);
         h = new_client_hand (prepare_board (game_board g1)) (currentHandID g1) (gameStartQuantityPlayers g1)
               (dealerPosition g1) (currentSmallBlind g1) (gameStartCash g1)
     in map_sum id (\<lambda>d. g1\<lparr>currentHand := Some h, dealerPosition := d\<rparr>)
          (next_dealer (dealerPosition g1) (board h)))"

text \<open>\<open>ClientHand::switchRounds\<close> only refreshes the running players.\<close>

definition client_switchRounds :: "local_hand \<Rightarrow> local_hand" where
  "client_switchRounds h = refresh_runners h"

section \<open>The messages of a running hand\<close>

definition each_active :: "(local_player \<Rightarrow> local_player) \<Rightarrow> table \<Rightarrow> table" where
  "each_active f t = fold (\<lambda>i. on_seat i f) (activePlayerList t) t"

definition ResetPlayerActions :: "table \<Rightarrow> table" where
  "ResetPlayerActions = each_active (\<lambda>p. p\<lparr>myAction := PLAYER_ACTION_NONE\<rparr>)"

definition ResetPlayerSets :: "table \<Rightarrow> table" where
  "ResetPlayerSets = each_active setMySetNull"

abbreviation on_current :: "(bero \<Rightarrow> bero) \<Rightarrow> local_hand \<Rightarrow> local_hand" where
  "on_current f h \<equiv> update_bero (currentRound h) f h"

definition take_blind :: "action_done \<Rightarrow> nat \<Rightarrow> local_hand \<Rightarrow> local_hand" where
  "take_blind m i h =
    (let u = myUniqueID (seats h ! i) in
     if ad_gamestate m = netStatePreflopSmallBlind then
       on_board (on_seat i (set_button BUTTON_SMALL_BLIND)) (on_current (\<lambda>b. b\<lparr>smallBlindPositionId := u\<rparr>) h)
     else if ad_gamestate m = netStatePreflopBigBlind then
       on_board (on_seat i (set_button BUTTON_BIG_BLIND)) (on_current (\<lambda>b. b\<lparr>bigBlindPositionId := u\<rparr>) h)
     else h\<lparr>previousPlayerID := myID (seats h ! i)\<rparr>)"

text \<open>A bet below what the player has in front of him is refused, except for the blinds.\<close>

definition invalid_bet :: "action_done \<Rightarrow> local_player \<Rightarrow> bool" where
  "invalid_bet m p \<longleftrightarrow> ad_gamestate m \<noteq> netStatePreflopSmallBlind \<and> ad_gamestate m \<noteq> netStatePreflopBigBlind \<and>
     ad_action m \<noteq> PLAYER_ACTION_NONE \<and> (ad_totalplayerbet m > INT_MAX \<or> ad_totalplayerbet m < mySet p)"

definition done_seat :: "action_done \<Rightarrow> local_player \<Rightarrow> local_player" where
  "done_seat m p = (setMySetAbsolute (ad_totalplayerbet m) (p\<lparr>myAction := ad_action m\<rparr>))\<lparr>myCash := ad_playermoney m\<rparr>"

definition client_action_done :: "action_done \<Rightarrow> local_hand \<Rightarrow> client_error + local_hand" where
  "client_action_done m h =
    (case getSeatIt (ad_playerid m) (board h) of
       None \<Rightarrow> Inl ERR_CLIENT_UNKNOWN_PLAYER_ID
     | Some i \<Rightarrow>
         if invalid_bet m (seats h ! i) then Inl ERR_NET_INVALID_BET
         else
           (let h1 = on_board (on_seat i (done_seat m)) (take_blind m i h);
                h2 = on_current (\<lambda>b. b\<lparr>highestSet := ad_highestset m, minimumRaise := ad_minimumraise m\<rparr>) h1
            in Inr (client_switchRounds (on_board collectSets h2))))"

definition client_players_turn :: "GameState \<Rightarrow> nat \<Rightarrow> local_hand \<Rightarrow> client_error + local_hand" where
  "client_players_turn r u h =
    (case getSeatIt u (board h) of
       None \<Rightarrow> Inl ERR_CLIENT_UNKNOWN_PLAYER_ID
     | Some i \<Rightarrow>
         (let h1 = (if currentRound h \<noteq> r then (on_board ResetPlayerActions h)\<lparr>currentRound := r\<rparr> else h)
          in Inr (on_current (\<lambda>b. b\<lparr>currentPlayersTurnId := nat (myID (seats h ! i))\<rparr>) h1)))"

definition client_deal :: "(int list \<Rightarrow> int list) \<Rightarrow> local_hand \<Rightarrow> local_hand" where
  "client_deal cards h =
    (let h1 = on_board (\<lambda>t. client_collectPot (t\<lparr>boardCards := cards (boardCards t)\<rparr>)) h;
         h2 = on_current (\<lambda>b. b\<lparr>highestSet := 0\<rparr>) h1
     in (on_board ResetPlayerSets h2)\<lparr>previousPlayerID := UINT_MAX\<rparr>)"

fun client_all_in :: "(nat \<times> int list) list \<Rightarrow> table \<Rightarrow> client_error + table" where
  "client_all_in [] t = Inr t"
| "client_all_in ((u, cs) # rest) t =
    (case getSeatIt u t of
       None \<Rightarrow> Inl ERR_CLIENT_UNKNOWN_PLAYER_ID
     | Some i \<Rightarrow> client_all_in rest (on_seat i (\<lambda>p. p\<lparr>myCards := cs\<rparr>) t))"

definition client_sweep :: "table \<Rightarrow> table" where
  "client_sweep t = ResetPlayerSets (client_collectPot t)"

definition client_hide_cards :: "nat \<Rightarrow> int \<Rightarrow> int \<Rightarrow> local_hand \<Rightarrow> client_error + local_hand" where
  "client_hide_cards u won money h =
    (let t = client_sweep (board h) in
     case getSeatIt u t of
       None \<Rightarrow> Inl ERR_CLIENT_UNKNOWN_PLAYER_ID
     | Some i \<Rightarrow>
         Inr (h\<lparr>board := (on_seat i (\<lambda>p. p\<lparr>myCash := money, myLastMoneyWon := won\<rparr>) t)\<lparr>pot := 0, winners := [u]\<rparr>\<rparr>))"

text \<open>Five positions, 0 for those that are missing.\<close>

definition best_hand_of :: "player_result \<Rightarrow> int list" where
  "best_hand_of r = map (\<lambda>n. if n < length (pr_besthandposition r) then pr_besthandposition r ! n else 0) [0..<5]"

definition result_seat :: "player_result \<Rightarrow> local_player \<Rightarrow> local_player" where
  "result_seat r p =
     p\<lparr>myCards := pr_resultcards r,
       myCardsValueInt := (case pr_cardsvalue r of Some v \<Rightarrow> v | None \<Rightarrow> myCardsValueInt p),
       myBestHandPosition := best_hand_of r, myCash := pr_playermoney r, myLastMoneyWon := pr_moneywon r\<rparr>"

fun client_results :: "player_result list \<Rightarrow> table \<Rightarrow> int \<Rightarrow> client_error + table \<times> int" where
  "client_results [] t highest = Inr (t, highest)"
| "client_results (r # rest) t highest =
    (case getSeatIt (pr_playerid r) t of
       None \<Rightarrow> Inl ERR_CLIENT_UNKNOWN_PLAYER_ID
     | Some i \<Rightarrow>
         (let t' = on_seat i (result_seat r) t
          in client_results rest t' (max highest (myCardsValueInt (seatsList t' ! i)))))"

definition client_show_cards :: "player_result list \<Rightarrow> local_hand \<Rightarrow> client_error + local_hand" where
  "client_show_cards rs h =
     map_sum id (\<lambda>(t, highest).
       h\<lparr>board := t\<lparr>pot := 0, winners := map pr_playerid (filter (\<lambda>r. pr_moneywon r \<noteq> 0) rs),
                     playerNeedToShowCards := map pr_playerid rs\<rparr>,
         currentRound := GAME_STATE_POST_RIVER, highestCardsValue := highest\<rparr>)
       (client_results rs (client_sweep (board h)) 0)"

text \<open>\<open>ClientStateRunHand::InternalHandlePacket\<close>. Other messages are ignored.\<close>

definition run_hand_packet :: "hand_message \<Rightarrow> local_hand \<Rightarrow> client_error + local_hand" where
  "run_hand_packet m h =
    (case m of
       PlayersActionDone a \<Rightarrow> client_action_done a h
     | PlayersTurn r u \<Rightarrow> client_players_turn r u h
     | DealFlopCards a b c \<Rightarrow> Inr (client_deal (\<lambda>_. [a, b, c, 0, 0]) h)
     | DealTurnCard a \<Rightarrow> Inr (client_deal (\<lambda>cs. cs[3 := a]) h)
     | DealRiverCard a \<Rightarrow> Inr (client_deal (\<lambda>cs. cs[4 := a]) h)
     | AllInShowCards xs \<Rightarrow>
         map_sum id (\<lambda>t. h\<lparr>board := t, handAllInCondition := True\<rparr>) (client_all_in xs (board h))
     | EndOfHandHideCards u won money \<Rightarrow> client_hide_cards u won money h
     | EndOfHandShowCards rs \<Rightarrow> client_show_cards rs h
     | _ \<Rightarrow> Inr h)"

section \<open>Reading the encrypted cards\<close>

text \<open>\<open>operator>>\<close> of an \<open>istringstream\<close> for an integer between two bounds: white space is skipped, an
  optional sign and digits are read. \<open>None\<close> is a stream that has failed; a read that fails gives 0, a
  number out of range the nearest bound, and a read from a failed stream leaves its variable.\<close>

definition is_digit :: "char \<Rightarrow> bool" where
  "is_digit c \<longleftrightarrow> 48 \<le> (of_char c :: nat) \<and> (of_char c :: nat) \<le> 57"

definition is_space :: "char \<Rightarrow> bool" where
  "is_space c \<longleftrightarrow> (of_char c :: nat) \<in> {9, 10, 11, 12, 13, 32}"

definition digits_value :: "string \<Rightarrow> nat" where
  "digits_value ds = fold (\<lambda>c n. 10 * n + (of_char c - 48)) ds 0"

definition signed_digits :: "string \<Rightarrow> bool \<times> string" where
  "signed_digits s = (case s of
     [] \<Rightarrow> (False, [])
   | c # rest \<Rightarrow> if c = CHR ''-'' then (True, rest) else if c = CHR ''+'' then (False, rest) else (False, s))"

definition read_number :: "int \<Rightarrow> int \<Rightarrow> string option \<times> int \<Rightarrow> string option \<times> int" where
  "read_number low high st = (case st of
     (None, v) \<Rightarrow> (None, v)
   | (Some s, v) \<Rightarrow>
       (let (neg, t) = signed_digits (dropWhile is_space s); ds = takeWhile is_digit t;
            n = (if neg then - int (digits_value ds) else int (digits_value ds))
        in if ds = [] then (None, 0)
           else if n > high then (None, high)
           else if n < low then (None, low)
           else (Some (dropWhile is_digit t), n)))"

text \<open>The five reads of the handler: player, game, hand and the two cards, which begin as -1. A negative
  number read into an \<open>unsigned\<close> does not occur in what the server writes.\<close>

definition read_card_data :: "string \<Rightarrow> int \<times> int \<times> int \<times> int list" where
  "read_card_data s =
    (let (s1, player) = read_number 0 (2 ^ 32 - 1) (Some s, 0);
         (s2, gameId) = read_number 0 (2 ^ 32 - 1) (s1, 0);
         (s3, handNum) = read_number (- (2 ^ 31)) INT_MAX (s2, 0);
         (s4, c0) = read_number (- (2 ^ 31)) INT_MAX (s3, -1);
         (s5, c1) = read_number (- (2 ^ 31)) INT_MAX (s4, -1)
     in (player, gameId, handNum, [c0, c1]))"

section \<open>The states of the client\<close>

datatype client_phase = ClientWaitHand | ClientRunHand

record client =
  clGame :: game
  clPhase :: client_phase
  clPassword :: string
  clGuiPlayerId :: nat
  clGameId :: nat
  clNumberOfPlayers :: int
  clOrigGuiPlayerNum :: int

text \<open>The client's cards in the message that starts a hand. \<open>L\<close> is the cryptographic library of the
  client.\<close>

definition my_start_cards :: "crypt_library \<Rightarrow> start_cards \<Rightarrow> client \<Rightarrow> client_error + int list" where
  "my_start_cards L cards c =
    (case cards of
       PlainCards cs \<Rightarrow> if clPassword c = [] then Inr cs else Inl ERR_NET_INVALID_REQUEST_ID
     | EncryptedCards e \<Rightarrow>
         if clPassword c = [] then Inl ERR_NET_INVALID_REQUEST_ID
         else (case AES128Decrypt L (clPassword c) e of
                 None \<Rightarrow> Inl ERR_CLIENT_UNKNOWN_PLAYER_ID
               | Some plain \<Rightarrow>
                   (let (player, gameId, handNum, cs) = read_card_data plain in
                    if player \<noteq> int (clGuiPlayerId c) \<or> gameId \<noteq> int (clGameId c)
                         \<or> handNum \<noteq> currentHandID (clGame c) + 1
                    then Inl ERR_CLIENT_UNKNOWN_PLAYER_ID else Inr cs)))"

text \<open>The number that a seat of the server has at this client.\<close>

definition client_seat_number :: "client \<Rightarrow> nat \<Rightarrow> int" where
  "client_seat_number c i = (int i + (clNumberOfPlayers c - clOrigGuiPlayerNum c)) mod clNumberOfPlayers c"

definition take_seat_state :: "NetPlayerState \<Rightarrow> local_player \<Rightarrow> local_player" where
  "take_seat_state st p = (case st of
     netPlayerStateNormal \<Rightarrow> p\<lparr>myIsSessionActive := True\<rparr>
   | netPlayerStateSessionInactive \<Rightarrow> p\<lparr>myIsSessionActive := False\<rparr>
   | netPlayerStateNoMoney \<Rightarrow> p\<lparr>myCash := 0\<rparr>)"

definition on_game_board :: "(table \<Rightarrow> table) \<Rightarrow> game \<Rightarrow> game" where
  "on_game_board f g = (case currentHand g of
     None \<Rightarrow> g\<lparr>gameBoard := f (gameBoard g)\<rparr>
   | Some h \<Rightarrow> g\<lparr>currentHand := Some (on_board f h)\<rparr>)"

fun take_seat_states :: "client \<Rightarrow> nat \<Rightarrow> NetPlayerState list \<Rightarrow> game \<Rightarrow> client_error + game" where
  "take_seat_states c i [] g = Inr g"
| "take_seat_states c i (st # rest) g =
    (case getPlayerByNumber (client_seat_number c i) g of
       None \<Rightarrow> Inl ERR_CLIENT_UNKNOWN_PLAYER_ID
     | Some j \<Rightarrow> take_seat_states c (Suc i) rest (on_game_board (on_seat j (take_seat_state st)) g))"

definition handle_hand_start ::
  "crypt_library \<Rightarrow> int \<Rightarrow> hand_start \<Rightarrow> client \<Rightarrow> client_error + client" where
  "handle_hand_start L elapsedMinutes m c =
    (case my_start_cards L (hs_cards m) c of
       Inl e \<Rightarrow> Inl e
     | Inr cs \<Rightarrow>
         (case take_seat_states c 0 (hs_seatstates m) (clGame c) of
            Inl e \<Rightarrow> Inl e
          | Inr g \<Rightarrow>
              (case client_initHand elapsedMinutes (on_game_board (on_seat 0 (\<lambda>p. p\<lparr>myCards := cs\<rparr>)) g) of
                 Inl e \<Rightarrow> Inl (CLIENT_ENGINE e)
               | Inr g' \<Rightarrow>
                   Inr (c\<lparr>clGame := g'\<lparr>currentHand := map_option
                              (\<lambda>h. on_current (\<lambda>b. b\<lparr>minimumRaise := 2 * hs_smallblind m\<rparr>) (h\<lparr>smallBlind := hs_smallblind m\<rparr>))
                              (currentHand g')\<rparr>,
                          clPhase := ClientRunHand\<rparr>))))"

text \<open>A player shows his cards after the hand. A value 0 is not taken over.\<close>

definition client_after_hand_show :: "player_result \<Rightarrow> game \<Rightarrow> client_error + game" where
  "client_after_hand_show r g =
    (case getPlayerByUniqueId (pr_playerid r) g of
       None \<Rightarrow> Inl ERR_CLIENT_UNKNOWN_PLAYER_ID
     | Some i \<Rightarrow>
         (let r' = (if pr_cardsvalue r = Some 0 then r\<lparr>pr_cardsvalue := None\<rparr> else r)
          in Inr (on_game_board (on_seat i (result_seat r')) g)))"

definition ends_hand :: "hand_message \<Rightarrow> bool" where
  "ends_hand m = (case m of EndOfHandHideCards _ _ _ \<Rightarrow> True | EndOfHandShowCards _ \<Rightarrow> True | _ \<Rightarrow> False)"

definition client_handle ::
  "crypt_library \<Rightarrow> int \<Rightarrow> hand_message \<Rightarrow> client \<Rightarrow> client_error + client" where
  "client_handle L elapsedMinutes m c =
    (case clPhase c of
       ClientWaitHand \<Rightarrow>
         (case m of
            HandStart _ s \<Rightarrow> handle_hand_start L elapsedMinutes s c
          | AfterHandShowCards r \<Rightarrow>
              map_sum id (\<lambda>g. c\<lparr>clGame := g\<rparr>) (client_after_hand_show r (clGame c))
          | _ \<Rightarrow> Inr c)
     | ClientRunHand \<Rightarrow>
         (case currentHand (clGame c) of
            None \<Rightarrow> Inr c
          | Some h \<Rightarrow>
              map_sum id (\<lambda>h. c\<lparr>clGame := (clGame c)\<lparr>currentHand := Some h\<rparr>,
                              clPhase := (if ends_hand m then ClientWaitHand else ClientRunHand)\<rparr>)
                (run_hand_packet m h)))"

end
