(* ===== verification/Client_Sync.thy ===== *)
theory Client_Sync
  imports Bets Client_Hand
begin

text \<open>
  The clients see the hand that the server plays: what each message of a two-player hand changes at a
  client, its cash and sets of the players, its pot, its cards of the board and its limits of the
  betting. \<open>Client_View\<close> compares them with those of the server.
\<close>

section \<open>What the messages do at the client\<close>

text \<open>A hand of the client in which everybody at the table plays.\<close>

definition client_ready :: "local_hand \<Rightarrow> bool" where
  "client_ready c \<longleftrightarrow> set (activePlayerList (board c)) = {0..<length (seats c)} \<and> distinct (ids (board c)) \<and>
     length (myBeRo c) = 5 \<and> length (boardCards (board c)) = 5"

lemma each_active_lists [simp]:
  "activePlayerList (each_active f t) = activePlayerList t" "pot (each_active f t) = pot t"
  "sets (each_active f t) = sets t" "boardCards (each_active f t) = boardCards t"
proof -
  have "activePlayerList (fold (\<lambda>i. on_seat i f) xs t) = activePlayerList t \<and> pot (fold (\<lambda>i. on_seat i f) xs t) = pot t \<and>
     sets (fold (\<lambda>i. on_seat i f) xs t) = sets t \<and> boardCards (fold (\<lambda>i. on_seat i f) xs t) = boardCards t" for xs
    by (induction xs arbitrary: t) simp_all
  then show "activePlayerList (each_active f t) = activePlayerList t" "pot (each_active f t) = pot t"
    "sets (each_active f t) = sets t" "boardCards (each_active f t) = boardCards t"
    by (simp_all add: each_active_def)
qed

lemma each_active_all:
  assumes "set (activePlayerList t) = {0..<length (seatsList t)}" "\<And>p. f (f p) = f p"
  shows "seatsList (each_active f t) = map f (seatsList t)"
proof -
  have *: "length (seatsList (fold (\<lambda>i. on_seat i f) xs t)) = length (seatsList t) \<and>
     (\<forall>k < length (seatsList t). seatsList (fold (\<lambda>i. on_seat i f) xs t) ! k =
        (if k \<in> set xs then f (seatsList t ! k) else seatsList t ! k))" for xs t
  proof (induction xs arbitrary: t)
    case (Cons i xs)
    then show ?case using Cons.IH [of "on_seat i f t"] by (auto simp: nth_update_seat assms(2))
  qed simp
  show ?thesis
    using * [of "activePlayerList t" t] assms(1) by (intro nth_equalityI) (simp_all add: each_active_def)
qed

lemma ids_map: "seatsList t' = map f (seatsList t) \<Longrightarrow> (\<And>p. myUniqueID (f p) = myUniqueID p) \<Longrightarrow> ids t' = ids t"
  by (simp add: ids_def o_def)

lemma setMySetNull_twice [simp]: "setMySetNull (setMySetNull p) = setMySetNull p"
  by (simp add: setMySetNull_def)

lemma bets_client_sweep:
  assumes "set (activePlayerList t) = {0..<length (seatsList t)}"
  shows "bets (client_sweep t) = sweep (bets t)" "ids (client_sweep t) = ids t"
proof -
  have s: "seatsList (client_sweep t) = map setMySetNull (seatsList t)"
    using each_active_all [of "client_collectPot t" setMySetNull] assms
    by (simp add: client_sweep_def ResetPlayerSets_def client_collectPot_def)
  have "money_of (client_sweep t) = swept \<circ> money_of t" by (rule money_of_null) (rule s)
  then show "bets (client_sweep t) = sweep (bets t)"
    by (simp add: bets_def sweep_def) (simp add: client_sweep_def ResetPlayerSets_def client_collectPot_def)
  show "ids (client_sweep t) = ids t" by (rule ids_map [OF s]) simp
qed

lemma bero_of_previous [simp]: "bero_of r (h\<lparr>previousPlayerID := u\<rparr>) = bero_of r h"
  by (simp add: bero_of_def)

text \<open>Dealing: the sets go to the pot, the limit of the client's round is cleared.\<close>

lemma client_deal_sync:
  assumes "client_ready c" "\<And>cs. length cs = 5 \<Longrightarrow> length (cards cs) = 5"
  shows "client_ready (client_deal cards c)" "bets (board (client_deal cards c)) = sweep (bets (board c))"
    "boardCards (board (client_deal cards c)) = cards (boardCards (board c))"
    "currentRound (client_deal cards c) = currentRound c" "ids (board (client_deal cards c)) = ids (board c)"
    "r \<noteq> currentRound c \<Longrightarrow> r < GAME_STATE_POST_RIVER \<Longrightarrow> currentRound c < GAME_STATE_POST_RIVER \<Longrightarrow>
       limits_of r (client_deal cards c) = limits_of r c"
proof -
  let ?t = "(board c)\<lparr>boardCards := cards (boardCards (board c))\<rparr>"
  have b: "board (client_deal cards c) = client_sweep ?t"
    by (simp add: client_deal_def client_sweep_def Let_def)
  have all: "set (activePlayerList ?t) = {0..<length (seatsList ?t)}" using assms(1) by (simp add: client_ready_def)
  note s = bets_client_sweep [OF all]
  have lists: "activePlayerList (client_sweep ?t) = activePlayerList (board c)"
    "boardCards (client_sweep ?t) = cards (boardCards (board c))"
    by (simp_all add: client_sweep_def ResetPlayerSets_def client_collectPot_def)
  have t: "bets ?t = bets (board c)" "ids ?t = ids (board c)" by (simp_all add: bets_def ids_def)
  then show ids: "ids (board (client_deal cards c)) = ids (board c)" and
    "bets (board (client_deal cards c)) = sweep (bets (board c))" using s by (simp_all add: b)
  show "boardCards (board (client_deal cards c)) = cards (boardCards (board c))" using lists b by simp
  show "currentRound (client_deal cards c) = currentRound c" by (simp add: client_deal_def Let_def)
  have "length (seats (client_deal cards c)) = length (seats c)" using ids by (metis ids_def length_map)
  moreover have "length (myBeRo (client_deal cards c)) = length (myBeRo c)" by (simp add: client_deal_def Let_def)
  ultimately show "client_ready (client_deal cards c)"
    using assms lists ids by (simp add: client_ready_def b)
  show "limits_of r (client_deal cards c) = limits_of r c"
    if "r \<noteq> currentRound c" "r < GAME_STATE_POST_RIVER" "currentRound c < GAME_STATE_POST_RIVER"
    using that assms(1) by (simp add: client_deal_def Let_def limits_of_def client_ready_def bero_of_update)
qed

text \<open>The turn: the client takes over the round and marks the player by his seat number.\<close>

lemma client_players_turn_sync:
  assumes "client_ready c" "u \<in> set (ids (board c))" "r < GAME_STATE_POST_RIVER"
  shows "\<exists>c' i. client_players_turn r u c = Inr c' \<and> client_ready c' \<and> bets (board c') = bets (board c) \<and>
    ids (board c') = ids (board c) \<and> boardCards (board c') = boardCards (board c) \<and> currentRound c' = r \<and>
    (\<forall>r'. r' < GAME_STATE_POST_RIVER \<longrightarrow> limits_of r' c' = limits_of r' c) \<and>
    getSeatIt u (board c') = Some i \<and> currentPlayersTurnId (current_bero c') = nat (myID (seats c' ! i))"
proof -
  obtain i where i: "getSeatIt u (board c) = Some i" using assms(2) getSeatIt_None [of u "board c"] by auto
  let ?h = "if currentRound c \<noteq> r then (on_board ResetPlayerActions c)\<lparr>currentRound := r\<rparr> else c"
  let ?c = "on_current (\<lambda>b. b\<lparr>currentPlayersTurnId := nat (myID (seats c ! i))\<rparr>) ?h"
  have res: "client_players_turn r u c = Inr ?c" using i by (simp add: client_players_turn_def Let_def)
  have seats: "seatsList (ResetPlayerActions (board c)) = map (\<lambda>p. p\<lparr>myAction := PLAYER_ACTION_NONE\<rparr>) (seats c)"
    unfolding ResetPlayerActions_def using assms(1) by (intro each_active_all) (simp_all add: client_ready_def)
  have "ids (ResetPlayerActions (board c)) = ids (board c)" by (rule ids_map [OF seats]) simp
  then have ids: "ids (board ?c) = ids (board c)" by (cases "currentRound c = r") simp_all
  have l: "length (seats ?c) = length (seats c)" by (simp add: seats)
  have money: "money_of (board ?c) = money_of (board c)"
    by (rule money_of_cong [OF ids]) (simp_all add: seats o_def)
  have rest: "activePlayerList (board ?c) = activePlayerList (board c)" "boardCards (board ?c) = boardCards (board c)"
    "pot (board ?c) = pot (board c)" "sets (board ?c) = sets (board c)" "currentRound ?c = r" "length (myBeRo ?c) = length (myBeRo c)"
    by (simp_all add: ResetPlayerActions_def)
  have "client_ready ?c" using assms(1) ids l rest by (simp add: client_ready_def)
  moreover have "limits ?c = limits c" by simp
  then have "limits_of r' ?c = limits_of r' c" if "r' < GAME_STATE_POST_RIVER" for r'
    using limits_of_eq [of ?c c r'] state_code_less [OF that] assms(1) by (simp add: client_ready_def)
  moreover have g: "getSeatIt u (board ?c) = Some i" using getSeatIt_cong [OF ids] i by simp
  moreover have "myID (seats ?c ! i) = myID (seats c ! i)" using getSeatIt_Some(1) [OF i] by (simp add: seats)
  moreover have "currentPlayersTurnId (current_bero ?c) = nat (myID (seats c ! i))"
    using assms(1,3) by (simp add: client_ready_def bero_of_update)
  ultimately show ?thesis using res ids money rest by (intro exI [of _ ?c] exI [of _ i]) (simp add: bets_def)
qed

text \<open>The cards of the players who are all in.\<close>

lemma client_all_in_sync:
  assumes "\<forall>(u, cs) \<in> set xs. u \<in> set (ids t)"
  shows "\<exists>t'. client_all_in xs t = Inr t' \<and> ids t' = ids t \<and> bets t' = bets t \<and> boardCards t' = boardCards t \<and>
    activePlayerList t' = activePlayerList t \<and> length (seatsList t') = length (seatsList t)"
  using assms
proof (induction xs arbitrary: t)
  case (Cons x xs)
  obtain u cs where x: "x = (u, cs)" by fastforce
  obtain i where i: "getSeatIt u t = Some i" using Cons.prems getSeatIt_None [of u t] x by auto
  let ?t = "on_seat i (\<lambda>p. p\<lparr>myCards := cs\<rparr>) t"
  have t: "ids ?t = ids t" "bets ?t = bets t" by (simp_all add: bets_frame)
  then have "\<forall>(u, cs) \<in> set xs. u \<in> set (ids ?t)" using Cons.prems by simp
  from Cons.IH [OF this] show ?case using i x t by auto
qed simp

text \<open>An action. What the client takes over is what the server reports.\<close>

lemma client_action_sync:
  assumes ready: "client_ready c" and u: "ad_playerid m \<in> set (ids (board c))"
    and bet: "ad_gamestate m < 4 \<Longrightarrow> 0 \<le> ad_totalplayerbet m \<and> ad_totalplayerbet m \<le> INT_MAX \<and>
      snd (the (money_of (board c) (ad_playerid m))) \<le> ad_totalplayerbet m"
    and state: "ad_gamestate m < 6" and round: "currentRound c < GAME_STATE_POST_RIVER"
  shows "\<exists>c'. client_action_done m c = Inr c' \<and> client_ready c' \<and>
    money_of (board c') = (money_of (board c))(ad_playerid m \<mapsto> (ad_playermoney m, ad_totalplayerbet m)) \<and>
    pot (board c') = pot (board c) \<and> sets_ok (board c') \<and> ids (board c') = ids (board c) \<and>
    boardCards (board c') = boardCards (board c) \<and> currentRound c' = currentRound c \<and>
    limits_of (currentRound c) c' = (ad_highestset m, ad_minimumraise m) \<and>
    (\<forall>r. r \<noteq> currentRound c \<longrightarrow> r < GAME_STATE_POST_RIVER \<longrightarrow> limits_of r c' = limits_of r c)"
proof -
  obtain i where i: "getSeatIt (ad_playerid m) (board c) = Some i" using u getSeatIt_None [of "ad_playerid m" "board c"] by auto
  note at = getSeatIt_Some [OF i]
  have "snd (the (money_of (board c) (ad_playerid m))) = mySet (seats c ! i)" using i by (simp add: money_of_def)
  then have ok: "\<not> invalid_bet m (seats c ! i)"
    using bet state by (auto simp: invalid_bet_def netStatePreflopSmallBlind_def netStatePreflopBigBlind_def)
  let ?k = "take_blind m i c"
  have seat: "myUniqueID (set_button b p) = myUniqueID p" for b p by simp
  have k: "ids (board ?k) = ids (board c)" "money_of (board ?k) = money_of (board c)" "pot (board ?k) = pot (board c)"
    "boardCards (board ?k) = boardCards (board c)" "currentRound ?k = currentRound c"
    "length (myBeRo ?k) = length (myBeRo c)" "activePlayerList (board ?k) = activePlayerList (board c)"
    "length (seats ?k) = length (seats c)" "limits ?k = limits c"
    using bets_frame(1) [of "set_button BUTTON_SMALL_BLIND" i "board c"] bets_frame(1) [of "set_button BUTTON_BIG_BLIND" i "board c"]
    by (simp_all add: take_blind_def Let_def bets_def)
  let ?t = "on_seat i (done_seat m) (board ?k)"
  have done_fields: "myUniqueID (done_seat m p) = myUniqueID p" "myCash (done_seat m p) = ad_playermoney m"
    "mySet (done_seat m p) = ad_totalplayerbet m" for p
    by (simp_all add: done_seat_def setMySetAbsolute_def)
  have gk: "getSeatIt (ad_playerid m) (board ?k) = Some i" using getSeatIt_cong [OF k(1)] i by simp
  have "distinct (ids (board ?k))" using ready k(1) by (simp add: client_ready_def)
  from money_of_on_seat [OF done_fields(1) gk this]
  have money: "money_of ?t = (money_of (board c))(ad_playerid m \<mapsto> (ad_playermoney m, ad_totalplayerbet m))"
    by (simp add: done_fields k(2))
  let ?h2 = "on_current (\<lambda>b. b\<lparr>highestSet := ad_highestset m, minimumRaise := ad_minimumraise m\<rparr>) (on_board (on_seat i (done_seat m)) ?k)"
  define d where "d = client_switchRounds (on_board collectSets ?h2)"
  obtain xs where b: "board d = (collectSets ?t)\<lparr>runningPlayerList := xs\<rparr>"
    using refresh_runners_fields(1) [of "on_board collectSets ?h2"] by (auto simp: client_switchRounds_def d_def)
  have r: "currentRound d = currentRound c" by (simp add: d_def client_switchRounds_def refresh_runners_fields k)
  have "ids (board d) = ids ?t" by (simp add: b ids_def collectSets_eq)
  then have ids: "ids (board d) = ids (board c)" using k(1) by (simp add: done_fields(1))
  have l2: "limits d = limits ?h2" by (simp add: d_def client_switchRounds_def)
  then have "length (limits d) = length (limits ?h2)" by simp
  then have len: "length (myBeRo d) = 5" using ready k(6) by (simp add: limits_def client_ready_def)
  have lim: "limits_of r d = limits_of r ?h2" if "r < GAME_STATE_POST_RIVER" for r
    using limits_of_eq [OF l2] state_code_less [OF that] ready k(6) by (simp add: client_ready_def)
  have h2: "limits_of r ?h2 = (if r = currentRound c then (ad_highestset m, ad_minimumraise m) else limits_of r c)"
    if "r < GAME_STATE_POST_RIVER" for r
  proof -
    have "limits_of r ?k = limits_of r c"
      using limits_of_eq [OF k(9)] state_code_less [OF that] ready by (simp add: client_ready_def)
    then show ?thesis using that round ready k(5,6) by (simp add: limits_of_def bero_of_update client_ready_def)
  qed
  have fields: "money_of (board d) = money_of ?t" "pot (board d) = pot (board c)" "sets_ok (board d)"
    "boardCards (board d) = boardCards (board c)" "activePlayerList (board d) = activePlayerList (board c)"
    "length (seats d) = length (seats c)"
    using k by (simp_all add: b collectSets_eq sets_ok_def)
  have "client_ready d" using ready ids fields len by (simp add: client_ready_def)
  moreover have "client_action_done m c = Inr d" using i ok by (simp add: client_action_done_def Let_def d_def)
  ultimately show ?thesis using money fields ids r lim h2 round by (intro exI [of _ d]) auto
qed

section \<open>What an action does at the server\<close>

lemma setMySet_grows: "mySet p \<le> mySet (setMySet v p)" "myUniqueID (setMySet v p) = myUniqueID p"
  by (simp_all add: setMySet_def Let_def)

lemma action_seat:
  obtains f where "\<And>p. myUniqueID (f p) = myUniqueID p" "\<And>p. mySet p \<le> mySet (f p)"
    "seats (PerformPlayerAction i a bet h) = update_seat i f (seats h)"
    "pot (board (PerformPlayerAction i a bet h)) = pot (board h)"
proof -
  let ?g = "\<lambda>p. p\<lparr>myAction := a\<rparr>"
  obtain u where b: "board (PerformPlayerAction i a bet h) =
     (if a = PLAYER_ACTION_FOLD \<or> a = PLAYER_ACTION_CHECK then on_seat i ?g (board h)
      else collectSets ((on_seat i (setMySet bet) (on_seat i ?g (board h)))\<lparr>lastActionPlayerID := u\<rparr>))"
    using PerformPlayerAction_seats(1) by blast
  have twice: "update_seat i (setMySet bet) (update_seat i ?g ps) = update_seat i (setMySet bet \<circ> ?g) ps" for ps
    by (rule nth_equalityI) (simp_all add: nth_update_seat)
  show thesis
  proof (cases "a = PLAYER_ACTION_FOLD \<or> a = PLAYER_ACTION_CHECK")
    case True
    then show ?thesis using that [of ?g] by (simp add: b)
  next
    case False
    have "mySet p \<le> mySet ((setMySet bet \<circ> ?g) p)" "myUniqueID ((setMySet bet \<circ> ?g) p) = myUniqueID p" for p
      using setMySet_grows [where p = "?g p" and v = bet] by simp_all
    then show ?thesis using that [of "setMySet bet \<circ> ?g"] False by (simp add: b twice collectSets_eq)
  qed
qed

lemma set_below_chips:
  assumes "table_inv T t" "i < 2"
  shows "0 \<le> mySet (seatsList t ! i)" "mySet (seatsList t ! i) \<le> T"
proof -
  obtain p q where "seatsList t = [p, q]" using assms(1) by (auto simp: table_inv_def dest!: two_elements)
  then show "0 \<le> mySet (seatsList t ! i)" "mySet (seatsList t ! i) \<le> T"
    using assms by (auto simp: table_inv_def money_ok_def table_chips_def seat_ok_def chips_def less_2_cases_iff)
qed

lemma action_limits:
  assumes "r \<noteq> currentRound h" "r < GAME_STATE_POST_RIVER" "currentRound h < GAME_STATE_POST_RIVER" "length (myBeRo h) = 5"
  shows "limits_of r (PerformPlayerAction i a bet h) = limits_of r h"
proof -
  have up: "limits_of r (update_bero (currentRound h) f k) = limits_of r k" if "length (myBeRo k) = 5" for f k
    using assms that by (simp add: limits_of_def bero_of_update)
  have more: "limits_of r (on_board g k) = limits_of r k" "limits_of r (setLastActionPlayerID u k) = limits_of r k" for g u k
    by (simp_all add: limits_of_def bero_of_def setLastActionPlayerID_def)
  have len: "length (myBeRo (setLastActionPlayerID u k)) = length (myBeRo k)" for u k
    by (simp add: setLastActionPlayerID_def)
  have round: "currentRound (update_round a bet p k) = currentRound k" for p k
    by (simp add: update_round_def setLastActionPlayerID_def Let_def split: PlayerAction.split)
  have "limits_of r (update_round a bet p k) = limits_of r k \<and> length (myBeRo (update_round a bet p k)) = 5"
    if "length (myBeRo k) = 5" "currentRound k = currentRound h" for p k
    using that up [of k] by (simp add: update_round_def more len Let_def split: PlayerAction.split)
  then show ?thesis
    using assms(4) up by (simp add: PerformPlayerAction_def Let_def more round)
qed

text \<open>The report of an action carries all that the action has changed.\<close>

lemma action_at_server:
  fixes a :: PlayerAction and bet :: int
  assumes inv: "table_inv T (board h)" and i: "i < 2"
  defines "h' \<equiv> PerformPlayerAction i a bet h"
  shows "money_of (board h') = (money_of (board h))(uid h i \<mapsto> (myCash (seats h' ! i), mySet (seats h' ! i)))"
    "pot (board h') = pot (board h)" "ids (board h') = ids (board h)" "uid h' i = uid h i"
    "money_of (board h) (uid h i) = Some (myCash (seats h ! i), mySet (seats h ! i))"
    "mySet (seats h ! i) \<le> mySet (seats h' ! i)" "0 \<le> mySet (seats h ! i)" "mySet (seats h' ! i) \<le> T"
proof -
  obtain f where f: "\<And>p. myUniqueID (f p) = myUniqueID p" "\<And>p. mySet p \<le> mySet (f p)"
    "seats h' = update_seat i f (seats h)" "pot (board h') = pot (board h)"
    using action_seat [where i = i and a = a and bet = bet and h = h] unfolding h'_def by metis
  have two: "length (seats h) = 2" and d: "distinct (ids (board h))"
    using inv by (simp_all add: table_inv_def money_ok_def ids_def)
  have at: "getSeatIt (uid h i) (board h) = Some i" using getSeatIt_id [OF d] two i by simp
  have same: "ids (board h') = ids (on_seat i f (board h))" by (simp add: ids_def f(3))
  then show ids: "ids (board h') = ids (board h)" by (simp add: f(1))
  have s: "seats h' ! i = f (seats h ! i)" using two i by (simp add: f(3) nth_update_seat)
  then show "uid h' i = uid h i" "mySet (seats h ! i) \<le> mySet (seats h' ! i)" using f by simp_all
  have "money_of (board h') = money_of (on_seat i f (board h))" by (rule money_of_cong [OF same]) (simp_all add: f(3))
  then show "money_of (board h') = (money_of (board h))(uid h i \<mapsto> (myCash (seats h' ! i), mySet (seats h' ! i)))"
    using money_of_on_seat [OF f(1) at d] s by simp
  show "pot (board h') = pot (board h)" by (rule f(4))
  show "money_of (board h) (uid h i) = Some (myCash (seats h ! i), mySet (seats h ! i))" using at by (simp add: money_of_def)
  show "0 \<le> mySet (seats h ! i)" by (rule set_below_chips [OF inv i])
  have "table_inv T (board h')" using PerformPlayerAction_inv(1) [OF inv] by (simp add: h'_def)
  then show "mySet (seats h' ! i) \<le> T" by (rule set_below_chips [OF _ i])
qed

section \<open>The end of a hand\<close>

lemma client_results_sync:
  assumes "\<forall>r \<in> set rs. pr_playerid r \<in> set (ids t)" "distinct (ids t)"
    and "\<forall>r \<in> set rs. pr_playermoney r = cash (pr_playerid r)"
  shows "\<exists>t' n. client_results rs t k = Inr (t', n) \<and> ids t' = ids t \<and>
    money_of t' = (\<lambda>u. if u \<in> pr_playerid ` set rs then Some (cash u, snd (the (money_of t u))) else money_of t u)"
  using assms
proof (induction rs arbitrary: t k)
  case (Cons r rs)
  obtain i where i: "getSeatIt (pr_playerid r) t = Some i"
    using Cons.prems(1) getSeatIt_None [of "pr_playerid r" t] by auto
  let ?t = "on_seat i (result_seat r) t"
  have f: "myUniqueID (result_seat r p) = myUniqueID p" "myCash (result_seat r p) = pr_playermoney r"
    "mySet (result_seat r p) = mySet p" for p
    by (simp_all add: result_seat_def)
  have ids: "ids ?t = ids t" by (simp add: f(1))
  have "snd (the (money_of t (pr_playerid r))) = mySet (seatsList t ! i)" using i by (simp add: money_of_def)
  then have m: "money_of ?t = (money_of t)(pr_playerid r \<mapsto> (cash (pr_playerid r), snd (the (money_of t (pr_playerid r)))))"
    using money_of_on_seat [OF f(1) i Cons.prems(2)] Cons.prems(3) by (simp add: f)
  have ok: "\<forall>r \<in> set rs. pr_playerid r \<in> set (ids ?t)" "distinct (ids ?t)"
    "\<forall>r \<in> set rs. pr_playermoney r = cash (pr_playerid r)"
    using Cons.prems ids by simp_all
  obtain t' n where t': "client_results rs ?t (max k (myCardsValueInt (seatsList ?t ! i))) = Inr (t', n)"
    "ids t' = ids ?t"
    "money_of t' = (\<lambda>u. if u \<in> pr_playerid ` set rs then Some (cash u, snd (the (money_of ?t u))) else money_of ?t u)"
    using Cons.IH [OF ok] by blast
  have "money_of t' = (\<lambda>u. if u \<in> pr_playerid ` set (r # rs) then Some (cash u, snd (the (money_of t u))) else money_of t u)"
    unfolding t'(3) m by (rule ext) simp
  then show ?case using t' i ids by (simp add: Let_def)
qed simp

lemma folded_wins_nothing:
  assumes inv: "table_inv T (board h)" "no_bets (board h)" "T < 2 ^ 31" "1 \<le> unfolded (board h)"
    and run: "postRiverRun h = Inr h'" and fold: "i < 2" "myAction (seats h ! i) = PLAYER_ACTION_FOLD"
  shows "myCash (seats h' ! i) = myCash (seats h ! i)"
proof -
  let ?t = "mark_only_player (board h)"
  note m = mark_only_player_inv [OF inv(1)]
  have "list_all (\<lambda>v. v = 0) (map mySet (seatsList ?t))" using inv(2) by (simp add: m(3) no_bets_def list_all_iff)
  then have "no_bets ?t" by (simp add: no_bets_def list_all_iff)
  from heads_up_end [OF m(1) this inv(3)] obtain p q a b where
    s: "seatsList ?t = [p, q]" and hu: "heads_up (determinePlayerNeedToShowCards ?t) p q a b" by blast
  have "unfolded ?t = unfolded (board h)" by (rule unfolded_cong) (rule m(2))
  then have nf: "\<not> (myAction p = PLAYER_ACTION_FOLD \<and> myAction q = PLAYER_ACTION_FOLD)"
    using inv(4) by (auto simp: unfolded_def s)
  from distributePot_two [OF hu nf] obtain ws where
    d: "distributePot (beroDealerPosition (bero_of GAME_STATE_POST_RIVER h)) (determinePlayerNeedToShowCards ?t)
      = Inr ((determinePlayerNeedToShowCards ?t)\<lparr>seatsList :=
          [award (int (showdown_share p q a b)) (reset_won p),
           award (int (showdown_share q p b a)) (reset_won q)], winners := ws, pot := 0\<rparr>)" by blast
  have "map myCash (seatsList ?t) = map myCash (seats h)"
    by (rule mark_only_player_frame) (simp add: setMyAggressive_def)
  then have c: "map myCash [p, q] = map myCash (seats h)" "map myAction [p, q] = map myAction (seats h)"
    using m(2) s by simp_all
  obtain x y where xy: "seats h = [x, y]" using inv(1) by (auto simp: table_inv_def dest!: two_elements)
  have "myCash (reset_won z) = myCash z" "myCash (award v z) = myCash z + v" for z v
    by (simp_all add: award_def reset_won_def)
  then show ?thesis
    using run fold c nf xy by (auto simp: postRiverRun_def d less_2_cases_iff showdown_share_def)
qed

lemma client_hide_sync:
  assumes "client_ready c" "u \<in> set (ids (board c))"
  shows "\<exists>c'. client_hide_cards u won money c = Inr c' \<and> pot (board c') = 0 \<and>
    money_of (board c') = (swept \<circ> money_of (board c))(u \<mapsto> (money, 0))"
proof -
  let ?t = "client_sweep (board c)"
  have all: "set (activePlayerList (board c)) = {0..<length (seats c)}" and d: "distinct (ids (board c))"
    using assms(1) by (simp_all add: client_ready_def)
  note s = bets_client_sweep [OF all]
  obtain i where i: "getSeatIt u ?t = Some i" using assms(2) getSeatIt_None [of u ?t] s(2) by auto
  let ?f = "\<lambda>p. p\<lparr>myCash := money, myLastMoneyWon := won\<rparr>"
  have m: "money_of ?t = swept \<circ> money_of (board c)" using s(1) by (simp add: bets_def sweep_def)
  have "money_of ?t u = Some (myCash (seatsList ?t ! i), mySet (seatsList ?t ! i))" using i by (simp add: money_of_def)
  then have "mySet (seatsList ?t ! i) = 0" by (auto simp: m swept_def)
  moreover have "distinct (ids ?t)" using d s(2) by simp
  ultimately have "money_of (on_seat i ?f ?t) = (money_of ?t)(u \<mapsto> (money, 0))"
    using money_of_on_seat [of ?f, OF _ i] by simp
  then show ?thesis using i by (simp add: client_hide_cards_def Let_def m)
qed

lemma client_show_sync:
  assumes "client_ready c" "\<forall>r \<in> set rs. pr_playerid r \<in> set (ids (board c))"
    and "\<forall>r \<in> set rs. pr_playermoney r = cash (pr_playerid r)"
  shows "\<exists>c'. client_show_cards rs c = Inr c' \<and> pot (board c') = 0 \<and>
    money_of (board c') = (\<lambda>u. if u \<in> pr_playerid ` set rs then Some (cash u, 0) else swept (money_of (board c) u))"
proof -
  let ?t = "client_sweep (board c)"
  have all: "set (activePlayerList (board c)) = {0..<length (seats c)}" and d: "distinct (ids (board c))"
    using assms(1) by (simp_all add: client_ready_def)
  note s = bets_client_sweep [OF all]
  have m: "money_of ?t = swept \<circ> money_of (board c)" using s(1) by (simp add: bets_def sweep_def)
  obtain t n where t: "client_results rs ?t 0 = Inr (t, n)"
    "money_of t = (\<lambda>u. if u \<in> pr_playerid ` set rs then Some (cash u, snd (the (money_of ?t u))) else money_of ?t u)"
    using client_results_sync [of rs ?t cash 0] assms(2,3) s(2) d by auto
  have zero: "snd (the (swept (money_of (board c) u))) = 0" if u: "u \<in> pr_playerid ` set rs" for u
  proof -
    have "u \<in> set (ids (board c))" using u assms(2) by blast
    then show ?thesis using money_of_dom [of "board c" u] by (auto simp: swept_def)
  qed
  have "money_of t = (\<lambda>u. if u \<in> pr_playerid ` set rs then Some (cash u, 0) else swept (money_of (board c) u))"
    unfolding t(2) m by (rule ext) (simp add: zero)
  then show ?thesis using t(1) by (simp add: client_show_cards_def)
qed

text \<open>Who is announced at the end: the players who have not folded, with their cash.\<close>

definition announced :: "hand_message \<Rightarrow> (nat \<times> int) list" where
  "announced m = (case m of
     EndOfHandHideCards u won money \<Rightarrow> [(u, money)]
   | EndOfHandShowCards rs \<Rightarrow> map (\<lambda>r. (pr_playerid r, pr_playermoney r)) rs
   | _ \<Rightarrow> [])"

lemma client_end_sync:
  assumes "client_ready c" "m = EndOfHandHideCards u won money \<or> m = EndOfHandShowCards rs"
    and "\<forall>(u, x) \<in> set (announced m). u \<in> set (ids (board c)) \<and> x = cash u"
  shows "\<exists>c'. run_hand_packet m c = Inr c' \<and> pot (board c') = 0 \<and>
    money_of (board c') = (\<lambda>u. if u \<in> fst ` set (announced m) then Some (cash u, 0) else swept (money_of (board c) u))"
  using assms(2)
proof
  assume m: "m = EndOfHandHideCards u won money"
  obtain c' where "client_hide_cards u won money c = Inr c'" "pot (board c') = 0"
    "money_of (board c') = (swept \<circ> money_of (board c))(u \<mapsto> (money, 0))"
    using client_hide_sync [OF assms(1)] assms(3) by (fastforce simp: m announced_def)
  then show ?thesis using assms(3) by (auto simp: m announced_def run_hand_packet_def)
next
  assume m: "m = EndOfHandShowCards rs"
  have "\<forall>r \<in> set rs. pr_playerid r \<in> set (ids (board c))" "\<forall>r \<in> set rs. pr_playermoney r = cash (pr_playerid r)"
    using assms(3) by (auto simp: m announced_def)
  from client_show_sync [OF assms(1) this] show ?thesis
    by (auto simp: m announced_def run_hand_packet_def image_image)
qed

lemma pair_image: "f ` {x \<in> {p, q}. P x} = (if P p then {f p} else {}) \<union> (if P q then {f q} else {})"
  by auto

lemma announced_end:
  assumes s: "seats h3 = [p, q]" "activePlayerList (board h3) = [0, 1]" "myUniqueID p \<noteq> myUniqueID q"
    and need: "set (playerNeedToShowCards (board h3)) = myUniqueID ` {x \<in> {p, q}. myAction x \<noteq> PLAYER_ACTION_FOLD}"
  shows "set (announced (end_of_hand_message h3)) =
      (\<lambda>x. (myUniqueID x, myCash x)) ` {x \<in> {p, q}. myAction x \<noteq> PLAYER_ACTION_FOLD}"
    "\<exists>u won money rs. end_of_hand_message h3 = EndOfHandHideCards u won money \<or> end_of_hand_message h3 = EndOfHandShowCards rs"
proof -
  have nf: "nonFoldPlayers h3 = filter (\<lambda>x. myAction x \<noteq> PLAYER_ACTION_FOLD) [p, q]"
    by (simp add: nonFoldPlayers_def active_players_def s)
  have d: "distinct (map myUniqueID (seats h3))" using s by simp
  have pq: "player_result_of h3 (myUniqueID p) = [SetPlayerResult p GAME_STATE_RIVER]"
    "player_result_of h3 (myUniqueID q) = [SetPlayerResult q GAME_STATE_RIVER]"
    using player_result_of_nth [OF d, of 0] player_result_of_nth [OF d, of 1] by (simp_all add: s)
  have money: "pr_playermoney (SetPlayerResult x r) = myCash x" for x r by (simp add: SetPlayerResult_def)
  show "set (announced (end_of_hand_message h3)) =
      (\<lambda>x. (myUniqueID x, myCash x)) ` {x \<in> {p, q}. myAction x \<noteq> PLAYER_ACTION_FOLD}"
  proof (cases "\<exists>x. nonFoldPlayers h3 = [x]")
    case True
    then show ?thesis using nf by (auto simp: end_of_hand_message_def announced_def split: if_splits)
  next
    case False
    then have m: "end_of_hand_message h3 =
        EndOfHandShowCards (concat (map (player_result_of h3) (playerNeedToShowCards (board h3))))"
      by (auto simp: end_of_hand_message_def split: list.split)
    have "set (announced (end_of_hand_message h3)) =
        (\<Union>u \<in> set (playerNeedToShowCards (board h3)). (\<lambda>r. (pr_playerid r, pr_playermoney r)) ` set (player_result_of h3 u))"
      by (simp add: m announced_def image_UN)
    also have "\<dots> = (\<lambda>x. (myUniqueID x, myCash x)) ` {x \<in> {p, q}. myAction x \<noteq> PLAYER_ACTION_FOLD}"
      unfolding need using pq money by auto
    finally show ?thesis .
  qed
  show "\<exists>u won money rs. end_of_hand_message h3 = EndOfHandHideCards u won money \<or> end_of_hand_message h3 = EndOfHandShowCards rs"
    by (auto simp: end_of_hand_message_def split: list.split)
qed

lemma end_sync:
  assumes inv: "table_inv T (board h)" "no_bets (board h)" "T < 2 ^ 31" "1 \<le> unfolded (board h)"
    and run: "postRiverRun h = Inr h'" and ready: "client_ready c"
    and money: "money_of (board h) = swept \<circ> money_of (board c)"
  shows "\<exists>c'. run_hand_packet (end_of_hand_message h') c = Inr c' \<and>
    money_of (board c') = money_of (board h') \<and> pot (board c') = pot (board h')"
proof -
  note same = lineup_same [OF lineup_postRiverRun [OF run]] and ends = postRiverRun_shows [OF run]
  obtain p0 q0 where s0: "seats h = [p0, q0]" using inv(1) by (auto simp: table_inv_def dest!: two_elements)
  have "length (seats h') = 2" using same(1) s0 by simp
  from two_elements [OF this] obtain p q where s: "seats h' = [p, q]" by blast
  have active: "activePlayerList (board h) = [0, 1]" "activePlayerList (board h') = [0, 1]"
    using inv(1) same(3) by (simp_all add: table_inv_def)
  have u: "myUniqueID p = myUniqueID p0" "myUniqueID q = myUniqueID q0" "myUniqueID p0 \<noteq> myUniqueID q0"
    using same(2) inv(1) by (simp_all add: s s0 table_inv_def money_ok_def)
  have act: "myAction p = myAction p0" "myAction q = myAction q0" using ends(1) by (simp_all add: s s0)
  obtain h'' where h'': "postRiverRun h = Inr h''" "pot (board h'') = 0" "list_all (\<lambda>p. 0 \<le> myCash p \<and> mySet p = 0) (seats h'')"
    using postRiverRun_pays [OF inv] by auto
  then have paid: "pot (board h') = 0" "mySet p = 0" "mySet q = 0" using run s by simp_all
  have need: "set (playerNeedToShowCards (board h')) = myUniqueID ` {x \<in> {p, q}. myAction x \<noteq> PLAYER_ACTION_FOLD}"
    using u act unfolding pair_image by (auto simp: ends(2) showdown_ids_def active_players_def active s0)
  have "myUniqueID p \<noteq> myUniqueID q" using u by simp
  note end_of = announced_end [OF s active(2) this need]
  have d: "distinct (ids (board h'))" "distinct (ids (board h))" using u by (simp_all add: ids_def s s0)
  have at: "getSeatIt (myUniqueID p) (board h') = Some 0" "getSeatIt (myUniqueID q) (board h') = Some 1"
    "getSeatIt (myUniqueID p) (board h) = Some 0" "getSeatIt (myUniqueID q) (board h) = Some 1"
    using getSeatIt_id [OF d(1), of 0] getSeatIt_id [OF d(1), of 1] getSeatIt_id [OF d(2), of 0] getSeatIt_id [OF d(2), of 1] u
    by (simp_all add: s s0)
  have m': "money_of (board h') (myUniqueID p) = Some (myCash p, 0)" "money_of (board h') (myUniqueID q) = Some (myCash q, 0)"
    using at paid by (simp_all add: money_of_def s)
  have none: "money_of (board h') v = None" "money_of (board h) v = None" if "v \<notin> {myUniqueID p, myUniqueID q}" for v
    using that u by (simp_all add: money_of_dom) (simp_all add: ids_def s s0)
  have "set (ids (board c)) = set (ids (board h))"
    using money_of_dom [of "board c"] money_of_dom [of "board h"] by (auto simp: money swept_def)
  then have known: "{myUniqueID p, myUniqueID q} \<subseteq> set (ids (board c))" using u by (simp add: ids_def s0)
  let ?cash = "\<lambda>v. fst (the (money_of (board h') v))"
  have ann: "\<forall>(v, x) \<in> set (announced (end_of_hand_message h')). v \<in> set (ids (board c)) \<and> x = ?cash v"
    using known m' by (auto simp: end_of(1))
  obtain v won paid_money rs where "end_of_hand_message h' = EndOfHandHideCards v won paid_money \<or> end_of_hand_message h' = EndOfHandShowCards rs"
    using end_of(2) by blast
  from client_end_sync [OF ready this ann] obtain c' where
    c': "run_hand_packet (end_of_hand_message h') c = Inr c'" "pot (board c') = 0"
    "money_of (board c') = (\<lambda>v. if v \<in> fst ` set (announced (end_of_hand_message h')) then Some (?cash v, 0)
       else swept (money_of (board c) v))" by blast
  have before: "swept (money_of (board c) v) = money_of (board h) v" for v by (simp add: money)
  have "mySet p0 = 0" "mySet q0 = 0" using inv(2) by (simp_all add: s0 no_bets_def)
  then have m0: "money_of (board h) (myUniqueID p) = Some (myCash p0, 0)" "money_of (board h) (myUniqueID q) = Some (myCash q0, 0)"
    using at by (simp_all add: money_of_def s0)
  have kept: "myAction p = PLAYER_ACTION_FOLD \<Longrightarrow> myCash p = myCash p0" "myAction q = PLAYER_ACTION_FOLD \<Longrightarrow> myCash q = myCash q0"
    using folded_wins_nothing [OF inv run, of 0] folded_wins_nothing [OF inv run, of 1] act by (simp_all add: s s0)
  have "money_of (board c') v = money_of (board h') v" for v
  proof (cases "v \<in> {myUniqueID p, myUniqueID q}")
    case True
    then show ?thesis using m' m0 kept u unfolding c'(3) end_of(1) before image_image fst_conv pair_image by auto
  next
    case False
    then have "v \<notin> fst ` set (announced (end_of_hand_message h'))" by (auto simp: end_of(1))
    then show ?thesis using none [OF False] unfolding c'(3) before by simp
  qed
  then show ?thesis using c'(1,2) paid(1) by auto
qed

end
