(* ===== verification/Client_View.thy ===== *)
theory Client_View
  imports Client_Sync
begin

text \<open>
  The simulation between the hand of the server and the hand of a client: a relation that holds after
  the start of the hand and the blinds, that every step of the server with its messages keeps, and the refinement theorem.
\<close>

section \<open>The relation\<close>

text \<open>A client handles the messages in their order and stops at an error.\<close>

fun hear :: "hand_message list \<Rightarrow> local_hand \<Rightarrow> client_error + local_hand" where
  "hear [] c = Inr c"
| "hear (m # ms) c = (case run_hand_packet m c of Inl e \<Rightarrow> Inl e | Inr c' \<Rightarrow> hear ms c')"

lemma hear_append: "hear (ms @ ns) c = (case hear ms c of Inl e \<Rightarrow> Inl e | Inr c' \<Rightarrow> hear ns c')"
  by (induction ms arbitrary: c) (simp_all split: sum.split)

text \<open>The limits of a round agree when the highest sets are equal and the minimum raises too, if the round
  is the first one or both sides have \<open>same\<close> small blind by their own counting.\<close>

definition limits_agree :: "bool \<Rightarrow> GameState \<Rightarrow> local_hand \<Rightarrow> local_hand \<Rightarrow> bool" where
  "limits_agree same r h c \<longleftrightarrow> fst (limits_of r c) = fst (limits_of r h) \<and>
     (same \<or> r = GAME_STATE_PREFLOP \<longrightarrow> snd (limits_of r c) = snd (limits_of r h))"

lemma limits_agree_cong:
  "limits_agree same r h c \<Longrightarrow> limits_of r h' = limits_of r h \<Longrightarrow> limits_of r c' = limits_of r c \<Longrightarrow> limits_agree same r h' c'"
  by (simp add: limits_agree_def)

text \<open>The money, the cards of the rounds that have begun and the limits of this round and those to come.\<close>

definition client_view :: "bool \<Rightarrow> local_hand \<Rightarrow> local_hand \<Rightarrow> bool" where
  "client_view same h c \<longleftrightarrow> client_ready c \<and> bets (board c) = bets (board h) \<and>
     (\<forall>k < cards_out (currentRound h). boardCards (board c) ! k = boardCards (board h) ! k) \<and>
     currentRound c \<le> currentRound h \<and>
     (\<forall>r. currentRound h \<le> r \<longrightarrow> r < GAME_STATE_POST_RIVER \<longrightarrow> limits_agree same r h c)"

definition turn_seen :: "local_hand \<Rightarrow> local_hand \<Rightarrow> bool" where
  "turn_seen h c \<longleftrightarrow> currentRound c = currentRound h \<and>
     (\<exists>j. getSeatIt (turn_id h) (board c) = Some j \<and> turn_id c = nat (myID (seats c ! j)))"

definition in_sync :: "bool \<Rightarrow> phase \<times> local_hand \<Rightarrow> local_hand \<Rightarrow> bool" where
  "in_sync same s c = (case s of (ph, h) \<Rightarrow>
     if ph = Over then money_of (board c) = money_of (board h) \<and> pot (board c) = pot (board h)
     else client_view same h c \<and> (ph = Looping \<or> turn_seen h c))"

lemma same_people: "money_of t = money_of t' \<Longrightarrow> set (ids t) = set (ids t')"
  using money_of_dom [of t] money_of_dom [of t'] by auto

lemma view_people: "client_view same h c \<Longrightarrow> set (ids (board c)) = set (ids (board h))"
  by (rule same_people) (simp add: client_view_def bets_def)

section \<open>A new round\<close>

lemma new_cards_sync:
  assumes ready: "client_ready c" and r: "r \<in> {GAME_STATE_FLOP, GAME_STATE_TURN, GAME_STATE_RIVER}"
    and earlier: "currentRound c < r"
    and known: "r \<noteq> GAME_STATE_FLOP \<Longrightarrow> \<forall>k < state_code r + 1. boardCards (board c) ! k = cards ! k"
    and cards: "boardCards (board h) = cards"
  shows "\<exists>c'. hear (SendNewRoundCards h r) c = Inr c' \<and> client_ready c' \<and> bets (board c') = sweep (bets (board c)) \<and>
    (\<forall>k < cards_out r. boardCards (board c') ! k = cards ! k) \<and> currentRound c' = currentRound c \<and>
    (\<forall>q. r \<le> q \<longrightarrow> q < GAME_STATE_POST_RIVER \<longrightarrow> limits_of q c' = limits_of q c)"
proof -
  have post: "currentRound c < GAME_STATE_POST_RIVER" "\<forall>q. r \<le> q \<longrightarrow> q \<noteq> currentRound c"
    using r earlier by (auto simp: less_GameState_def less_eq_GameState_def state_code_def split: GameState.splits)
  have len: "length (boardCards (board c)) = 5" using ready by (simp add: client_ready_def)
  have done_here: "\<exists>c'. Inr (client_deal f c) = Inr c' \<and> client_ready c' \<and> bets (board c') = sweep (bets (board c)) \<and>
    (\<forall>k < cards_out r. boardCards (board c') ! k = cards ! k) \<and> currentRound c' = currentRound c \<and>
    (\<forall>q. r \<le> q \<longrightarrow> q < GAME_STATE_POST_RIVER \<longrightarrow> limits_of q c' = limits_of q c)"
    if "\<And>cs. length cs = 5 \<Longrightarrow> length (f cs) = 5" "\<forall>k < cards_out r. f (boardCards (board c)) ! k = cards ! k" for f
    using client_deal_sync [OF ready, of f, OF that(1)] that(2) post by simp
  from r consider "r = GAME_STATE_FLOP" | "r = GAME_STATE_TURN" | "r = GAME_STATE_RIVER" by auto
  then show ?thesis
  proof cases
    case 1
    have "\<forall>k < 3. [cards ! 0, cards ! 1, cards ! 2, 0, 0] ! k = cards ! k"
      by (auto simp: numeral_eq_Suc less_Suc_eq)
    then show ?thesis
      using done_here [of "\<lambda>_. [cards ! 0, cards ! 1, cards ! 2, 0, 0]"] 1 cards
      by (simp add: SendNewRoundCards_def Let_def run_hand_packet_def)
  next
    case 2
    have "\<forall>k < 4. (boardCards (board c))[3 := cards ! 3] ! k = cards ! k"
      using known 2 len by (auto simp: nth_list_update state_code_def)
    then show ?thesis
      using done_here [of "\<lambda>cs. cs[3 := cards ! 3]"] 2 cards
      by (simp add: SendNewRoundCards_def Let_def run_hand_packet_def)
  next
    case 3
    have "\<forall>k < 5. (boardCards (board c))[4 := cards ! 4] ! k = cards ! k"
      using known 3 len by (auto simp: nth_list_update state_code_def)
    then show ?thesis
      using done_here [of "\<lambda>cs. cs[4 := cards ! 4]"] 3 cards
      by (simp add: SendNewRoundCards_def Let_def run_hand_packet_def)
  qed
qed

text \<open>The players who are all in: the client takes over their cards, nothing else changes.\<close>

lemma all_in_cards_sync:
  assumes "client_ready c" "\<forall>(u, cs) \<in> set xs. u \<in> set (ids (board c))"
  shows "\<exists>c'. run_hand_packet (AllInShowCards xs) c = Inr c' \<and> client_ready c' \<and> bets (board c') = bets (board c) \<and>
    boardCards (board c') = boardCards (board c) \<and> currentRound c' = currentRound c \<and>
    (\<forall>q. limits_of q c' = limits_of q c)"
proof -
  obtain t where t: "client_all_in xs (board c) = Inr t" "ids t = ids (board c)" "bets t = bets (board c)"
    "boardCards t = boardCards (board c)" "activePlayerList t = activePlayerList (board c)"
    "length (seatsList t) = length (seats c)"
    using client_all_in_sync [OF assms(2)] by blast
  let ?c = "c\<lparr>board := t, handAllInCondition := True\<rparr>"
  have "client_ready ?c" using assms(1) t by (simp add: client_ready_def)
  moreover have "limits_of q ?c = limits_of q c" for q by (simp add: limits_of_def bero_of_def)
  ultimately show ?thesis using t by (intro exI [of _ ?c]) (simp add: run_hand_packet_def)
qed

lemma new_round_sync:
  assumes view: "client_view same h c" and less: "currentRound h < GAME_STATE_POST_RIVER"
    and h2: "currentRound h2 = next_round (currentRound h)" "currentRound h2 \<noteq> GAME_STATE_POST_RIVER"
      "bets (board h2) = sweep (bets (board h))" "boardCards (board h2) = boardCards (board h)"
      "\<forall>r. r < GAME_STATE_POST_RIVER \<longrightarrow> limits_of r h2 = limits_of r h" "seating_ok h2"
  shows "\<exists>c'. hear (new_round_messages h2) c = Inr c' \<and> client_view same h2 c'"
proof -
  let ?r = "currentRound h2"
  have r: "?r \<in> {GAME_STATE_FLOP, GAME_STATE_TURN, GAME_STATE_RIVER}" "currentRound h < ?r"
    "?r \<noteq> GAME_STATE_FLOP \<Longrightarrow> cards_out (currentRound h) = state_code ?r + 1"
    using less h2(1,2) next_round_greater [OF less] by (auto simp: round_less_post next_round_def state_code_def)
  let ?after = "\<lambda>c'. client_ready c' \<and> bets (board c') = sweep (bets (board c)) \<and>
    (\<forall>k < cards_out ?r. boardCards (board c') ! k = boardCards (board h) ! k) \<and> currentRound c' = currentRound c \<and>
    (\<forall>q. ?r \<le> q \<longrightarrow> q < GAME_STATE_POST_RIVER \<longrightarrow> limits_of q c' = limits_of q c)"
  have deal: "\<exists>c'. hear (SendNewRoundCards h2 ?r) d = Inr c' \<and> ?after c'"
    if d: "client_ready d" "bets (board d) = bets (board c)" "boardCards (board d) = boardCards (board c)"
      "currentRound d = currentRound c" "\<forall>q. limits_of q d = limits_of q c" for d
  proof -
    have "currentRound d < ?r" using r(2) view d(4) by (auto simp: client_view_def intro: le_less_trans)
    moreover have "?r \<noteq> GAME_STATE_FLOP \<Longrightarrow> \<forall>k < state_code ?r + 1. boardCards (board d) ! k = boardCards (board h) ! k"
      using view r(3) d(3) by (simp add: client_view_def)
    ultimately show ?thesis using new_cards_sync [OF d(1) r(1) _ _ h2(4)] d by auto
  qed
  have "\<exists>c'. hear (new_round_messages h2) c = Inr c' \<and> ?after c'"
  proof (cases "handAllInCondition h2 \<and> \<not> cardsShown h2 \<and> length (nonFoldPlayers h2) > 1")
    case False
    then have e: "new_round_messages h2 = SendNewRoundCards h2 ?r" unfolding new_round_messages_def by (rule if_not_P)
    show ?thesis unfolding e using deal [of c] view by (simp add: client_view_def)
  next
    case True
    let ?xs = "map (\<lambda>p. (myUniqueID p, [myCards p ! 0, myCards p ! 1])) (nonFoldPlayers h2)"
    have "money_of (board h2) = swept \<circ> money_of (board c)"
      using h2(3) view by (simp add: client_view_def bets_def sweep_def)
    then have "set (ids (board h2)) = set (ids (board c))"
      using money_of_dom [of "board h2"] money_of_dom [of "board c"] by (auto simp: swept_def)
    moreover have "\<forall>(u, cs) \<in> set ?xs. u \<in> set (ids (board h2))"
      using h2(6) by (auto simp: nonFoldPlayers_def active_players_def seating_ok_def ids_def)
    ultimately have "\<forall>(u, cs) \<in> set ?xs. u \<in> set (ids (board c))" by simp
    moreover have "client_ready c" using view by (simp add: client_view_def)
    ultimately obtain d where d: "run_hand_packet (AllInShowCards ?xs) c = Inr d" "client_ready d"
      "bets (board d) = bets (board c)" "boardCards (board d) = boardCards (board c)" "currentRound d = currentRound c"
      "\<forall>q. limits_of q d = limits_of q c"
      using all_in_cards_sync [of c ?xs] by blast
    have e: "new_round_messages h2 = AllInShowCards ?xs # SendNewRoundCards h2 ?r"
      unfolding new_round_messages_def using True by (rule if_P)
    show ?thesis unfolding e hear.simps d(1) sum.case using deal [of d] d(2-) by blast
  qed
  then obtain c' where "hear (new_round_messages h2) c = Inr c'" "?after c'" by blast
  moreover have "currentRound c \<le> ?r" "currentRound h \<le> ?r" using view r(2) by (auto simp: client_view_def)
  ultimately have "client_view same h2 c'" using view h2 by (auto simp: client_view_def limits_agree_def dest: order_trans)
  with \<open>hear (new_round_messages h2) c = Inr c'\<close> show ?thesis by blast
qed

section \<open>The turn and the action\<close>

lemma turn_sync:
  assumes view: "client_view same h c" and u: "getSeatIt (turn_id h) (board h) = Some i"
    and less: "currentRound h < GAME_STATE_POST_RIVER"
  shows "\<exists>c'. run_hand_packet (PlayersTurn (currentRound h) (uid h i)) c = Inr c' \<and> client_view same h c' \<and> turn_seen h c'"
proof -
  have id: "uid h i = turn_id h" "uid h i \<in> set (ids (board h))"
    using getSeatIt_Some [OF u] getSeatIt_None [of "turn_id h" "board h"] u by simp_all
  then have "turn_id h \<in> set (ids (board c))" using view_people [OF view] by simp
  moreover have ready: "client_ready c" using view by (simp add: client_view_def)
  ultimately obtain c' j where c': "client_players_turn (currentRound h) (turn_id h) c = Inr c'" "client_ready c'"
    "bets (board c') = bets (board c)" "boardCards (board c') = boardCards (board c)" "currentRound c' = currentRound h"
    "\<forall>q. q < GAME_STATE_POST_RIVER \<longrightarrow> limits_of q c' = limits_of q c"
    "getSeatIt (turn_id h) (board c') = Some j" "turn_id c' = nat (myID (seats c' ! j))"
    using client_players_turn_sync [OF _ _ less] by blast
  then show ?thesis using view id by (auto simp: run_hand_packet_def client_view_def turn_seen_def limits_agree_def)
qed

lemma action_sync:
  fixes a :: PlayerAction and bet :: int
  assumes view: "client_view same h c" "turn_seen h c" and less: "currentRound h < GAME_STATE_POST_RIVER"
    and inv: "table_inv T (board h)" "i < 2" "T < 2 ^ 31" "length (myBeRo h) = 5"
  defines "h' \<equiv> PerformPlayerAction i a bet h"
  shows "\<exists>c'. run_hand_packet (SendPlayerAction i h') c = Inr c' \<and> client_view same h' c'"
proof -
  note at = action_at_server(1-4,6,8) [OF inv(1,2), where a = a and bet = bet, folded h'_def] and old = action_at_server(5,7) [OF inv(1,2)]
  have round: "currentRound h' = currentRound h" by (simp add: h'_def PerformPlayerAction_seats(2))
  let ?m = "action_report (state_code (currentRound h')) (current_bero h') (seats h' ! i)"
  have f: "ad_playerid ?m = uid h i" "ad_totalplayerbet ?m = mySet (seats h' ! i)" "ad_playermoney ?m = myCash (seats h' ! i)"
    "ad_gamestate ?m = state_code (currentRound h)" "(ad_highestset ?m, ad_minimumraise ?m) = limits_of (currentRound h) h'"
    using at(4) round by (simp_all add: action_report_def limits_of_def)
  have ready: "client_ready c" "currentRound c = currentRound h" "money_of (board c) = money_of (board h)" "pot (board c) = pot (board h)"
    using view by (simp_all add: client_view_def turn_seen_def bets_def)
  have known: "ad_playerid ?m \<in> set (ids (board c))"
    using old(1) money_of_dom [of "board c" "uid h i"] ready(3) f(1) by auto
  have bound: "0 \<le> ad_totalplayerbet ?m \<and> ad_totalplayerbet ?m \<le> INT_MAX \<and>
      snd (the (money_of (board c) (ad_playerid ?m))) \<le> ad_totalplayerbet ?m"
    using at(5,6) old inv(3) f ready(3) by (simp add: INT_MAX_def)
  have state: "ad_gamestate ?m < 6" using less f(4) by (auto simp: round_less_post state_code_def)
  obtain c' where c': "client_action_done ?m c = Inr c'" "client_ready c'"
    "money_of (board c') = (money_of (board c))(uid h i \<mapsto> (myCash (seats h' ! i), mySet (seats h' ! i)))"
    "pot (board c') = pot (board c)" "sets_ok (board c')" "ids (board c') = ids (board c)"
    "boardCards (board c') = boardCards (board c)" "currentRound c' = currentRound c"
    "limits_of (currentRound c) c' = limits_of (currentRound h) h'"
    "\<forall>r. r \<noteq> currentRound c \<longrightarrow> r < GAME_STATE_POST_RIVER \<longrightarrow> limits_of r c' = limits_of r c"
    using client_action_sync [OF ready(1) known bound state] less ready(2) unfolding f by metis
  have money: "money_of (board c') = money_of (board h')" using c'(3) at(1) ready(3) by simp
  have "sets_ok (board h')" using PerformPlayerAction_inv(1) [OF inv(1)] by (simp add: h'_def table_inv_def)
  moreover have "distinct (ids (board c'))" "distinct (ids (board h'))"
    using c'(2) at(3) inv(1) by (simp_all add: client_ready_def table_inv_def money_ok_def ids_def)
  ultimately have "sets (board c') = sets (board h')" using same_sets(1) [OF _ _ money] c'(5) by (simp add: sets_ok_def)
  then have b: "bets (board c') = bets (board h')" using money c'(4) at(2) ready(4) by (simp add: bets_def)
  have lim: "limits_agree same r h' c'" if "currentRound h \<le> r" "r < GAME_STATE_POST_RIVER" for r
  proof (cases "r = currentRound h")
    case True
    then show ?thesis using c'(9) ready(2) by (simp add: limits_agree_def)
  next
    case False
    have "limits_agree same r h c" using view(1) that by (simp add: client_view_def)
    moreover have "limits_of r h' = limits_of r h"
      unfolding h'_def by (rule action_limits [OF False that(2) less inv(4)])
    moreover have "limits_of r c' = limits_of r c" using c'(10) False that(2) ready(2) by simp
    ultimately show ?thesis by (rule limits_agree_cong)
  qed
  have "boardCards (board h') = boardCards (board h)"
    unfolding h'_def by (rule lineup_same(4)) simp
  then have "client_view same h' c'" using view(1) c' b lim round ready(2) by (simp add: client_view_def)
  then show ?thesis using c'(1) by (auto simp: SendPlayerAction_def run_hand_packet_def)
qed

section \<open>The steps of the server\<close>

lemma view_cong:
  assumes "client_view same h c" "bets (board h') = bets (board h)" "boardCards (board h') = boardCards (board h)"
    and "currentRound h' = currentRound h" "\<forall>r. r < GAME_STATE_POST_RIVER \<longrightarrow> limits_of r h' = limits_of r h"
  shows "client_view same h' c"
  using assms by (simp add: client_view_def limits_agree_def)

text \<open>What a run of the rounds leaves alone.\<close>

lemma loop_frame:
  assumes ok: "turns_ok T sb h"
    and run: "(if handAllInCondition (switchRounds h) then Inr (switchRounds h) else run_current (switchRounds h)) = Inr h2"
  shows "round_moved h h2" "boardCards (board h2) = boardCards (board h)" "seating_ok h2" "table_inv T (board h2)"
    "length (myBeRo h2) = 5" "r < GAME_STATE_POST_RIVER \<Longrightarrow> limits_of r h2 = limits_of r h"
proof -
  note two = turns_two [OF ok] and lim = loop_limits [OF run] and lineup = loop_lineup [OF run]
  have len: "length (myBeRo h) = 5" using ok by (simp add: turns_ok_def rounds_ok_def)
  show "round_moved h h2" using two(3,4) by (intro loop_bets [OF _ _ run]) (simp_all add: table_inv_def)
  show "boardCards (board h2) = boardCards (board h)" by (rule lineup_same(4) [OF lineup])
  have "seating_ok h" using two(1,2,4) by (simp add: seating_ok_def table_inv_def money_ok_def)
  then show "seating_ok h2" by (simp only: seating_same [OF lineup])
  show "table_inv T (board h2)" using run_or_stop_kept(1) [OF two(5) refl run] by (simp add: hand_kept_def)
  have "length (limits h2) = length (limits h)" using lim by simp
  then show "length (myBeRo h2) = 5" using len by (simp add: limits_def)
  show "r < GAME_STATE_POST_RIVER \<Longrightarrow> limits_of r h2 = limits_of r h"
    using limits_of_eq [OF lim, of r] state_code_less [of r] len by simp
qed

lemma show_all_in_frame: "client_view same (show_all_in h) c = client_view same h c"
  by (simp add: show_all_in_def client_view_def limits_agree_def limits_of_def bero_of_def)

lemma current_is_turn: "getCurrentPlayer h = Inr i \<longleftrightarrow> getSeatIt (turn_id h) (board h) = Some i"
  by (auto simp: getCurrentPlayer_def split: option.splits)

lemma two_less: "table_inv T (board h) \<Longrightarrow> getSeatIt u (board h) = Some i \<Longrightarrow> i < 2"
  using getSeatIt_Some(1) [of u "board h" i] by (simp add: table_inv_def)

text \<open>The loop stays in the round: the turn is announced and, when the player is away, his fold.\<close>

lemma continue_sync:
  assumes view: "client_view same h c" and out: "continue_hand_out connected h = Inr (res, ms)"
    and inv: "table_inv T (board h)" "T < 2 ^ 31" "length (myBeRo h) = 5" "currentRound h < GAME_STATE_POST_RIVER"
  shows "\<exists>c'. hear ms c = Inr c' \<and>
    (case res of NextLoop h' \<Rightarrow> client_view same h' c' | WaitPlayerAction h' \<Rightarrow> client_view same h' c' \<and> turn_seen h' c'
     | ComputerAction h' \<Rightarrow> client_view same h' c' \<and> turn_seen h' c' | HandOver h' \<Rightarrow> False)"
proof -
  obtain i where i: "getCurrentPlayer h = Inr i" using out by (auto simp: continue_hand_out_def split: if_splits sum.splits)
  then have at: "getSeatIt (turn_id h) (board h) = Some i" by (simp add: current_is_turn)
  obtain d where d: "run_hand_packet (PlayersTurn (currentRound h) (uid h i)) c = Inr d" "client_view same h d" "turn_seen h d"
    using turn_sync [OF view at inv(4)] by blast
  have "i < 2" by (rule two_less [OF inv(1) at])
  then obtain c' where "run_hand_packet (SendPlayerAction i (PerformPlayerAction i PLAYER_ACTION_FOLD 0 h)) d = Inr c'"
    "client_view same (PerformPlayerAction i PLAYER_ACTION_FOLD 0 h) c'"
    using action_sync [OF d(2,3) inv(4,1) _ inv(2,3)] by blast
  then show ?thesis
    using out i d by (auto simp: continue_hand_out_def Let_def split: if_splits)
qed

lemma loop_sync:
  assumes view: "client_view same h c" and ok: "turns_ok T sb h" and T: "T < 2 ^ 31"
    and out: "EngineLoop_out connected h = Inr (res, ms)"
  shows "\<exists>c'. hear ms c = Inr c' \<and>
    (case res of NextLoop h' \<Rightarrow> client_view same h' c' | WaitPlayerAction h' \<Rightarrow> client_view same h' c' \<and> turn_seen h' c'
     | ComputerAction h' \<Rightarrow> client_view same h' c' \<and> turn_seen h' c'
     | HandOver h' \<Rightarrow> money_of (board c') = money_of (board h') \<and> pot (board c') = pot (board h'))"
  using out
proof (cases rule: EngineLoop_out_cases)
  case (1 h2)
  note f = loop_frame [OF ok 1(1)]
  have "currentRound h2 = next_round (currentRound h)" using loop_two(1) [OF ok 1(4,1)] 1(5) by auto
  moreover have "bets (board h2) = sweep (bets (board h))" using f(1) 1(5) by (simp add: round_moved_def)
  ultimately obtain c' where "hear (new_round_messages h2) c = Inr c'" "client_view same h2 c'"
    using new_round_sync [OF view turns_two(3) [OF ok], of h2] 1(4) f by blast
  then show ?thesis using 1(2,3) by (simp add: show_all_in_frame)
next
  case (2 h2)
  note f = loop_frame [OF ok 2(1)]
  have less: "currentRound h2 < GAME_STATE_POST_RIVER" using turns_two(3) [OF ok] 2(3) by simp
  have "bets (board h2) = bets (board h)" using f(1) 2(3) by (simp add: round_moved_def)
  then have "client_view same h2 c" using view_cong [OF view] f(2,6) 2(3) by simp
  from continue_sync [OF this 2(2) f(4) T f(5) less] show ?thesis by (auto split: loop_result.splits)
next
  case (3 h2 h3)
  note f = loop_frame [OF ok 3(1)] and two = turns_two [OF ok]
  have kept: "hand_kept T h h2" by (rule run_or_stop_kept(1) [OF two(5) refl 3(1)])
  then have nb: "no_bets (board h2)" "1 \<le> unfolded (board h2)"
    using 3(2) two(6) by (auto simp: hand_kept_def)
  have "currentRound h2 \<noteq> currentRound h" using 3(2) two(3) by auto
  then have "bets (board h2) = sweep (bets (board c))" using f(1) view by (simp add: round_moved_def client_view_def)
  then have "money_of (board h2) = swept \<circ> money_of (board c)" by (simp add: bets_def sweep_def)
  moreover have "client_ready c" using view by (simp add: client_view_def)
  ultimately obtain c' where "run_hand_packet (end_of_hand_message h3) c = Inr c'"
    "money_of (board c') = money_of (board h3)" "pot (board c') = pot (board h3)"
    using end_sync [OF f(4) nb(1) T nb(2) 3(3)] by blast
  then show ?thesis using 3(4,5) by simp
qed

lemma request_sync:
  assumes view: "client_view same h c" "turn_seen h c" and given: "turn_given T sb h" and T: "T < 2 ^ 31"
    and req: "handle_action_request gameId u q h = Inr (Accepted h')"
  shows "\<exists>c'. hear (request_messages u (Accepted h')) c = Inr c' \<and> client_view same h' c'"
proof -
  obtain i a bet where i: "getSeatIt u (board h) = Some i"
    "h' = PerformPlayerAction i a bet (on_board (on_seat i (\<lambda>p. p\<lparr>myIsSessionActive := True\<rparr>)) h)"
    using req by (auto simp: handle_action_request_def Let_def split: if_splits option.splits sum.splits)
  let ?h = "on_board (on_seat i (\<lambda>p. p\<lparr>myIsSessionActive := True\<rparr>)) h"
  have g: "turn_given T sb ?h" by (rule session_turn_given [OF given])
  then have ok: "turns_ok T sb ?h" by (simp add: turn_given_def)
  have len: "length (myBeRo ?h) = 5" using ok by (simp add: turns_ok_def rounds_ok_def)
  have less: "currentRound ?h < GAME_STATE_POST_RIVER" and inv: "table_inv T (board ?h)" using turns_two(3,4) [OF ok] by simp_all
  have ids: "ids (board ?h) = ids (board h)" by simp
  have at: "getSeatIt u (board ?h) = Some i" using getSeatIt_cong [OF ids] i(1) by simp
  have view': "client_view same ?h c"
    by (rule view_cong [OF view(1)]) (simp_all add: bets_frame limits_of_def)
  have "turn_seen ?h c" using view(2) by (auto simp: turn_seen_def)
  from action_sync [OF view' this less inv two_less [OF inv at] T len, of a bet, folded i(2)] obtain c' where
    c': "run_hand_packet (SendPlayerAction i h') c = Inr c'" "client_view same h' c'" by blast
  have "map myUniqueID (seats h') = map myUniqueID (seats ?h)" unfolding i(2) by (rule PerformPlayerAction_turns(3))
  then have "getSeatIt u (board h') = Some i" using getSeatIt_cong [of "board h'" "board ?h" u] at by (simp add: ids_def)
  then show ?thesis using c' by (simp add: request_messages_def)
qed

lemma timeout_sync:
  assumes view: "client_view same h c" "turn_seen h c" and given: "turn_given T sb h" and T: "T < 2 ^ 31"
    and out: "player_timeout h = Inr h'"
  shows "\<exists>c'. hear (timeout_messages h h') c = Inr c' \<and> client_view same h' c'"
proof -
  obtain i a where i: "getCurrentPlayer h = Inr i" "h' = PerformPlayerAction i a 0 h"
    using out by (auto simp: player_timeout_def split: sum.splits)
  have ok: "turns_ok T sb h" using given by (simp add: turn_given_def)
  have len: "length (myBeRo h) = 5" using ok by (simp add: turns_ok_def rounds_ok_def)
  note two = turns_two [OF ok]
  have "i < 2" using two_less [OF two(4)] i(1) by (simp add: current_is_turn)
  from action_sync [OF view two(3,4) this T len, of a 0, folded i(2)] i(1) show ?thesis
    by (auto simp: timeout_messages_def)
qed

text \<open>Every step keeps the client in step with the server.\<close>

lemma send_sync:
  assumes "server_send s ms s'" "phase_turns T sb s" "T < 2 ^ 31" "in_sync same s c"
  shows "\<exists>c'. hear ms c = Inr c' \<and> in_sync same s' c'"
  using assms(1)
proof cases
  case (rejected gameId u q h code q')
  then show ?thesis using assms(4) by (simp add: request_messages_def run_hand_packet_def)
next
  case (request gameId u q h h')
  then show ?thesis using request_sync [of same h c T sb] assms by (auto simp: phase_turns_def in_sync_def)
next
  case (timeout h h')
  then show ?thesis using timeout_sync [of same h c T sb] assms by (auto simp: phase_turns_def in_sync_def)
qed (use loop_sync [of same _ c T sb] assms in \<open>fastforce simp: phase_turns_def in_sync_def\<close>)+

lemma talk_sync:
  assumes "server_talk s0 ms s" "phase_turns T sb s0" "T < 2 ^ 31" "in_sync same s0 c"
  shows "\<exists>c'. hear ms c = Inr c' \<and> in_sync same s c'"
  using assms
proof (induction rule: server_talk.induct)
  case (more s ms s' ns s'')
  obtain c' where c': "hear ms c = Inr c'" "in_sync same s' c'" using more.IH more.prems by blast
  obtain d where "phase_turns T d s'"
    using server_steps_turns [OF server_talk_steps [OF more.hyps(1)] more.prems(1,2)] by blast
  from send_sync [OF more.hyps(2) this more.prems(2) c'(2)] c'(1) show ?case by (simp add: hear_append)
qed simp

section \<open>The start of a hand\<close>

text \<open>The hand of the client after \<open>initHand\<close>: the cash of the players, no bets, the limits of the blinds.\<close>

lemma start_seat_fields [simp]:
  "myUniqueID (start_seat dealer p) = myUniqueID p" "myCash (start_seat dealer p) = myCash p"
  "mySet (start_seat dealer p) = mySet p"
  by (simp_all add: start_seat_def)

lemma new_client_hand_start:
  fixes ident sP sB sC :: int and dP :: nat
  assumes t: "between_hands T t" "length (boardCards t) = 5"
  defines "c \<equiv> new_client_hand (prepare_board t) ident sP dP sB sC"
  shows "client_ready c" "money_of (board c) = money_of t" "pot (board c) = 0" "currentRound c = GAME_STATE_PREFLOP"
    "r < GAME_STATE_POST_RIVER \<Longrightarrow> limits_of r c = (0, 2 * sB)"
proof -
  note p = prepare_board_two [OF t(1)]
  have two: "length (seatsList t) = 2" "activePlayerList t = [0, 1]" "pot t = 0" "distinct (ids t)"
    using t(1) by (simp_all add: between_hands_def ids_def)
  let ?t1 = "map_seats (\<lambda>p. p\<lparr>myCardsFlip := False\<rparr>) (prepare_board t)"
  have b: "board c = fold (\<lambda>i. on_seat i (start_seat dP)) [0, 1] ?t1"
    unfolding c_def new_client_hand_def Let_def p by (simp add: map_seats_def two)
  obtain x y where xy: "seatsList t = [x, y]" using two(1) by (auto dest!: two_elements)
  have fields: "activePlayerList (board c) = [0, 1]" "length (seats c) = 2" "pot (board c) = 0"
    "boardCards (board c) = boardCards t" "map myUniqueID (seats c) = map myUniqueID (seatsList t)"
    "map myCash (seats c) = map myCash (seatsList t)" "map mySet (seats c) = map mySet (seatsList t)"
    unfolding b p by (simp_all add: map_seats_def two xy update_seat_def)
  have ids: "ids (board c) = ids t" using fields(5) by (simp add: ids_def)
  have len: "length (myBeRo c) = 5" unfolding c_def by (simp add: new_client_hand_def Let_def)
  show "client_ready c"
    unfolding client_ready_def ids fields(1,2,4) len using two(4) t(2) by auto
  show "money_of (board c) = money_of t" by (rule money_of_cong [OF ids fields(6,7)])
  show "pot (board c) = 0" by (rule fields(3))
  show "currentRound c = GAME_STATE_PREFLOP" by (simp add: c_def new_client_hand_def Let_def)
  show "limits_of r c = (0, 2 * sB)" if "r < GAME_STATE_POST_RIVER"
    using that unfolding limits_of_def bero_of_def c_def new_client_hand_def Let_def
    by (auto simp: round_less_post state_code_def client_bero_def)
qed

text \<open>The messages of the blinds.\<close>

definition blind_messages :: "local_hand \<Rightarrow> hand_message list" where
  "blind_messages h =
     blind_message BUTTON_SMALL_BLIND netStatePreflopSmallBlind h @ blind_message BUTTON_BIG_BLIND netStatePreflopBigBlind h"

lemma blind_messages_two:
  assumes "activePlayerList (board h) = [0, 1]" "d < 2" "myButton (seats h ! d) = BUTTON_SMALL_BLIND"
    "myButton (seats h ! (1 - d)) = BUTTON_BIG_BLIND"
  shows "blind_messages h = [PlayersActionDone (action_report 4 (current_bero h) (seats h ! d)),
    PlayersActionDone (action_report 5 (current_bero h) (seats h ! (1 - d)))]"
proof -
  have "d = 0 \<or> d = 1" using assms(2) by auto
  then show ?thesis
    using assms by (auto simp: blind_messages_def blind_message_def active_players_def
        netStatePreflopSmallBlind_def netStatePreflopBigBlind_def)
qed

lemma blind_heard:
  assumes "client_ready c" "myUniqueID p \<in> set (ids (board c))" "currentRound c = GAME_STATE_PREFLOP" "n = 4 \<or> n = 5"
  shows "\<exists>c'. run_hand_packet (PlayersActionDone (action_report n b p)) c = Inr c' \<and> client_ready c' \<and>
    money_of (board c') = (money_of (board c))(myUniqueID p \<mapsto> (myCash p, mySet p)) \<and> pot (board c') = pot (board c) \<and>
    sets_ok (board c') \<and> ids (board c') = ids (board c) \<and> currentRound c' = GAME_STATE_PREFLOP \<and>
    limits_of GAME_STATE_PREFLOP c' = (highestSet b, minimumRaise b) \<and>
    (\<forall>r. r \<noteq> GAME_STATE_PREFLOP \<longrightarrow> r < GAME_STATE_POST_RIVER \<longrightarrow> limits_of r c' = limits_of r c)"
proof -
  let ?m = "action_report n b p"
  have f: "ad_playerid ?m = myUniqueID p" "ad_playermoney ?m = myCash p" "ad_totalplayerbet ?m = mySet p"
    "ad_highestset ?m = highestSet b" "ad_minimumraise ?m = minimumRaise b" "ad_gamestate ?m = n"
    by (simp_all add: action_report_def)
  have "ad_playerid ?m \<in> set (ids (board c))" "ad_gamestate ?m < 6" using assms(2,4) f by auto
  moreover have "currentRound c < GAME_STATE_POST_RIVER" using assms(3) by simp
  moreover have "0 \<le> ad_totalplayerbet ?m \<and> ad_totalplayerbet ?m \<le> INT_MAX \<and>
      snd (the (money_of (board c) (ad_playerid ?m))) \<le> ad_totalplayerbet ?m" if "ad_gamestate ?m < 4"
    using that assms(4) f(6) by auto
  ultimately show ?thesis
    using client_action_sync [OF assms(1), of ?m] assms(3) unfolding f by (auto simp: run_hand_packet_def)
qed

lemma start_sync:
  assumes deck: "deck_ok deck" and t: "between_hands T t" "d < 2" "0 \<le> sB"
    and new: "new_hand deck (prepare_board t) ident sP (myUniqueID (seatsList t ! d)) sB sC = Inr h"
    and client: "client_ready c" "money_of (board c) = money_of t" "pot (board c) = 0" "currentRound c = GAME_STATE_PREFLOP"
    and rounds: "\<And>r. r \<noteq> GAME_STATE_PREFLOP \<Longrightarrow> r < GAME_STATE_POST_RIVER \<Longrightarrow>
      fst (limits_of r c) = 0 \<and> (same \<longrightarrow> snd (limits_of r c) = 2 * sB)"
  shows "\<exists>c'. hear (blind_messages (start_on_server h)) c = Inr c' \<and> client_view same (start_on_server h) c'"
proof -
  let ?h = "start_on_server h"
  have p: "posts sB (seatsList t ! d) (seats h ! d)" "myButton (seats h ! d) = BUTTON_SMALL_BLIND"
    "posts (2 * sB) (seatsList t ! (1 - d)) (seats h ! (1 - d))" "myButton (seats h ! (1 - d)) = BUTTON_BIG_BLIND"
    "map highestSet (myBeRo h) = [2 * sB, 0, 0, 0, 0]" "map minimumRaise (myBeRo h) = replicate 5 (2 * sB)"
    using new_hand_two [OF deck t, of ident sP sC] new by auto
  note st = new_hand_staged [OF deck t(1) new]
  have inv: "table_inv T (board ?h)" using start_on_server_ok [OF st] by (simp add: loop_ok_def)
  have d: "d = 0 \<or> d = 1" using t(2) by auto
  have len: "length (myBeRo h) = 5" using p(6) by (metis length_map length_replicate)
  have two: "length (seats h) = 2" "activePlayerList (board ?h) = [0, 1]" "length (seatsList t) = 2"
    using st(1) t(1) by (simp_all add: staged_def between_hands_def start_on_server_def start_def skipFirstRunGui_def)
  have u: "uid h d = myUniqueID (seatsList t ! d)" "uid h (1 - d) = myUniqueID (seatsList t ! (1 - d))"
    using p(1,3) by (simp_all add: posts_def)
  have eq_ids: "ids (board ?h) = ids t"
    using u d two by (auto intro!: nth_equalityI simp: ids_def less_2_cases_iff start_fields)
  have lim: "limits_of r ?h = (if r = GAME_STATE_PREFLOP then 2 * sB else 0, 2 * sB)" if r: "r < GAME_STATE_POST_RIVER" for r
  proof -
    have at: "highestSet (myBeRo h ! state_code r) = map highestSet (myBeRo h) ! state_code r"
      "minimumRaise (myBeRo h ! state_code r) = map minimumRaise (myBeRo h) ! state_code r"
      using state_code_less [OF r] len by simp_all
    have "limits_of r ?h = limits_of r h" using r start_beros(2) [OF len r] by (simp add: limits_of_def)
    also have "\<dots> = (if r = GAME_STATE_PREFLOP then 2 * sB else 0, 2 * sB)"
      using r unfolding limits_of_def bero_of_def at p(5,6) by (auto simp: round_less_post state_code_def)
    finally show ?thesis .
  qed
  have b: "(highestSet (current_bero ?h), minimumRaise (current_bero ?h)) = (2 * sB, 2 * sB)"
    using lim [of GAME_STATE_PREFLOP] st(2) by (simp add: limits_of_def start_fields)
  note ms = blind_messages_two [OF two(2) t(2), unfolded start_fields(1), OF p(2,4)]
  have people: "set (ids (board c)) = set (ids t)" by (rule same_people) (simp add: client(2))
  have known: "uid h d \<in> set (ids (board c))" "uid h (1 - d) \<in> set (ids (board c))"
    using u d two(3) unfolding people by (auto simp: ids_def)
  obtain c1 where c1: "run_hand_packet (PlayersActionDone (action_report 4 (current_bero ?h) (seats h ! d))) c = Inr c1"
    "client_ready c1" "money_of (board c1) = (money_of (board c))(uid h d \<mapsto> (myCash (seats h ! d), mySet (seats h ! d)))"
    "pot (board c1) = pot (board c)" "ids (board c1) = ids (board c)" "currentRound c1 = GAME_STATE_PREFLOP"
    "\<forall>r. r \<noteq> GAME_STATE_PREFLOP \<longrightarrow> r < GAME_STATE_POST_RIVER \<longrightarrow> limits_of r c1 = limits_of r c"
    using blind_heard [OF client(1) known(1) client(4), of 4 "current_bero ?h"] by blast
  have "uid h (1 - d) \<in> set (ids (board c1))" using known(2) c1(5) by simp
  from blind_heard [OF c1(2) this c1(6), of 5 "current_bero ?h"] obtain c2 where
    c2: "run_hand_packet (PlayersActionDone (action_report 5 (current_bero ?h) (seats h ! (1 - d)))) c1 = Inr c2"
    "client_ready c2" "money_of (board c2) = (money_of (board c1))(uid h (1 - d) \<mapsto> (myCash (seats h ! (1 - d)), mySet (seats h ! (1 - d))))"
    "pot (board c2) = pot (board c1)" "sets_ok (board c2)" "ids (board c2) = ids (board c1)" "currentRound c2 = GAME_STATE_PREFLOP"
    "limits_of GAME_STATE_PREFLOP c2 = (2 * sB, 2 * sB)"
    "\<forall>r. r \<noteq> GAME_STATE_PREFLOP \<longrightarrow> r < GAME_STATE_POST_RIVER \<longrightarrow> limits_of r c2 = limits_of r c1"
    unfolding b by blast
  have dist: "distinct (ids (board ?h))" using inv by (simp add: table_inv_def money_ok_def ids_def)
  have seat: "money_of (board ?h) (uid h j) = Some (myCash (seats h ! j), mySet (seats h ! j))" if "j < 2" for j
    using getSeatIt_id [OF dist, of j] that two(1) by (simp add: money_of_def start_fields)
  have money: "money_of (board c2) v = money_of (board ?h) v" for v
  proof (cases "v = uid h d \<or> v = uid h (1 - d)")
    case True
    then show ?thesis using seat [of d] seat [of "1 - d"] t(2) c1(3) c2(3) by auto
  next
    case False
    then have "v \<notin> set (ids t)" using u d two(3) by (auto simp: ids_def in_set_conv_nth less_2_cases_iff)
    then have "money_of t v = None" "money_of (board ?h) v = None" using eq_ids by (simp_all add: money_of_dom)
    then show ?thesis using False by (simp add: c2(3) c1(3) client(2))
  qed
  then have money': "money_of (board c2) = money_of (board ?h)" by (rule ext)
  have "pot (board ?h) = 0"
  proof -
    have own: "myCash (seats h ! j) + mySet (seats h ! j) = myCash (seatsList t ! j)" if "j < 2" for j
      using that p(1,3) d by (auto simp: posts_def less_2_cases_iff)
    obtain x y where xy: "seats h = [x, y]" using two_elements [OF two(1)] by blast
    obtain x0 y0 where xy0: "seatsList t = [x0, y0]" using two_elements [OF two(3)] by blast
    have "chips x = myCash x0" "chips y = myCash y0" using own [of 0] own [of 1] by (simp_all add: chips_def xy xy0)
    then show ?thesis
      using inv t(1) xy xy0 by (simp add: table_inv_def money_ok_def table_chips_def between_hands_def start_fields)
  qed
  then have pots: "pot (board c2) = pot (board ?h)" using c1(4) c2(4) client(3) by simp
  have "distinct (ids (board c2))" using c2(2) by (simp add: client_ready_def)
  from same_sets(1) [OF this dist money'] have "sets (board c2) = sets (board ?h)"
    using c2(5) inv by (simp add: sets_ok_def table_inv_def)
  then have bets: "bets (board c2) = bets (board ?h)" using money' pots by (simp add: bets_def)
  have "limits_agree same r ?h c2" if "r < GAME_STATE_POST_RIVER" for r
    using that lim [OF that] c2(8,9) c1(7) rounds [OF _ that]
    by (cases "r = GAME_STATE_PREFLOP") (simp_all add: limits_agree_def)
  then have "client_view same ?h c2" using c2(2,7) bets st(2) by (simp add: client_view_def start_fields)
  then show ?thesis unfolding ms hear.simps c1(1) sum.case c2(1) by blast
qed

lemma new_hand_smallBlind: "new_hand deck t ident sP dP sB sC = Inr h \<Longrightarrow> smallBlind h = sB"
  by (auto simp: new_hand_def assignButtons_def setBlinds_def Let_def map_sum_Inr split: sum.splits option.splits)

lemma client_initHand_hand:
  assumes "client_initHand minutes g = Inr g'" "currentHand g' = Some c"
  obtains ident sP dP sC where
    "c = new_client_hand (prepare_board (game_board g)) ident sP dP (currentSmallBlind g') sC"
proof -
  let ?g1 = "raiseBlinds minutes (g\<lparr>currentHandID := currentHandID g + 1\<rparr>)"
  have "game_board (g\<lparr>currentHandID := currentHandID g + 1\<rparr>) = game_board g"
    by (simp add: game_board_def split: option.split)
  then have gb: "game_board ?g1 = game_board g" by (simp only: raiseBlinds_keeps)
  have "c = new_client_hand (prepare_board (game_board ?g1)) (currentHandID ?g1) (gameStartQuantityPlayers ?g1)
      (dealerPosition ?g1) (currentSmallBlind ?g1) (gameStartCash ?g1)" "currentSmallBlind g' = currentSmallBlind ?g1"
    using assms by (auto simp: client_initHand_def Let_def map_sum_Inr)
  with that gb show thesis by metis
qed

text \<open>What the handler of the message does to the seats leaves the people and their money alone.\<close>

definition same_people_and_money :: "int \<Rightarrow> table \<Rightarrow> table \<Rightarrow> bool" where
  "same_people_and_money T t t' \<longleftrightarrow> between_hands T t' \<and> length (boardCards t') = length (boardCards t) \<and> money_of t' = money_of t"

lemma seat_people_and_money:
  assumes f: "\<And>p. myUniqueID (f p) = myUniqueID p \<and> myCash (f p) = myCash p \<and> mySet (f p) = mySet p \<and> myActiveStatus (f p) = myActiveStatus p"
    and t: "between_hands T t"
  shows "same_people_and_money T t (on_seat i f t)"
proof -
  have eq: "map g (seatsList (on_seat i f t)) = map g (seatsList t)" if "\<And>p. g (f p) = g p" for g :: "local_player \<Rightarrow> 'b"
    using that by (simp add: update_seat_def map_update_same)
  have lists: "ids (on_seat i f t) = ids t" "map myCash (seatsList (on_seat i f t)) = map myCash (seatsList t)"
    "map mySet (seatsList (on_seat i f t)) = map mySet (seatsList t)"
    unfolding ids_def by (rule eq, simp add: f)+
  have all: "list_all (\<lambda>p. 0 < myCash p \<and> mySet p = 0 \<and> myActiveStatus p) ps =
      list_all (\<lambda>(c, s, a). 0 < c \<and> s = 0 \<and> a) (map (\<lambda>p. (myCash p, mySet p, myActiveStatus p)) ps)" for ps :: "local_player list"
    by (simp add: list_all_iff)
  have seats: "map (\<lambda>p. (myCash p, mySet p, myActiveStatus p)) (seatsList (on_seat i f t)) =
      map (\<lambda>p. (myCash p, mySet p, myActiveStatus p)) (seatsList t)"
    by (rule eq) (simp add: f)
  have "length (seatsList (on_seat i f t)) = length (seatsList t)" using lists(2) by (metis length_map)
  then have "between_hands T (on_seat i f t)"
    using t lists(1) unfolding between_hands_def all seats lists(2) ids_def by simp
  then show ?thesis by (simp add: same_people_and_money_def money_of_cong [OF lists])
qed

lemma same_trans: "same_people_and_money T t u \<Longrightarrow> same_people_and_money T u v \<Longrightarrow> same_people_and_money T t v"
  by (simp add: same_people_and_money_def)

lemma game_board_on [simp]: "game_board (on_game_board f g) = f (game_board g)"
  by (simp add: game_board_def on_game_board_def split: option.split)

lemma take_seat_states_people:
  "take_seat_states cl i sts g = Inr g' \<Longrightarrow> netPlayerStateNoMoney \<notin> set sts \<Longrightarrow> between_hands T (game_board g) \<Longrightarrow>
   same_people_and_money T (game_board g) (game_board g')"
proof (induction cl i sts g rule: take_seat_states.induct)
  case (2 cl i st rest g)
  then obtain j where j: "getPlayerByNumber (client_seat_number cl i) g = Some j"
    "take_seat_states cl (Suc i) rest (on_game_board (on_seat j (take_seat_state st)) g) = Inr g'"
    by (auto split: option.splits)
  have st: "st \<noteq> netPlayerStateNoMoney" using "2.prems"(2) by auto
  have "same_people_and_money T (game_board g) (on_seat j (take_seat_state st) (game_board g))"
    by (rule seat_people_and_money [OF _ "2.prems"(3)]) (use st in \<open>cases st; simp add: take_seat_state_def\<close>)
  moreover from this have "same_people_and_money T (game_board (on_game_board (on_seat j (take_seat_state st)) g)) (game_board g')"
    using "2.IH" [OF j] "2.prems"(2) by (simp add: same_people_and_money_def)
  ultimately show ?case by (simp add: same_people_and_money_def)
qed (simp add: same_people_and_money_def)

lemma limits_of_update:
  assumes "state_code r < length (myBeRo h)" "state_code q < length (myBeRo h)"
  shows "limits_of r (update_bero q (\<lambda>b. b\<lparr>minimumRaise := v\<rparr>) h) =
    (if r = q then (fst (limits_of r h), v) else limits_of r h)"
  using assms by (cases r; cases q) (auto simp: limits_of_def bero_of_def update_bero_def nth_list_update state_code_def)

text \<open>The message of the server that starts a hand: both players have money, and the client's hand
  begins with its own players, the small blind of the message and nothing bet.\<close>

lemma hand_start_sent:
  assumes "HandStart v m \<in> set (start_messages password L gameId numPlayers h)" "staged T (board h)"
  shows "hs_smallblind m = smallBlind h" "netPlayerStateNoMoney \<notin> set (hs_seatstates m)"
proof -
  have "HandStart v m \<notin> set (blind_message b n x)" for b n x
    by (auto simp: blind_message_def split: list.splits)
  then obtain p where "HandStart v m \<in> set (hand_start_message password L gameId numPlayers h p)"
    using assms(1) by (auto simp: start_messages_def)
  then have m: "hs_smallblind m = smallBlind h" "hs_seatstates m = map seat_state (take numPlayers (seats h))"
    by (auto simp: hand_start_message_def split: option.splits)
  show "hs_smallblind m = smallBlind h" by (rule m(1))
  have "\<forall>p \<in> set (seats h). myActiveStatus p"
    using assms(2) by (auto simp: staged_def money_ok_def list_all_iff seat_ok_def)
  then show "netPlayerStateNoMoney \<notin> set (hs_seatstates m)"
    unfolding m(2) by (auto simp: seat_state_def dest!: in_set_takeD split: if_splits)
qed

lemma hand_start_heard:
  assumes "handle_hand_start L minutes m cl = Inr cl'" "currentHand (clGame cl') = Some c"
    and t: "between_hands T (game_board (clGame cl))" "length (boardCards (game_board (clGame cl))) = 5"
    and "netPlayerStateNoMoney \<notin> set (hs_seatstates m)"
  shows "client_ready c \<and> money_of (board c) = money_of (game_board (clGame cl)) \<and> pot (board c) = 0 \<and>
    currentRound c = GAME_STATE_PREFLOP \<and> (\<forall>r. r \<noteq> GAME_STATE_PREFLOP \<longrightarrow> r < GAME_STATE_POST_RIVER \<longrightarrow>
      limits_of r c = (0, 2 * currentSmallBlind (clGame cl')))"
proof -
  obtain cs g g' where g: "take_seat_states cl 0 (hs_seatstates m) (clGame cl) = Inr g"
    "client_initHand minutes (on_game_board (on_seat 0 (\<lambda>p. p\<lparr>myCards := cs\<rparr>)) g) = Inr g'"
    "clGame cl' = g'\<lparr>currentHand := map_option
       (\<lambda>h. on_current (\<lambda>b. b\<lparr>minimumRaise := 2 * hs_smallblind m\<rparr>) (h\<lparr>smallBlind := hs_smallblind m\<rparr>)) (currentHand g')\<rparr>"
    using assms(1) by (auto simp: handle_hand_start_def split: sum.splits)
  let ?t = "on_seat 0 (\<lambda>p. p\<lparr>myCards := cs\<rparr>) (game_board g)"
  have "same_people_and_money T (game_board (clGame cl)) (game_board g)"
    by (rule take_seat_states_people [OF g(1) assms(5) t(1)])
  moreover from this have "same_people_and_money T (game_board g) ?t"
    by (intro seat_people_and_money) (simp_all add: same_people_and_money_def)
  ultimately have same: "between_hands T ?t" "length (boardCards ?t) = 5" "money_of ?t = money_of (game_board (clGame cl))"
    using t(2) by (simp_all add: same_people_and_money_def)
  obtain k where k: "currentHand g' = Some k"
    "c = on_current (\<lambda>b. b\<lparr>minimumRaise := 2 * hs_smallblind m\<rparr>) (k\<lparr>smallBlind := hs_smallblind m\<rparr>)"
    using assms(2) g(3) by auto
  obtain ident sP dP sC where "k = new_client_hand (prepare_board ?t) ident sP dP (currentSmallBlind g') sC"
    by (rule client_initHand_hand [OF g(2) k(1), unfolded game_board_on])
  note start = new_client_hand_start [OF same(1,2), where ident = ident and sP = sP and dP = dP and sC = sC
      and sB = "currentSmallBlind g'", folded this]
  have len: "length (myBeRo k) = 5" using start(1) by (simp add: client_ready_def)
  have "limits_of r (k\<lparr>smallBlind := hs_smallblind m\<rparr>) = limits_of r k" for r by (simp add: limits_of_def bero_of_def)
  then have "limits_of r c = limits_of r k" if "r \<noteq> GAME_STATE_PREFLOP" "r < GAME_STATE_POST_RIVER" for r
    unfolding k(2) using that len start(4) state_code_less [OF that(2)]
    by (simp add: limits_of_update state_code_def)
  then have "\<forall>r. r \<noteq> GAME_STATE_PREFLOP \<longrightarrow> r < GAME_STATE_POST_RIVER \<longrightarrow> limits_of r c = (0, 2 * currentSmallBlind (clGame cl'))"
    using start(5) g(3) by simp
  moreover have "client_ready c" using start(1) unfolding k(2) by (simp add: client_ready_def update_bero_def)
  moreover have "board c = board k" "currentRound c = currentRound k" unfolding k(2) by (simp_all add: update_bero_def)
  ultimately show ?thesis using start(2-4) same(3) by simp
qed

text \<open>C7: A client that follows the messages plays the hand of the server. Before a hand of a two-player
  game the waiting client knows the same players with the same cash as the server, and handles a
  message that starts the hand, one of those that the server sends, without an error. Then, whatever
  the players, the timeouts and the connections do, the client handles the messages of the blinds and
  all that the server sends during the hand, in their order, without an error: no player is unknown,
  no bet is refused. While the hand runs it has the server's cash and set of every player, the
  server's pot and collected sets, the cards of the board that belong to the round and, for the
  server's current round and the rounds to come, the server's highest set; the server's minimum
  raise it has in the first round, and in the others if the client's own count of the blinds has
  arrived at the small blind of the server. When the server waits for a player the client is in the
  server's round with that player on turn; and when the hand is over it has the cash that everybody
  really owns and an empty pot.\<close>

theorem client_in_sync:
  assumes "deck_ok deck" "between_hands T (game_board g)" "blinds_pos g" "T < 2 ^ 31"
    and "dealerPosition g \<in> set (map myUniqueID (seatsList (game_board g)))"
    and "initHand deck minutes g = Inr g'" "currentHand g' = Some h"
    and "clPhase cl = ClientWaitHand" "between_hands T (game_board (clGame cl))"
    and "length (boardCards (game_board (clGame cl))) = 5"
    and "money_of (game_board (clGame cl)) = money_of (game_board g)"
    and "HandStart v m \<in> set (start_messages password L gameId numPlayers h)"
    and "client_handle L' minutes' (HandStart v m) cl = Inr cl'" "currentHand (clGame cl') = Some c0"
    and "server_talk (Looping, start_on_server h) ms s"
  shows "\<exists>c. hear (blind_messages (start_on_server h) @ ms) c0 = Inr c \<and>
    in_sync (currentSmallBlind (clGame cl') = smallBlind h) s c"
proof -
  let ?g1 = "raiseBlinds minutes (g\<lparr>currentHandID := currentHandID g + 1\<rparr>)"
  obtain d where turns: "turns_ok T d (start_on_server h)" and bp: "blinds_pos ?g1"
    and new: "new_hand deck (prepare_board (game_board g)) (currentHandID ?g1) (gameStartQuantityPlayers ?g1)
      (dealerPosition g) (currentSmallBlind ?g1) (gameStartCash ?g1) = Inr h"
    using initHand_dealt [OF assms(1-3,5), of minutes] assms(6,7) by auto
  have sB: "0 \<le> currentSmallBlind ?g1" "smallBlind h = currentSmallBlind ?g1"
    using bp new_hand_smallBlind [OF new] by (simp_all add: blinds_pos_def)
  obtain e where e: "e < 2" "dealerPosition g = myUniqueID (seatsList (game_board g) ! e)"
    using assms(2,5) by (auto simp: between_hands_def in_set_conv_nth)
  have sent: "netPlayerStateNoMoney \<notin> set (hs_seatstates m)"
    by (rule hand_start_sent(2) [OF assms(12) new_hand_staged(1) [OF assms(1,2) new]])
  have "handle_hand_start L' minutes' m cl = Inr cl'" using assms(8,13) by (simp add: client_handle_def)
  note c0 = hand_start_heard [OF this assms(14,9,10) sent]
  have "\<exists>c. hear (blind_messages (start_on_server h)) c0 = Inr c \<and>
      client_view (currentSmallBlind (clGame cl') = smallBlind h) (start_on_server h) c"
    by (rule start_sync [OF assms(1,2) e(1) sB(1) new [unfolded e(2)]]) (use c0 assms(11) sB(2) in auto)
  then obtain c where c: "hear (blind_messages (start_on_server h)) c0 = Inr c"
    "client_view (currentSmallBlind (clGame cl') = smallBlind h) (start_on_server h) c" by blast
  have "phase_turns T d (Looping, start_on_server h)" using turns by (simp add: phase_turns_def)
  moreover have "in_sync (currentSmallBlind (clGame cl') = smallBlind h) (Looping, start_on_server h) c"
    using c(2) by (simp add: in_sync_def)
  ultimately show ?thesis using talk_sync [OF assms(15) _ assms(4)] c(1) by (simp add: hear_append)
qed

text \<open>The client of player 9, who sees himself in the first seat, in a game without a password.\<close>

definition sample_client_game :: game where
  "sample_client_game = sample_game\<lparr>gameBoard := (gameBoard sample_game)\<lparr>
     seatsList := rev (seatsList (gameBoard sample_game)), boardCards := [0, 0, 0, 0, 0]\<rparr>\<rparr>"

definition waiting_client :: client where
  "waiting_client = \<lparr>clGame = sample_client_game, clPhase = ClientWaitHand, clPassword = [], clGuiPlayerId = 9, clGameId = 4,
     clNumberOfPlayers = 2, clOrigGuiPlayerNum = 1\<rparr>"

definition unused_library :: crypt_library where
  "unused_library = \<lparr>libSHA1 = id, libCBCEncrypt = (\<lambda>key iv s. None), libCBCDecrypt = (\<lambda>key iv s. None)\<rparr>"

definition sample_hand_start :: hand_start where
  "sample_hand_start = \<lparr>hs_cards = PlainCards [7, 8], hs_seatstates = [netPlayerStateNormal, netPlayerStateNormal],
     hs_smallblind = smallBlind dealt_hand, hs_dealerplayerid = handDealerPosition dealt_hand\<rparr>"

lemma sample_client_start:
  "between_hands 1500 (game_board (clGame waiting_client))" "length (boardCards (game_board (clGame waiting_client))) = 5"
  "case handle_hand_start unused_library 0 sample_hand_start waiting_client of Inl _ \<Rightarrow> False
     | Inr k \<Rightarrow> (case currentHand (clGame k) of None \<Rightarrow> False | Some c \<Rightarrow> currentSmallBlind (clGame k) = smallBlind dealt_hand)"
  by (code_simp, code_simp, code_simp)

lemma sample_hand_start_sent:
  "HandStart 9 sample_hand_start \<in> set (start_messages (\<lambda>_. Some []) unused_library 4 2 dealt_hand)"
  by (simp add: start_messages_def hand_start_message_def start_cards_for_def seat_state_def sample_hand_start_def
      dealt_hand_def sample_hand_def sample_seat_def new_player_def)

lemma sample_client_money: "money_of (game_board (clGame waiting_client)) = money_of (game_board sample_game)"
proof
  fix u
  have s: "map (\<lambda>p. (myUniqueID p, myCash p, mySet p)) (seatsList (game_board sample_game)) = [(7, 1000, 0), (9, 500, 0)]"
    "map (\<lambda>p. (myUniqueID p, myCash p, mySet p)) (seatsList (game_board (clGame waiting_client))) = [(9, 500, 0), (7, 1000, 0)]"
    by (code_simp, code_simp)
  have m: "money_of t u = map_of (map (\<lambda>p. (myUniqueID p, myCash p, mySet p)) (seatsList t)) u" if two: "length (seatsList t) = 2" for t
  proof -
    obtain p q where "seatsList t = [p, q]" using two_elements [OF two] by blast
    then show ?thesis by (simp add: money_of_def getSeatIt_def seat_with_id_def numeral_2_eq_2)
  qed
  have "length (seatsList (game_board sample_game)) = 2" "length (seatsList (game_board (clGame waiting_client))) = 2"
    using sample_game_ok sample_client_start(1) by (simp_all add: between_hands_def)
  then show "money_of (game_board (clGame waiting_client)) u = money_of (game_board sample_game) u"
    by (simp add: m s)
qed

theorem client_in_sync_witness:
  "\<exists>ms h' cl' c0 c. client_handle unused_library 0 (HandStart 9 sample_hand_start) waiting_client = Inr cl' \<and>
     currentHand (clGame cl') = Some c0 \<and> server_talk (Looping, start_on_server dealt_hand) ms (Over, h') \<and>
     hear (blind_messages (start_on_server dealt_hand) @ ms) c0 = Inr c \<and> money_of (board c) = money_of (board h')"
proof -
  obtain h' where h': "server_steps (Looping, start_on_server dealt_hand) (Over, h')" by (rule given_up_ends)
  obtain ms where ms: "server_talk (Looping, start_on_server dealt_hand) ms (Over, h')"
    using server_steps_talk [OF h'] ..
  obtain g where g: "initHand sorted_deck 0 sample_game = Inr g" "currentHand g = Some dealt_hand"
    using sample_game_dealt by (auto split: sum.splits)
  have wait: "clPhase waiting_client = ClientWaitHand" by (simp add: waiting_client_def)
  obtain cl' c0 where k: "client_handle unused_library 0 (HandStart 9 sample_hand_start) waiting_client = Inr cl'"
    "currentHand (clGame cl') = Some c0"
    using sample_client_start(3) wait by (auto simp: client_handle_def split: sum.splits option.splits)
  from client_in_sync [OF sorted_deck_ok sample_game_ok sample_blinds _ sample_dealer g wait sample_client_start(1,2)
      sample_client_money sample_hand_start_sent k ms] k ms show ?thesis by (auto simp: in_sync_def)
qed

end
