(* ===== verification/Hole_Cards.thy ===== *)
theory Hole_Cards
  imports Client_Hand
begin

text \<open>
  The way of the hole cards from the server to a client: printed as decimal numbers, encrypted under
  the password of the session with \<open>Crypt_Helper\<close>, decrypted and read back. Of the cryptographic
  library only its documented law is used: decryption with the same key and initial vector undoes
  encryption.
\<close>

section \<open>Printing and reading a number\<close>

lemma digit_char: "n < 10 \<Longrightarrow> is_digit (char_of (48 + n)) \<and> of_char (char_of (48 + n) :: char) - 48 = (n :: nat)"
  by (simp add: is_digit_def)

lemma decimal_digits: "decimal n \<noteq> [] \<and> (\<forall>c \<in> set (decimal n). is_digit c)"
proof (induction n rule: decimal.induct)
  case (1 n)
  show ?case
  proof (cases "n < 10")
    case True
    then show ?thesis using digit_char [of n] by (simp add: decimal.simps [of n])
  next
    case False
    then show ?thesis using 1 digit_char [of "n mod 10"] by (simp add: decimal.simps [of n])
  qed
qed

lemma digits_value_snoc: "digits_value (ds @ [c]) = 10 * digits_value ds + (of_char c - 48)"
  by (simp add: digits_value_def)

lemma digits_value_decimal: "digits_value (decimal n) = n"
proof (induction n rule: decimal.induct)
  case (1 n)
  show ?case
  proof (cases "n < 10")
    case True
    then show ?thesis using digit_char [of n] by (simp add: decimal.simps [of n] digits_value_def)
  next
    case False
    then show ?thesis using 1 digit_char [of "n mod 10"] by (simp add: decimal.simps [of n] digits_value_snoc)
  qed
qed

lemma digit_not_other: "is_digit c \<Longrightarrow> \<not> is_space c \<and> c \<noteq> CHR ''-'' \<and> c \<noteq> CHR ''+''"
  by (auto simp: is_digit_def is_space_def)

text \<open>A number that is followed by white space or by the end is read completely.\<close>

definition ends_number :: "string \<Rightarrow> bool" where
  "ends_number s \<longleftrightarrow> (case s of [] \<Rightarrow> True | c # _ \<Rightarrow> \<not> is_digit c)"

lemma read_number_decimal:
  assumes "ends_number rest" "int n \<le> high" "low \<le> int n" "sp = [] \<or> sp = '' ''"
  shows "read_number low high (Some (sp @ decimal n @ rest), v) = (Some rest, int n)"
proof -
  note d = decimal_digits [of n]
  obtain c cs where cs: "decimal n = c # cs" "is_digit c" using d by (cases "decimal n") auto
  have space: "is_space (CHR '' '')" by (simp add: is_space_def)
  have skip: "dropWhile is_space (sp @ decimal n @ rest) = decimal n @ rest"
    using assms(4) digit_not_other [OF cs(2)] space by (auto simp: cs(1))
  have sign: "signed_digits (decimal n @ rest) = (False, decimal n @ rest)"
    using digit_not_other [OF cs(2)] by (simp add: signed_digits_def cs(1))
  have "takeWhile is_digit rest = []" "dropWhile is_digit rest = rest"
    using assms(1) by (cases rest; simp add: ends_number_def)+
  then have "takeWhile is_digit (decimal n @ rest) = decimal n" "dropWhile is_digit (decimal n @ rest) = rest"
    using d by (simp_all add: takeWhile_append2 dropWhile_append2)
  then show ?thesis
    using assms(2,3) d by (simp add: read_number_def skip sign digits_value_decimal)
qed

lemmas read_first = read_number_decimal [where sp = "[]", simplified]
lemmas read_next = read_number_decimal [where sp = "'' ''", simplified]

text \<open>The text of the server is read back by the client.\<close>

lemma read_plain_card_data:
  assumes "myUniqueID p < 2 ^ 32" "gameId < 2 ^ 32" "0 \<le> handId" "handId \<le> INT_MAX"
    and "\<forall>c \<in> {myCards p ! 0, myCards p ! 1}. 0 \<le> c \<and> c \<le> INT_MAX"
  shows "read_card_data (plain_card_data gameId handId p) =
    (int (myUniqueID p), int gameId, handId, [myCards p ! 0, myCards p ! 1])"
proof -
  have sp: "ends_number (CHR '' '' # s)" "ends_number []" for s by (simp_all add: ends_number_def is_digit_def)
  have dec: "decimal_int z = decimal (nat z)" if "0 \<le> z" for z using that by (simp add: decimal_int_def)
  have "int (myUniqueID p) < int (2 ^ 32)" "int gameId < int (2 ^ 32)" using assms(1,2) by (simp_all only: of_nat_less_iff)
  then have bounds: "int (myUniqueID p) \<le> 2 ^ 32 - 1" "int gameId \<le> 2 ^ 32 - 1" by simp_all
  have int: "read_number (- (2 ^ 31)) INT_MAX (Some (CHR '' '' # decimal (nat z) @ s), v) = (Some s, z)"
    if "0 \<le> z" "z \<le> INT_MAX" "ends_number s" for z s v
    using read_next [of s "nat z" INT_MAX "- (2 ^ 31)" v] that by simp
  let ?c0 = "myCards p ! 0" and ?c1 = "myCards p ! 1"
  have last: "read_number (- (2 ^ 31)) INT_MAX (Some (CHR '' '' # decimal (nat ?c1)), v) = (Some [], ?c1)" for v
    using int [of ?c1 "[]" v] assms(5) sp by simp
  have plain: "plain_card_data gameId handId p = decimal (myUniqueID p) @ CHR '' '' # decimal gameId @ CHR '' '' #
      decimal (nat handId) @ CHR '' '' # decimal (nat ?c0) @ CHR '' '' # decimal (nat ?c1)"
    using assms(3,5) by (simp add: plain_card_data_def dec)
  show ?thesis
    using assms(3-5) bounds
    by (simp only: read_card_data_def plain Let_def prod.case read_first [OF sp(1) bounds(1)] of_nat_0_le_iff
        read_next [OF sp(1) bounds(2)] int sp last insert_iff ball_simps simp_thms)
qed

text \<open>The text has no character 0, which would end it after the decryption, and is short.\<close>

lemma length_decimal: "n < 10 ^ Suc k \<Longrightarrow> length (decimal n) \<le> Suc k"
proof (induction k arbitrary: n)
  case 0
  then show ?case by (simp add: decimal.simps [of n])
next
  case (Suc k)
  then have "n div 10 < 10 ^ Suc k" by (simp add: less_mult_imp_div_less mult.commute)
  then show ?case using Suc.IH by (simp add: decimal.simps [of n])
qed

lemma length_decimal_int: "0 \<le> z \<Longrightarrow> z < 10 ^ 10 \<Longrightarrow> length (decimal_int z) \<le> 10"
  using length_decimal [of "nat z" 9] by (simp add: decimal_int_def nat_less_iff)

lemma decimal_no_nul: "list_all (\<lambda>c. c \<noteq> CHR 0x00) (decimal n)" "list_all (\<lambda>c. c \<noteq> CHR 0x00) (decimal_int z)"
proof -
  have "\<not> is_digit (CHR 0x00)" by (simp add: is_digit_def)
  then show n: "list_all (\<lambda>c. c \<noteq> CHR 0x00) (decimal n)" for n using decimal_digits [of n] by (auto simp: list_all_iff)
  show "list_all (\<lambda>c. c \<noteq> CHR 0x00) (decimal_int z)" using n by (simp add: decimal_int_def)
qed

lemma plain_card_data_text:
  assumes "myUniqueID p < 2 ^ 32" "gameId < 2 ^ 32" "0 \<le> handId" "handId \<le> INT_MAX"
    and "\<forall>c \<in> {myCards p ! 0, myCards p ! 1}. 0 \<le> c \<and> c \<le> INT_MAX"
  shows "list_all (\<lambda>c. c \<noteq> CHR 0x00) (plain_card_data gameId handId p)"
    "length (plain_card_data gameId handId p) < 2 ^ 32 - 15" "plain_card_data gameId handId p \<noteq> []"
proof -
  show "list_all (\<lambda>c. c \<noteq> CHR 0x00) (plain_card_data gameId handId p)"
    by (simp add: plain_card_data_def decimal_no_nul)
  show "plain_card_data gameId handId p \<noteq> []" by (simp add: plain_card_data_def)
  have "length (decimal (myUniqueID p)) \<le> 10" "length (decimal gameId) \<le> 10"
    using assms(1,2) length_decimal [of _ 9] by simp_all
  moreover have int: "length (decimal_int z) \<le> 10" if "0 \<le> z" "z \<le> INT_MAX" for z
    using that length_decimal_int by (simp add: INT_MAX_def)
  have "length (decimal_int handId) \<le> 10" "length (decimal_int (myCards p ! 0)) \<le> 10" "length (decimal_int (myCards p ! 1)) \<le> 10"
    using assms(3-5) by (blast intro: int)+
  ultimately show "length (plain_card_data gameId handId p) < 2 ^ 32 - 15"
    by (simp add: plain_card_data_def)
qed

section \<open>From the server to the client\<close>

text \<open>A library whose encryption does not fail on whole blocks.\<close>

definition lib_encrypts :: "crypt_library \<Rightarrow> bool" where
  "lib_encrypts L \<longleftrightarrow> (\<forall>key iv s. s \<noteq> [] \<longrightarrow> 16 dvd length s \<longrightarrow> libCBCEncrypt L key iv s \<noteq> None)"

lemma encrypts:
  assumes "lib_encrypts L" "16 \<le> length pw" "length pw < 2 ^ 31" "s \<noteq> []" "length s < 2 ^ 32 - 15"
  shows "AES128Encrypt L pw s \<noteq> None"
proof -
  note n = padded_size [OF assms(5)]
  have "BytesToKey L pw \<noteq> None"
    using assms(3) by (simp add: BytesToKey_def SHA1_DATA_SIZE_def Let_def word_less_nat_alt unat_of_nat)
  then obtain key iv where k: "BytesToKey L pw = Some (key, iv)" by auto
  have size: "(of_nat AES_BLOCK_SIZE :: 32 word) \<le> of_nat (length pw)" "(of_nat (length s) :: 32 word) \<noteq> 0"
    using assms(2-5) by (simp_all add: AES_BLOCK_SIZE_def word_le_nat_alt unat_of_nat unat_eq_0 [symmetric])
  have "0 < (length s + 15) div 16 * 16" using assms(4) by (cases s) auto
  then have pad: "ADD_PADDING (of_nat (length s)) \<noteq> 0" using n(1) by auto
  have "libCBCEncrypt L key iv (s @ replicate ((length s + 15) div 16 * 16 - length s) CHR 0x00) \<noteq> None"
    using assms(1,4) by (simp add: lib_encrypts_def)
  then show ?thesis using size pad n by (simp add: AES128Encrypt_def Let_def k)
qed

text \<open>C8: A client reads exactly the cards that it was dealt. What the server sends a player at the start of
  a hand, in plain text when his session has no password and encrypted otherwise, the client with the
  same password reads as the player's two cards when the data are for him, for his game and for the
  hand that he expects; encrypted cards for another player, game or hand are refused. When the
  library does not fail, the cards are sent exactly if the password is empty or has at least 16
  bytes. Of the library only the law of CBC decryption is assumed; padding, key derivation, the
  cut at the first character 0 and the printing and reading of the numbers are those of the code.\<close>

theorem hole_cards_arrive:
  assumes "cbc_law L"
    and "myUniqueID p < 2 ^ 32" "gameId < 2 ^ 32" "0 \<le> handId" "handId \<le> INT_MAX"
    and "\<forall>x \<in> {myCards p ! 0, myCards p ! 1}. 0 \<le> x \<and> x \<le> INT_MAX"
    and "length (clPassword c) < 2 ^ 31"
  shows "(lib_encrypts L \<longrightarrow> (start_cards_for L gameId handId (clPassword c) p = None \<longleftrightarrow>
            clPassword c \<noteq> [] \<and> length (clPassword c) < 16)) \<and>
    (start_cards_for L gameId handId (clPassword c) p = Some cards \<longrightarrow> my_start_cards L cards c =
      (if clPassword c = [] \<or> (myUniqueID p = clGuiPlayerId c \<and> gameId = clGameId c \<and> handId = currentHandID (clGame c) + 1)
       then Inr [myCards p ! 0, myCards p ! 1] else Inl ERR_CLIENT_UNKNOWN_PLAYER_ID))"
proof (cases "clPassword c = []")
  case True
  then show ?thesis by (auto simp: start_cards_for_def my_start_cards_def)
next
  case False
  note plain = plain_card_data_text [OF assms(2-6)]
  have arrive: "AES128Decrypt L (clPassword c) e = Some (plain_card_data gameId handId p) \<and> e \<noteq> []"
    if "AES128Encrypt L (clPassword c) (plain_card_data gameId handId p) = Some e" for e
    by (rule encrypted_decrypts [OF assms(1) that plain(1,2)])
  have "start_cards_for L gameId handId (clPassword c) p = None \<longleftrightarrow> length (clPassword c) < 16" if "lib_encrypts L"
    using short_password [of "clPassword c"] encrypts [OF that _ assms(7) plain(3,2)] arrive False
    by (cases "length (clPassword c) < 16") (auto simp: start_cards_for_def split: option.split)
  moreover have "my_start_cards L cards c =
      (if myUniqueID p = clGuiPlayerId c \<and> gameId = clGameId c \<and> handId = currentHandID (clGame c) + 1
       then Inr [myCards p ! 0, myCards p ! 1] else Inl ERR_CLIENT_UNKNOWN_PLAYER_ID)"
    if sent: "start_cards_for L gameId handId (clPassword c) p = Some cards"
  proof -
    obtain e where e: "AES128Encrypt L (clPassword c) (plain_card_data gameId handId p) = Some e" "cards = EncryptedCards e"
      using False sent by (auto simp: start_cards_for_def split: option.splits if_splits)
    show ?thesis
      using False arrive [OF e(1)] read_plain_card_data [OF assms(2-6)] by (simp add: my_start_cards_def e(2))
  qed
  ultimately show ?thesis using False by simp
qed

definition sample_client :: "string \<Rightarrow> client" where
  "sample_client pw = \<lparr>clGame = sample_game, clPhase = ClientWaitHand, clPassword = pw, clGuiPlayerId = 9, clGameId = 4,
     clNumberOfPlayers = 2, clOrigGuiPlayerNum = 1\<rparr>"

text \<open>A library that can be computed here: a sum of 20 bytes and a cipher that reverses the text.\<close>

definition sample_library :: crypt_library where
  "sample_library = \<lparr>libSHA1 = (\<lambda>s. take 20 (s @ replicate 20 CHR ''x'')),
     libCBCEncrypt = (\<lambda>key iv s. Some (rev s)), libCBCDecrypt = (\<lambda>key iv s. Some (rev s))\<rparr>"

theorem hole_cards_arrive_witness:
  "\<exists>cards. start_cards_for sample_library 4 1 ''a longer password'' (seats dealt_hand ! 1) = Some cards \<and>
     my_start_cards sample_library cards (sample_client ''a longer password'') = Inr [7, 8]"
proof -
  have f: "myUniqueID (seats dealt_hand ! 1) = 9" "myCards (seats dealt_hand ! 1) = [7, 8]" "currentHandID sample_game = 0"
    by (simp_all add: dealt_hand_def sample_hand_def sample_seat_def sample_game_def new_player_def)
  have lib: "cbc_law sample_library" "lib_encrypts sample_library"
    by (simp_all add: cbc_law_def lib_encrypts_def sample_library_def)
  have rule: "(lib_encrypts sample_library \<longrightarrow>
       (start_cards_for sample_library 4 1 (clPassword (sample_client ''a longer password'')) (seats dealt_hand ! 1) = None \<longleftrightarrow>
        clPassword (sample_client ''a longer password'') \<noteq> [] \<and> length (clPassword (sample_client ''a longer password'')) < 16)) \<and>
    (start_cards_for sample_library 4 1 (clPassword (sample_client ''a longer password'')) (seats dealt_hand ! 1) = Some cards \<longrightarrow>
     my_start_cards sample_library cards (sample_client ''a longer password'') =
      (if clPassword (sample_client ''a longer password'') = [] \<or> (myUniqueID (seats dealt_hand ! 1) = clGuiPlayerId (sample_client ''a longer password'')
          \<and> 4 = clGameId (sample_client ''a longer password'') \<and> 1 = currentHandID (clGame (sample_client ''a longer password'')) + 1)
       then Inr [myCards (seats dealt_hand ! 1) ! 0, myCards (seats dealt_hand ! 1) ! 1] else Inl ERR_CLIENT_UNKNOWN_PLAYER_ID))" for cards
    by (rule hole_cards_arrive [OF lib(1)]) (simp_all add: sample_client_def f [simplified] INT_MAX_def)
  have "start_cards_for sample_library 4 1 ''a longer password'' (seats dealt_hand ! 1) \<noteq> None"
    using rule [of undefined] lib(2) by (simp add: sample_client_def)
  then obtain cards where cards: "start_cards_for sample_library 4 1 ''a longer password'' (seats dealt_hand ! 1) = Some cards" by auto
  then show ?thesis using rule [of cards] by (simp add: sample_client_def f [simplified])
qed

end
