(* ===== verification/Framing.thy ===== *)
theory Framing
  imports Poker_Prelude "HOL-Library.Word"
begin

text \<open>
  Packets on a TCP connection: four bytes with the size in network byte order, then the serialized
  message. \<open>htonl\<close> and \<open>ntohl\<close> with \<open>memcpy\<close> are the big-endian bytes of a 32-bit word.
\<close>

type_synonym byte = "8 word"

section \<open>Network byte order\<close>

definition htonl_bytes :: "nat \<Rightarrow> byte list" where
  "htonl_bytes n = map (\<lambda>k. word_of_nat (n div 256 ^ k)) [3, 2, 1, 0]"

definition ntohl_bytes :: "byte list \<Rightarrow> nat" where
  "ntohl_bytes bs = fold (\<lambda>b n. 256 * n + unat b) bs 0"

lemma length_htonl [simp]: "length (htonl_bytes n) = 4"
  by (simp add: htonl_bytes_def)

lemma ntohl_htonl:
  assumes "n < 2 ^ 32"
  shows "ntohl_bytes (htonl_bytes n) = n"
proof -
  have u: "unat (word_of_nat m :: byte) = m mod 256" for m :: nat
    by (simp add: unat_of_nat)
  have "n div 16777216 < 256" using assms by (simp add: div_less_iff_less_mult)
  then have top: "n div 16777216 mod 256 = n div 16777216" by simp
  have step: "256 * (m div 256) + m mod 256 = m" for m :: nat by simp
  have divs: "n div 65536 div 256 = n div 16777216" "n div 256 div 256 = n div 65536"
    by (simp_all add: div_mult2_eq [symmetric])
  have "256 * (n div 16777216) + n div 65536 mod 256 = n div 65536" using step [of "n div 65536"] divs(1) by simp
  then have "256 * (256 * (n div 16777216) + n div 65536 mod 256) + n div 256 mod 256 = n div 256"
    using step [of "n div 256"] divs(2) by simp
  then have "256 * (256 * (256 * (n div 16777216) + n div 65536 mod 256) + n div 256 mod 256) + n mod 256 = n"
    using step [of n] by simp
  then show ?thesis by (simp only: ntohl_bytes_def htonl_bytes_def list.map fold_simps u power_0 power_one_right)
      (simp add: top)
qed

section \<open>Frames\<close>

definition NET_HEADER_SIZE :: nat where "NET_HEADER_SIZE = 4"

definition frame_bytes :: "byte list \<Rightarrow> byte list" where
  "frame_bytes m = htonl_bytes (length m) @ m"

definition size_field :: "byte list \<Rightarrow> nat" where
  "size_field buf = ntohl_bytes (take NET_HEADER_SIZE buf)"

lemma size_field_frame: "length m < 2 ^ 32 \<Longrightarrow> size_field (frame_bytes m @ rest) = length m"
  by (simp add: size_field_def frame_bytes_def NET_HEADER_SIZE_def ntohl_htonl)

lemma frame_parts [simp]:
  "length (frame_bytes m) = length m + 4" "frame_bytes m \<noteq> []"
  "take (length m) (drop NET_HEADER_SIZE (frame_bytes m @ rest)) = m"
  "drop (length m + NET_HEADER_SIZE) (frame_bytes m @ rest) = rest"
proof -
  have h: "length (htonl_bytes (length m)) = 4" by simp
  show "length (frame_bytes m) = length m + 4" "take (length m) (drop NET_HEADER_SIZE (frame_bytes m @ rest)) = m"
    "drop (length m + NET_HEADER_SIZE) (frame_bytes m @ rest) = rest"
    by (simp_all add: frame_bytes_def NET_HEADER_SIZE_def)
  then show "frame_bytes m \<noteq> []" by auto
qed

text \<open>What has been received of a stream of frames begins with the first frame or is shorter than it.\<close>

lemma stream_prefix:
  assumes "buf @ later = concat (map frame_bytes (m # ms))"
  shows "length buf < length m + 4 \<or> (\<exists>rest. buf = frame_bytes m @ rest \<and> rest @ later = concat (map frame_bytes ms))"
proof (cases "length (frame_bytes m) \<le> length buf")
  case True
  have e: "buf @ later = frame_bytes m @ concat (map frame_bytes ms)" using assms by simp
  then obtain us where "buf = frame_bytes m @ us \<and> us @ later = concat (map frame_bytes ms) \<or>
      buf @ us = frame_bytes m \<and> later = us @ concat (map frame_bytes ms)"
    unfolding append_eq_append_conv2 by blast
  then show ?thesis using True by (metis append_Nil2 append_eq_append_conv length_append le_add1 le_antisym self_append_conv2)
qed simp

end
