(* ===== verification/Send_Buffer.thy ===== *)
theory Send_Buffer
  imports Framing "HOL-Library.While_Combinator"
begin

text \<open>
  The send buffer of a connection (\<open>AsioSendBuffer\<close>, \<open>src/src/net/asiosendbuffer.cpp\<close>): packets are
  appended to one vector while the other one is being written. A message is its serialized bytes;
  \<open>async_write\<close> is an action of the model. The variants for SSL do the same on another stream.
\<close>

definition SEND_BUF_FIRST_ALLOC_CHUNKSIZE :: nat where "SEND_BUF_FIRST_ALLOC_CHUNKSIZE = 4096"
definition MAX_SEND_BUF_SIZE :: nat where "MAX_SEND_BUF_SIZE = SEND_BUF_FIRST_ALLOC_CHUNKSIZE * 256"

record send_buffer =
  sendBuf :: "byte list"
  curWriteBuf :: "byte list"
  sendBufUsed :: nat
  curWriteBufUsed :: nat
  closeAfterSend :: bool

definition new_send_buffer :: send_buffer where
  "new_send_buffer = \<lparr>sendBuf = [], curWriteBuf = [], sendBufUsed = 0, curWriteBufUsed = 0, closeAfterSend = False\<rparr>"

section \<open>Storing a packet\<close>

definition GetSendBufLeft :: "send_buffer \<Rightarrow> nat" where
  "GetSendBufLeft sb = (if length (sendBuf sb) > sendBufUsed sb then length (sendBuf sb) - sendBufUsed sb else 0)"

definition ReallocSendBuf :: "send_buffer \<Rightarrow> bool \<times> send_buffer" where
  "ReallocSendBuf sb =
    (let wanted = (if sendBuf sb = [] then SEND_BUF_FIRST_ALLOC_CHUNKSIZE else length (sendBuf sb) * 2);
         newSize = (if wanted > MAX_SEND_BUF_SIZE then MAX_SEND_BUF_SIZE else wanted)
     in if newSize \<le> length (sendBuf sb) then (False, sb)
        else (True, sb\<lparr>sendBuf := sendBuf sb @ replicate (newSize - length (sendBuf sb)) 0\<rparr>))"

text \<open>\<open>AppendToSendBufWithoutCheck\<close> throws when the vector is too short.\<close>

definition AppendToSendBufWithoutCheck :: "byte list \<Rightarrow> send_buffer \<Rightarrow> send_buffer option" where
  "AppendToSendBufWithoutCheck d sb =
    (if length (sendBuf sb) < sendBufUsed sb + length d then None
     else Some (sb\<lparr>sendBuf := take (sendBufUsed sb) (sendBuf sb) @ d @ drop (sendBufUsed sb + length d) (sendBuf sb),
                   sendBufUsed := sendBufUsed sb + length d\<rparr>))"

text \<open>The loop is \<open>while_option\<close>: its value is \<open>None\<close> when it does not end. The result is \<open>None\<close> for an
  exception or a loop that does not end, otherwise whether the data were stored.\<close>

definition make_room :: "nat \<Rightarrow> send_buffer \<Rightarrow> (bool \<times> send_buffer) option" where
  "make_room n sb =
     while_option (\<lambda>(ok, sb). ok \<and> GetSendBufLeft sb < n) (\<lambda>(ok, sb). ReallocSendBuf sb) (True, sb)"

definition EncodeToBuf :: "byte list \<Rightarrow> send_buffer \<Rightarrow> (bool \<times> send_buffer) option" where
  "EncodeToBuf d sb =
    (case make_room (length d) sb of
       None \<Rightarrow> None
     | Some (ok, sb') \<Rightarrow>
         if ok then map_option (Pair True) (AppendToSendBufWithoutCheck d sb') else Some (False, sb'))"

definition InternalStorePacket :: "byte list \<Rightarrow> send_buffer \<Rightarrow> (bool \<times> send_buffer) option" where
  "InternalStorePacket m sb =
    (if length m > MAX_SEND_BUF_SIZE \<or> length m > 2 ^ 32 - 1 then Some (False, sb)
     else EncodeToBuf (frame_bytes m) sb)"

section \<open>Writing\<close>

datatype send_action = Idle | AsyncWrite "byte list" | CloseSocket

definition AsyncSendNextPacket :: "send_buffer \<Rightarrow> send_action \<times> send_buffer" where
  "AsyncSendNextPacket sb =
    (if curWriteBufUsed sb = 0 then
       (let sb1 = sb\<lparr>sendBuf := curWriteBuf sb, curWriteBuf := sendBuf sb,
                     sendBufUsed := curWriteBufUsed sb, curWriteBufUsed := sendBufUsed sb\<rparr>
        in if curWriteBufUsed sb1 \<noteq> 0 then (AsyncWrite (take (curWriteBufUsed sb1) (curWriteBuf sb1)), sb1)
           else if closeAfterSend sb1 then (CloseSocket, sb1\<lparr>closeAfterSend := False\<rparr>)
           else (Idle, sb1))
     else (Idle, sb))"

text \<open>The end of a write.\<close>

definition HandleWrite :: "bool \<Rightarrow> send_buffer \<Rightarrow> send_action \<times> send_buffer" where
  "HandleWrite error sb =
    (let sb1 = sb\<lparr>curWriteBufUsed := 0\<rparr> in if \<not> error then AsyncSendNextPacket sb1 else (CloseSocket, sb1))"

definition SetCloseAfterSend :: "send_buffer \<Rightarrow> send_buffer" where
  "SetCloseAfterSend sb = sb\<lparr>closeAfterSend := True\<rparr>"

section \<open>What is stored\<close>

definition pending :: "send_buffer \<Rightarrow> byte list" where
  "pending sb = take (sendBufUsed sb) (sendBuf sb)"

definition send_ok :: "send_buffer \<Rightarrow> bool" where
  "send_ok sb \<longleftrightarrow> sendBufUsed sb \<le> length (sendBuf sb) \<and> length (sendBuf sb) \<le> MAX_SEND_BUF_SIZE \<and>
     curWriteBufUsed sb \<le> length (curWriteBuf sb) \<and> length (curWriteBuf sb) \<le> MAX_SEND_BUF_SIZE"

text \<open>Only the vector that is filled grows.\<close>

definition grown :: "send_buffer \<Rightarrow> send_buffer \<Rightarrow> bool" where
  "grown sb sb' \<longleftrightarrow> (\<exists>k. sb' = sb\<lparr>sendBuf := sendBuf sb @ replicate k 0\<rparr>) \<and> length (sendBuf sb') \<le> MAX_SEND_BUF_SIZE"

lemma ReallocSendBuf_grown:
  assumes "grown sb s" "sendBufUsed sb \<le> length (sendBuf sb)"
  shows "grown sb (snd (ReallocSendBuf s))"
    "fst (ReallocSendBuf s) \<longleftrightarrow> length (sendBuf s) < MAX_SEND_BUF_SIZE"
    "fst (ReallocSendBuf s) \<Longrightarrow> length (sendBuf s) < length (sendBuf (snd (ReallocSendBuf s)))"
    "\<not> fst (ReallocSendBuf s) \<Longrightarrow> snd (ReallocSendBuf s) = s"
proof -
  have len: "length (sendBuf s) \<le> MAX_SEND_BUF_SIZE" using assms(1) by (simp add: grown_def)
  have pos: "0 < SEND_BUF_FIRST_ALLOC_CHUNKSIZE" "SEND_BUF_FIRST_ALLOC_CHUNKSIZE \<le> MAX_SEND_BUF_SIZE"
    by (simp_all add: SEND_BUF_FIRST_ALLOC_CHUNKSIZE_def MAX_SEND_BUF_SIZE_def)
  show "fst (ReallocSendBuf s) \<longleftrightarrow> length (sendBuf s) < MAX_SEND_BUF_SIZE"
    "fst (ReallocSendBuf s) \<Longrightarrow> length (sendBuf s) < length (sendBuf (snd (ReallocSendBuf s)))"
    "\<not> fst (ReallocSendBuf s) \<Longrightarrow> snd (ReallocSendBuf s) = s"
    using len pos by (auto simp: ReallocSendBuf_def Let_def split: if_splits)
  obtain k where k: "s = sb\<lparr>sendBuf := sendBuf sb @ replicate k 0\<rparr>" using assms(1) by (auto simp: grown_def)
  have "\<exists>j. snd (ReallocSendBuf s) = s\<lparr>sendBuf := sendBuf s @ replicate j 0\<rparr>"
    by (simp add: ReallocSendBuf_def Let_def) (metis append_Nil2 replicate_0 send_buffer.surjective send_buffer.update_convs(1))
  then have "\<exists>j. snd (ReallocSendBuf s) = sb\<lparr>sendBuf := sendBuf sb @ replicate j 0\<rparr>"
    unfolding k by (auto simp flip: replicate_add)
  moreover have "length (sendBuf (snd (ReallocSendBuf s))) \<le> MAX_SEND_BUF_SIZE"
    using len by (simp add: ReallocSendBuf_def Let_def)
  ultimately show "grown sb (snd (ReallocSendBuf s))" by (simp add: grown_def)
qed

text \<open>The loop ends: every round but the last enlarges the vector, which is bounded.\<close>

lemma make_room_ends:
  assumes "sendBufUsed sb \<le> length (sendBuf sb)" "length (sendBuf sb) \<le> MAX_SEND_BUF_SIZE"
  shows "\<exists>ok sb'. make_room n sb = Some (ok, sb') \<and> grown sb sb' \<and>
    (if ok then n \<le> GetSendBufLeft sb' else GetSendBufLeft sb' < n \<and> length (sendBuf sb') = MAX_SEND_BUF_SIZE)"
proof -
  let ?b = "\<lambda>(ok, sb). ok \<and> GetSendBufLeft sb < n" and ?c = "\<lambda>(ok, s). ReallocSendBuf s"
  let ?P = "\<lambda>(ok, s). grown sb s \<and> (\<not> ok \<longrightarrow> GetSendBufLeft s < n \<and> length (sendBuf s) = MAX_SEND_BUF_SIZE)"
  let ?f = "\<lambda>(ok, s). if ok then Suc (MAX_SEND_BUF_SIZE - length (sendBuf s)) else 0"
  have g0: "grown sb sb" using assms(2) by (simp add: grown_def) (metis append_Nil2 replicate_0 send_buffer.surjective send_buffer.update_convs(1))
  have step: "?P (?c s) \<and> ?f (?c s) < ?f s" if "?P s" "?b s" for s
  proof -
    obtain ok t where s: "s = (ok, t)" by fastforce
    have t: "grown sb t" "ok" "GetSendBufLeft t < n" using that by (simp_all add: s)
    obtain ok' t' where r: "ReallocSendBuf t = (ok', t')" by fastforce
    note g = ReallocSendBuf_grown [OF t(1) assms(1), unfolded r, simplified]
    show ?thesis
    proof (cases ok')
      case True
      then have "length (sendBuf t) < MAX_SEND_BUF_SIZE" "length (sendBuf t) < length (sendBuf t')"
        "length (sendBuf t') \<le> MAX_SEND_BUF_SIZE" using g by (simp_all add: grown_def)
      then show ?thesis using True t(2) g(1) by (simp add: s r)
    next
      case False
      then have "length (sendBuf t) = MAX_SEND_BUF_SIZE" "t' = t" using g t(1) by (auto simp: grown_def)
      then show ?thesis using False t by (simp add: s r)
    qed
  qed
  have "\<exists>s. while_option ?b ?c (True, sb) = Some s"
    by (rule measure_while_option_Some [where P = ?P and f = ?f]) (use step g0 in simp_all)
  then obtain s where s: "make_room n sb = Some s" by (auto simp: make_room_def)
  moreover have "?P s" by (rule while_option_rule [OF _ s [unfolded make_room_def]]) (use step g0 in auto)
  moreover have "\<not> ?b s" by (rule while_option_stop [OF s [unfolded make_room_def]])
  ultimately show ?thesis by (cases s) (auto simp: not_less)
qed

lemma encode_stored:
  assumes "send_ok sb"
  shows "\<exists>sb'. EncodeToBuf d sb = Some (sendBufUsed sb + length d \<le> MAX_SEND_BUF_SIZE, sb') \<and> send_ok sb' \<and>
    pending sb' = (if sendBufUsed sb + length d \<le> MAX_SEND_BUF_SIZE then pending sb @ d else pending sb) \<and>
    curWriteBuf sb' = curWriteBuf sb \<and> curWriteBufUsed sb' = curWriteBufUsed sb"
proof -
  have ok: "sendBufUsed sb \<le> length (sendBuf sb)" "length (sendBuf sb) \<le> MAX_SEND_BUF_SIZE"
    using assms by (simp_all add: send_ok_def)
  obtain stored s where s: "make_room (length d) sb = Some (stored, s)" "grown sb s"
    "if stored then length d \<le> GetSendBufLeft s else GetSendBufLeft s < length d \<and> length (sendBuf s) = MAX_SEND_BUF_SIZE"
    using make_room_ends [OF ok] by blast
  obtain k where k: "s = sb\<lparr>sendBuf := sendBuf sb @ replicate k 0\<rparr>" and len: "length (sendBuf s) \<le> MAX_SEND_BUF_SIZE"
    using s(2) by (auto simp: grown_def)
  have left: "GetSendBufLeft s = length (sendBuf s) - sendBufUsed sb" by (simp add: GetSendBufLeft_def k)
  have used: "sendBufUsed sb \<le> length (sendBuf s)" using ok(1) by (simp add: k)
  have fits: "stored \<longleftrightarrow> sendBufUsed sb + length d \<le> MAX_SEND_BUF_SIZE"
    using s(3) left len used by (cases stored) auto
  have p: "pending s = pending sb" using ok(1) by (simp add: pending_def k)
  show ?thesis
  proof (cases stored)
    case False
    then show ?thesis using s(1) fits assms len used p by (simp add: EncodeToBuf_def send_ok_def) (simp add: k)
  next
    case True
    then have room: "sendBufUsed sb + length d \<le> length (sendBuf s)" using s(3) left used by simp
    let ?t = "s\<lparr>sendBuf := take (sendBufUsed s) (sendBuf s) @ d @ drop (sendBufUsed s + length d) (sendBuf s),
      sendBufUsed := sendBufUsed s + length d\<rparr>"
    have u: "sendBufUsed s = sendBufUsed sb" by (simp add: k)
    have "EncodeToBuf d sb = Some (True, ?t)"
      using True s(1) room u by (simp add: EncodeToBuf_def AppendToSendBufWithoutCheck_def)
    moreover have "pending ?t = pending sb @ d" using room u p ok(1) by (simp add: pending_def)
    moreover have "send_ok ?t" using assms room len used by (simp add: send_ok_def u) (simp add: k)
    ultimately show ?thesis using True fits by (simp add: k)
  qed
qed

text \<open>C13: Storing data always ends, without an exception, and is all or nothing. From any legal buffer the
  loop of \<open>EncodeToBuf\<close> that enlarges the vector ends after finitely many rounds; the data are appended
  to what is waiting exactly when both together fit into the largest buffer of 1 MiB, otherwise
  everything that was waiting is kept; what is being written is not touched.\<close>

theorem encode_all_or_nothing:
  assumes "send_ok sb"
  shows "\<exists>sb'. EncodeToBuf d sb = Some (sendBufUsed sb + length d \<le> MAX_SEND_BUF_SIZE, sb') \<and> send_ok sb' \<and>
    pending sb' = (if sendBufUsed sb + length d \<le> MAX_SEND_BUF_SIZE then pending sb @ d else pending sb) \<and>
    curWriteBuf sb' = curWriteBuf sb \<and> curWriteBufUsed sb' = curWriteBufUsed sb"
  using assms by (rule encode_stored)

theorem encode_all_or_nothing_witness:
  "\<exists>sb'. EncodeToBuf [1, 2, 3] new_send_buffer = Some (True, sb') \<and> pending sb' = [1, 2, 3]"
proof -
  have "send_ok new_send_buffer" by (simp add: send_ok_def new_send_buffer_def)
  from encode_all_or_nothing [OF this, of "[1, 2, 3]"] show ?thesis
    by (auto simp: new_send_buffer_def MAX_SEND_BUF_SIZE_def SEND_BUF_FIRST_ALLOC_CHUNKSIZE_def pending_def)
qed

end
