(* ===== verification/Receive_Buffer.thy ===== *)
theory Receive_Buffer
  imports Framing
begin

text \<open>
  The receive buffer of a connection (\<open>AsioReceiveBuffer\<close>, \<open>src/src/net/asioreceivebuffer.cpp\<close>): bytes
  arrive in any portions and are cut into packets. \<open>recvBuf\<close> is the used part of the array, so that
  \<open>memmove\<close> is \<open>drop\<close>. Parsing a packet (\<open>NetPacket::Create\<close>, \<open>None\<close> for the null pointer and for an
  exception, which are handled alike), its validation and what the session does with it are
  parameters; \<open>closed\<close> is the state of the session.
\<close>

definition MAX_PACKET_SIZE :: nat where "MAX_PACKET_SIZE = 384"
definition RECV_BUF_SIZE :: nat where "RECV_BUF_SIZE = 5 * MAX_PACKET_SIZE"

record 'p recv_buffer =
  recvBuf :: "byte list"
  receivedPackets :: "'p list"
  handled :: "'p list"
  closed :: bool

definition new_recv_buffer :: "'p recv_buffer" where
  "new_recv_buffer = \<lparr>recvBuf = [], receivedPackets = [], handled = [], closed = False\<rparr>"

section \<open>The operations\<close>

function ScanPackets :: "(byte list \<Rightarrow> 'p option) \<Rightarrow> ('p \<Rightarrow> bool) \<Rightarrow> 'p recv_buffer \<Rightarrow> 'p recv_buffer" where
  "ScanPackets create valid rb =
    (if length (recvBuf rb) \<ge> NET_HEADER_SIZE then
       (let packetSize = size_field (recvBuf rb) in
        if packetSize = 0 \<or> packetSize > MAX_PACKET_SIZE then rb\<lparr>recvBuf := [], closed := True\<rparr>
        else if length (recvBuf rb) \<ge> packetSize + NET_HEADER_SIZE then
          (let rest = rb\<lparr>recvBuf := drop (packetSize + NET_HEADER_SIZE) (recvBuf rb)\<rparr> in
           case create (take packetSize (drop NET_HEADER_SIZE (recvBuf rb))) of
             None \<Rightarrow> rest
           | Some p \<Rightarrow>
               if valid p then ScanPackets create valid (rest\<lparr>receivedPackets := receivedPackets rb @ [p]\<rparr>)
               else rest\<lparr>closed := True\<rparr>)
        else rb)
     else rb)"
  by pat_completeness auto
termination
  by (relation "measure (\<lambda>(create, valid, rb). length (recvBuf rb))") (auto simp: NET_HEADER_SIZE_def)

declare ScanPackets.simps [simp del]

text \<open>\<open>handler\<close> says whether the session closes itself over a packet; the loop goes on in any case.\<close>

definition ProcessPackets :: "('p \<Rightarrow> bool) \<Rightarrow> 'p recv_buffer \<Rightarrow> 'p recv_buffer" where
  "ProcessPackets closes rb =
    (let rb1 = rb\<lparr>receivedPackets := [], handled := handled rb @ receivedPackets rb,
                  closed := closed rb \<or> list_ex closes (receivedPackets rb)\<rparr>
     in if length (recvBuf rb1) \<ge> RECV_BUF_SIZE then rb1\<lparr>recvBuf := [], closed := True\<rparr> else rb1)"

text \<open>A read without an error. The next read is started when the session is not closed.\<close>

definition HandleRead ::
  "(byte list \<Rightarrow> 'p option) \<Rightarrow> ('p \<Rightarrow> bool) \<Rightarrow> ('p \<Rightarrow> bool) \<Rightarrow> byte list \<Rightarrow> 'p recv_buffer \<Rightarrow> 'p recv_buffer" where
  "HandleRead create valid closes bs rb =
    (if length (recvBuf rb) \<ge> RECV_BUF_SIZE \<or> length bs > RECV_BUF_SIZE - length (recvBuf rb)
     then rb\<lparr>closed := True\<rparr>
     else (let rb1 = ScanPackets create valid (rb\<lparr>recvBuf := recvBuf rb @ bs\<rparr>) in
           if closed rb1 then rb1 else ProcessPackets closes rb1))"

section \<open>Cutting a stream of frames\<close>

text \<open>A message that the receiver takes.\<close>

definition readable :: "(byte list \<Rightarrow> 'p option) \<Rightarrow> ('p \<Rightarrow> bool) \<Rightarrow> byte list \<Rightarrow> bool" where
  "readable create valid m \<longleftrightarrow> 0 < length m \<and> length m \<le> MAX_PACKET_SIZE \<and>
     (case create m of None \<Rightarrow> False | Some p \<Rightarrow> valid p)"

lemma scan_incomplete:
  assumes "readable create valid m" "recvBuf rb @ later = frame_bytes m @ tail" "length (recvBuf rb) < length m + 4"
  shows "ScanPackets create valid rb = rb"
proof (cases "length (recvBuf rb) \<ge> NET_HEADER_SIZE")
  case False
  then show ?thesis by (simp add: ScanPackets.simps [of create valid rb])
next
  case True
  have "take NET_HEADER_SIZE (recvBuf rb) = take NET_HEADER_SIZE (recvBuf rb @ later)" using True by simp
  also have "\<dots> = take NET_HEADER_SIZE (frame_bytes m @ tail)" by (simp only: assms(2))
  finally have "size_field (recvBuf rb) = size_field (frame_bytes m @ tail)" by (simp add: size_field_def)
  moreover have "length m < 2 ^ 32" "0 < length m" "length m \<le> MAX_PACKET_SIZE"
    using assms(1) by (simp_all add: readable_def MAX_PACKET_SIZE_def)
  ultimately have "size_field (recvBuf rb) = length m" using size_field_frame by simp
  then show ?thesis
    using assms(3) \<open>0 < length m\<close> \<open>length m \<le> MAX_PACKET_SIZE\<close>
    by (simp add: ScanPackets.simps [of create valid rb] NET_HEADER_SIZE_def)
qed

lemma scan_complete:
  assumes "readable create valid m" "recvBuf rb = frame_bytes m @ rest"
  shows "ScanPackets create valid rb =
    ScanPackets create valid (rb\<lparr>recvBuf := rest, receivedPackets := receivedPackets rb @ [the (create m)]\<rparr>)"
proof -
  obtain p where m: "length m < 2 ^ 32" "0 < length m" "length m \<le> MAX_PACKET_SIZE" "create m = Some p" "valid p"
    using assms(1) by (auto simp: readable_def MAX_PACKET_SIZE_def split: option.splits)
  have len: "NET_HEADER_SIZE \<le> length (recvBuf rb)" "length m + NET_HEADER_SIZE \<le> length (recvBuf rb)"
    by (simp_all add: assms(2) NET_HEADER_SIZE_def)
  have parts: "size_field (recvBuf rb) = length m" "take (length m) (drop NET_HEADER_SIZE (recvBuf rb)) = m"
    "drop (length m + NET_HEADER_SIZE) (recvBuf rb) = rest"
    unfolding assms(2) by (rule size_field_frame [OF m(1)], rule frame_parts(3), rule frame_parts(4))
  show ?thesis
    unfolding ScanPackets.simps [of create valid rb] Let_def parts using m len by simp
qed

text \<open>The bytes received so far of a stream of readable messages: all complete ones are taken, in
  order, and less than one frame is left.\<close>

lemma scan_stream:
  assumes "\<forall>m \<in> set ms. readable create valid m" "recvBuf rb @ later = concat (map frame_bytes ms)"
  shows "\<exists>k \<le> length ms. \<exists>rest.
    ScanPackets create valid rb =
      rb\<lparr>recvBuf := rest, receivedPackets := receivedPackets rb @ map (the \<circ> create) (take k ms)\<rparr> \<and>
    rest @ later = concat (map frame_bytes (drop k ms)) \<and> (\<forall>m ms'. drop k ms = m # ms' \<longrightarrow> length rest < length m + 4)"
  using assms
proof (induction ms arbitrary: rb)
  case Nil
  then have "ScanPackets create valid rb = rb" by (simp add: ScanPackets.simps [of create valid rb] NET_HEADER_SIZE_def)
  then show ?case using Nil by (intro exI [of _ 0] conjI exI [of _ "[]"]) simp_all
next
  case (Cons m ms)
  have m: "readable create valid m" using Cons.prems(1) by simp
  from stream_prefix [OF Cons.prems(2)] show ?case
  proof
    assume short: "length (recvBuf rb) < length m + 4"
    have "recvBuf rb @ later = frame_bytes m @ concat (map frame_bytes ms)" using Cons.prems(2) by simp
    from scan_incomplete [OF m this short] have "ScanPackets create valid rb = rb" .
    then show ?thesis using Cons.prems(2) short by (intro exI [of _ 0] conjI exI [of _ "recvBuf rb"]) simp_all
  next
    assume "\<exists>rest. recvBuf rb = frame_bytes m @ rest \<and> rest @ later = concat (map frame_bytes ms)"
    then obtain rest where r: "recvBuf rb = frame_bytes m @ rest" "rest @ later = concat (map frame_bytes ms)" by blast
    let ?rb = "rb\<lparr>recvBuf := rest, receivedPackets := receivedPackets rb @ [the (create m)]\<rparr>"
    have ms: "\<forall>m \<in> set ms. readable create valid m" "recvBuf ?rb @ later = concat (map frame_bytes ms)"
      using Cons.prems(1) r(2) by simp_all
    from Cons.IH [OF ms] obtain k rest' where
      "k \<le> length ms" "ScanPackets create valid ?rb =
        ?rb\<lparr>recvBuf := rest', receivedPackets := receivedPackets ?rb @ map (the \<circ> create) (take k ms)\<rparr>"
      "rest' @ later = concat (map frame_bytes (drop k ms))" "\<forall>m ms'. drop k ms = m # ms' \<longrightarrow> length rest' < length m + 4" by blast
    then show ?thesis using scan_complete [OF m r(1)] by (intro exI [of _ "Suc k"] conjI exI [of _ rest']) simp_all
  qed
qed

end
