(* ===== verification/Transport.thy ===== *)
theory Transport
  imports Send_Buffer Receive_Buffer
begin

text \<open>
  A connection from one sender to one receiver: \<open>SenderHelper\<close> (\<open>src/src/net/senderhelper.cpp\<close>) with the
  send buffer on one side, the receive buffer on the other, the bytes on the way in between. The
  wire does what TCP and \<open>async_write\<close> promise: the bytes arrive once and in order, in any portions
  that fit the receive buffer.
\<close>

section \<open>Sending\<close>

definition put_wire :: "send_action \<Rightarrow> byte list \<Rightarrow> byte list" where
  "put_wire a w = (case a of AsyncWrite bs \<Rightarrow> w @ bs | _ \<Rightarrow> w)"

definition Send :: "byte list \<Rightarrow> send_buffer \<Rightarrow> (bool \<times> send_action \<times> send_buffer) option" where
  "Send m sb = map_option (\<lambda>(ok, sb'). (ok, AsyncSendNextPacket sb')) (InternalStorePacket m sb)"

definition close_after_send :: "send_buffer \<Rightarrow> send_action \<times> send_buffer" where
  "close_after_send sb = AsyncSendNextPacket (SetCloseAfterSend sb)"

section \<open>The connection\<close>

text \<open>\<open>stored\<close> collects the messages that the sender has accepted, \<open>shut\<close> is set when it closes the socket.\<close>

record 'p link =
  sender :: send_buffer
  wire :: "byte list"
  receiver :: "'p recv_buffer"
  stored :: "byte list list"
  shut :: bool

definition new_link :: "'p link" where
  "new_link = \<lparr>sender = new_send_buffer, wire = [], receiver = new_recv_buffer, stored = [], shut = False\<rparr>"

inductive link_step ::
  "(byte list \<Rightarrow> 'p option) \<Rightarrow> ('p \<Rightarrow> bool) \<Rightarrow> ('p \<Rightarrow> bool) \<Rightarrow> 'p link \<Rightarrow> 'p link \<Rightarrow> bool"
  for create valid closes where
  send: "\<not> shut l \<Longrightarrow> Send m (sender l) = Some (ok, a, sb) \<Longrightarrow>
    link_step create valid closes l
      (l\<lparr>sender := sb, wire := put_wire a (wire l), stored := stored l @ (if ok then [m] else []), shut := (a = CloseSocket)\<rparr>)"
| written: "\<not> shut l \<Longrightarrow> curWriteBufUsed (sender l) \<noteq> 0 \<Longrightarrow> HandleWrite False (sender l) = (a, sb) \<Longrightarrow>
    link_step create valid closes l (l\<lparr>sender := sb, wire := put_wire a (wire l), shut := (a = CloseSocket)\<rparr>)"
| finish: "\<not> shut l \<Longrightarrow> close_after_send (sender l) = (a, sb) \<Longrightarrow>
    link_step create valid closes l (l\<lparr>sender := sb, wire := put_wire a (wire l), shut := (a = CloseSocket)\<rparr>)"
| read: "\<not> closed (receiver l) \<Longrightarrow> wire l = bs @ rest \<Longrightarrow> bs \<noteq> [] \<Longrightarrow>
    length bs \<le> RECV_BUF_SIZE - length (recvBuf (receiver l)) \<Longrightarrow>
    link_step create valid closes l (l\<lparr>receiver := HandleRead create valid closes bs (receiver l), wire := rest\<rparr>)"

section \<open>The bytes on the way\<close>

lemma next_packet_keeps:
  assumes "send_ok sb" "AsyncSendNextPacket sb = (a, sb')"
  shows "send_ok sb'" "put_wire a w @ pending sb' = w @ pending sb" "a = CloseSocket \<Longrightarrow> pending sb' = []"
  using assms
  by (auto simp: AsyncSendNextPacket_def Let_def send_ok_def pending_def put_wire_def split: if_splits)

lemma store_keeps:
  assumes "send_ok sb" "InternalStorePacket m sb = Some (ok, sb')"
  shows "send_ok sb'" "pending sb' = pending sb @ (if ok then frame_bytes m else [])"
proof -
  obtain s where s: "EncodeToBuf (frame_bytes m) sb = Some (sendBufUsed sb + length (frame_bytes m) \<le> MAX_SEND_BUF_SIZE, s)"
    "send_ok s" "pending s = (if sendBufUsed sb + length (frame_bytes m) \<le> MAX_SEND_BUF_SIZE then pending sb @ frame_bytes m
      else pending sb)"
    using encode_stored [OF assms(1)] by blast
  show "send_ok sb'" "pending sb' = pending sb @ (if ok then frame_bytes m else [])"
    using assms s by (auto simp: InternalStorePacket_def split: if_splits)
qed

lemma send_keeps:
  assumes "send_ok sb" "Send m sb = Some (ok, a, sb')"
  shows "send_ok sb'" "put_wire a w @ pending sb' = w @ pending sb @ (if ok then frame_bytes m else [])"
    "a = CloseSocket \<Longrightarrow> pending sb' = []"
proof -
  obtain s where s: "InternalStorePacket m sb = Some (ok, s)" "AsyncSendNextPacket s = (a, sb')"
    using assms(2) by (auto simp: Send_def)
  note st = store_keeps [OF assms(1) s(1)] and n = next_packet_keeps [OF st(1) s(2)]
  show "send_ok sb'" by (rule n(1))
  show "put_wire a w @ pending sb' = w @ pending sb @ (if ok then frame_bytes m else [])" using n(2) st(2) by simp
  show "a = CloseSocket \<Longrightarrow> pending sb' = []" by (rule n(3))
qed

section \<open>The invariant of a connection\<close>

definition takes :: "(byte list \<Rightarrow> 'p option) \<Rightarrow> ('p \<Rightarrow> bool) \<Rightarrow> ('p \<Rightarrow> bool) \<Rightarrow> byte list \<Rightarrow> bool" where
  "takes create valid closes m \<longleftrightarrow> readable create valid m \<and> \<not> closes (the (create m))"

definition link_ok :: "(byte list \<Rightarrow> 'p option) \<Rightarrow> 'p link \<Rightarrow> bool" where
  "link_ok create l \<longleftrightarrow> send_ok (sender l) \<and> \<not> closed (receiver l) \<and> receivedPackets (receiver l) = [] \<and>
     (shut l \<longrightarrow> pending (sender l) = []) \<and>
     (\<exists>k \<le> length (stored l). handled (receiver l) = map (the \<circ> create) (take k (stored l)) \<and>
        recvBuf (receiver l) @ wire l @ pending (sender l) = concat (map frame_bytes (drop k (stored l))) \<and>
        (\<forall>m ms. drop k (stored l) = m # ms \<longrightarrow> length (recvBuf (receiver l)) < length m + 4))"

lemma send_side:
  assumes ok: "link_ok create l" and s: "send_ok sb" "put_wire a (wire l) @ pending sb = wire l @ pending (sender l) @ concat (map frame_bytes ms)"
    and c: "a = CloseSocket \<longrightarrow> pending sb = []"
  shows "link_ok create (l\<lparr>sender := sb, wire := put_wire a (wire l), stored := stored l @ ms, shut := (a = CloseSocket)\<rparr>)"
proof -
  obtain k where k: "k \<le> length (stored l)" "handled (receiver l) = map (the \<circ> create) (take k (stored l))"
    "recvBuf (receiver l) @ wire l @ pending (sender l) = concat (map frame_bytes (drop k (stored l)))"
    "\<forall>m ms. drop k (stored l) = m # ms \<longrightarrow> length (recvBuf (receiver l)) < length m + 4"
    using ok by (auto simp: link_ok_def)
  have "recvBuf (receiver l) @ put_wire a (wire l) @ pending sb = concat (map frame_bytes (drop k (stored l) @ ms))"
    using k(3) by (simp add: s(2))
  moreover have "length (recvBuf (receiver l)) < length m + 4" if "drop k (stored l) @ ms = m # ms'" for m ms'
    using k(3,4) that by (cases "drop k (stored l)") auto
  ultimately show ?thesis
    using ok k(1,2) s(1) c unfolding link_ok_def by (intro conjI exI [of _ k]) auto
qed

lemma read_side:
  assumes ok: "link_ok create l" and wire: "wire l = bs @ rest" "length bs \<le> RECV_BUF_SIZE - length (recvBuf (receiver l))"
    and takes: "\<forall>m \<in> set (stored l). takes create valid closes m"
  shows "link_ok create (l\<lparr>receiver := HandleRead create valid closes bs (receiver l), wire := rest\<rparr>)"
proof -
  let ?r = "receiver l"
  obtain k where k: "k \<le> length (stored l)" "handled ?r = map (the \<circ> create) (take k (stored l))"
    "recvBuf ?r @ wire l @ pending (sender l) = concat (map frame_bytes (drop k (stored l)))"
    "\<forall>m ms. drop k (stored l) = m # ms \<longrightarrow> length (recvBuf ?r) < length m + 4"
    using ok by (auto simp: link_ok_def)
  have small: "length (recvBuf ?r) < MAX_PACKET_SIZE + 4"
  proof (cases "drop k (stored l)")
    case Nil
    then show ?thesis using k(3) by (simp add: MAX_PACKET_SIZE_def)
  next
    case (Cons m ms)
    then have "m \<in> set (stored l)" by (metis in_set_dropD list.set_intros(1))
    then have "length m \<le> MAX_PACKET_SIZE" using takes by (simp add: takes_def readable_def)
    then show ?thesis using k(4) Cons by fastforce
  qed
  then have room: "\<not> length (recvBuf ?r) \<ge> RECV_BUF_SIZE" by (simp add: RECV_BUF_SIZE_def MAX_PACKET_SIZE_def)
  let ?ms = "drop k (stored l)"
  have readable: "\<forall>m \<in> set ?ms. readable create valid m" using takes by (auto simp: takes_def dest: in_set_dropD)
  let ?rb = "?r\<lparr>recvBuf := recvBuf ?r @ bs\<rparr>"
  have stream: "recvBuf ?rb @ rest @ pending (sender l) = concat (map frame_bytes ?ms)" using k(3) wire(1) by simp
  obtain j buf where j: "j \<le> length ?ms"
    "ScanPackets create valid ?rb =
      ?rb\<lparr>recvBuf := buf, receivedPackets := receivedPackets ?rb @ map (the \<circ> create) (take j ?ms)\<rparr>"
    "buf @ rest @ pending (sender l) = concat (map frame_bytes (drop j ?ms))"
    "\<forall>m ms. drop j ?ms = m # ms \<longrightarrow> length buf < length m + 4"
    using scan_stream [OF readable stream] by blast
  have r: "\<not> closed ?r" "receivedPackets ?r = []" using ok by (simp_all add: link_ok_def)
  have buf: "length buf < RECV_BUF_SIZE"
  proof (cases "drop j ?ms")
    case Nil
    then show ?thesis using j(3) by (simp add: RECV_BUF_SIZE_def MAX_PACKET_SIZE_def)
  next
    case (Cons m ms)
    then have "m \<in> set ?ms" by (metis in_set_dropD list.set_intros(1))
    then have "length m \<le> MAX_PACKET_SIZE" using readable by (simp add: readable_def)
    moreover have "length buf < length m + 4" using j(4) Cons by blast
    ultimately show ?thesis by (simp add: RECV_BUF_SIZE_def MAX_PACKET_SIZE_def)
  qed
  have "\<not> list_ex closes (map (the \<circ> create) (take j ?ms))"
    using takes by (auto simp: list_ex_iff takes_def dest!: in_set_takeD in_set_dropD)
  then have h: "HandleRead create valid closes bs ?r =
      ?r\<lparr>recvBuf := buf, receivedPackets := [], handled := handled ?r @ map (the \<circ> create) (take j ?ms)\<rparr>"
    using room wire(2) r buf by (simp add: HandleRead_def j(2) ProcessPackets_def Let_def)
  have "k + j \<le> length (stored l)" using k(1) j(1) by simp
  moreover have "handled ?r @ map (the \<circ> create) (take j ?ms) = map (the \<circ> create) (take (k + j) (stored l))"
    by (simp add: k(2) take_add)
  moreover have "drop j ?ms = drop (k + j) (stored l)" by (simp add: add.commute)
  ultimately show ?thesis
    using ok j(3,4) h unfolding link_ok_def by (intro conjI exI [of _ "k + j"]) auto
qed

lemma link_step_ok:
  assumes "link_step create valid closes l l'" "link_ok create l" "\<forall>m \<in> set (stored l). takes create valid closes m"
  shows "link_ok create l'"
  using assms(1)
proof cases
  case (send m ok a sb)
  have s: "send_ok (sender l)" using assms(2) by (simp add: link_ok_def)
  note k = send_keeps [OF s send(3)]
  have "put_wire a (wire l) @ pending sb = wire l @ pending (sender l) @ concat (map frame_bytes (if ok then [m] else []))"
    using k(2) by simp
  from send_side [OF assms(2) k(1) this] k(3) send(1) show ?thesis by simp
next
  case (written a sb)
  have "send_ok ((sender l)\<lparr>curWriteBufUsed := 0\<rparr>)" using assms(2) by (simp add: link_ok_def send_ok_def)
  note n = next_packet_keeps [OF this, of a sb]
  have "AsyncSendNextPacket ((sender l)\<lparr>curWriteBufUsed := 0\<rparr>) = (a, sb)" using written(4) by (simp add: HandleWrite_def)
  note n = n [OF this]
  have "pending ((sender l)\<lparr>curWriteBufUsed := 0\<rparr>) = pending (sender l)" by (simp add: pending_def)
  then have "put_wire a (wire l) @ pending sb = wire l @ pending (sender l) @ concat (map frame_bytes [])" using n(2) by simp
  from send_side [OF assms(2) n(1) this] n(3) written(1) show ?thesis by simp
next
  case (finish a sb)
  have "send_ok (SetCloseAfterSend (sender l))" using assms(2) by (simp add: link_ok_def send_ok_def SetCloseAfterSend_def)
  note n = next_packet_keeps [OF this finish(3) [unfolded close_after_send_def]]
  have "pending (SetCloseAfterSend (sender l)) = pending (sender l)" by (simp add: pending_def SetCloseAfterSend_def)
  then have "put_wire a (wire l) @ pending sb = wire l @ pending (sender l) @ concat (map frame_bytes [])" using n(2) by simp
  from send_side [OF assms(2) n(1) this] n(3) finish(1) show ?thesis by simp
next
  case (read bs rest)
  then show ?thesis using read_side [OF assms(2) read(3,5) assms(3)] by simp
qed

lemma link_step_stored: "link_step create valid closes l l' \<Longrightarrow> set (stored l) \<subseteq> set (stored l')"
  by (induction rule: link_step.induct) auto

lemma link_run_ok:
  assumes "(link_step create valid closes)\<^sup>*\<^sup>* new_link l" "\<forall>m \<in> set (stored l). takes create valid closes m"
  shows "link_ok create l"
  using assms
proof (induction rule: rtranclp_induct)
  case base
  show ?case
    by (simp add: link_ok_def new_link_def new_send_buffer_def new_recv_buffer_def send_ok_def pending_def)
next
  case (step l l')
  then have "\<forall>m \<in> set (stored l). takes create valid closes m" using link_step_stored by blast
  then show ?case using step link_step_ok by blast
qed

text \<open>C12: Packets arrive completely, once and in order. In every state of a connection, however the packets
  are collected for a write, whenever a write ends, in whatever portions the bytes arrive and
  whether or not the sender closes the connection after sending: when the accepted messages have 1
  to 384 bytes, are parsed and validated by the receiver and do not make its session close itself,
  the receiver has handled exactly the packets of the first \<open>k\<close> accepted messages, it never closes
  the connection over a packet boundary, and when nothing is on the way any more it has handled all
  of them; a sender that closes the socket has put everything on the way before.\<close>

theorem packets_in_order:
  assumes "(link_step create valid closes)\<^sup>*\<^sup>* new_link l" "\<forall>m \<in> set (stored l). takes create valid closes m"
  shows "\<not> closed (receiver l) \<and> (shut l \<longrightarrow> pending (sender l) = []) \<and>
    (\<exists>k \<le> length (stored l). handled (receiver l) = map (the \<circ> create) (take k (stored l)) \<and>
       (wire l = [] \<and> pending (sender l) = [] \<longrightarrow> k = length (stored l)))"
proof -
  note ok = link_run_ok [OF assms]
  then obtain k where k: "k \<le> length (stored l)" "handled (receiver l) = map (the \<circ> create) (take k (stored l))"
    "recvBuf (receiver l) @ wire l @ pending (sender l) = concat (map frame_bytes (drop k (stored l)))"
    "\<forall>m ms. drop k (stored l) = m # ms \<longrightarrow> length (recvBuf (receiver l)) < length m + 4"
    by (auto simp: link_ok_def)
  have "k = length (stored l)" if "wire l = []" "pending (sender l) = []"
  proof (cases "drop k (stored l)")
    case Nil
    then show ?thesis using k(1) by simp
  next
    case (Cons m ms)
    then have "length (recvBuf (receiver l)) \<ge> length m + 4" using k(3) that by simp
    moreover have "length (recvBuf (receiver l)) < length m + 4" using k(4) Cons by blast
    ultimately show ?thesis by simp
  qed
  then show ?thesis using ok k by (auto simp: link_ok_def)
qed

text \<open>One message that arrives in two portions.\<close>

lemma send_first:
  assumes "length m \<le> 1000"
  obtains sb where "Send m new_send_buffer = Some (True, AsyncWrite (frame_bytes m), sb)" "pending sb = []"
proof -
  have ok: "send_ok new_send_buffer" by (simp add: send_ok_def new_send_buffer_def)
  have fits: "sendBufUsed new_send_buffer + length (frame_bytes m) \<le> MAX_SEND_BUF_SIZE"
    using assms by (simp add: new_send_buffer_def MAX_SEND_BUF_SIZE_def SEND_BUF_FIRST_ALLOC_CHUNKSIZE_def)
  obtain s where s: "EncodeToBuf (frame_bytes m) new_send_buffer = Some (True, s)" "pending s = frame_bytes m"
    "curWriteBufUsed s = 0" "curWriteBuf s = []"
    using encode_stored [OF ok, of "frame_bytes m"] fits by (auto simp: new_send_buffer_def pending_def)
  have "sendBufUsed s \<noteq> 0" using s(2) frame_parts(2) [of m] by (cases "sendBufUsed s") (simp_all add: pending_def)
  then have a: "fst (AsyncSendNextPacket s) = AsyncWrite (frame_bytes m)" "pending (snd (AsyncSendNextPacket s)) = []"
    using s(2-4) by (simp_all add: AsyncSendNextPacket_def pending_def)
  have "InternalStorePacket m new_send_buffer = Some (True, s)"
    using s(1) assms by (simp add: InternalStorePacket_def MAX_SEND_BUF_SIZE_def SEND_BUF_FIRST_ALLOC_CHUNKSIZE_def)
  then have "Send m new_send_buffer = Some (True, AsyncWrite (frame_bytes m), snd (AsyncSendNextPacket s))"
    using a(1) by (simp add: Send_def prod_eq_iff)
  then show thesis using a(2) by (rule that)
qed

theorem packets_in_order_witness:
  "\<exists>l. (link_step Some (\<lambda>_. True) (\<lambda>_. False))\<^sup>*\<^sup>* new_link l \<and> handled (receiver l) = [[1, 2, 3]]"
proof -
  let ?step = "link_step Some (\<lambda>_. True) (\<lambda>_. False)"
  let ?m = "[1, 2, 3] :: byte list"
  obtain sb where sb: "Send ?m new_send_buffer = Some (True, AsyncWrite (frame_bytes ?m), sb)" "pending sb = []"
    by (rule send_first [of ?m]) simp_all
  let ?l1 = "(new_link :: byte list link)\<lparr>sender := sb, wire := frame_bytes ?m, stored := [?m], shut := False\<rparr>"
  have "?step new_link ?l1"
    using link_step.send [of "new_link :: byte list link" ?m True "AsyncWrite (frame_bytes ?m)" sb] sb
    by (simp add: new_link_def put_wire_def)
  then have s1: "?step\<^sup>*\<^sup>* new_link ?l1" by (rule r_into_rtranclp)
  have takes: "\<forall>m \<in> set (stored ?l1). takes Some (\<lambda>_. True) (\<lambda>_. False) m"
    by (simp add: takes_def readable_def MAX_PACKET_SIZE_def)
  let ?b1 = "take 2 (frame_bytes ?m)" and ?b2 = "drop 2 (frame_bytes ?m)"
  define l2 where "l2 = ?l1\<lparr>receiver := HandleRead Some (\<lambda>_. True) (\<lambda>_. False) ?b1 (receiver ?l1), wire := ?b2\<rparr>"
  have l2: "wire l2 = ?b2" "stored l2 = [?m]" "sender l2 = sb" by (simp_all add: l2_def)
  have "?step ?l1 l2"
    unfolding l2_def
    by (rule link_step.read) (simp_all add: new_link_def new_recv_buffer_def RECV_BUF_SIZE_def MAX_PACKET_SIZE_def)
  with s1 have s2: "?step\<^sup>*\<^sup>* new_link l2" by (rule rtranclp.rtrancl_into_rtrancl)
  have ok2: "link_ok Some l2" by (rule link_run_ok [OF s2]) (use takes l2 in simp)
  obtain k where "recvBuf (receiver l2) @ ?b2 @ pending sb = concat (map frame_bytes (drop k [?m]))"
    using ok2 unfolding link_ok_def l2 by blast
  from arg_cong [OF this, of length] have small: "length (recvBuf (receiver l2)) \<le> 7" by (cases k) auto
  define l3 where "l3 = l2\<lparr>receiver := HandleRead Some (\<lambda>_. True) (\<lambda>_. False) ?b2 (receiver l2), wire := []\<rparr>"
  have "?step l2 l3"
    unfolding l3_def
  proof (rule link_step.read)
    show "\<not> closed (receiver l2)" using ok2 by (simp add: link_ok_def)
    show "length ?b2 \<le> RECV_BUF_SIZE - length (recvBuf (receiver l2))"
      using small by (simp add: RECV_BUF_SIZE_def MAX_PACKET_SIZE_def)
  qed (simp_all add: l2 frame_bytes_def htonl_bytes_def)
  with s2 have s3: "?step\<^sup>*\<^sup>* new_link l3" by (rule rtranclp.rtrancl_into_rtrancl)
  have "\<forall>m \<in> set (stored l3). takes Some (\<lambda>_. True) (\<lambda>_. False) m" using takes l2 by (simp add: l3_def)
  from packets_in_order [OF s3 this] have "handled (receiver l3) = [?m]" using sb(2) l2 by (auto simp: l3_def)
  with s3 show ?thesis by blast
qed

end
