(* ===== verification/Chat_Cleaner.thy ===== *)
theory Chat_Cleaner
  imports Poker_Prelude
begin

text \<open>
  The chat cleaner (\<open>src/src/chatcleaner\<close>): the checks of a chat line, the record of warnings and kicks
  of \<open>MessageFilter\<close>, and the messages of \<open>CleanerServer\<close>. A text is a list of code points. What Qt
  does to a text (\<open>toLower\<close>, \<open>simplified\<close>) is a parameter, and so is the time in seconds; the two
  regular expressions are written out, with the limit that the expression library puts on a repeat
  count. The dictionaries of the code are maps.
\<close>

type_synonym chat_text = "nat list"

record qt_text =
  toLower :: "chat_text \<Rightarrow> chat_text"
  simplified_text :: "chat_text \<Rightarrow> chat_text"

section \<open>The checks of a line\<close>

fun contains :: "chat_text \<Rightarrow> chat_text \<Rightarrow> bool" where
  "contains [] w = (w = [])"
| "contains (c # cs) w = (take (length w) (c # cs) = w \<or> contains cs w)"

definition BadWordCheck_run :: "qt_text \<Rightarrow> chat_text list \<Rightarrow> chat_text list \<Rightarrow> chat_text \<Rightarrow> bool" where
  "BadWordCheck_run qt badWords badWordsException msg =
    (let m = toLower qt msg in
     list_ex (\<lambda>bw. contains m bw \<and> \<not> list_ex (\<lambda>bwe. contains bwe bw \<and> contains m bwe) badWordsException) badWords)"

definition UrlCheck_run :: "qt_text \<Rightarrow> chat_text list \<Rightarrow> chat_text list \<Rightarrow> chat_text \<Rightarrow> bool" where
  "UrlCheck_run qt urlStrings urlExceptionStrings msg =
    (let m = toLower qt msg in
     list_ex (\<lambda>u. contains m u \<and> \<not> list_ex (contains m) urlExceptionStrings) urlStrings)"

definition MAX_REPEAT :: int where "MAX_REPEAT = 65535"

definition squeezed :: "qt_text \<Rightarrow> chat_text \<Rightarrow> chat_text" where
  "squeezed qt msg = filter (\<lambda>c. c \<noteq> 32) (simplified_text qt msg)"

text \<open>\<open>[A-Z]{n,}\<close>\<close>

definition CapsFloodCheck_run :: "qt_text \<Rightarrow> int \<Rightarrow> chat_text \<Rightarrow> bool" where
  "CapsFloodCheck_run qt n msg =
    (let m = squeezed qt msg in
     1 \<le> n \<and> n \<le> MAX_REPEAT \<and>
     list_ex (\<lambda>i. n \<le> int (length (takeWhile (\<lambda>c. 65 \<le> c \<and> c \<le> 90) (drop i m)))) [0..<length m])"

text \<open>\<open>.*(.)\1{n-1,}.*\<close>, where the dot is not a line feed.\<close>

definition LetterRepeatingCheck_run :: "qt_text \<Rightarrow> int \<Rightarrow> chat_text \<Rightarrow> bool" where
  "LetterRepeatingCheck_run qt n msg =
    (let m = squeezed qt msg in
     2 \<le> n \<and> n - 1 \<le> MAX_REPEAT \<and>
     list_ex (\<lambda>i. m ! i \<noteq> 10 \<and> n \<le> int (length (takeWhile (\<lambda>c. c = m ! i) (drop i m)))) [0..<length m])"

section \<open>Lines in quick succession\<close>

record flood_info =
  floodLevel :: int
  floodTime :: int

definition TextFloodCheck_run :: "int \<Rightarrow> int \<Rightarrow> nat \<Rightarrow> (nat \<rightharpoonup> flood_info) \<Rightarrow> bool \<times> (nat \<rightharpoonup> flood_info)" where
  "TextFloodCheck_run trigger now u m =
    (case m u of
       None \<Rightarrow> (False, m(u \<mapsto> \<lparr>floodLevel = 0, floodTime = now\<rparr>))
     | Some i \<Rightarrow>
         if now - floodTime i \<le> 1 then
           (if floodLevel i = trigger then (True, m(u \<mapsto> \<lparr>floodLevel = 0, floodTime = now\<rparr>))
            else (False, m(u \<mapsto> \<lparr>floodLevel = floodLevel i + 1, floodTime = now\<rparr>)))
         else (False, m(u \<mapsto> \<lparr>floodLevel = floodLevel i, floodTime = now\<rparr>)))"

definition cleanMsgTimesList :: "int \<Rightarrow> (nat \<rightharpoonup> flood_info) \<Rightarrow> (nat \<rightharpoonup> flood_info)" where
  "cleanMsgTimesList now m = (\<lambda>u. case m u of
     None \<Rightarrow> None
   | Some i \<Rightarrow>
       if now - floodTime i > 3 then
         (if floodLevel i = 0 then None else Some (i\<lparr>floodLevel := max 0 (floodLevel i - 1)\<rparr>))
       else Some i)"

section \<open>Warnings, kicks and bans\<close>

datatype ActionType = NOTHING | WARN | KICK | KICKBAN | MUTE

datatype OffenceType = NO_OFFENCE | BAD_WORD | TEXT_FLOOD_LINES | CAPS_FLOOD | LETTER_REPEATING | URL

definition offence_code :: "OffenceType \<Rightarrow> nat" where
  "offence_code x = (case x of NO_OFFENCE \<Rightarrow> 0 | BAD_WORD \<Rightarrow> 1 | TEXT_FLOOD_LINES \<Rightarrow> 2 | CAPS_FLOOD \<Rightarrow> 3
     | LETTER_REPEATING \<Rightarrow> 4 | URL \<Rightarrow> 5)"

record warn_info =
  warnNick :: chat_text
  lastWarnType :: OffenceType
  warnLevel :: int

record kick_info =
  lastKickTimestamp :: int
  kickNumber :: int

record cleaner_config =
  warnLevelToKick :: int
  kickNumberToBan :: int
  textFloodLevelToTrigger :: int
  capsNumberToTrigger :: int
  letterNumberToTrigger :: int
  badWords :: "chat_text list"
  badWordsException :: "chat_text list"
  urlStrings :: "chat_text list"
  urlExceptionStrings :: "chat_text list"

record message_filter =
  mfConfig :: cleaner_config
  msgTimesList :: "nat \<rightharpoonup> flood_info"
  myClientWarnLevelList :: "nat \<rightharpoonup> warn_info"
  myClientKickCounterList :: "chat_text \<rightharpoonup> kick_info"

definition new_message_filter :: "cleaner_config \<Rightarrow> message_filter" where
  "new_message_filter cfg =
     \<lparr>mfConfig = cfg, msgTimesList = Map.empty, myClientWarnLevelList = Map.empty, myClientKickCounterList = Map.empty\<rparr>"

text \<open>The checks in their order; the one of the lines always runs.\<close>

definition raise_offence :: "bool \<Rightarrow> OffenceType \<Rightarrow> OffenceType \<Rightarrow> OffenceType" where
  "raise_offence found x offence = (if found \<and> offence_code offence < offence_code x then x else offence)"

definition offence_of :: "qt_text \<Rightarrow> int \<Rightarrow> nat \<Rightarrow> chat_text \<Rightarrow> message_filter \<Rightarrow> OffenceType \<times> message_filter" where
  "offence_of qt now u msg f =
    (let cfg = mfConfig f;
         o1 = (if BadWordCheck_run qt (badWords cfg) (badWordsException cfg) msg then BAD_WORD else NO_OFFENCE);
         o2 = raise_offence (CapsFloodCheck_run qt (capsNumberToTrigger cfg) msg) CAPS_FLOOD o1;
         o3 = raise_offence (LetterRepeatingCheck_run qt (letterNumberToTrigger cfg) msg) LETTER_REPEATING o2;
         o4 = raise_offence (UrlCheck_run qt (urlStrings cfg) (urlExceptionStrings cfg) msg) URL o3;
         (flood, times) = TextFloodCheck_run (textFloodLevelToTrigger cfg) now u (msgTimesList f)
     in (raise_offence flood TEXT_FLOOD_LINES o4, f\<lparr>msgTimesList := times\<rparr>))"

definition warn_player :: "nat \<Rightarrow> chat_text \<Rightarrow> OffenceType \<Rightarrow> int \<Rightarrow> message_filter \<Rightarrow> message_filter" where
  "warn_player u nick offence level f =
     f\<lparr>myClientWarnLevelList := (myClientWarnLevelList f)(u \<mapsto> \<lparr>warnNick = nick, lastWarnType = offence, warnLevel = level\<rparr>)\<rparr>"

definition forget_player :: "nat \<Rightarrow> message_filter \<Rightarrow> message_filter" where
  "forget_player u f =
     f\<lparr>msgTimesList := (msgTimesList f)(u := None), myClientWarnLevelList := (myClientWarnLevelList f)(u := None)\<rparr>"

definition count_kick :: "int \<Rightarrow> chat_text \<Rightarrow> message_filter \<Rightarrow> ActionType \<times> message_filter" where
  "count_kick now nick f =
    (let put = (\<lambda>n. f\<lparr>myClientKickCounterList :=
                       (myClientKickCounterList f)(nick \<mapsto> \<lparr>lastKickTimestamp = now, kickNumber = n\<rparr>)\<rparr>) in
     case myClientKickCounterList f nick of
       None \<Rightarrow> (KICK, put 1)
     | Some j \<Rightarrow>
         if kickNumber j = kickNumberToBan (mfConfig f)
         then (KICKBAN, f\<lparr>myClientKickCounterList := (myClientKickCounterList f)(nick := None)\<rparr>)
         else (KICK, put (kickNumber j + 1)))"

definition act_on_offence ::
  "int \<Rightarrow> nat \<Rightarrow> nat \<Rightarrow> chat_text \<Rightarrow> OffenceType \<Rightarrow> message_filter \<Rightarrow> ActionType \<times> message_filter" where
  "act_on_offence now gameId u nick offence f =
    (case myClientWarnLevelList f u of
       None \<Rightarrow> (WARN, warn_player u nick offence 1 f)
     | Some i \<Rightarrow>
         if warnLevel i = warnLevelToKick (mfConfig f) \<or> lastWarnType i = offence then
           (if gameId \<noteq> 0 then (MUTE, forget_player u f) else count_kick now nick (forget_player u f))
         else (WARN, warn_player u nick offence (warnLevel i + 1) f))"

definition text_of :: "string \<Rightarrow> chat_text" where
  "text_of s = map of_char s"

definition warn_text :: "OffenceType \<Rightarrow> string" where
  "warn_text offence = (case offence of
     BAD_WORD \<Rightarrow> '': Warning! No racial, religious, sexually inflammatory or otherwise insulting language''
   | TEXT_FLOOD_LINES \<Rightarrow> '': Warning! You've triggered text flood (lines) protection, slow down your typing!''
   | CAPS_FLOOD \<Rightarrow> '': Warning: You've triggered caps flood protection, release your caps!''
   | LETTER_REPEATING \<Rightarrow> '': Warning: You've triggered letter repeating protection, stop repeating!''
   | URL \<Rightarrow> '': Warning: You've triggered url spam protection, stop posting urls!''
   | NO_OFFENCE \<Rightarrow> [])"

definition reply_text :: "ActionType \<Rightarrow> OffenceType \<Rightarrow> chat_text \<Rightarrow> chat_text" where
  "reply_text action offence nick = (case action of
     NOTHING \<Rightarrow> []
   | WARN \<Rightarrow> nick @ text_of (warn_text offence) @ [10]
   | KICK \<Rightarrow> nick @ text_of '' kicked! Please respect: https://chatrules.pokerth.net'' @ [10]
   | KICKBAN \<Rightarrow> nick @ text_of '' kicked and banned! Please respect: https://chatrules.pokerth.net'' @ [10]
   | MUTE \<Rightarrow> nick @ text_of '' muted! Please respect: https://chatrules.pokerth.net'' @ [10])"

text \<open>\<open>MessageFilter::check\<close>. Its two timers have their own time.\<close>

definition check ::
  "qt_text \<Rightarrow> int \<Rightarrow> int \<Rightarrow> nat \<Rightarrow> nat \<Rightarrow> chat_text \<Rightarrow> chat_text \<Rightarrow> message_filter \<Rightarrow>
     (ActionType \<times> chat_text) \<times> message_filter" where
  "check qt floodNow kickNow gameId u nick msg f =
    (let (offence, f1) = offence_of qt floodNow u msg f in
     if offence = NO_OFFENCE then ((NOTHING, []), f1)
     else (let (action, f2) = act_on_offence kickNow gameId u nick offence f1
           in ((action, reply_text action offence nick), f2)))"

definition refreshConfig :: "cleaner_config \<Rightarrow> message_filter \<Rightarrow> message_filter" where
  "refreshConfig cfg f = f\<lparr>mfConfig := cfg\<rparr>"

definition cleanKickCounterList :: "int \<Rightarrow> int \<Rightarrow> message_filter \<Rightarrow> message_filter" where
  "cleanKickCounterList now forgetSeconds f =
     f\<lparr>myClientKickCounterList := (\<lambda>nick. case myClientKickCounterList f nick of
         None \<Rightarrow> None
       | Some i \<Rightarrow> if now - lastKickTimestamp i > forgetSeconds then None else Some i)\<rparr>"

end
