(* ===== verification/Chat_Rules.thy ===== *)
theory Chat_Rules
  imports Chat_Cleaner
begin

text \<open>
  What a chatter can rely on, over any sequence of chat lines, clean-ups by the timers and reloads of
  the configuration: no punishment without a warning, no ban without kicks.
\<close>

section \<open>Runs of the filter\<close>

datatype cleaner_event =
    ChatLine int int nat nat chat_text chat_text
  | CleanLines int
  | CleanKicks int int
  | Reload cleaner_config

text \<open>A line is reported with its player, his nick and the action.\<close>

type_synonym report = "nat \<times> chat_text \<times> ActionType"

definition filter_event :: "qt_text \<Rightarrow> cleaner_event \<Rightarrow> message_filter \<Rightarrow> report list \<times> message_filter" where
  "filter_event qt e f = (case e of
     ChatLine floodNow kickNow gameId u nick msg \<Rightarrow>
       (let ((action, t), f') = check qt floodNow kickNow gameId u nick msg f in ([(u, nick, action)], f'))
   | CleanLines now \<Rightarrow> ([], f\<lparr>msgTimesList := cleanMsgTimesList now (msgTimesList f)\<rparr>)
   | CleanKicks now forgetSeconds \<Rightarrow> ([], cleanKickCounterList now forgetSeconds f)
   | Reload cfg \<Rightarrow> ([], refreshConfig cfg f))"

fun filter_run :: "qt_text \<Rightarrow> cleaner_event list \<Rightarrow> message_filter \<Rightarrow> report list \<times> message_filter" where
  "filter_run qt [] f = ([], f)"
| "filter_run qt (e # es) f =
    (let (rs, f1) = filter_event qt e f; (rs', f2) = filter_run qt es f1 in (rs @ rs', f2))"

section \<open>The steps\<close>

lemma offence_of_frame:
  "offence_of qt now u msg f = (offence, f1) \<Longrightarrow>
     myClientWarnLevelList f1 = myClientWarnLevelList f \<and> myClientKickCounterList f1 = myClientKickCounterList f \<and>
     mfConfig f1 = mfConfig f"
  by (auto simp: offence_of_def Let_def split: prod.splits)

text \<open>Who has been warned since his last punishment is in the list of warnings, and only he.\<close>

lemma check_warnings:
  assumes "check qt t1 t2 gameId u nick msg f = ((action, r), f')"
  shows "v \<noteq> u \<Longrightarrow> myClientWarnLevelList f' v = myClientWarnLevelList f v"
    "action = NOTHING \<Longrightarrow> myClientWarnLevelList f' u = myClientWarnLevelList f u"
    "action = WARN \<Longrightarrow> myClientWarnLevelList f' u \<noteq> None"
    "action \<in> {KICK, KICKBAN, MUTE} \<Longrightarrow> myClientWarnLevelList f u \<noteq> None \<and> myClientWarnLevelList f' u = None"
proof -
  obtain offence f1 where o: "offence_of qt t1 u msg f = (offence, f1)" by fastforce
  note f1 = offence_of_frame [OF o]
  have kick: "count_kick t2 nick g = (a, g') \<Longrightarrow>
      a \<in> {KICK, KICKBAN} \<and> myClientWarnLevelList g' = myClientWarnLevelList g" for g a g'
    by (auto simp: count_kick_def Let_def split: option.splits if_splits)
  have act: "(v \<noteq> u \<longrightarrow> myClientWarnLevelList g v = myClientWarnLevelList f v) \<and> a \<noteq> NOTHING \<and>
      (a = WARN \<longrightarrow> myClientWarnLevelList g u \<noteq> None) \<and>
      (a \<in> {KICK, KICKBAN, MUTE} \<longrightarrow> myClientWarnLevelList f u \<noteq> None \<and> myClientWarnLevelList g u = None)"
    if "act_on_offence t2 gameId u nick offence f1 = (a, g)" for a g v
    using that f1 kick [of "forget_player u f1" a g]
    by (auto simp: act_on_offence_def warn_player_def forget_player_def split: option.splits if_splits)
  show "v \<noteq> u \<Longrightarrow> myClientWarnLevelList f' v = myClientWarnLevelList f v"
    "action = NOTHING \<Longrightarrow> myClientWarnLevelList f' u = myClientWarnLevelList f u"
    "action = WARN \<Longrightarrow> myClientWarnLevelList f' u \<noteq> None"
    "action \<in> {KICK, KICKBAN, MUTE} \<Longrightarrow> myClientWarnLevelList f u \<noteq> None \<and> myClientWarnLevelList f' u = None"
    using assms act f1 by (auto simp: check_def o Let_def split: if_splits prod.splits)
qed

section \<open>No punishment without a warning\<close>

definition actions_of :: "nat \<Rightarrow> report list \<Rightarrow> ActionType list" where
  "actions_of u rs = map (\<lambda>(v, nick, a). a) (filter (\<lambda>(v, nick, a). v = u) rs)"

fun warned_first :: "bool \<Rightarrow> ActionType list \<Rightarrow> bool" where
  "warned_first w [] = True"
| "warned_first w (NOTHING # as) = warned_first w as"
| "warned_first w (WARN # as) = warned_first True as"
| "warned_first w (a # as) = (w \<and> warned_first False as)"

lemma actions_of_simps [simp]:
  "actions_of u [] = []" "actions_of u (rs @ rs') = actions_of u rs @ actions_of u rs'"
  "actions_of u [(v, nick, a)] = (if v = u then [a] else [])"
  by (simp_all add: actions_of_def)

lemma event_warned:
  assumes "filter_event qt e f = (rs, f1)" "warned_first (myClientWarnLevelList f1 u \<noteq> None) as"
  shows "warned_first (myClientWarnLevelList f u \<noteq> None) (actions_of u rs @ as)"
proof (cases e)
  case (ChatLine t1 t2 gameId v nick msg)
  obtain a r g where c: "check qt t1 t2 gameId v nick msg f = ((a, r), g)" by (metis surj_pair)
  note w = check_warnings [OF c]
  have e: "rs = [(v, nick, a)]" "f1 = g" using assms(1) by (simp_all add: ChatLine filter_event_def c)
  show ?thesis
  proof (cases "v = u")
    case True
    then show ?thesis using assms(2) w e by (cases a) auto
  next
    case False
    then show ?thesis using assms(2) w(1) [of u] e by simp
  qed
qed (use assms in \<open>auto simp: filter_event_def cleanKickCounterList_def refreshConfig_def\<close>)

lemma run_warned: "warned_first (myClientWarnLevelList f u \<noteq> None) (actions_of u (fst (filter_run qt es f)))"
proof (induction es arbitrary: f)
  case (Cons e es)
  obtain rs f1 where e: "filter_event qt e f = (rs, f1)" by fastforce
  from event_warned [OF e Cons.IH [of f1]] show ?case
    by (cases "filter_run qt es f1") (simp add: e)
qed simp

text \<open>C17: Nobody is punished without a warning. Over any sequence of chat lines of any players in the lobby
  and in games, of clean-ups and of reloads of the configuration, whatever the texts: between the
  start and the first time a player is kicked, banned or muted, and between any two of these
  times, the filter has warned this player.\<close>

theorem punished_after_warning:
  "warned_first False (actions_of u (fst (filter_run qt es (new_message_filter cfg))))"
  using run_warned [of "new_message_filter cfg" u qt es] by (simp add: new_message_filter_def)

section \<open>No ban without kicks\<close>

text \<open>The kicks of a nick since his last ban; \<open>bans_ok\<close> asks for at least \<open>n\<close> of them at every ban.\<close>

definition actions_of_nick :: "chat_text \<Rightarrow> report list \<Rightarrow> ActionType list" where
  "actions_of_nick nick rs = map (\<lambda>(v, n, a). a) (filter (\<lambda>(v, n, a). n = nick) rs)"

fun bans_ok :: "int \<Rightarrow> int \<Rightarrow> ActionType list \<Rightarrow> bool" where
  "bans_ok n k [] = True"
| "bans_ok n k (KICK # as) = bans_ok n (k + 1) as"
| "bans_ok n k (KICKBAN # as) = (1 \<le> k \<and> n \<le> k \<and> bans_ok n 0 as)"
| "bans_ok n k (a # as) = bans_ok n k as"

lemma actions_of_nick_simps [simp]:
  "actions_of_nick nick [] = []" "actions_of_nick nick (rs @ rs') = actions_of_nick nick rs @ actions_of_nick nick rs'"
  "actions_of_nick nick [(v, n, a)] = (if n = nick then [a] else [])"
  by (simp_all add: actions_of_nick_def)

text \<open>The counter of a nick is at most the number of his kicks since the last ban.\<close>

definition counted :: "chat_text \<Rightarrow> int \<Rightarrow> message_filter \<Rightarrow> bool" where
  "counted nick k f \<longleftrightarrow> 0 \<le> k \<and>
     (case myClientKickCounterList f nick of None \<Rightarrow> True | Some j \<Rightarrow> 1 \<le> kickNumber j \<and> kickNumber j \<le> k)"

lemma check_kicks:
  assumes "check qt t1 t2 gameId u n msg f = ((a, r), f')" "counted nick k f"
  shows "mfConfig f' = mfConfig f"
    "n \<noteq> nick \<or> a \<in> {NOTHING, WARN, MUTE} \<Longrightarrow> counted nick k f'"
    "n = nick \<Longrightarrow> a = KICK \<Longrightarrow> counted nick (k + 1) f'"
    "n = nick \<Longrightarrow> a = KICKBAN \<Longrightarrow> 1 \<le> k \<and> kickNumberToBan (mfConfig f) \<le> k \<and> counted nick 0 f'"
proof -
  obtain offence f1 where o: "offence_of qt t1 u msg f = (offence, f1)" by fastforce
  note f1 = offence_of_frame [OF o]
  have k: "mfConfig g' = mfConfig g \<and> (n \<noteq> nick \<longrightarrow> counted nick k g') \<and> b \<in> {KICK, KICKBAN} \<and>
      (n = nick \<and> b = KICK \<longrightarrow> counted nick (k + 1) g') \<and>
      (n = nick \<and> b = KICKBAN \<longrightarrow> 1 \<le> k \<and> kickNumberToBan (mfConfig g) \<le> k \<and> counted nick 0 g')"
    if "count_kick t2 n g = (b, g')" "counted nick k g" for g b g'
    using that by (auto simp: count_kick_def counted_def Let_def split: option.splits if_splits)
  have frame: "counted nick k (forget_player u f1)" "counted nick k (warn_player u n offence l f1)"
    "mfConfig (forget_player u f1) = mfConfig f" "counted nick k f1" for l
    using assms(2) f1 by (simp_all add: counted_def forget_player_def warn_player_def)
  have act: "mfConfig g = mfConfig f \<and> (n \<noteq> nick \<or> b \<in> {NOTHING, WARN, MUTE} \<longrightarrow> counted nick k g) \<and>
      (n = nick \<and> b = KICK \<longrightarrow> counted nick (k + 1) g) \<and>
      (n = nick \<and> b = KICKBAN \<longrightarrow> 1 \<le> k \<and> kickNumberToBan (mfConfig f) \<le> k \<and> counted nick 0 g)"
    if "act_on_offence t2 gameId u n offence f1 = (b, g)" for b g
    using that f1 frame k [of "forget_player u f1" b g]
    by (auto simp: act_on_offence_def warn_player_def [of _ _ _ _ f1] split: option.splits if_splits)
  show "mfConfig f' = mfConfig f" "n \<noteq> nick \<or> a \<in> {NOTHING, WARN, MUTE} \<Longrightarrow> counted nick k f'"
    "n = nick \<Longrightarrow> a = KICK \<Longrightarrow> counted nick (k + 1) f'"
    "n = nick \<Longrightarrow> a = KICKBAN \<Longrightarrow> 1 \<le> k \<and> kickNumberToBan (mfConfig f) \<le> k \<and> counted nick 0 f'"
    using assms(1) act f1 frame(4) by (auto simp: check_def o Let_def split: if_splits prod.splits)
qed

definition keeps_config :: "cleaner_event \<Rightarrow> bool" where
  "keeps_config e = (case e of Reload _ \<Rightarrow> False | _ \<Rightarrow> True)"

lemma event_bans:
  assumes "filter_event qt e f = (rs, f1)" "keeps_config e" "counted nick k f"
  shows "mfConfig f1 = mfConfig f \<and> (\<exists>k'. counted nick k' f1 \<and>
    (\<forall>as. bans_ok (kickNumberToBan (mfConfig f)) k' as \<longrightarrow>
       bans_ok (kickNumberToBan (mfConfig f)) k (actions_of_nick nick rs @ as)))"
proof (cases e)
  case (ChatLine t1 t2 gameId v n msg)
  obtain a r g where c: "check qt t1 t2 gameId v n msg f = ((a, r), g)" by (metis surj_pair)
  note w = check_kicks [OF c assms(3)]
  have e: "rs = [(v, n, a)]" "f1 = g" using assms(1) by (simp_all add: ChatLine filter_event_def c)
  show ?thesis
  proof (cases "n = nick \<and> a \<in> {KICK, KICKBAN}")
    case True
    then have "a = KICK \<or> a = KICKBAN" by simp
    then show ?thesis
    proof
      assume a: "a = KICK"
      then show ?thesis using True w(1,3) e by (intro conjI exI [of _ "k + 1"]) simp_all
    next
      assume a: "a = KICKBAN"
      then show ?thesis using True w(1,4) e by (intro conjI exI [of _ 0]) simp_all
    qed
  next
    case False
    have "counted nick k g" using False w(2) by (cases a) auto
    then show ?thesis using False w(1) e by (intro conjI exI [of _ k]) (cases a; simp)+
  qed
next
  case (CleanKicks now forgetSeconds)
  then have f1: "rs = []" "f1 = cleanKickCounterList now forgetSeconds f" using assms(1) by (simp_all add: filter_event_def)
  have "counted nick k f1"
    using assms(3) by (auto simp: f1 counted_def cleanKickCounterList_def split: option.splits)
  then show ?thesis by (intro conjI exI [of _ k]) (simp_all add: f1 cleanKickCounterList_def)
qed (use assms in \<open>auto simp: filter_event_def keeps_config_def counted_def\<close>)

lemma run_bans:
  assumes "counted nick k f" "list_all keeps_config es"
  shows "bans_ok (kickNumberToBan (mfConfig f)) k (actions_of_nick nick (fst (filter_run qt es f)))"
  using assms
proof (induction es arbitrary: f k)
  case (Cons e es)
  obtain rs f1 where e: "filter_event qt e f = (rs, f1)" by fastforce
  have kc: "keeps_config e" "list_all keeps_config es" using Cons.prems(2) by simp_all
  obtain k' where k': "mfConfig f1 = mfConfig f" "counted nick k' f1"
    "\<forall>as. bans_ok (kickNumberToBan (mfConfig f)) k' as \<longrightarrow>
       bans_ok (kickNumberToBan (mfConfig f)) k (actions_of_nick nick rs @ as)"
    using event_bans [OF e kc(1) Cons.prems(1)] by blast
  have "bans_ok (kickNumberToBan (mfConfig f)) k' (actions_of_nick nick (fst (filter_run qt es f1)))"
    using Cons.IH [OF k'(2) kc(2)] k'(1) by simp
  with k'(3) show ?case by (cases "filter_run qt es f1") (simp add: e)
qed simp

text \<open>C18: Nobody is banned out of the blue. As long as the configuration is not reloaded, a nick is banned
  only after it has been kicked since the start or since its last ban, at least as often as the
  configuration asks for, over any sequence of lines of any players and of clean-ups.\<close>

theorem banned_after_kicks:
  assumes "list_all keeps_config es"
  shows "bans_ok (kickNumberToBan cfg) 0 (actions_of_nick nick (fst (filter_run qt es (new_message_filter cfg))))"
  using run_bans [of nick 0 "new_message_filter cfg" es qt] assms by (simp add: new_message_filter_def counted_def)

text \<open>Somebody who shouts every five seconds, with two kicks before a ban.\<close>

definition sample_config :: cleaner_config where
  "sample_config = \<lparr>warnLevelToKick = 2, kickNumberToBan = 2, textFloodLevelToTrigger = 3, capsNumberToTrigger = 3,
     letterNumberToTrigger = 9, badWords = [], badWordsException = [], urlStrings = [], urlExceptionStrings = []\<rparr>"

definition shouting :: "cleaner_event list" where
  "shouting = map (\<lambda>i. ChatLine (5 * int i) (5 * int i) 0 7 (text_of ''Bob'') (text_of ''HELLO'')) [0..<6]"

theorem banned_after_kicks_witness:
  "\<exists>as. actions_of_nick (text_of ''Bob'') (fst (filter_run \<lparr>toLower = id, simplified_text = id\<rparr> shouting (new_message_filter sample_config))) = as \<and>
     as = [WARN, KICK, WARN, KICK, WARN, KICKBAN] \<and> bans_ok 2 0 as"
proof -
  have "list_all keeps_config shouting" by (simp add: shouting_def keeps_config_def list_all_iff)
  from banned_after_kicks [OF this, of sample_config "text_of ''Bob''" "\<lparr>toLower = id, simplified_text = id\<rparr>"]
  have "bans_ok 2 0 (actions_of_nick (text_of ''Bob'') (fst (filter_run \<lparr>toLower = id, simplified_text = id\<rparr> shouting (new_message_filter sample_config))))"
    by (simp add: sample_config_def)
  moreover have "actions_of_nick (text_of ''Bob'') (fst (filter_run \<lparr>toLower = id, simplified_text = id\<rparr> shouting (new_message_filter sample_config))) =
      [WARN, KICK, WARN, KICK, WARN, KICKBAN]"
    by code_simp
  ultimately show ?thesis by blast
qed

end
