(* ===== verification/Chat_Server.thy ===== *)
theory Chat_Server
  imports Chat_Cleaner Framing
begin

text \<open>
  The connection between the game server and the chat cleaner: \<open>CleanerServer\<close>
  (\<open>src/src/chatcleaner/cleanerserver.cpp\<close>), which serves one client and checks what it asks for, and
  \<open>ChatCleanerManager\<close> (\<open>src/src/net/chatcleanermanager.cpp\<close>), which asks and acts on the replies.
  Serializing and parsing a message and the Qt functions on texts are parameters.
\<close>

definition MAX_CLEANER_PACKET_SIZE :: nat where "MAX_CLEANER_PACKET_SIZE = 512"
definition CLEANER_NET_HEADER_SIZE :: nat where "CLEANER_NET_HEADER_SIZE = 4"
definition CLEANER_PROTOCOL_VERSION :: nat where "CLEANER_PROTOCOL_VERSION = 2"

section \<open>Messages\<close>

datatype cleaner_chat_type = cleanerChatTypeLobby | cleanerChatTypeGame

datatype cleaner_action_type =
  cleanerActionNone | cleanerActionWarning | cleanerActionKick | cleanerActionBan | cleanerActionMute

text \<open>A secret is absent when the sender has not set it.\<close>

datatype cleaner_message =
    CleanerInitMessage nat "byte list"
  | CleanerInitAckMessage nat "byte list option"
  | CleanerChatRequestMessage nat cleaner_chat_type nat nat "byte list" "byte list"
  | CleanerChatReplyMessage nat cleaner_chat_type nat nat cleaner_action_type "byte list"

record message_codec =
  serialize :: "cleaner_message \<Rightarrow> byte list"
  parse :: "byte list \<Rightarrow> cleaner_message option"
  fromUtf8 :: "byte list \<Rightarrow> chat_text"
  toUtf8 :: "chat_text \<Rightarrow> byte list"

text \<open>A sender drops what is too long.\<close>

definition cleaner_frame :: "message_codec \<Rightarrow> cleaner_message \<Rightarrow> byte list" where
  "cleaner_frame mc m =
    (if length (serialize mc m) > MAX_CLEANER_PACKET_SIZE then [] else frame_bytes (serialize mc m))"

text \<open>What a reader finds when one frame has arrived.\<close>

lemma lone_frame:
  assumes "length m \<le> MAX_CLEANER_PACKET_SIZE"
  shows "size_field (frame_bytes m) = length m" "take (length m) (drop CLEANER_NET_HEADER_SIZE (frame_bytes m)) = m"
    "drop (length m + CLEANER_NET_HEADER_SIZE) (frame_bytes m) = []" "CLEANER_NET_HEADER_SIZE \<le> length m + 4"
    "length m + CLEANER_NET_HEADER_SIZE \<le> length (frame_bytes m)"
proof -
  have "length m < 2 ^ 32" using assms by (simp add: MAX_CLEANER_PACKET_SIZE_def)
  then show "size_field (frame_bytes m) = length m" using size_field_frame [of m "[]"] by simp
  show "take (length m) (drop CLEANER_NET_HEADER_SIZE (frame_bytes m)) = m"
    using frame_parts(3) [of m "[]"] by (simp add: CLEANER_NET_HEADER_SIZE_def NET_HEADER_SIZE_def)
qed (simp_all add: CLEANER_NET_HEADER_SIZE_def)

section \<open>Secrets\<close>

text \<open>\<open>Tools::ConstantTimeStringCompare\<close>; the server has the same loop inline.\<close>

definition byte_or_zero :: "byte list \<Rightarrow> nat \<Rightarrow> byte" where
  "byte_or_zero a i = (if i < length a then a ! i else 0)"

definition ConstantTimeStringCompare :: "byte list \<Rightarrow> byte list \<Rightarrow> bool" where
  "ConstantTimeStringCompare a b =
    (let maxLen = (if length a > length b then length a else length b);
         result = fold (\<lambda>i r. Bit_Operations.or r (Bit_Operations.xor (byte_or_zero a i) (byte_or_zero b i))) [0..<maxLen] 0
     in (result = 0) \<and> (length a = length b))"

lemma xor_byte_eq_0: "Bit_Operations.xor (x :: byte) y = 0 \<longleftrightarrow> x = y"
proof
  assume "Bit_Operations.xor x y = 0"
  then have "Bit_Operations.xor (Bit_Operations.xor x y) y = y" by simp
  then show "x = y" by (simp add: xor.assoc)
qed simp

lemma fold_or_eq_0: "fold (\<lambda>i r. Bit_Operations.or r (f i)) js (r0 :: byte) = 0 \<longleftrightarrow> r0 = 0 \<and> (\<forall>i\<in>set js. f i = 0)"
  by (induction js arbitrary: r0) (simp_all add: or_eq_0_iff)

theorem secrets_compared: "ConstantTimeStringCompare a b \<longleftrightarrow> a = b"
proof
  assume c: "ConstantTimeStringCompare a b"
  then have len: "length a = length b" by (simp add: ConstantTimeStringCompare_def Let_def)
  with c have "\<forall>i\<in>set [0..<length b]. byte_or_zero a i = byte_or_zero b i"
    by (simp only: ConstantTimeStringCompare_def Let_def fold_or_eq_0 xor_byte_eq_0 if_cancel) blast
  then have "\<forall>i<length b. a ! i = b ! i" by (simp add: byte_or_zero_def len)
  then show "a = b" using len by (simp add: list_eq_iff_nth_eq)
next
  assume "a = b"
  then show "ConstantTimeStringCompare a b"
    by (simp only: ConstantTimeStringCompare_def Let_def fold_or_eq_0 xor_byte_eq_0) simp
qed

section \<open>The server\<close>

record cleaner_server =
  tcpSocket :: bool
  accepting :: bool
  blockConnection :: bool
  m_authenticated :: bool
  srvRecvBuf :: "byte list"
  myMessageFilter :: message_filter
  srvSent :: "byte list"

text \<open>When the constructor has begun to listen.\<close>

definition new_cleaner_server :: "cleaner_config \<Rightarrow> cleaner_server" where
  "new_cleaner_server cfg =
     \<lparr>tcpSocket = False, accepting = True, blockConnection = False, m_authenticated = False, srvRecvBuf = [],
      myMessageFilter = new_message_filter cfg, srvSent = []\<rparr>"

definition sendMessageToClient :: "message_codec \<Rightarrow> cleaner_message \<Rightarrow> cleaner_server \<Rightarrow> cleaner_server" where
  "sendMessageToClient mc m s = (if \<not> tcpSocket s then s else s\<lparr>srvSent := srvSent s @ cleaner_frame mc m\<rparr>)"

definition reply_action :: "ActionType \<Rightarrow> cleaner_action_type" where
  "reply_action a = (case a of WARN \<Rightarrow> cleanerActionWarning | KICK \<Rightarrow> cleanerActionKick
     | KICKBAN \<Rightarrow> cleanerActionBan | MUTE \<Rightarrow> cleanerActionMute | NOTHING \<Rightarrow> cleanerActionNone)"

text \<open>A C string ends at its first zero byte.\<close>

definition c_str :: "byte list \<Rightarrow> byte list" where
  "c_str = takeWhile (\<lambda>b. b \<noteq> 0)"

definition handleInit :: "message_codec \<Rightarrow> chat_text \<Rightarrow> nat \<Rightarrow> byte list \<Rightarrow> cleaner_server \<Rightarrow> bool \<times> cleaner_server" where
  "handleInit mc clientSecret version secret s =
    (if version = CLEANER_PROTOCOL_VERSION then
       (if ConstantTimeStringCompare (toUtf8 mc clientSecret) (toUtf8 mc (fromUtf8 mc secret))
        then (False, sendMessageToClient mc (CleanerInitAckMessage CLEANER_PROTOCOL_VERSION None) (s\<lparr>m_authenticated := True\<rparr>))
        else (True, s))
     else (True, s))"

definition handleRequest ::
  "message_codec \<Rightarrow> qt_text \<Rightarrow> int \<times> int \<Rightarrow> nat \<Rightarrow> cleaner_chat_type \<Rightarrow> nat \<Rightarrow> nat \<Rightarrow> byte list \<Rightarrow> byte list \<Rightarrow>
     cleaner_server \<Rightarrow> bool \<times> cleaner_server" where
  "handleRequest mc qt now requestId chatType gameId playerId name msg s =
    (if \<not> m_authenticated s then (True, s)
     else
       (let nick = fromUtf8 mc (c_str name);
            ((action, reply), f) = check qt (fst now) (snd now) gameId playerId nick (fromUtf8 mc (c_str msg)) (myMessageFilter s);
            s1 = s\<lparr>myMessageFilter := f\<rparr>
        in if action = NOTHING then (False, s1)
           else (False, sendMessageToClient mc
                   (CleanerChatReplyMessage requestId chatType gameId playerId (reply_action action) (toUtf8 mc reply)) s1)))"

definition handleMessage ::
  "message_codec \<Rightarrow> qt_text \<Rightarrow> chat_text \<Rightarrow> int \<times> int \<Rightarrow> cleaner_message \<Rightarrow> cleaner_server \<Rightarrow> bool \<times> cleaner_server" where
  "handleMessage mc qt clientSecret now m s = (case m of
     CleanerInitMessage version secret \<Rightarrow> handleInit mc clientSecret version secret s
   | CleanerChatRequestMessage requestId chatType gameId playerId name msg \<Rightarrow>
       handleRequest mc qt now requestId chatType gameId playerId name msg s
   | _ \<Rightarrow> (False, s))"

lemma handleMessage_frame [simp]:
  "srvRecvBuf (snd (handleMessage mc qt cs now m s)) = srvRecvBuf s"
  "tcpSocket (snd (handleMessage mc qt cs now m s)) = tcpSocket s"
  "accepting (snd (handleMessage mc qt cs now m s)) = accepting s"
  "blockConnection (snd (handleMessage mc qt cs now m s)) = blockConnection s"
  by (simp_all add: handleMessage_def handleInit_def handleRequest_def sendMessageToClient_def Let_def
      split: cleaner_message.split prod.split)

text \<open>The loop of \<open>onRead\<close>. The times may differ from packet to packet.\<close>

function read_packets ::
  "message_codec \<Rightarrow> qt_text \<Rightarrow> chat_text \<Rightarrow> (nat \<Rightarrow> int \<times> int) \<Rightarrow> cleaner_server \<Rightarrow> bool \<times> cleaner_server" where
  "read_packets mc qt cs clock s =
    (if length (srvRecvBuf s) \<ge> CLEANER_NET_HEADER_SIZE then
       (let packetSize = size_field (srvRecvBuf s) in
        if packetSize = 0 \<or> packetSize > MAX_CLEANER_PACKET_SIZE then (True, s\<lparr>srvRecvBuf := []\<rparr>)
        else if length (srvRecvBuf s) \<ge> packetSize + CLEANER_NET_HEADER_SIZE then
          (case parse mc (take packetSize (drop CLEANER_NET_HEADER_SIZE (srvRecvBuf s))) of
             None \<Rightarrow> (True, s\<lparr>srvRecvBuf := []\<rparr>)
           | Some m \<Rightarrow>
               (let rest = s\<lparr>srvRecvBuf := drop (packetSize + CLEANER_NET_HEADER_SIZE) (srvRecvBuf s)\<rparr>;
                    r = handleMessage mc qt cs (clock (length (srvRecvBuf s))) m rest
                in if fst r then (True, snd r) else read_packets mc qt cs clock (snd r)))
        else (False, s))
     else (False, s))"
  by pat_completeness auto
termination
  by (relation "measure (\<lambda>(mc, qt, cs, clock, s). length (srvRecvBuf s))") (auto simp: CLEANER_NET_HEADER_SIZE_def)

declare read_packets.simps [simp del]

text \<open>After an error the socket is cut off from the server before it is closed.\<close>

definition onRead ::
  "message_codec \<Rightarrow> qt_text \<Rightarrow> chat_text \<Rightarrow> (nat \<Rightarrow> int \<times> int) \<Rightarrow> byte list \<Rightarrow> cleaner_server \<Rightarrow> cleaner_server" where
  "onRead mc qt cs clock bs s =
    (if length (srvRecvBuf s) \<ge> 2 * MAX_CLEANER_PACKET_SIZE then s\<lparr>srvRecvBuf := []\<rparr>
     else if \<not> tcpSocket s then s
     else
       (let n = take (2 * MAX_CLEANER_PACKET_SIZE - length (srvRecvBuf s)) bs;
            r = (if n = [] then (True, s) else read_packets mc qt cs clock (s\<lparr>srvRecvBuf := srvRecvBuf s @ n\<rparr>))
        in if fst r then (snd r)\<lparr>blockConnection := False, tcpSocket := False\<rparr> else snd r))"

text \<open>\<open>pending\<close>: a connection waits in the queue. The old socket is given up in any case.\<close>

definition newCon :: "bool \<Rightarrow> cleaner_server \<Rightarrow> cleaner_server" where
  "newCon pending s =
    (if blockConnection s then s
     else if pending then s\<lparr>m_authenticated := False, tcpSocket := True, blockConnection := True, accepting := False\<rparr>
     else s\<lparr>m_authenticated := False, tcpSocket := False, blockConnection := False, accepting := True\<rparr>)"

definition socketUnconnected :: "cleaner_server \<Rightarrow> cleaner_server" where
  "socketUnconnected s = s\<lparr>tcpSocket := False, m_authenticated := False, blockConnection := False, accepting := True\<rparr>"

definition server_refreshConfig :: "cleaner_config \<Rightarrow> cleaner_server \<Rightarrow> cleaner_server" where
  "server_refreshConfig cfg s = s\<lparr>myMessageFilter := refreshConfig cfg (myMessageFilter s)\<rparr>"

section \<open>A client that is refused\<close>

text \<open>What the server can be told: a connection may come only while it accepts one, and the change of
  the socket to the unconnected state reaches it only while it has the socket.\<close>

datatype server_event = Connection | Data "byte list" "nat \<Rightarrow> int \<times> int" | Disconnected | ConfigTimer cleaner_config

definition server_event_possible :: "server_event \<Rightarrow> cleaner_server \<Rightarrow> bool" where
  "server_event_possible e s = (case e of Connection \<Rightarrow> accepting s | Data bs clock \<Rightarrow> tcpSocket s
     | Disconnected \<Rightarrow> tcpSocket s | ConfigTimer cfg \<Rightarrow> True)"

definition server_event_step ::
  "message_codec \<Rightarrow> qt_text \<Rightarrow> chat_text \<Rightarrow> server_event \<Rightarrow> cleaner_server \<Rightarrow> cleaner_server" where
  "server_event_step mc qt cs e s = (if \<not> server_event_possible e s then s else
     case e of Connection \<Rightarrow> newCon True s | Data bs clock \<Rightarrow> onRead mc qt cs clock bs s
     | Disconnected \<Rightarrow> socketUnconnected s | ConfigTimer cfg \<Rightarrow> server_refreshConfig cfg s)"

definition server_run :: "message_codec \<Rightarrow> qt_text \<Rightarrow> chat_text \<Rightarrow> server_event list \<Rightarrow> cleaner_server \<Rightarrow> cleaner_server" where
  "server_run mc qt cs es s = fold (server_event_step mc qt cs) es s"

text \<open>Without a socket and with the listening paused no event but the timer of the configuration remains.\<close>

lemma deaf_step:
  assumes "\<not> tcpSocket s" "\<not> accepting s"
  shows "\<not> tcpSocket (server_event_step mc qt cs e s)" "\<not> accepting (server_event_step mc qt cs e s)"
    "srvSent (server_event_step mc qt cs e s) = srvSent s"
  using assms by (simp_all add: server_event_step_def server_event_possible_def server_refreshConfig_def split: server_event.split)

lemma deaf_run:
  assumes "\<not> tcpSocket s" "\<not> accepting s"
  shows "\<not> tcpSocket (server_run mc qt cs es s) \<and> \<not> accepting (server_run mc qt cs es s) \<and>
    srvSent (server_run mc qt cs es s) = srvSent s"
  using assms
proof (induction es arbitrary: s)
  case (Cons e es)
  show ?case using Cons.IH [OF deaf_step(1,2) [OF Cons.prems]] deaf_step(3) [OF Cons.prems] by (simp add: server_run_def)
qed (simp add: server_run_def)

text \<open>One client whose secret is wrong makes the server deaf: it pauses the listening for a connection,
  and when it cuts the socket off after an error the signal that would resume the listening does not
  reach it.\<close>

theorem refused_client_blocks_server:
  assumes "accepting s" "\<not> blockConnection s" "srvRecvBuf s = []"
    "parse mc (serialize mc (CleanerInitMessage version secret)) = Some (CleanerInitMessage version secret)"
    "length (serialize mc (CleanerInitMessage version secret)) \<in> {1..MAX_CLEANER_PACKET_SIZE}"
    "version \<noteq> CLEANER_PROTOCOL_VERSION \<or> toUtf8 mc (fromUtf8 mc secret) \<noteq> toUtf8 mc clientSecret"
  shows "srvSent (server_run mc qt clientSecret
     (Connection # Data (cleaner_frame mc (CleanerInitMessage version secret)) clock # es) s) = srvSent s"
proof -
  define m where "m = CleanerInitMessage version secret"
  define s1 where "s1 = newCon True s"
  let ?b = "frame_bytes (serialize mc m)"
  have len: "1 \<le> length (serialize mc m)" "length (serialize mc m) \<le> 512"
    using assms(5) by (simp_all add: m_def MAX_CLEANER_PACKET_SIZE_def)
  have s1: "tcpSocket s1" "\<not> accepting s1" "srvRecvBuf s1 = []" "srvSent s1 = srvSent s" "server_event_step mc qt clientSecret Connection s = s1"
    using assms(1-3) by (simp_all add: s1_def newCon_def server_event_step_def server_event_possible_def)
  note frame = lone_frame [of "serialize mc m"]
  have refused: "handleMessage mc qt clientSecret now m x = (True, x)" for now x
    using assms(6) by (auto simp: m_def handleMessage_def handleInit_def secrets_compared)
  have read: "read_packets mc qt clientSecret clock (s1\<lparr>srvRecvBuf := ?b\<rparr>) = (True, s1\<lparr>srvRecvBuf := []\<rparr>)"
    using len assms(4) s1(3)
    unfolding read_packets.simps [of _ _ _ _ "s1\<lparr>srvRecvBuf := ?b\<rparr>"]
    using frame by (simp add: refused m_def [symmetric] MAX_CLEANER_PACKET_SIZE_def Let_def)
  have s2: "server_event_step mc qt clientSecret (Data (cleaner_frame mc m) clock) s1 =
      s1\<lparr>srvRecvBuf := [], blockConnection := False, tcpSocket := False\<rparr>"
    using s1 len read by (simp add: server_event_step_def server_event_possible_def onRead_def cleaner_frame_def MAX_CLEANER_PACKET_SIZE_def)
  have "srvSent (server_run mc qt clientSecret es (s1\<lparr>srvRecvBuf := [], blockConnection := False, tcpSocket := False\<rparr>)) = srvSent s"
    using deaf_run [of "s1\<lparr>srvRecvBuf := [], blockConnection := False, tcpSocket := False\<rparr>"] s1 by simp
  then show ?thesis using s1(5) s2 by (simp add: server_run_def m_def)
qed

section \<open>The manager in the game server\<close>

datatype manager_action =
    SignalLobbyBotMessage "byte list"
  | SignalGameBotMessage nat "byte list"
  | SignalKickPlayer nat
  | SignalBanPlayer nat
  | SignalMutePlayer nat

record cleaner_manager =
  m_connected :: bool
  m_curRequestId :: "32 word"
  mgrRecvBuf :: "byte list"
  mgrSent :: "byte list"
  mgrActions :: "manager_action list"

definition new_cleaner_manager :: cleaner_manager where
  "new_cleaner_manager = \<lparr>m_connected = False, m_curRequestId = 0, mgrRecvBuf = [], mgrSent = [], mgrActions = []\<rparr>"

definition GetNextRequestId :: "cleaner_manager \<Rightarrow> 32 word \<times> cleaner_manager" where
  "GetNextRequestId g =
    (let i = m_curRequestId g + 1; j = (if i = 0 then i + 1 else i) in (j, g\<lparr>m_curRequestId := j\<rparr>))"

lemma next_request_id: "fst (GetNextRequestId g) \<noteq> 0" "fst (GetNextRequestId g) \<noteq> m_curRequestId g"
  by (auto simp: GetNextRequestId_def Let_def)

definition SendMessageToServer :: "message_codec \<Rightarrow> cleaner_message \<Rightarrow> cleaner_manager \<Rightarrow> cleaner_manager" where
  "SendMessageToServer mc m g = g\<lparr>mgrSent := mgrSent g @ cleaner_frame mc m\<rparr>"

definition HandleGameChatText ::
  "message_codec \<Rightarrow> nat \<Rightarrow> nat \<Rightarrow> byte list \<Rightarrow> byte list \<Rightarrow> cleaner_manager \<Rightarrow> cleaner_manager" where
  "HandleGameChatText mc gameId playerId name txt g =
    (if m_connected g then
       (let (requestId, g1) = GetNextRequestId g
        in SendMessageToServer mc (CleanerChatRequestMessage (unat requestId)
             (if gameId \<noteq> 0 then cleanerChatTypeGame else cleanerChatTypeLobby) gameId playerId name txt) g1)
     else g)"

definition HandleLobbyChatText ::
  "message_codec \<Rightarrow> nat \<Rightarrow> byte list \<Rightarrow> byte list \<Rightarrow> cleaner_manager \<Rightarrow> cleaner_manager" where
  "HandleLobbyChatText mc playerId name txt g = HandleGameChatText mc 0 playerId name txt g"

text \<open>A successful connect.\<close>

definition HandleConnect :: "message_codec \<Rightarrow> byte list \<Rightarrow> cleaner_manager \<Rightarrow> cleaner_manager" where
  "HandleConnect mc clientSecret g =
     SendMessageToServer mc (CleanerInitMessage CLEANER_PROTOCOL_VERSION clientSecret) g"

definition ReInit :: "cleaner_manager \<Rightarrow> cleaner_manager" where
  "ReInit g = g\<lparr>mgrRecvBuf := []\<rparr>"

text \<open>A string that is not set reads as the empty one.\<close>

definition reply_actions :: "cleaner_chat_type \<Rightarrow> nat \<Rightarrow> nat \<Rightarrow> cleaner_action_type \<Rightarrow> byte list \<Rightarrow> manager_action list" where
  "reply_actions chatType gameId playerId act txt =
    (if txt = [] then [] else
       (case chatType of cleanerChatTypeLobby \<Rightarrow> [SignalLobbyBotMessage txt]
        | cleanerChatTypeGame \<Rightarrow> [SignalGameBotMessage gameId txt])) @
    (case act of cleanerActionKick \<Rightarrow> [SignalKickPlayer playerId] | cleanerActionBan \<Rightarrow> [SignalBanPlayer playerId]
     | cleanerActionMute \<Rightarrow> [SignalMutePlayer playerId] | _ \<Rightarrow> [])"

definition manager_HandleMessage :: "byte list \<Rightarrow> cleaner_message \<Rightarrow> cleaner_manager \<Rightarrow> bool \<times> cleaner_manager" where
  "manager_HandleMessage serverSecret m g = (case m of
     CleanerInitAckMessage version secret \<Rightarrow>
       (if version = CLEANER_PROTOCOL_VERSION \<and>
           ConstantTimeStringCompare serverSecret (case secret of None \<Rightarrow> [] | Some x \<Rightarrow> x)
        then (False, g\<lparr>m_connected := True\<rparr>) else (True, g))
   | CleanerChatReplyMessage requestId chatType gameId playerId act txt \<Rightarrow>
       (False, g\<lparr>mgrActions := mgrActions g @ reply_actions chatType gameId playerId act txt\<rparr>)
   | _ \<Rightarrow> (False, g))"

lemma manager_HandleMessage_buf [simp]: "mgrRecvBuf (snd (manager_HandleMessage ss m g)) = mgrRecvBuf g"
  by (simp add: manager_HandleMessage_def split: cleaner_message.split)

text \<open>The loop of \<open>HandleRead\<close>: a packet that cannot be parsed is skipped and ends the loop.\<close>

function manager_packets :: "message_codec \<Rightarrow> byte list \<Rightarrow> cleaner_manager \<Rightarrow> bool \<times> cleaner_manager" where
  "manager_packets mc ss g =
    (if length (mgrRecvBuf g) \<ge> CLEANER_NET_HEADER_SIZE then
       (let packetSize = size_field (mgrRecvBuf g) in
        if packetSize = 0 \<or> packetSize > MAX_CLEANER_PACKET_SIZE then (False, g\<lparr>mgrRecvBuf := []\<rparr>)
        else if length (mgrRecvBuf g) \<ge> packetSize + CLEANER_NET_HEADER_SIZE then
          (let rest = g\<lparr>mgrRecvBuf := drop (packetSize + CLEANER_NET_HEADER_SIZE) (mgrRecvBuf g)\<rparr> in
           case parse mc (take packetSize (drop CLEANER_NET_HEADER_SIZE (mgrRecvBuf g))) of
             None \<Rightarrow> (False, rest)
           | Some m \<Rightarrow>
               (let r = manager_HandleMessage ss m rest
                in if fst r then (True, snd r) else manager_packets mc ss (snd r)))
        else (False, g))
     else (False, g))"
  by pat_completeness auto
termination
  by (relation "measure (\<lambda>(mc, ss, g). length (mgrRecvBuf g))") (auto simp: CLEANER_NET_HEADER_SIZE_def)

declare manager_packets.simps [simp del]

definition manager_HandleRead :: "message_codec \<Rightarrow> byte list \<Rightarrow> byte list \<Rightarrow> cleaner_manager \<Rightarrow> cleaner_manager" where
  "manager_HandleRead mc ss bs g =
    (if length (mgrRecvBuf g) + length bs > 2 * MAX_CLEANER_PACKET_SIZE then g\<lparr>mgrRecvBuf := []\<rparr>
     else
       (let r = manager_packets mc ss (g\<lparr>mgrRecvBuf := mgrRecvBuf g @ bs\<rparr>)
        in if fst r then (snd r)\<lparr>m_connected := False\<rparr> else snd r))"

text \<open>A read that fails; the connection is tried again when it was established.\<close>

definition manager_ReadError :: "cleaner_manager \<Rightarrow> cleaner_manager" where
  "manager_ReadError g = (if m_connected g then ReInit (g\<lparr>m_connected := False\<rparr>) else g\<lparr>m_connected := False\<rparr>)"

section \<open>The handshake\<close>

text \<open>The acknowledgement of the server has no secret although the protocol requires one: the manager
  does not parse it, or reads the empty secret, and is not connected when it has a secret to expect.\<close>

theorem handshake_never_completes:
  assumes "serverSecret \<noteq> []" "\<not> m_connected g" "mgrRecvBuf g = []"
    and ack: "ack = CleanerInitAckMessage CLEANER_PROTOCOL_VERSION None"
    and parse: "parse mc (serialize mc ack) = None \<or> parse mc (serialize mc ack) = Some ack"
    and len: "1 \<le> length (serialize mc ack)" "length (serialize mc ack) \<le> MAX_CLEANER_PACKET_SIZE"
  shows "snd (handleInit mc cs CLEANER_PROTOCOL_VERSION secret s) \<in>
      {s, s\<lparr>m_authenticated := True\<rparr>, s\<lparr>m_authenticated := True, srvSent := srvSent s @ cleaner_frame mc ack\<rparr>} \<and>
    \<not> m_connected (manager_HandleRead mc serverSecret (cleaner_frame mc ack) g)"
proof
  show "snd (handleInit mc cs CLEANER_PROTOCOL_VERSION secret s) \<in>
      {s, s\<lparr>m_authenticated := True\<rparr>, s\<lparr>m_authenticated := True, srvSent := srvSent s @ cleaner_frame mc ack\<rparr>}"
    by (simp add: handleInit_def sendMessageToClient_def ack)
  let ?b = "frame_bytes (serialize mc ack)"
  have len512: "length (serialize mc ack) \<le> 512" using len(2) by (simp add: MAX_CLEANER_PACKET_SIZE_def)
  note frame = lone_frame [OF len(2)]
  have refused: "manager_HandleMessage serverSecret ack x = (True, x)" for x
    using assms(1) by (auto simp: manager_HandleMessage_def ack secrets_compared)
  have "\<not> m_connected (snd (manager_packets mc serverSecret (g\<lparr>mgrRecvBuf := ?b\<rparr>)))"
    using len(1) len512 parse assms(2)
    unfolding manager_packets.simps [of _ _ "g\<lparr>mgrRecvBuf := ?b\<rparr>"]
    using frame by (auto simp: refused MAX_CLEANER_PACKET_SIZE_def Let_def)
  then show "\<not> m_connected (manager_HandleRead mc serverSecret (cleaner_frame mc ack) g)"
    using len(2) len512 assms(2,3) by (simp add: manager_HandleRead_def Let_def cleaner_frame_def MAX_CLEANER_PACKET_SIZE_def)
qed

end
