(* ===== verification/Ban_Manager.thy ===== *)
theory Ban_Manager
  imports Poker_Prelude "HOL-Library.Word"
begin

text \<open>
  The bans and administrators of the server (\<open>ServerBanManager\<close>, \<open>src/src/net/serverbanmanager.cpp\<close>). A
  \<open>std::map\<close> is an association list in the order of its keys. The expression library is a parameter:
  what an expression compiles to (\<open>None\<close> for an invalid one) and what it matches. A timer is its
  expiry in seconds; it fires as a step of its own. An exception is \<open>None\<close>.
\<close>

record 'r regex_lib =
  compile :: "string \<Rightarrow> 'r option"
  regex_match :: "string \<Rightarrow> 'r \<Rightarrow> bool"
  empty_regex :: 'r

type_synonym ban_id = "32 word"

record 'r TimedPlayerBan =
  nickTimer :: "int option"
  nameStr :: string
  nameRegex :: 'r

record TimedIPBan =
  ipTimer :: "int option"
  ipAddress :: string

record 'r ban_manager =
  m_banPlayerNameMap :: "(ban_id \<times> 'r TimedPlayerBan) list"
  m_banIPAddressMap :: "(ban_id \<times> TimedIPBan) list"
  m_gameNameBadWordFilter :: "'r list"
  m_adminPlayers :: "nat list"
  m_curBanId :: ban_id

definition new_ban_manager :: "'r ban_manager" where
  "new_ban_manager = \<lparr>m_banPlayerNameMap = [], m_banIPAddressMap = [], m_gameNameBadWordFilter = [],
     m_adminPlayers = [], m_curBanId = 0\<rparr>"

section \<open>Maps\<close>

fun map_put :: "ban_id \<Rightarrow> 'v \<Rightarrow> (ban_id \<times> 'v) list \<Rightarrow> (ban_id \<times> 'v) list" where
  "map_put k v [] = [(k, v)]"
| "map_put k v ((i, x) # m) =
    (if k < i then (k, v) # (i, x) # m else if k = i then (k, v) # m else (i, x) # map_put k v m)"

definition map_erase :: "ban_id \<Rightarrow> (ban_id \<times> 'v) list \<Rightarrow> (ban_id \<times> 'v) list" where
  "map_erase k m = filter (\<lambda>e. fst e \<noteq> k) m"

definition has_key :: "ban_id \<Rightarrow> (ban_id \<times> 'v) list \<Rightarrow> bool" where
  "has_key k m = list_ex (\<lambda>e. fst e = k) m"

definition map_ok :: "(ban_id \<times> 'v) list \<Rightarrow> bool" where
  "map_ok m \<longleftrightarrow> sorted_wrt (<) (map fst m)"

lemma set_map_put: "map_ok m \<Longrightarrow> set (map_put k v m) = insert (k, v) {e \<in> set m. fst e \<noteq> k}"
  by (induction k v m rule: map_put.induct) (force simp: map_ok_def)+

lemma map_put_ok: "map_ok m \<Longrightarrow> map_ok (map_put k v m)"
proof (induction k v m rule: map_put.induct)
  case (2 k v i x m)
  have m: "map_ok m" using 2(2) by (simp add: map_ok_def)
  show ?case using 2 set_map_put [OF m, of k v] m by (auto simp: map_ok_def)
qed (simp add: map_ok_def)

lemma map_erase_ok: "map_ok m \<Longrightarrow> map_ok (map_erase k m)"
  by (induction m) (auto simp: map_ok_def map_erase_def)

lemma map_erase_set [simp]: "set (map_erase k m) = {e \<in> set m. fst e \<noteq> k}"
  by (auto simp: map_erase_def)

lemma has_key_set: "has_key k m \<longleftrightarrow> k \<in> fst ` set m"
  by (auto simp: has_key_def list_ex_iff)

section \<open>The next id\<close>

definition next_id :: "ban_id \<Rightarrow> ban_id" where
  "next_id i = (if i + 1 = 0 then 1 else i + 1)"

lemma unat_less_32: "unat (w :: 32 word) < 4294967296"
  using unsigned_less [of w] by simp

lemma plus_1_eq_0: "(w :: 32 word) + 1 = 0 \<longleftrightarrow> unat w + 1 = 4294967296"
  using unat_less_32 [of w] unat_plus_if' [of w 1] by (simp add: word_unat_eq_iff split: if_splits)

lemma unat_plus_1: "(w :: 32 word) + 1 \<noteq> 0 \<Longrightarrow> unat (w + 1) = unat w + 1"
  using unat_plus_if' [of w 1] plus_1_eq_0 [of w] unat_less_32 [of w] by simp

text \<open>The loop counts its rounds in 32 bits and gives up when the count wraps around.\<close>

function find_ban_id :: "(ban_id \<Rightarrow> bool) \<Rightarrow> ban_id \<Rightarrow> 32 word \<Rightarrow> ban_id option \<times> ban_id" where
  "find_ban_id used cur checked =
    (let cur1 = next_id cur; checked1 = checked + 1
     in if checked1 = 0 then (None, cur1)
        else if \<not> used cur1 then (Some cur1, cur1)
        else find_ban_id used cur1 checked1)"
  by pat_completeness auto

termination
proof (relation "measure (\<lambda>(used, cur, checked). 2 ^ 32 - unat checked)", goal_cases)
  case (2 used cur checked cur1 checked1)
  have "unat (checked + 1) = unat checked + 1" using 2 by (simp add: unat_plus_1)
  then show ?case using 2 unat_less_32 [of "checked + 1"] by simp
qed simp

declare find_ban_id.simps [simp del]

definition GetNextBanId :: "'r ban_manager \<Rightarrow> ban_id option \<times> 'r ban_manager" where
  "GetNextBanId bm =
    (let (r, cur) = find_ban_id (\<lambda>i. has_key i (m_banPlayerNameMap bm) \<or> has_key i (m_banIPAddressMap bm)) (m_curBanId bm) 0
     in (r, bm\<lparr>m_curBanId := cur\<rparr>))"

text \<open>Going on from any id, every id but 0 comes up within \<open>2 ^ 32 - 1\<close> rounds.\<close>

lemma unat_next_id: "unat (next_id i) = (if unat i + 1 = 2 ^ 32 then 1 else unat i + 1)"
  using plus_1_eq_0 [of i] unat_plus_1 [of i] by (auto simp: next_id_def)

lemma next_id_nonzero: "next_id i \<noteq> 0"
  by (simp add: next_id_def)

lemma unat_next_ids:
  assumes "n < 2 ^ 32"
  shows "unat ((next_id ^^ n) i) = (if unat i + n < 2 ^ 32 then unat i + n else unat i + n + 1 - 2 ^ 32)"
  using assms
proof (induction n)
  case 0
  then show ?case using unat_less_32 [of i] by simp
next
  case (Suc n)
  have "unat i < 2 ^ 32" using unat_less_32 [of i] by simp
  then show ?case using Suc by (auto simp: unat_next_id)
qed

lemma ids_covered:
  assumes "k \<noteq> 0"
  shows "\<exists>n. 1 \<le> n \<and> n < 2 ^ 32 \<and> (next_id ^^ n) i = k"
proof -
  have k: "0 < unat k" "unat k < 2 ^ 32" "unat i < 2 ^ 32"
    using assms unat_less_32 [of k] unat_less_32 [of i] by (simp_all add: unat_gt_0)
  define n where "n = (if unat i < unat k then unat k - unat i else 2 ^ 32 - 1 + unat k - unat i)"
  have n: "1 \<le> n" "n < 2 ^ 32" using k by (auto simp: n_def)
  have "unat ((next_id ^^ n) i) = unat k" using k unat_next_ids [OF n(2), of i] by (auto simp: n_def)
  then show ?thesis using n by (metis word_unat_eq_iff)
qed

lemma find_ban_id_found:
  "find_ban_id used cur checked = (Some i, c) \<Longrightarrow> \<not> used i \<and> i \<noteq> 0 \<and> c = i"
proof (induction used cur checked rule: find_ban_id.induct)
  case (1 used cur checked)
  from 1(2) show ?case
    by (subst (asm) find_ban_id.simps)
      (use 1(1) next_id_nonzero [of cur] in \<open>auto simp: Let_def split: if_splits\<close>)
qed

lemma find_ban_id_failed:
  "fst (find_ban_id used cur checked) = None \<Longrightarrow> 1 \<le> n \<Longrightarrow> n + unat checked < 2 ^ 32 \<Longrightarrow> used ((next_id ^^ n) cur)"
proof (induction used cur checked arbitrary: n rule: find_ban_id.induct)
  case (1 used cur checked)
  have c: "checked + 1 \<noteq> 0" using 1(3,4) plus_1_eq_0 [of checked] by simp
  have u: "used (next_id cur)" "fst (find_ban_id used (next_id cur) (checked + 1)) = None"
    using 1(2) c by (subst (asm) find_ban_id.simps, simp add: Let_def split: if_splits)+
  show ?case
  proof (cases n)
    case 0
    then show ?thesis using 1(3) by simp
  next
    case (Suc m)
    show ?thesis
    proof (cases "m = 0")
      case True
      then show ?thesis using u(1) Suc by simp
    next
      case False
      have "used ((next_id ^^ m) (next_id cur))"
        using 1(1) [OF refl refl c _ u(2), of m] u(1) False 1(4) unat_plus_1 [OF c] Suc by simp
      then show ?thesis by (simp add: Suc funpow_swap1)
    qed
  qed
qed

section \<open>The operations\<close>

text \<open>A ban of 0 hours has no timer. \<open>hours\<close> is a type of the code's clock.\<close>

definition InternalRegisterTimedBan :: "int \<Rightarrow> nat \<Rightarrow> int option" where
  "InternalRegisterTimedBan now durationHours = (if durationHours \<noteq> 0 then Some (now + 3600 * int durationHours) else None)"

definition put_name_ban ::
  "'r regex_lib \<Rightarrow> int \<Rightarrow> string \<Rightarrow> 'r \<Rightarrow> nat \<Rightarrow> 'r ban_manager \<Rightarrow> ban_id option \<times> 'r ban_manager" where
  "put_name_ban rl now name rx durationHours bm =
    (let (r, bm1) = GetNextBanId bm in
     case r of None \<Rightarrow> (None, bm1)
     | Some banId \<Rightarrow> (Some banId, bm1\<lparr>m_banPlayerNameMap := map_put banId
         \<lparr>nickTimer = InternalRegisterTimedBan now durationHours, nameStr = name, nameRegex = rx\<rparr> (m_banPlayerNameMap bm1)\<rparr>))"

definition BanPlayerName ::
  "'r regex_lib \<Rightarrow> int \<Rightarrow> string \<Rightarrow> nat \<Rightarrow> 'r ban_manager \<Rightarrow> ban_id option \<times> 'r ban_manager" where
  "BanPlayerName rl now name durationHours bm = put_name_ban rl now name (empty_regex rl) durationHours bm"

text \<open>An invalid expression is logged and no ban.\<close>

definition BanPlayerRegex ::
  "'r regex_lib \<Rightarrow> int \<Rightarrow> string \<Rightarrow> nat \<Rightarrow> 'r ban_manager \<Rightarrow> ban_id option \<times> 'r ban_manager" where
  "BanPlayerRegex rl now expr durationHours bm =
    (case compile rl expr of None \<Rightarrow> (None, bm) | Some rx \<Rightarrow> put_name_ban rl now [] rx durationHours bm)"

definition BanIPAddress :: "int \<Rightarrow> string \<Rightarrow> nat \<Rightarrow> 'r ban_manager \<Rightarrow> ban_id option \<times> 'r ban_manager" where
  "BanIPAddress now ip durationHours bm =
    (let (r, bm1) = GetNextBanId bm in
     case r of None \<Rightarrow> (None, bm1)
     | Some banId \<Rightarrow> (Some banId, bm1\<lparr>m_banIPAddressMap := map_put banId
         \<lparr>ipTimer = InternalRegisterTimedBan now durationHours, ipAddress = ip\<rparr> (m_banIPAddressMap bm1)\<rparr>))"

definition UnBan :: "ban_id \<Rightarrow> 'r ban_manager \<Rightarrow> bool \<times> 'r ban_manager" where
  "UnBan banId bm =
    (if has_key banId (m_banPlayerNameMap bm)
     then (True, bm\<lparr>m_banPlayerNameMap := map_erase banId (m_banPlayerNameMap bm)\<rparr>)
     else if has_key banId (m_banIPAddressMap bm)
     then (True, bm\<lparr>m_banIPAddressMap := map_erase banId (m_banIPAddressMap bm)\<rparr>)
     else (False, bm))"

definition TimerRemoveBan :: "bool \<Rightarrow> ban_id \<Rightarrow> 'r ban_manager \<Rightarrow> 'r ban_manager" where
  "TimerRemoveBan cancelled banId bm = (if \<not> cancelled then snd (UnBan banId bm) else bm)"

definition ClearBanList :: "'r ban_manager \<Rightarrow> 'r ban_manager" where
  "ClearBanList bm = bm\<lparr>m_banPlayerNameMap := [], m_banIPAddressMap := []\<rparr>"

definition IsPlayerBanned :: "'r regex_lib \<Rightarrow> string \<Rightarrow> 'r ban_manager \<Rightarrow> bool" where
  "IsPlayerBanned rl name bm =
     list_ex (\<lambda>(i, b). if nameStr b = [] then regex_match rl name (nameRegex b) else name = nameStr b) (m_banPlayerNameMap bm)"

definition IsIPAddressBanned :: "string \<Rightarrow> 'r ban_manager \<Rightarrow> bool" where
  "IsIPAddressBanned ip bm = list_ex (\<lambda>(i, b). ip = ipAddress b) (m_banIPAddressMap bm)"

definition InitGameNameBadWordList :: "'r regex_lib \<Rightarrow> string list \<Rightarrow> 'r ban_manager \<Rightarrow> 'r ban_manager" where
  "InitGameNameBadWordList rl badWordList bm = bm\<lparr>m_gameNameBadWordFilter := List.map_filter (compile rl) badWordList\<rparr>"

definition IsBadGameName :: "'r regex_lib \<Rightarrow> string \<Rightarrow> 'r ban_manager \<Rightarrow> bool" where
  "IsBadGameName rl name bm = list_ex (regex_match rl name) (m_gameNameBadWordFilter bm)"

definition DB_ID_INVALID :: nat where "DB_ID_INVALID = 0"

definition SetAdminPlayerIds :: "nat list \<Rightarrow> 'r ban_manager \<Rightarrow> 'r ban_manager" where
  "SetAdminPlayerIds adminList bm = bm\<lparr>m_adminPlayers := sort adminList\<rparr>"

text \<open>\<open>std::binary_search\<close>: the first element that is not smaller, on a range that is sorted.\<close>

definition binary_search :: "nat list \<Rightarrow> nat \<Rightarrow> bool" where
  "binary_search xs v = (case dropWhile (\<lambda>x. x < v) xs of [] \<Rightarrow> False | x # _ \<Rightarrow> \<not> v < x)"

definition IsAdminPlayer :: "nat \<Rightarrow> 'r ban_manager \<Rightarrow> bool" where
  "IsAdminPlayer playerId bm = (playerId \<noteq> DB_ID_INVALID \<and> binary_search (m_adminPlayers bm) playerId)"

lemma binary_search_sorted: "sorted xs \<Longrightarrow> binary_search xs v \<longleftrightarrow> v \<in> set xs"
  by (induction xs) (auto simp: binary_search_def)

lemma admins: "IsAdminPlayer p (SetAdminPlayerIds l bm) \<longleftrightarrow> p \<noteq> DB_ID_INVALID \<and> p \<in> set l"
  by (simp add: IsAdminPlayer_def SetAdminPlayerIds_def binary_search_sorted)

section \<open>Ids and bans\<close>

definition used_ids :: "'r ban_manager \<Rightarrow> ban_id set" where
  "used_ids bm = fst ` set (m_banPlayerNameMap bm) \<union> fst ` set (m_banIPAddressMap bm)"

lemma GetNextBanId_cases:
  assumes "GetNextBanId bm = (r, bm')"
  shows "bm' = bm\<lparr>m_curBanId := m_curBanId bm'\<rparr>"
    "r = Some i \<Longrightarrow> i \<noteq> 0 \<and> i \<notin> used_ids bm"
    "r = None \<Longrightarrow> - {0} \<subseteq> used_ids bm"
proof -
  let ?u = "\<lambda>i. has_key i (m_banPlayerNameMap bm) \<or> has_key i (m_banIPAddressMap bm)"
  obtain c where f: "find_ban_id ?u (m_curBanId bm) 0 = (r, c)" "bm' = bm\<lparr>m_curBanId := c\<rparr>"
    using assms by (auto simp: GetNextBanId_def split: prod.splits)
  have u: "?u i \<longleftrightarrow> i \<in> used_ids bm" for i by (auto simp: used_ids_def has_key_set)
  show "bm' = bm\<lparr>m_curBanId := m_curBanId bm'\<rparr>" using f(2) by simp
  show "r = Some i \<Longrightarrow> i \<noteq> 0 \<and> i \<notin> used_ids bm" using find_ban_id_found [of ?u _ 0 i c] f(1) u by simp
  show "- {0} \<subseteq> used_ids bm" if none: "r = None"
  proof
    fix k :: ban_id assume "k \<in> - {0}"
    then obtain n where n: "1 \<le> n" "n < 2 ^ 32" "(next_id ^^ n) (m_curBanId bm) = k"
      using ids_covered [of k "m_curBanId bm"] by auto
    have "?u ((next_id ^^ n) (m_curBanId bm))"
      by (rule find_ban_id_failed [where checked = 0]) (use f(1) none n in simp_all)
    then show "k \<in> used_ids bm" using n(3) u by simp
  qed
qed

lemma next_ban_id_exists:
  assumes "length (m_banPlayerNameMap bm) + length (m_banIPAddressMap bm) < 2 ^ 32 - 1"
  shows "\<exists>i bm'. GetNextBanId bm = (Some i, bm')"
proof (rule ccontr)
  assume "\<not> ?thesis"
  then obtain bm' where "GetNextBanId bm = (None, bm')" by (metis option.exhaust surj_pair)
  then have "- {0} \<subseteq> used_ids bm" by (rule GetNextBanId_cases(3)) simp
  then have "card (- {0 :: ban_id}) \<le> card (used_ids bm)" by (intro card_mono) (simp_all add: used_ids_def)
  also have "\<dots> \<le> card (fst ` set (m_banPlayerNameMap bm)) + card (fst ` set (m_banIPAddressMap bm))"
    unfolding used_ids_def by (rule card_Un_le)
  also have "\<dots> \<le> length (m_banPlayerNameMap bm) + length (m_banIPAddressMap bm)"
    by (intro add_mono order_trans [OF card_image_le] card_length) simp_all
  finally show False using assms by (simp add: Compl_eq_Diff_UNIV card_Diff_singleton card_word)
qed

text \<open>C14: The id of a new ban is found. While there are fewer than \<open>2 ^ 32 - 1\<close> bans the search ends with
  an id that is not 0 and belongs to no ban, wherever the counter stands; it wraps around.\<close>

theorem next_ban_id_fresh:
  assumes "length (m_banPlayerNameMap bm) + length (m_banIPAddressMap bm) < 2 ^ 32 - 1"
  shows "\<exists>i bm'. GetNextBanId bm = (Some i, bm') \<and> i \<noteq> 0 \<and> \<not> has_key i (m_banPlayerNameMap bm) \<and>
    \<not> has_key i (m_banIPAddressMap bm) \<and> m_curBanId bm' = i"
proof -
  obtain i bm' where g: "GetNextBanId bm = (Some i, bm')" using next_ban_id_exists [OF assms] by blast
  then have "m_curBanId bm' = i"
    by (auto simp: GetNextBanId_def split: prod.splits dest: find_ban_id_found)
  then show ?thesis using g GetNextBanId_cases(2) [OF g refl] by (auto simp: used_ids_def has_key_set)
qed

text \<open>The counter at its last value, with a ban on 1: the next id is 2.\<close>

definition some_bans :: "string ban_manager" where
  "some_bans = new_ban_manager\<lparr>m_banPlayerNameMap := [(1, \<lparr>nickTimer = None, nameStr = ''Eve'', nameRegex = []\<rparr>)],
     m_banIPAddressMap := [(7, \<lparr>ipTimer = Some 3600, ipAddress = ''10.0.0.1''\<rparr>)], m_curBanId := - 1\<rparr>"

theorem next_ban_id_fresh_witness:
  "\<exists>bm'. GetNextBanId some_bans = (Some 2, bm') \<and> m_curBanId bm' = 2"
proof -
  have two: "fst (GetNextBanId some_bans) = Some 2" by code_simp
  show ?thesis using next_ban_id_fresh [of some_bans] two by (auto simp: some_bans_def new_ban_manager_def)
qed

section \<open>The invariant\<close>

definition ban_ok :: "'r ban_manager \<Rightarrow> bool" where
  "ban_ok bm \<longleftrightarrow> map_ok (m_banPlayerNameMap bm) \<and> map_ok (m_banIPAddressMap bm) \<and> 0 \<notin> used_ids bm \<and>
     fst ` set (m_banPlayerNameMap bm) \<inter> fst ` set (m_banIPAddressMap bm) = {}"

datatype ban_event =
    BanName string nat
  | BanRegex string nat
  | BanIP string nat
  | UnBanId ban_id
  | TimerFires ban_id
  | ClearBans

text \<open>The time at which a ban ends.\<close>

definition timer_of :: "ban_id \<Rightarrow> 'r ban_manager \<Rightarrow> int option" where
  "timer_of i bm = (case map_of (m_banPlayerNameMap bm) i of Some b \<Rightarrow> nickTimer b
     | None \<Rightarrow> (case map_of (m_banIPAddressMap bm) i of Some b \<Rightarrow> ipTimer b | None \<Rightarrow> None))"

text \<open>A timer fires after its expiry; the handler of a timer that was cancelled does nothing.\<close>

definition ban_step :: "'r regex_lib \<Rightarrow> int \<times> ban_event \<Rightarrow> 'r ban_manager \<Rightarrow> 'r ban_manager" where
  "ban_step rl e bm = (case e of
     (now, BanName name h) \<Rightarrow> snd (BanPlayerName rl now name h bm)
   | (now, BanRegex expr h) \<Rightarrow> snd (BanPlayerRegex rl now expr h bm)
   | (now, BanIP ip h) \<Rightarrow> snd (BanIPAddress now ip h bm)
   | (now, UnBanId i) \<Rightarrow> snd (UnBan i bm)
   | (now, TimerFires i) \<Rightarrow> TimerRemoveBan (case timer_of i bm of None \<Rightarrow> True | Some t \<Rightarrow> now < t) i bm
   | (now, ClearBans) \<Rightarrow> ClearBanList bm)"

definition ban_run :: "'r regex_lib \<Rightarrow> (int \<times> ban_event) list \<Rightarrow> 'r ban_manager \<Rightarrow> 'r ban_manager" where
  "ban_run rl es bm = fold (ban_step rl) es bm"

lemma GetNextBanId_frame:
  "GetNextBanId bm = (r, bm') \<Longrightarrow>
     m_banPlayerNameMap bm' = m_banPlayerNameMap bm \<and> m_banIPAddressMap bm' = m_banIPAddressMap bm"
  by (auto simp: GetNextBanId_def split: prod.splits)

text \<open>A new ban and the old ones.\<close>

lemma put_new:
  assumes "map_ok m" "i \<notin> fst ` set m"
  shows "set (map_put i v m) = insert (i, v) (set m)"
proof -
  have "{e \<in> set m. fst e \<noteq> i} = set m" using assms(2) by force
  then show ?thesis by (simp add: set_map_put [OF assms(1)])
qed

lemma put_name_ban_cases:
  assumes "put_name_ban rl now name rx h bm = (r, bm')" "ban_ok bm"
  defines "b \<equiv> \<lparr>nickTimer = InternalRegisterTimedBan now h, nameStr = name, nameRegex = rx\<rparr>"
  shows "ban_ok bm'" "m_banIPAddressMap bm' = m_banIPAddressMap bm"
    "set (m_banPlayerNameMap bm') = (case r of None \<Rightarrow> {} | Some i \<Rightarrow> {(i, b)}) \<union> set (m_banPlayerNameMap bm)"
    "r = Some i \<Longrightarrow> i \<notin> used_ids bm"
proof -
  obtain s bm1 where g: "GetNextBanId bm = (s, bm1)" by fastforce
  note f = GetNextBanId_frame [OF g]
  have ok: "map_ok (m_banPlayerNameMap bm)" using assms(2) by (simp add: ban_ok_def)
  have "ban_ok bm' \<and> m_banIPAddressMap bm' = m_banIPAddressMap bm \<and>
    set (m_banPlayerNameMap bm') = (case r of None \<Rightarrow> {} | Some i \<Rightarrow> {(i, b)}) \<union> set (m_banPlayerNameMap bm) \<and>
    (\<forall>i. r = Some i \<longrightarrow> i \<notin> used_ids bm)"
  proof (cases s)
    case None
    then show ?thesis using assms(1,2) f by (auto simp: put_name_ban_def g ban_ok_def used_ids_def)
  next
    case (Some j)
    have j: "j \<noteq> 0" "j \<notin> used_ids bm" using GetNextBanId_cases(2) [OF g Some] by simp_all
    have e: "r = Some j" "bm' = bm1\<lparr>m_banPlayerNameMap := map_put j b (m_banPlayerNameMap bm)\<rparr>"
      using assms(1) f by (simp_all add: put_name_ban_def g Some b_def)
    have "set (map_put j b (m_banPlayerNameMap bm)) = insert (j, b) (set (m_banPlayerNameMap bm))"
      using j(2) by (intro put_new ok) (simp add: used_ids_def)
    then show ?thesis using j assms(2) f map_put_ok [OF ok]
      by (simp add: e ban_ok_def used_ids_def)
  qed
  then show "ban_ok bm'" "m_banIPAddressMap bm' = m_banIPAddressMap bm"
    "set (m_banPlayerNameMap bm') = (case r of None \<Rightarrow> {} | Some i \<Rightarrow> {(i, b)}) \<union> set (m_banPlayerNameMap bm)"
    "r = Some i \<Longrightarrow> i \<notin> used_ids bm" by blast+
qed

lemma BanIPAddress_cases:
  assumes "BanIPAddress now ip h bm = (r, bm')" "ban_ok bm"
  defines "b \<equiv> \<lparr>ipTimer = InternalRegisterTimedBan now h, ipAddress = ip\<rparr>"
  shows "ban_ok bm'" "m_banPlayerNameMap bm' = m_banPlayerNameMap bm"
    "set (m_banIPAddressMap bm') = (case r of None \<Rightarrow> {} | Some i \<Rightarrow> {(i, b)}) \<union> set (m_banIPAddressMap bm)"
proof -
  obtain s bm1 where g: "GetNextBanId bm = (s, bm1)" by fastforce
  note f = GetNextBanId_frame [OF g]
  have ok: "map_ok (m_banIPAddressMap bm)" using assms(2) by (simp add: ban_ok_def)
  have "ban_ok bm' \<and> m_banPlayerNameMap bm' = m_banPlayerNameMap bm \<and>
    set (m_banIPAddressMap bm') = (case r of None \<Rightarrow> {} | Some i \<Rightarrow> {(i, b)}) \<union> set (m_banIPAddressMap bm)"
  proof (cases s)
    case None
    then show ?thesis using assms(1,2) f by (auto simp: BanIPAddress_def g ban_ok_def used_ids_def)
  next
    case (Some j)
    have j: "j \<noteq> 0" "j \<notin> used_ids bm" using GetNextBanId_cases(2) [OF g Some] by simp_all
    have e: "r = Some j" "bm' = bm1\<lparr>m_banIPAddressMap := map_put j b (m_banIPAddressMap bm)\<rparr>"
      using assms(1) f by (simp_all add: BanIPAddress_def g Some b_def)
    have "set (map_put j b (m_banIPAddressMap bm)) = insert (j, b) (set (m_banIPAddressMap bm))"
      using j(2) by (intro put_new ok) (simp add: used_ids_def)
    then show ?thesis using j assms(2) f map_put_ok [OF ok]
      by (simp add: e ban_ok_def used_ids_def)
  qed
  then show "ban_ok bm'" "m_banPlayerNameMap bm' = m_banPlayerNameMap bm"
    "set (m_banIPAddressMap bm') = (case r of None \<Rightarrow> {} | Some i \<Rightarrow> {(i, b)}) \<union> set (m_banIPAddressMap bm)" by blast+
qed

text \<open>\<open>UnBan\<close> removes the ban with the id, of either kind, and no other.\<close>

lemma UnBan_cases:
  assumes "ban_ok bm"
  shows "ban_ok (snd (UnBan i bm))" "fst (UnBan i bm) \<longleftrightarrow> i \<in> used_ids bm" "i \<notin> used_ids (snd (UnBan i bm))"
    "set (m_banPlayerNameMap (snd (UnBan i bm))) = {e \<in> set (m_banPlayerNameMap bm). fst e \<noteq> i}"
    "set (m_banIPAddressMap (snd (UnBan i bm))) = {e \<in> set (m_banIPAddressMap bm). fst e \<noteq> i}"
proof -
  have no: "{e \<in> set m. fst e \<noteq> i} = set m" if "i \<notin> fst ` set m" for m :: "(ban_id \<times> 'v) list"
    using that by force
  show names: "set (m_banPlayerNameMap (snd (UnBan i bm))) = {e \<in> set (m_banPlayerNameMap bm). fst e \<noteq> i}"
    using no [of "m_banPlayerNameMap bm"] by (simp add: UnBan_def has_key_set)
  have "i \<notin> fst ` set (m_banIPAddressMap bm)" if "i \<in> fst ` set (m_banPlayerNameMap bm)"
    using that assms by (auto simp: ban_ok_def)
  then show ips: "set (m_banIPAddressMap (snd (UnBan i bm))) = {e \<in> set (m_banIPAddressMap bm). fst e \<noteq> i}"
    using no [of "m_banIPAddressMap bm"] by (auto simp: UnBan_def has_key_set)
  show "fst (UnBan i bm) \<longleftrightarrow> i \<in> used_ids bm" by (simp add: UnBan_def has_key_set used_ids_def)
  show "i \<notin> used_ids (snd (UnBan i bm))" using names ips by (auto simp: used_ids_def)
  have "map_ok (m_banPlayerNameMap (snd (UnBan i bm)))" "map_ok (m_banIPAddressMap (snd (UnBan i bm)))"
    using assms by (simp_all add: UnBan_def ban_ok_def map_erase_ok)
  then show "ban_ok (snd (UnBan i bm))" using assms names ips unfolding ban_ok_def used_ids_def by auto
qed

section \<open>Bans last\<close>

text \<open>A ban that is not removed by an administrator stays until its timer has run out.\<close>

definition spares :: "ban_id \<Rightarrow> int option \<Rightarrow> int \<times> ban_event \<Rightarrow> bool" where
  "spares i limit e = ((case snd e of UnBanId j \<Rightarrow> j \<noteq> i | ClearBans \<Rightarrow> False | _ \<Rightarrow> True) \<and>
     (case limit of None \<Rightarrow> True | Some t \<Rightarrow> fst e < t))"

lemma timer_of_name:
  assumes "ban_ok bm" "(i, b) \<in> set (m_banPlayerNameMap bm)"
  shows "timer_of i bm = nickTimer b"
proof -
  have "distinct (map fst (m_banPlayerNameMap bm))"
    using assms(1) by (auto simp: ban_ok_def map_ok_def strict_sorted_iff)
  then show ?thesis using assms(2) by (simp add: timer_of_def)
qed

lemma ban_step_keeps:
  assumes "ban_ok bm" "(i, b) \<in> set (m_banPlayerNameMap bm)" "spares i (nickTimer b) (now, e)"
  shows "ban_ok (ban_step rl (now, e) bm)" "(i, b) \<in> set (m_banPlayerNameMap (ban_step rl (now, e) bm))"
proof -
  have "ban_ok (ban_step rl (now, e) bm) \<and> (i, b) \<in> set (m_banPlayerNameMap (ban_step rl (now, e) bm))"
  proof (cases e)
    case (BanName name h)
    obtain r bm' where p: "put_name_ban rl now name (empty_regex rl) h bm = (r, bm')" by fastforce
    show ?thesis using put_name_ban_cases(1,3) [OF p assms(1)] assms(2) p by (simp add: BanName ban_step_def BanPlayerName_def)
  next
    case (BanRegex expr h)
    show ?thesis
    proof (cases "compile rl expr")
      case None
      then show ?thesis using assms by (simp add: BanRegex ban_step_def BanPlayerRegex_def)
    next
      case (Some rx)
      obtain r bm' where p: "put_name_ban rl now [] rx h bm = (r, bm')" by fastforce
      show ?thesis using put_name_ban_cases(1,3) [OF p assms(1)] assms(2) p Some by (simp add: BanRegex ban_step_def BanPlayerRegex_def)
    qed
  next
    case (BanIP ip h)
    obtain r bm' where p: "BanIPAddress now ip h bm = (r, bm')" by fastforce
    show ?thesis using BanIPAddress_cases(1,2) [OF p assms(1)] assms(2) p by (simp add: BanIP ban_step_def)
  next
    case (UnBanId j)
    then show ?thesis using UnBan_cases(1,4) [OF assms(1), of j] assms(2,3) by (auto simp: ban_step_def spares_def)
  next
    case (TimerFires j)
    then show ?thesis using UnBan_cases(1,4) [OF assms(1), of j] timer_of_name [OF assms(1,2)] assms
      by (cases "j = i") (auto simp: ban_step_def spares_def TimerRemoveBan_def split: option.splits)
  next
    case ClearBans
    then show ?thesis using assms(3) by (simp add: spares_def)
  qed
  then show "ban_ok (ban_step rl (now, e) bm)" "(i, b) \<in> set (m_banPlayerNameMap (ban_step rl (now, e) bm))" by simp_all
qed

lemma ban_run_keeps:
  assumes "ban_ok bm" "(i, b) \<in> set (m_banPlayerNameMap bm)" "list_all (spares i (nickTimer b)) es"
  shows "ban_ok (ban_run rl es bm) \<and> (i, b) \<in> set (m_banPlayerNameMap (ban_run rl es bm))"
  using assms
proof (induction es arbitrary: bm)
  case (Cons e es)
  obtain now x where e: "e = (now, x)" by fastforce
  have s: "spares i (nickTimer b) (now, x)" "list_all (spares i (nickTimer b)) es" using Cons.prems(3) e by simp_all
  show ?case using Cons.IH [OF ban_step_keeps [OF Cons.prems(1,2) s(1)] s(2)] by (simp add: ban_run_def e)
qed (simp add: ban_run_def)

text \<open>The invariant holds in every state that is reached.\<close>

lemma ban_step_ok: "ban_ok bm \<Longrightarrow> ban_ok (ban_step rl e bm)"
proof (cases e)
  case (Pair now x)
  assume ok: "ban_ok bm"
  show ?thesis
  proof (cases x)
    case (BanName name h)
    then show ?thesis using put_name_ban_cases(1) [OF prod.collapse [symmetric] ok]
      by (simp add: Pair ban_step_def BanPlayerName_def)
  next
    case (BanRegex expr h)
    then show ?thesis using put_name_ban_cases(1) [OF prod.collapse [symmetric] ok] ok
      by (simp add: Pair ban_step_def BanPlayerRegex_def split: option.split)
  next
    case (BanIP ip h)
    then show ?thesis using BanIPAddress_cases(1) [OF prod.collapse [symmetric] ok] by (simp add: Pair ban_step_def)
  qed (use UnBan_cases(1) [OF ok] ok in \<open>auto simp: Pair ban_step_def TimerRemoveBan_def ClearBanList_def ban_ok_def map_ok_def used_ids_def\<close>)
qed

lemma ban_run_ok: "ban_ok (ban_run rl es new_ban_manager)"
proof -
  have "ban_ok bm \<Longrightarrow> ban_ok (ban_run rl es bm)" for bm
    unfolding ban_run_def by (induction es arbitrary: bm) (simp_all add: ban_step_ok)
  then show ?thesis by (simp add: ban_ok_def new_ban_manager_def map_ok_def used_ids_def)
qed

text \<open>C15: A ban lasts. Whatever happened before on the server, a player whose name is banned for some
  hours is banned at every later moment until these hours have passed, and for ever when no duration
  is given, whatever further bans are set, run out or are lifted, unless this ban is lifted by its id
  or the list is cleared.\<close>

theorem ban_lasts:
  assumes "BanPlayerName rl now name h (ban_run rl before new_ban_manager) = (Some i, bm)" "name \<noteq> []"
    "list_all (spares i (InternalRegisterTimedBan now h)) es"
  shows "IsPlayerBanned rl name (ban_run rl es bm)"
proof -
  define b where "b = \<lparr>nickTimer = InternalRegisterTimedBan now h, nameStr = name, nameRegex = empty_regex rl\<rparr>"
  note c = put_name_ban_cases [OF assms(1) [unfolded BanPlayerName_def] ban_run_ok]
  have "(i, b) \<in> set (m_banPlayerNameMap bm)" using c(3) by (simp add: b_def)
  then have "(i, b) \<in> set (m_banPlayerNameMap (ban_run rl es bm))"
    using ban_run_keeps [OF c(1)] assms(3) by (simp add: b_def)
  then show ?thesis using assms(2) by (force simp: IsPlayerBanned_def list_ex_iff b_def)
qed

text \<open>One hour for Eve, while a shorter ban of an address runs out and a ban of Bob is lifted.\<close>

definition plain_lib :: "string regex_lib" where
  "plain_lib = \<lparr>compile = Some, regex_match = (=), empty_regex = []\<rparr>"

theorem ban_lasts_witness:
  "\<exists>bm. BanPlayerName plain_lib 100 ''Eve'' 1 (ban_run plain_lib [(0, BanIP ''10.0.0.1'' 1), (50, BanName ''Bob'' 0)] new_ban_manager) = (Some 3, bm) \<and>
     IsPlayerBanned plain_lib ''Eve'' (ban_run plain_lib [(200, UnBanId 2), (3650, TimerFires 1), (3660, TimerFires 3)] bm)"
proof -
  let ?r = "BanPlayerName plain_lib 100 ''Eve'' 1 (ban_run plain_lib [(0, BanIP ''10.0.0.1'' 1), (50, BanName ''Bob'' 0)] new_ban_manager)"
  have "fst ?r = Some 3" by code_simp
  then obtain bm where bm: "?r = (Some 3, bm)" by (metis prod.collapse)
  have "list_all (spares 3 (InternalRegisterTimedBan 100 1)) [(200, UnBanId 2), (3650, TimerFires 1), (3660, TimerFires 3)]"
    by code_simp
  from ban_lasts [OF bm _ this] show ?thesis using bm by blast
qed

end
