(* ===== verification/Login.thy ===== *)
theory Login
  imports Ban_Manager
begin

text \<open>
  How a session gets into the lobby and into a game: the handlers of \<open>ServerLobbyThread\<close>
  (\<open>src/src/net/serverlobbythread.cpp\<close>) for the messages of a session that is not in a game, and for
  the answers of the database to its login. The model has one session, together with what the lobby
  keeps for its address. What depends on other sessions, on the stored avatars and on the bans is a
  parameter; a message of the lobby that cannot change the state of the session is \<open>LobbyPacket\<close>.
\<close>

definition NET_VERSION_MAJOR :: nat where "NET_VERSION_MAJOR = 5"
definition MIN_AVATAR_FILE_SIZE :: nat where "MIN_AVATAR_FILE_SIZE = 32"
definition MAX_AVATAR_FILE_SIZE :: nat where "MAX_AVATAR_FILE_SIZE = 30720"
definition MAX_FAILED_LOGIN_ATTEMPTS :: nat where "MAX_FAILED_LOGIN_ATTEMPTS = 5"
definition MAX_FAILED_LOGIN_RATE_LIMIT_SECONDS :: int where "MAX_FAILED_LOGIN_RATE_LIMIT_SECONDS = 300"

datatype session_state = Init | ReceivingAvatar | Established | Game | Closed

datatype login_error =
    ERR_NET_INIT_BLOCKED | ERR_NET_VERSION_NOT_SUPPORTED | ERR_NET_INVALID_PASSWORD | ERR_NET_INVALID_PLAYER_NAME
  | ERR_NET_PLAYER_BANNED | ERR_NET_INVALID_AVATAR_FILE | ERR_NET_AVATAR_TOO_LARGE | ERR_NET_WRONG_AVATAR_SIZE
  | ERR_NET_INVALID_SESSION | ERR_NET_PLAYER_NAME_IN_USE | ERR_SOCK_INVALID_STATE | ERR_NET_PLAYER_BLOCKED
  | ERR_NET_SERVER_FULL | ERR_NET_PLAYER_KICKED

text \<open>\<open>avatarMD5\<close>: the hash is not zero. An upload is the size the client has announced and the size so far.\<close>

record login_player =
  pdName :: string
  avatarMD5 :: bool
  netAvatarFile :: "(nat \<times> nat) option"

record login_session =
  sState :: session_state
  playerData :: "login_player option"
  sPassword :: string
  curAuthStep :: int
  inLobby :: bool
  inGame :: bool
  recentInit :: bool
  failedLogin :: "(nat \<times> int) option"
  sentErrors :: "login_error list"

definition new_session :: "login_session" where
  "new_session = \<lparr>sState = Init, playerData = None, sPassword = [], curAuthStep = 0, inLobby = True, inGame = False,
     recentInit = False, failedLogin = None, sentErrors = []\<rparr>"

record login_config =
  official :: bool
  bruteForceProtection :: bool
  serverPassword :: string
  nameBanned :: "string \<Rightarrow> bool"
  addressBanned :: bool

text \<open>What the lobby finds out about other sessions when it establishes one.\<close>

record establish_env =
  rejoinGame :: bool
  otherPlayer :: bool
  webSession :: bool

text \<open>\<open>avatarhash\<close>: there is a hash of 16 bytes that are not all zero.\<close>

record init_message =
  requestedMajor :: nat
  authserverpassword :: "string option"
  authenticatedLogin :: bool
  nickname :: string
  clientuserdata :: "string option"
  avatarhash :: bool

section \<open>Errors\<close>

definition CloseSession :: "login_session \<Rightarrow> login_session" where
  "CloseSession s = (if sState s \<noteq> Closed then s\<lparr>sState := Closed, inGame := False, inLobby := False\<rparr> else s)"

definition SessionError :: "login_error \<Rightarrow> login_session \<Rightarrow> login_session" where
  "SessionError e s = CloseSession (s\<lparr>sentErrors := sentErrors s @ [e]\<rparr>)"

section \<open>The first message\<close>

fun double_space :: "string \<Rightarrow> bool" where
  "double_space (c # d # cs) = (c = CHR '' '' \<and> d = CHR '' '' \<or> double_space (d # cs))"
| "double_space _ = False"

definition valid_player_name :: "string \<Rightarrow> bool" where
  "valid_player_name n \<longleftrightarrow>
     n \<noteq> [] \<and> length n \<le> 64 \<and> hd n \<noteq> CHR ''#'' \<and> hd n \<noteq> CHR '' '' \<and> take 8 n \<noteq> ''Computer'' \<and>
     list_all (\<lambda>c. 32 \<le> (of_char c :: nat) \<and> (of_char c :: nat) \<le> 126) n \<and>
     list_ex (\<lambda>c. c \<noteq> CHR '' '') n \<and> \<not> double_space n"

definition server_password_ok :: "login_config \<Rightarrow> init_message \<Rightarrow> bool" where
  "server_password_ok cfg m =
    (official cfg \<or>
     (let p = (case authserverpassword m of None \<Rightarrow> [] | Some p \<Rightarrow> p) in length p \<le> 128 \<and> p = serverPassword cfg))"

definition HandleNetPacketInit :: "login_config \<Rightarrow> init_message \<Rightarrow> login_session \<Rightarrow> login_session" where
  "HandleNetPacketInit cfg m s =
    (if bruteForceProtection cfg \<and> recentInit s then SessionError ERR_NET_INIT_BLOCKED s
     else
       (let s1 = (if bruteForceProtection cfg then s\<lparr>recentInit := True\<rparr> else s) in
        if requestedMajor m \<noteq> NET_VERSION_MAJOR \<or> playerData s1 \<noteq> None then SessionError ERR_NET_VERSION_NOT_SUPPORTED s1
        else if \<not> server_password_ok cfg m then SessionError ERR_NET_INVALID_PASSWORD s1
        else if \<not> authenticatedLogin m then SessionError ERR_NET_INVALID_PASSWORD s1
        else
          (let s2 = (case clientuserdata m of None \<Rightarrow> s1 | Some p \<Rightarrow> s1\<lparr>sPassword := p\<rparr>) in
           if \<not> valid_player_name (nickname m) then SessionError ERR_NET_INVALID_PLAYER_NAME s2
           else if nameBanned cfg (nickname m) then SessionError ERR_NET_PLAYER_BANNED s2
           else if addressBanned cfg then SessionError ERR_NET_PLAYER_BANNED s2
           else s2\<lparr>playerData := Some \<lparr>pdName = nickname m, avatarMD5 = avatarhash m, netAvatarFile = None\<rparr>\<rparr>)))"

definition HandleNetPacketAuthClientResponse :: "login_session \<Rightarrow> login_session" where
  "HandleNetPacketAuthClientResponse s = s\<lparr>curAuthStep := curAuthStep s + 1\<rparr>"

section \<open>Established sessions\<close>

definition EstablishSession :: "login_config \<Rightarrow> establish_env \<Rightarrow> login_session \<Rightarrow> login_session" where
  "EstablishSession cfg env s = (case playerData s of
     None \<Rightarrow> SessionError ERR_NET_INVALID_SESSION s
   | Some pd \<Rightarrow>
       if \<not> rejoinGame env \<and> otherPlayer env \<and> (official cfg \<longrightarrow> webSession env)
       then SessionError ERR_NET_PLAYER_NAME_IN_USE s
       else s\<lparr>sState := Established\<rparr>)"

section \<open>The avatar\<close>

definition set_player :: "(login_player \<Rightarrow> login_player) \<Rightarrow> login_session \<Rightarrow> login_session" where
  "set_player f s = s\<lparr>playerData := map_option f (playerData s)\<rparr>"

definition HandleNetPacketAvatarHeader :: "nat \<Rightarrow> int \<Rightarrow> login_session \<Rightarrow> login_session" where
  "HandleNetPacketAvatarHeader avatarsize rawType s = (case playerData s of None \<Rightarrow> s
   | Some pd \<Rightarrow>
       if avatarsize \<ge> MIN_AVATAR_FILE_SIZE \<and> avatarsize \<le> MAX_AVATAR_FILE_SIZE then
         (if rawType < 0 \<or> rawType > 3 then SessionError ERR_NET_INVALID_AVATAR_FILE s
          else (set_player (\<lambda>pd. pd\<lparr>netAvatarFile := Some (avatarsize, 0)\<rparr>) s)\<lparr>sState := ReceivingAvatar\<rparr>)
       else SessionError ERR_NET_AVATAR_TOO_LARGE s)"

definition HandleNetPacketUnknownAvatar :: "login_config \<Rightarrow> establish_env \<Rightarrow> login_session \<Rightarrow> login_session" where
  "HandleNetPacketUnknownAvatar cfg env s = (case playerData s of None \<Rightarrow> s
   | Some pd \<Rightarrow> EstablishSession cfg env (set_player (\<lambda>pd. pd\<lparr>netAvatarFile := None, avatarMD5 := False\<rparr>) s))"

definition HandleNetPacketAvatarFile :: "nat \<Rightarrow> login_session \<Rightarrow> login_session" where
  "HandleNetPacketAvatarFile blockSize s = (case playerData s of None \<Rightarrow> s
   | Some pd \<Rightarrow>
       (case netAvatarFile pd of None \<Rightarrow> SessionError ERR_NET_INVALID_AVATAR_FILE s
        | Some (reportedSize, currentSize) \<Rightarrow>
            if blockSize = 0 then s
            else if blockSize > MAX_AVATAR_FILE_SIZE \<or> currentSize > MAX_AVATAR_FILE_SIZE - blockSize
            then SessionError ERR_NET_WRONG_AVATAR_SIZE s
            else if currentSize + blockSize > reportedSize then SessionError ERR_NET_WRONG_AVATAR_SIZE s
            else set_player (\<lambda>pd. pd\<lparr>netAvatarFile := Some (reportedSize, currentSize + blockSize)\<rparr>) s))"

definition HandleNetPacketAvatarEnd :: "login_config \<Rightarrow> establish_env \<Rightarrow> bool \<Rightarrow> login_session \<Rightarrow> login_session" where
  "HandleNetPacketAvatarEnd cfg env stored s = (case playerData s of None \<Rightarrow> s
   | Some pd \<Rightarrow>
       (case netAvatarFile pd of None \<Rightarrow> SessionError ERR_NET_INVALID_AVATAR_FILE s
        | Some (reportedSize, currentSize) \<Rightarrow>
            if avatarMD5 pd \<and> currentSize \<noteq> 0 then
              (if currentSize = reportedSize then
                 EstablishSession cfg env
                   (set_player (\<lambda>pd. pd\<lparr>avatarMD5 := avatarMD5 pd \<and> stored, netAvatarFile := None\<rparr>) s)
               else SessionError ERR_NET_WRONG_AVATAR_SIZE s)
            else SessionError ERR_NET_INVALID_AVATAR_FILE s))"

section \<open>Games\<close>

text \<open>Creating, joining and rejoining: \<open>allowed\<close> stands for the checks of the game and of the request.\<close>

definition enter_game :: "bool \<Rightarrow> login_session \<Rightarrow> login_session" where
  "enter_game allowed s =
    (if playerData s \<noteq> None \<and> allowed then s\<lparr>inLobby := False, sState := Game, inGame := True\<rparr> else s)"

definition HandleReAddedSession :: "bool \<Rightarrow> login_session \<Rightarrow> login_session" where
  "HandleReAddedSession lobbyFull s =
    (let s1 = s\<lparr>inGame := False\<rparr> in
     if \<not> lobbyFull then s1\<lparr>sState := Established, inLobby := True\<rparr> else SessionError ERR_NET_SERVER_FULL s1)"

section \<open>Packets\<close>

datatype lobby_packet =
    InitMessage init_message
  | AuthClientResponseMessage
  | AvatarHeaderMessage nat int
  | UnknownAvatarMessage establish_env
  | AvatarDataMessage nat
  | AvatarEndMessage bool establish_env
  | EnterGameMessage bool
  | LobbyPacket
  | InvalidPacket

definition HandlePacket :: "login_config \<Rightarrow> lobby_packet \<Rightarrow> login_session \<Rightarrow> login_session" where
  "HandlePacket cfg p s = (case sState s of
     Init \<Rightarrow> (case p of InitMessage m \<Rightarrow> HandleNetPacketInit cfg m s
       | AuthClientResponseMessage \<Rightarrow> HandleNetPacketAuthClientResponse s
       | AvatarHeaderMessage n t \<Rightarrow> HandleNetPacketAvatarHeader n t s
       | UnknownAvatarMessage env \<Rightarrow> HandleNetPacketUnknownAvatar cfg env s
       | _ \<Rightarrow> SessionError ERR_SOCK_INVALID_STATE s)
   | ReceivingAvatar \<Rightarrow> (case p of AvatarDataMessage n \<Rightarrow> HandleNetPacketAvatarFile n s
       | AvatarEndMessage stored env \<Rightarrow> HandleNetPacketAvatarEnd cfg env stored s
       | _ \<Rightarrow> SessionError ERR_SOCK_INVALID_STATE s)
   | _ \<Rightarrow> (case p of EnterGameMessage allowed \<Rightarrow> enter_game allowed s
       | LobbyPacket \<Rightarrow> s
       | _ \<Rightarrow> SessionError ERR_SOCK_INVALID_STATE s))"

text \<open>In a game the packets go to the game.\<close>

definition DispatchPacket :: "login_config \<Rightarrow> lobby_packet \<Rightarrow> login_session \<Rightarrow> login_session" where
  "DispatchPacket cfg p s = (if inGame s then s else HandlePacket cfg p s)"

section \<open>The answers of the database\<close>

definition count_failure :: "int \<Rightarrow> login_session \<Rightarrow> login_session" where
  "count_failure now s = s\<lparr>failedLogin := Some (case failedLogin s of
     None \<Rightarrow> (1, now)
   | Some (n, t) \<Rightarrow> if now - t < MAX_FAILED_LOGIN_RATE_LIMIT_SECONDS then (n + 1, t) else (1, now))\<rparr>"

definition locked_out :: "int \<Rightarrow> login_session \<Rightarrow> bool" where
  "locked_out now s = (case failedLogin s of None \<Rightarrow> False
     | Some (n, t) \<Rightarrow> now - t < MAX_FAILED_LOGIN_RATE_LIMIT_SECONDS \<and> n \<ge> MAX_FAILED_LOGIN_ATTEMPTS)"

text \<open>The session is looked up in the lobby, by the id of its player.\<close>

definition UserValid :: "login_config \<Rightarrow> establish_env \<Rightarrow> int \<Rightarrow> nat \<Rightarrow> string \<Rightarrow> login_session \<Rightarrow> login_session" where
  "UserValid cfg env now dbId secret s =
    (if \<not> inLobby s \<or> playerData s = None then s
     else if dbId \<noteq> DB_ID_INVALID \<and> sPassword s = [] then SessionError ERR_NET_INVALID_PASSWORD s
     else if dbId = DB_ID_INVALID \<or> sPassword s = secret then
       (if locked_out now s then SessionError ERR_NET_INVALID_PASSWORD s
        else EstablishSession cfg env (s\<lparr>failedLogin := None\<rparr>))
     else SessionError ERR_NET_INVALID_PASSWORD (count_failure now s))"

definition UserInvalid :: "int \<Rightarrow> login_session \<Rightarrow> login_session" where
  "UserInvalid now s =
    (if \<not> inLobby s \<or> playerData s = None then s else SessionError ERR_NET_INVALID_PASSWORD (count_failure now s))"

definition UserBlocked :: "login_session \<Rightarrow> login_session" where
  "UserBlocked s = (if \<not> inLobby s \<or> playerData s = None then s else SessionError ERR_NET_PLAYER_BLOCKED s)"

end
