(* ===== verification/Login_Rules.thy ===== *)
theory Login_Rules
  imports Login
begin

text \<open>
  Who gets into the lobby and into a game: over any sequence of messages of the client, answers of the
  database and actions of the server.
\<close>

datatype login_event =
    Packet lobby_packet
  | Valid establish_env int nat string
  | Invalid int
  | Blocked
  | LeftGame bool
  | Removed login_error
  | InitLockEnds
  | FailuresForgotten

definition login_step :: "login_config \<Rightarrow> login_event \<Rightarrow> login_session \<Rightarrow> login_session" where
  "login_step cfg e s = (case e of
     Packet p \<Rightarrow> DispatchPacket cfg p s
   | Valid env now dbId secret \<Rightarrow> UserValid cfg env now dbId secret s
   | Invalid now \<Rightarrow> UserInvalid now s
   | Blocked \<Rightarrow> UserBlocked s
   | LeftGame lobbyFull \<Rightarrow> (if inGame s then HandleReAddedSession lobbyFull s else s)
   | Removed err \<Rightarrow> SessionError err s
   | InitLockEnds \<Rightarrow> s\<lparr>recentInit := False\<rparr>
   | FailuresForgotten \<Rightarrow> s\<lparr>failedLogin := None\<rparr>)"

definition login_run :: "login_config \<Rightarrow> login_event list \<Rightarrow> login_session \<Rightarrow> login_session" where
  "login_run cfg es s = fold (login_step cfg) es s"

section \<open>The steps\<close>

lemma SessionError_simps [simp]:
  "playerData (SessionError e s) = playerData s" "sPassword (SessionError e s) = sPassword s"
  "sState (SessionError e s) = Closed" "failedLogin (SessionError e s) = failedLogin s"
  "inGame (SessionError e s) = (sState s = Closed \<and> inGame s)" "inLobby (SessionError e s) = (sState s = Closed \<and> inLobby s)"
  by (simp_all add: SessionError_def CloseSession_def)

lemma EstablishSession_simps [simp]:
  "playerData (EstablishSession cfg env s) = playerData s" "sPassword (EstablishSession cfg env s) = sPassword s"
  by (simp_all add: EstablishSession_def split: option.split)

lemma set_player_simps [simp]:
  "playerData (set_player f s) = map_option f (playerData s)" "sPassword (set_player f s) = sPassword s"
  "sState (set_player f s) = sState s" "inGame (set_player f s) = inGame s" "inLobby (set_player f s) = inLobby s"
  by (simp_all add: set_player_def)

lemma count_failure_simps [simp]:
  "playerData (count_failure t s) = playerData s" "sPassword (count_failure t s) = sPassword s"
  "sState (count_failure t s) = sState s" "inGame (count_failure t s) = inGame s" "inLobby (count_failure t s) = inLobby s"
  by (simp_all add: count_failure_def)

lemmas packet_defs = DispatchPacket_def HandlePacket_def HandleNetPacketAuthClientResponse_def
  HandleNetPacketAvatarHeader_def HandleNetPacketUnknownAvatar_def HandleNetPacketAvatarFile_def
  HandleNetPacketAvatarEnd_def enter_game_def

lemmas answer_defs = UserValid_def UserInvalid_def UserBlocked_def HandleReAddedSession_def

text \<open>The first message of the client that is accepted.\<close>

definition accepted :: "login_config \<Rightarrow> init_message \<Rightarrow> bool" where
  "accepted cfg m \<longleftrightarrow> requestedMajor m = NET_VERSION_MAJOR \<and> server_password_ok cfg m \<and> authenticatedLogin m \<and>
     valid_player_name (nickname m) \<and> \<not> nameBanned cfg (nickname m) \<and> \<not> addressBanned cfg"

definition named_by :: "login_config \<Rightarrow> login_event set \<Rightarrow> login_session \<Rightarrow> bool" where
  "named_by cfg E s \<longleftrightarrow>
     (case playerData s of None \<Rightarrow> sState s \<in> {Init, Closed}
      | Some pd \<Rightarrow> \<exists>m. Packet (InitMessage m) \<in> E \<and> accepted cfg m \<and> nickname m = pdName pd)"

lemma HandleNetPacketInit_named:
  assumes "named_by cfg E s" "sState s = Init"
  shows "named_by cfg (insert (Packet (InitMessage m)) E) (HandleNetPacketInit cfg m s)"
proof (cases "playerData s")
  case None
  then show ?thesis using assms(2)
    by (auto simp: HandleNetPacketInit_def named_by_def accepted_def Let_def split: option.splits)
next
  case (Some pd)
  then have "playerData (HandleNetPacketInit cfg m s) = Some pd"
    by (simp add: HandleNetPacketInit_def Let_def)
  then show ?thesis using assms(1) Some by (auto simp: named_by_def)
qed

lemma login_step_name:
  assumes "\<And>m. e \<noteq> Packet (InitMessage m)"
  shows "map_option pdName (playerData (login_step cfg e s)) = map_option pdName (playerData s)"
proof (cases e)
  case (Packet p)
  then show ?thesis using assms
    by (simp add: login_step_def packet_defs option.map_comp o_def split: session_state.split lobby_packet.split option.split)
qed (auto simp: login_step_def answer_defs Let_def option.map_comp o_def)

text \<open>Without a player a session is not beyond its first state.\<close>

definition login_ok :: "login_config \<Rightarrow> login_event set \<Rightarrow> login_session \<Rightarrow> bool" where
  "login_ok cfg E s \<longleftrightarrow> named_by cfg E s \<and> (playerData s = None \<longrightarrow> \<not> inGame s)"

lemma named_by_mono: "named_by cfg E s \<Longrightarrow> E \<subseteq> E' \<Longrightarrow> named_by cfg E' s"
  by (auto simp: named_by_def split: option.splits)

lemma step_without_player:
  assumes "playerData s = None" "sState s \<in> {Init, Closed}" "\<not> inGame s" "\<And>m. e \<noteq> Packet (InitMessage m)"
  shows "playerData (login_step cfg e s) = None \<and> sState (login_step cfg e s) \<in> {Init, Closed} \<and> \<not> inGame (login_step cfg e s)"
proof (cases e)
  case (Packet p)
  then show ?thesis using assms
    by (auto simp: login_step_def packet_defs split: lobby_packet.split)
qed (use assms in \<open>auto simp: login_step_def answer_defs Let_def\<close>)

lemma login_step_ok:
  assumes "login_ok cfg E s"
  shows "login_ok cfg (insert e E) (login_step cfg e s)"
proof (cases "\<exists>m. e = Packet (InitMessage m)")
  case True
  then obtain m where e: "e = Packet (InitMessage m)" by blast
  show ?thesis
  proof (cases "inGame s \<or> sState s \<noteq> Init")
    case True
    then have "playerData (login_step cfg e s) = playerData s" "inGame (login_step cfg e s) \<longrightarrow> inGame s"
      "sState s \<noteq> Init \<or> playerData s \<noteq> None" "login_step cfg e s = s \<or> sState (login_step cfg e s) = Closed"
      using assms by (auto simp: e login_step_def packet_defs login_ok_def split: session_state.split)
    then show ?thesis using assms by (auto simp: login_ok_def named_by_def split: option.splits)
  next
    case False
    then have "login_step cfg e s = HandleNetPacketInit cfg m s" by (simp add: e login_step_def packet_defs)
    moreover have "\<not> inGame (HandleNetPacketInit cfg m s)"
      using False by (auto simp: HandleNetPacketInit_def Let_def split: option.split)
    ultimately show ?thesis using assms False HandleNetPacketInit_named [of cfg E s m] by (simp add: login_ok_def e)
  qed
next
  case False
  then have e: "\<And>m. e \<noteq> Packet (InitMessage m)" by blast
  show ?thesis
  proof (cases "playerData s")
    case None
    then show ?thesis using assms step_without_player [OF None _ _ e] by (auto simp: login_ok_def named_by_def)
  next
    case (Some pd)
    then obtain pd' where "playerData (login_step cfg e s) = Some pd'" "pdName pd' = pdName pd"
      using login_step_name [OF e, of cfg s] by auto
    then show ?thesis using assms Some by (auto simp: login_ok_def named_by_def)
  qed
qed

lemma login_run_ok:
  assumes "login_ok cfg E s"
  shows "login_ok cfg (set es \<union> E) (login_run cfg es s)"
  using assms
proof (induction es arbitrary: E s)
  case (Cons e es)
  show ?case using Cons.IH [OF login_step_ok [OF Cons.prems, of e]] by (simp add: login_run_def insert_commute Un_commute)
qed (simp add: login_run_def)

text \<open>C9: Nobody gets in unchecked. In any run, whatever the client sends in whatever order and whatever the
  database answers, a session that is established, uploads its avatar or plays has a player whose name
  came with a first message that passed every check: the protocol version, the password of the
  server, the form of the name and the bans.\<close>

theorem entry_checked:
  assumes "sState (login_run cfg es new_session) \<in> {ReceivingAvatar, Established, Game}"
  shows "\<exists>pd m. playerData (login_run cfg es new_session) = Some pd \<and> Packet (InitMessage m) \<in> set es \<and>
    accepted cfg m \<and> nickname m = pdName pd"
proof -
  have "login_ok cfg {} new_session" by (simp add: login_ok_def named_by_def new_session_def)
  from login_run_ok [OF this, of es] show ?thesis
    using assms by (auto simp: login_ok_def named_by_def split: option.splits)
qed

definition private_server :: login_config where
  "private_server = \<lparr>official = False, bruteForceProtection = True, serverPassword = ''friends'',
     nameBanned = (\<lambda>n. n = ''Eve''), addressBanned = False\<rparr>"

definition alice :: init_message where
  "alice = \<lparr>requestedMajor = 5, authserverpassword = Some ''friends'', authenticatedLogin = True, nickname = ''Alice'',
     clientuserdata = Some ''guess'', avatarhash = False\<rparr>"

definition nobody_else :: establish_env where
  "nobody_else = \<lparr>rejoinGame = False, otherPlayer = False, webSession = False\<rparr>"

theorem entry_checked_witness:
  "\<exists>pd. playerData (login_run private_server [Packet (InitMessage alice), Valid nobody_else 0 0 [], Packet (EnterGameMessage True)]
      new_session) = Some pd \<and> accepted private_server alice \<and> pdName pd = ''Alice''"
proof -
  let ?es = "[Packet (InitMessage alice), Valid nobody_else 0 0 [], Packet (EnterGameMessage True)]"
  have "sState (login_run private_server ?es new_session) = Game" by code_simp
  then have "sState (login_run private_server ?es new_session) \<in> {ReceivingAvatar, Established, Game}" by simp
  from entry_checked [OF this] show ?thesis by (auto simp: alice_def)
qed

section \<open>The password of the account\<close>

text \<open>The client sends nothing about avatars and stops after an error.\<close>

definition about_avatar :: "login_event \<Rightarrow> bool" where
  "about_avatar e = (case e of Packet (AvatarHeaderMessage n t) \<Rightarrow> True | Packet (UnknownAvatarMessage env) \<Rightarrow> True | _ \<Rightarrow> False)"

fun stops_after_error :: "login_config \<Rightarrow> login_event list \<Rightarrow> login_session \<Rightarrow> bool" where
  "stops_after_error cfg [] s = True"
| "stops_after_error cfg (e # es) s =
    ((case e of Packet p \<Rightarrow> sState s \<noteq> Closed | _ \<Rightarrow> True) \<and> stops_after_error cfg es (login_step cfg e s))"

definition proven :: "login_event set \<Rightarrow> login_session \<Rightarrow> bool" where
  "proven E s \<longleftrightarrow> (\<exists>env now dbId secret. Valid env now dbId secret \<in> E \<and>
     (dbId = DB_ID_INVALID \<or> sPassword s \<noteq> [] \<and> secret = sPassword s))"

definition auth_ok :: "login_event set \<Rightarrow> login_session \<Rightarrow> bool" where
  "auth_ok E s \<longleftrightarrow> sState s \<noteq> ReceivingAvatar \<and> (sState s \<in> {Established, Game} \<or> inGame s \<longrightarrow> proven E s) \<and>
     (sState s = Closed \<longrightarrow> \<not> inGame s)"

lemma proven_insert: "proven E s \<Longrightarrow> sPassword s' = sPassword s \<Longrightarrow> proven (insert e E) s'"
  unfolding proven_def by fastforce

lemma HandleNetPacketInit_state:
  "sState s = Init \<Longrightarrow> \<not> inGame s \<Longrightarrow>
     sState (HandleNetPacketInit cfg m s) \<in> {Init, Closed} \<and> \<not> inGame (HandleNetPacketInit cfg m s)"
  by (auto simp: HandleNetPacketInit_def Let_def split: option.split)

lemma auth_step_ok:
  assumes "auth_ok E s" "\<not> about_avatar e" "case e of Packet p \<Rightarrow> sState s \<noteq> Closed | _ \<Rightarrow> True"
  shows "auth_ok (insert e E) (login_step cfg e s)"
proof (cases e)
  case (Packet p)
  show ?thesis
  proof (cases "inGame s")
    case True
    then show ?thesis using assms(1)
      by (auto simp: Packet login_step_def DispatchPacket_def auth_ok_def intro: proven_insert)
  next
    case False
    show ?thesis
    proof (cases "sState s")
      case Init
      show ?thesis
      proof (cases p)
        case (InitMessage m)
        have "login_step cfg e s = HandleNetPacketInit cfg m s"
          using False Init by (simp add: Packet InitMessage login_step_def packet_defs)
        then show ?thesis using HandleNetPacketInit_state [OF Init False, of cfg m] by (auto simp: auth_ok_def)
      qed (use assms False Init in \<open>auto simp: Packet login_step_def packet_defs auth_ok_def about_avatar_def\<close>)
    next
      case Established
      then show ?thesis using assms(1) False
        by (cases p) (auto simp: Packet login_step_def packet_defs auth_ok_def intro: proven_insert)
    next
      case Game
      then show ?thesis using assms(1) False
        by (cases p) (auto simp: Packet login_step_def packet_defs auth_ok_def intro: proven_insert)
    qed (use assms Packet in \<open>auto simp: auth_ok_def\<close>)
  qed
next
  case (Valid env now dbId secret)
  let ?s' = "login_step cfg e s"
  have pw: "sPassword ?s' = sPassword s" by (simp add: Valid login_step_def UserValid_def)
  have "?s' = s \<or> sState ?s' = Closed \<and> \<not> inGame ?s' \<or>
      sState ?s' = Established \<and> (dbId = DB_ID_INVALID \<or> sPassword s \<noteq> [] \<and> secret = sPassword s)"
    using assms(1) by (auto simp: Valid login_step_def UserValid_def EstablishSession_def auth_ok_def split: option.split)
  then consider "?s' = s" | "sState ?s' = Closed \<and> \<not> inGame ?s'"
    | "sState ?s' = Established" "dbId = DB_ID_INVALID \<or> sPassword s \<noteq> [] \<and> secret = sPassword s"
    by blast
  then show ?thesis
  proof cases
    case 1
    then show ?thesis using assms(1) by (auto simp: auth_ok_def intro: proven_insert)
  next
    case 3
    then have "proven (insert e E) ?s'" using pw unfolding proven_def Valid by (metis insertI1)
    then show ?thesis using 3(1) by (simp add: auth_ok_def)
  qed (simp add: auth_ok_def)
qed (use assms in \<open>auto simp: login_step_def answer_defs Let_def auth_ok_def intro: proven_insert\<close>)

lemma auth_run_ok:
  assumes "auth_ok E s" "stops_after_error cfg es s" "list_all (\<lambda>e. \<not> about_avatar e) es"
  shows "auth_ok (set es \<union> E) (login_run cfg es s)"
  using assms
proof (induction es arbitrary: E s)
  case (Cons e es)
  have "auth_ok (insert e E) (login_step cfg e s)" by (rule auth_step_ok) (use Cons.prems in simp_all)
  from Cons.IH [OF this] Cons.prems show ?case by (simp add: login_run_def Un_insert_right Un_insert_left)
qed (simp add: login_run_def)

text \<open>C10: The password of the account. A client that sends nothing about avatars before it is in, and
  nothing more after an error, gets into the lobby and into games only after the database has
  answered, and, when the database knows the account, only if the password it sent is not empty and
  is the one of the account.\<close>

theorem login_needs_password:
  assumes "stops_after_error cfg es new_session" "list_all (\<lambda>e. \<not> about_avatar e) es"
    "sState (login_run cfg es new_session) \<in> {Established, Game}"
  shows "\<exists>env now dbId secret. Valid env now dbId secret \<in> set es \<and> (dbId = DB_ID_INVALID \<or>
    sPassword (login_run cfg es new_session) \<noteq> [] \<and> secret = sPassword (login_run cfg es new_session))"
proof -
  have "auth_ok {} new_session" by (simp add: auth_ok_def new_session_def)
  from auth_run_ok [OF this assms(1,2)] show ?thesis using assms(3) by (auto simp: auth_ok_def proven_def)
qed

theorem login_needs_password_witness:
  "stops_after_error private_server [Packet (InitMessage alice), Packet AuthClientResponseMessage, Valid nobody_else 0 7 ''guess''] new_session \<and>
   sPassword (login_run private_server [Packet (InitMessage alice), Packet AuthClientResponseMessage, Valid nobody_else 0 7 ''guess''] new_session) = ''guess''"
proof -
  let ?es = "[Packet (InitMessage alice), Packet AuthClientResponseMessage, Valid nobody_else 0 7 ''guess'']"
  have h: "stops_after_error private_server ?es new_session" by code_simp
  have n: "list_all (\<lambda>e. \<not> about_avatar e) ?es" by (simp add: about_avatar_def)
  have "sState (login_run private_server ?es new_session) = Established" by code_simp
  then have "sState (login_run private_server ?es new_session) \<in> {Established, Game}" by simp
  from login_needs_password [OF h n this] show ?thesis using h by (auto simp: DB_ID_INVALID_def)
qed

text \<open>C11: The password can be bypassed. The message that the client has no avatar, sent before the answer of
  the database, establishes the session, and once the session is in a game the answer does not find
  it any more, whatever the password. The same happens with a packet that follows an error, since a
  closed session is treated like one in the lobby.\<close>

theorem password_bypassed:
  assumes "accepted cfg m" "\<not> otherPlayer env"
  shows "sState (login_run cfg [Packet (InitMessage m), Packet (UnknownAvatarMessage env), Packet (EnterGameMessage True),
      Valid env' now dbId secret] new_session) = Game \<and>
    sState (login_run cfg [Packet (InitMessage m), Packet InvalidPacket, Packet (EnterGameMessage True)] new_session) = Game"
proof -
  define s1 where "s1 = HandleNetPacketInit cfg m new_session"
  have s1: "login_step cfg (Packet (InitMessage m)) new_session = s1"
    by (simp add: login_step_def packet_defs new_session_def s1_def)
  have p: "sState s1 = Init" "playerData s1 \<noteq> None" "\<not> inGame s1"
    using assms(1) by (simp_all add: s1_def HandleNetPacketInit_def accepted_def new_session_def Let_def split: option.split)
  obtain pd where pd: "playerData s1 = Some pd" using p(2) by blast
  define s2 where "s2 = login_step cfg (Packet (UnknownAvatarMessage env)) s1"
  have s2: "sState s2 = Established" "playerData s2 \<noteq> None" "\<not> inGame s2"
    using p pd assms(2) by (simp_all add: s2_def login_step_def packet_defs EstablishSession_def set_player_def)
  define s3 where "s3 = login_step cfg (Packet (EnterGameMessage True)) s2"
  have s3: "sState s3 = Game" "\<not> inLobby s3" using s2 by (simp_all add: s3_def login_step_def packet_defs)
  have s4: "login_step cfg (Valid env' now dbId secret) s3 = s3" using s3 by (simp add: login_step_def UserValid_def)
  define t2 where "t2 = login_step cfg (Packet InvalidPacket) s1"
  have t2: "sState t2 = Closed" "playerData t2 \<noteq> None" "\<not> inGame t2"
    using p by (simp_all add: t2_def login_step_def packet_defs)
  have "sState (login_step cfg (Packet (EnterGameMessage True)) t2) = Game"
    using t2 by (simp add: login_step_def packet_defs)
  then show ?thesis using s3 s4 by (simp add: login_run_def s1 s2_def [symmetric] s3_def [symmetric] t2_def [symmetric])
qed

text \<open>Alice has guessed a password, and the account has another one.\<close>

theorem password_bypassed_witness:
  "sPassword (login_run private_server [Packet (InitMessage alice)] new_session) = ''guess'' \<and>
   sState (login_run private_server [Packet (InitMessage alice), Packet (UnknownAvatarMessage nobody_else), Packet (EnterGameMessage True),
      Valid nobody_else 0 42 ''secret''] new_session) = Game"
proof
  show "sPassword (login_run private_server [Packet (InitMessage alice)] new_session) = ''guess''" by code_simp
  have a: "accepted private_server alice" by code_simp
  have n: "\<not> otherPlayer nobody_else" by (simp add: nobody_else_def)
  from password_bypassed [OF a n] show "sState (login_run private_server [Packet (InitMessage alice),
      Packet (UnknownAvatarMessage nobody_else), Packet (EnterGameMessage True), Valid nobody_else 0 42 ''secret''] new_session) = Game"
    by blast
qed

end
