(* ===== verification/Lobby_Chat.thy ===== *)
theory Lobby_Chat
  imports Ban_Manager
begin

text \<open>
  Chat in the lobby (\<open>ServerLobbyThread::HandleNetPacketChatRequest\<close>,
  \<open>src/src/net/serverlobbythread.cpp\<close>) and its limit of messages per player and time. What is sent is
  the result of a handler. Times are in seconds. What the lobby knows of the receiver of a private
  message and whether the sender is an administrator are parameters.
\<close>

definition MAX_CHAT_TEXT_SIZE :: nat where "MAX_CHAT_TEXT_SIZE = 128"
definition MAX_CHAT_RATE_MESSAGES :: nat where "MAX_CHAT_RATE_MESSAGES = 10"
definition MAX_CHAT_RATE_WINDOW_SEC :: int where "MAX_CHAT_RATE_WINDOW_SEC = 10"
definition CLEANUP_THRESHOLD :: nat where "CLEANUP_THRESHOLD = 1000"

type_synonym player_id = "32 word"
type_synonym chat_rate_map = "(player_id \<times> int list) list"

record chat_request =
  chattext :: string
  targetgameid :: "nat option"
  targetplayerid :: "player_id option"

text \<open>\<open>canReceive\<close>: there is a session with the player, and it is in no running game.\<close>

record chat_env =
  canReceive :: "player_id \<Rightarrow> bool"
  isAdmin :: bool

datatype chat_effect =
    LobbyMessage player_id string
  | CleanerRequest player_id string
  | PrivateMessage player_id player_id string
  | GlobalNotice string
  | RejectMessage string

section \<open>The limit\<close>

definition message_times :: "player_id \<Rightarrow> chat_rate_map \<Rightarrow> int list" where
  "message_times p m = (case map_of m p of None \<Rightarrow> [] | Some ts \<Rightarrow> ts)"

text \<open>Whether a message may pass at a time.\<close>

definition chat_rate :: "int \<Rightarrow> player_id \<Rightarrow> chat_rate_map \<Rightarrow> bool \<times> chat_rate_map" where
  "chat_rate now p m =
    (let cutoff = now - MAX_CHAT_RATE_WINDOW_SEC;
         ts = filter (\<lambda>t. \<not> t < cutoff) (message_times p m)
     in if length ts \<ge> MAX_CHAT_RATE_MESSAGES then (False, map_put p ts m)
        else
          (let m1 = map_put p (ts @ [now]) m
           in (True, if length m1 > CLEANUP_THRESHOLD
                     then filter (\<lambda>e. \<not> (snd e = [] \<or> list_all (\<lambda>t. t < cutoff) (snd e))) m1 else m1)))"

text \<open>The part of \<open>TimerCleanupRateMaps\<close> for the chat.\<close>

definition TimerCleanupRateMaps :: "int \<Rightarrow> chat_rate_map \<Rightarrow> chat_rate_map" where
  "TimerCleanupRateMaps now m =
     filter (\<lambda>e. snd e \<noteq> []) (map (\<lambda>e. (fst e, filter (\<lambda>t. \<not> t < now - 600) (snd e))) m)"

section \<open>The handler\<close>

definition is_space :: "char \<Rightarrow> bool" where
  "is_space c = ((of_char c :: nat) \<in> {9, 10, 11, 12, 13, 32})"

definition trim :: "string \<Rightarrow> string" where
  "trim s = rev (dropWhile is_space (rev (dropWhile is_space s)))"

definition notice_text :: "chat_env \<Rightarrow> string \<Rightarrow> string option" where
  "notice_text env txt = (if isAdmin env \<and> length txt \<ge> 4 \<and> take 3 txt = ''gn '' then Some (trim (drop 3 txt)) else None)"

definition deliver_chat :: "player_id \<Rightarrow> chat_env \<Rightarrow> chat_request \<Rightarrow> chat_effect list" where
  "deliver_chat p env r = (case (targetgameid r, targetplayerid r) of
     (None, None) \<Rightarrow> [LobbyMessage p (chattext r), CleanerRequest p (chattext r)]
   | (None, Some q) \<Rightarrow>
       (if \<not> canReceive env q then [RejectMessage (chattext r)]
        else (case notice_text env (chattext r) of
            None \<Rightarrow> [PrivateMessage p q (chattext r)]
          | Some txt \<Rightarrow> if txt = [] then [RejectMessage (chattext r)] else [GlobalNotice txt]))
   | (Some _, _) \<Rightarrow> [RejectMessage (chattext r)])"

text \<open>A session without a player only gets a rejection.\<close>

definition HandleNetPacketChatRequest ::
  "int \<Rightarrow> player_id option \<Rightarrow> chat_env \<Rightarrow> chat_request \<Rightarrow> chat_rate_map \<Rightarrow> chat_effect list \<times> chat_rate_map" where
  "HandleNetPacketChatRequest now player env r m = (case player of
     None \<Rightarrow> ([RejectMessage (chattext r)], m)
   | Some p \<Rightarrow>
       if chattext r = [] then ([], m)
       else if length (chattext r) \<ge> MAX_CHAT_TEXT_SIZE then ([RejectMessage (chattext r)], m)
       else (let (ok, m1) = chat_rate now p m
             in if \<not> ok then ([RejectMessage (chattext r)], m1) else (deliver_chat p env r, m1)))"

section \<open>Runs\<close>

datatype chat_event = ChatRequest "player_id option" chat_env chat_request | CleanupTimer

fun chat_step :: "int \<times> chat_event \<Rightarrow> chat_rate_map \<Rightarrow> (int \<times> player_id option \<times> chat_effect list) list \<times> chat_rate_map" where
  "chat_step (now, ChatRequest p env r) m = (let (es, m1) = HandleNetPacketChatRequest now p env r m in ([(now, p, es)], m1))"
| "chat_step (now, CleanupTimer) m = ([], TimerCleanupRateMaps now m)"

fun chat_run :: "(int \<times> chat_event) list \<Rightarrow> chat_rate_map \<Rightarrow> (int \<times> player_id option \<times> chat_effect list) list \<times> chat_rate_map" where
  "chat_run [] m = ([], m)"
| "chat_run (e # es) m = (let (o1, m1) = chat_step e m; (o2, m2) = chat_run es m1 in (o1 @ o2, m2))"

text \<open>The times at which something of a player was sent to others.\<close>

definition is_sent :: "chat_effect list \<Rightarrow> bool" where
  "is_sent es = list_ex (\<lambda>e. case e of RejectMessage _ \<Rightarrow> False | _ \<Rightarrow> True) es"

definition sent_times :: "player_id \<Rightarrow> (int \<times> player_id option \<times> chat_effect list) list \<Rightarrow> int list" where
  "sent_times p os = map fst (filter (\<lambda>(t, q, es). q = Some p \<and> is_sent es) os)"

definition in_window :: "int \<Rightarrow> int list \<Rightarrow> nat" where
  "in_window w ts = length (filter (\<lambda>t. w \<le> t \<and> t \<le> w + MAX_CHAT_RATE_WINDOW_SEC) ts)"

section \<open>What the map remembers\<close>

text \<open>\<open>A\<close> are the times at which messages of the player have been sent; the map knows at least those of
  the last ten seconds.\<close>

definition remembers :: "player_id \<Rightarrow> int \<Rightarrow> int list \<Rightarrow> chat_rate_map \<Rightarrow> bool" where
  "remembers p now A m \<longleftrightarrow> map_ok m \<and> (\<forall>w. in_window w A \<le> MAX_CHAT_RATE_MESSAGES) \<and>
     (\<forall>c \<ge> now - MAX_CHAT_RATE_WINDOW_SEC.
        length (filter (\<lambda>t. c \<le> t) A) \<le> length (filter (\<lambda>t. c \<le> t) (message_times p m)))"

lemma map_of_put: "map_ok m \<Longrightarrow> map_of (map_put k v m) = (map_of m)(k \<mapsto> v)"
proof (induction k v m rule: map_put.induct)
  case (2 k v i x m)
  have "map_ok m" using 2(2) by (simp add: map_ok_def)
  then show ?case using 2(1) by (auto simp: fun_eq_iff)
qed simp

lemma message_times_put [simp]:
  "map_ok m \<Longrightarrow> message_times p (map_put q ts m) = (if p = q then ts else message_times p m)"
  by (simp add: message_times_def map_of_put)

lemma map_ok_distinct: "map_ok m \<Longrightarrow> distinct (map fst m)"
  by (simp add: map_ok_def strict_sorted_iff)

lemma map_ok_filter: "map_ok m \<Longrightarrow> map_ok (filter P m)"
  by (simp add: map_ok_def sorted_wrt_map sorted_wrt_filter)

lemma message_times_filter:
  assumes "map_ok m"
  shows "message_times p (filter P m) =
    (if map_of m p \<noteq> None \<and> P (p, message_times p m) then message_times p m else [])"
proof (cases "map_of m p")
  case None
  then have "map_of (filter P m) p = None" by (auto simp: map_of_eq_None_iff)
  then show ?thesis using None by (simp add: message_times_def)
next
  case (Some ts)
  note d = map_ok_distinct [OF assms] map_ok_distinct [OF map_ok_filter [OF assms, of P]]
  have mem: "(p, ts) \<in> set m" using Some d(1) by simp
  show ?thesis
  proof (cases "P (p, ts)")
    case True
    then have "map_of (filter P m) p = Some ts" using mem d(2) by simp
    then show ?thesis using Some True by (simp add: message_times_def)
  next
    case False
    have "map_of (filter P m) p = None"
    proof (rule ccontr)
      assume "map_of (filter P m) p \<noteq> None"
      then obtain us where "(p, us) \<in> set (filter P m)" by (auto dest: map_of_SomeD)
      then have "map_of m p = Some us" "P (p, us)" using map_of_is_SomeI [OF d(1)] by auto
      then show False using False Some by simp
    qed
    then show ?thesis using Some False by (simp add: message_times_def)
  qed
qed

lemma remembers_later: "remembers p now A m \<Longrightarrow> now \<le> now' \<Longrightarrow> remembers p now' A m"
  by (simp add: remembers_def)

lemma message_times_pruned:
  assumes "map_ok m"
  shows "map_ok (map (\<lambda>e. (fst e, f (snd e))) m)"
    "f [] = [] \<Longrightarrow> message_times p (map (\<lambda>e. (fst e, f (snd e))) m) = f (message_times p m)"
proof -
  show "map_ok (map (\<lambda>e. (fst e, f (snd e))) m)" using assms by (simp add: map_ok_def o_def)
  have "map_of (map (\<lambda>e. (fst e, f (snd e))) m) p = map_option f (map_of m p)" by (induction m) auto
  then show "f [] = [] \<Longrightarrow> message_times p (map (\<lambda>e. (fst e, f (snd e))) m) = f (message_times p m)"
    by (simp add: message_times_def split: option.split)
qed

text \<open>Dropping old entries loses nothing of the last ten seconds.\<close>

lemma remembers_dropped:
  assumes "remembers p now A m" "map_ok m'"
    "\<And>c. now - MAX_CHAT_RATE_WINDOW_SEC \<le> c \<Longrightarrow>
       length (filter (\<lambda>t. c \<le> t) (message_times p m)) \<le> length (filter (\<lambda>t. c \<le> t) (message_times p m'))"
  shows "remembers p now A m'"
  using assms unfolding remembers_def by (meson order_trans)

lemma remembers_timer:
  assumes "remembers p now A m"
  shows "remembers p now A (TimerCleanupRateMaps now m)"
proof -
  let ?f = "filter (\<lambda>t. \<not> t < now - 600)"
  let ?m = "map (\<lambda>e. (fst e, ?f (snd e))) m"
  have ok: "map_ok m" using assms by (simp add: remembers_def)
  note pruned = message_times_pruned [OF ok, of ?f]
  have "message_times p (TimerCleanupRateMaps now m) = ?f (message_times p m)"
    using message_times_filter [OF pruned(1), of p "\<lambda>e. snd e \<noteq> []"] pruned(2) [of p]
    by (auto simp: TimerCleanupRateMaps_def message_times_def)
  moreover have "filter (\<lambda>t. c \<le> t) (?f ts) = filter (\<lambda>t. c \<le> t) ts" if "now - MAX_CHAT_RATE_WINDOW_SEC \<le> c" for c ts
    using that by (auto simp: MAX_CHAT_RATE_WINDOW_SEC_def intro!: filter_cong)
  ultimately show ?thesis
    using map_ok_filter [OF pruned(1), of "\<lambda>e. snd e \<noteq> []"]
    by (intro remembers_dropped [OF assms]) (simp_all add: TimerCleanupRateMaps_def)
qed

text \<open>One more message at the present time.\<close>

lemma in_window_snoc:
  assumes "\<And>w. in_window w A \<le> n + 1" "length (filter (\<lambda>t. now - MAX_CHAT_RATE_WINDOW_SEC \<le> t) A) \<le> n"
  shows "in_window w (A @ [now]) \<le> n + 1"
proof (cases "w \<le> now \<and> now \<le> w + MAX_CHAT_RATE_WINDOW_SEC")
  case True
  have "filter (\<lambda>t. w \<le> t \<and> t \<le> w + MAX_CHAT_RATE_WINDOW_SEC) A =
      filter (\<lambda>t. w \<le> t \<and> t \<le> w + MAX_CHAT_RATE_WINDOW_SEC) (filter (\<lambda>t. now - MAX_CHAT_RATE_WINDOW_SEC \<le> t) A)"
    using True by (auto intro!: filter_cong)
  then have "in_window w A \<le> n" unfolding in_window_def using assms(2) by (metis length_filter_le order_trans)
  then show ?thesis using True by (simp add: in_window_def)
next
  case False
  then show ?thesis using assms(1) [of w] by (auto simp: in_window_def)
qed

lemma chat_rate_remembers:
  assumes "remembers p now A m" "chat_rate now q m = (ok, m')"
  shows "remembers p now (if ok \<and> q = p then A @ [now] else A) m'"
proof -
  let ?cut = "now - MAX_CHAT_RATE_WINDOW_SEC"
  define ts where "ts = filter (\<lambda>t. \<not> t < ?cut) (message_times q m)"
  have mok: "map_ok m" using assms(1) by (simp add: remembers_def)
  have recent: "filter (\<lambda>t. c \<le> t) (filter (\<lambda>t. \<not> t < ?cut) us) = filter (\<lambda>t. c \<le> t) us" if "?cut \<le> c" for c us
    using that by (auto intro!: filter_cong)
  have put: "remembers p now A (map_put q (ts @ xs) m)" for xs
    using map_put_ok [OF mok] recent by (intro remembers_dropped [OF assms(1)]) (simp_all add: mok ts_def)
  show ?thesis
  proof (cases "length ts \<ge> MAX_CHAT_RATE_MESSAGES")
    case True
    then show ?thesis using assms(2) put [of "[]"] by (simp add: chat_rate_def ts_def [symmetric])
  next
    case False
    define m1 where "m1 = map_put q (ts @ [now]) m"
    have m1: "map_ok m1" "message_times p m1 = (if p = q then ts @ [now] else message_times p m)"
      using mok by (simp_all add: m1_def map_put_ok)
    have "remembers p now (if q = p then A @ [now] else A) m1"
    proof (cases "q = p")
      case True
      have few: "length (filter (\<lambda>t. ?cut \<le> t) A) \<le> length ts"
        using assms(1) True by (simp add: remembers_def ts_def not_less)
      then have "length (filter (\<lambda>t. ?cut \<le> t) A) \<le> 9" using False by (simp add: MAX_CHAT_RATE_MESSAGES_def)
      then have win: "in_window w (A @ [now]) \<le> 10" for w
        using in_window_snoc [of A 9 now w] assms(1) by (simp add: remembers_def MAX_CHAT_RATE_MESSAGES_def)
      have "length (filter (\<lambda>t. c \<le> t) (A @ [now])) \<le> length (filter (\<lambda>t. c \<le> t) (message_times p m1))" if "?cut \<le> c" for c
        using assms(1) that True recent [OF that] by (simp add: remembers_def m1(2) ts_def)
      then show ?thesis using m1(1) win True by (simp add: remembers_def MAX_CHAT_RATE_MESSAGES_def)
    next
      case False
      then show ?thesis using put [of "[now]"] by (simp add: m1_def)
    qed
    moreover have "remembers p now B m' " if "remembers p now B m1" for B
    proof -
      have m': "m' = (if length m1 > CLEANUP_THRESHOLD
          then filter (\<lambda>e. \<not> (snd e = [] \<or> list_all (\<lambda>t. t < ?cut) (snd e))) m1 else m1)"
        using assms(2) False by (auto simp: chat_rate_def ts_def [symmetric] m1_def Let_def)
      have "filter (\<lambda>t. c \<le> t) us = []" if "list_all (\<lambda>t. t < ?cut) us" "?cut \<le> c" for c us
        using that by (force simp: filter_empty_conv list_all_iff)
      moreover have "map_of m1 p = None \<Longrightarrow> message_times p m1 = []" by (simp add: message_times_def)
      ultimately show ?thesis using that m1(1)
        by (auto simp: m' message_times_filter map_ok_filter intro!: remembers_dropped [OF that])
    qed
    ultimately show ?thesis using assms(2) False by (auto simp: chat_rate_def ts_def [symmetric] Let_def)
  qed
qed

section \<open>The limit of what is sent\<close>

lemma remembers_prefix: "remembers p now (A @ [x]) m \<Longrightarrow> remembers p now A m"
  unfolding remembers_def in_window_def filter_append length_append by (meson add_leD1)

lemma sent_times_simps [simp]:
  "sent_times p [] = []" "sent_times p (os @ os') = sent_times p os @ sent_times p os'"
  "sent_times p [(t, q, es)] = (if q = Some p \<and> is_sent es then [t] else [])"
  by (simp_all add: sent_times_def)

lemma chat_step_remembers:
  assumes "remembers p now A m" "chat_step (now, e) m = (os, m')"
  shows "remembers p now (A @ sent_times p os) m'"
proof (cases e)
  case (ChatRequest player env r)
  obtain es m1 where h: "HandleNetPacketChatRequest now player env r m = (es, m1)" by fastforce
  have o: "os = [(now, player, es)]" "m' = m1" using assms(2) by (simp_all add: ChatRequest h)
  show ?thesis
  proof (cases "player = None \<or> chattext r = [] \<or> length (chattext r) \<ge> MAX_CHAT_TEXT_SIZE")
    case True
    then have "m1 = m" "\<not> is_sent es"
      using h by (auto simp: HandleNetPacketChatRequest_def is_sent_def split: option.splits if_splits)
    then show ?thesis using assms(1) by (simp add: o)
  next
    case False
    then obtain q where q: "player = Some q" by auto
    obtain ok m2 where c: "chat_rate now q m = (ok, m2)" by fastforce
    have m1: "m1 = m2" "ok \<or> \<not> is_sent es"
      using h False by (auto simp: HandleNetPacketChatRequest_def q c is_sent_def split: if_splits)
    note r = chat_rate_remembers [OF assms(1) c]
    show ?thesis
    proof (cases "q = p \<and> is_sent es")
      case True
      then show ?thesis using r m1 by (simp add: o q)
    next
      case False
      have "remembers p now A m2" using r remembers_prefix by (cases "ok \<and> q = p") auto
      then show ?thesis using False m1 by (auto simp: o q)
    qed
  qed
next
  case CleanupTimer
  then show ?thesis using assms remembers_timer by auto
qed

lemma chat_run_remembers:
  assumes "remembers p now A m" "sorted (now # map fst es)" "chat_run es m = (os, m')"
  shows "in_window w (A @ sent_times p os) \<le> MAX_CHAT_RATE_MESSAGES"
  using assms
proof (induction es arbitrary: now A m os)
  case Nil
  then show ?case by (simp add: remembers_def)
next
  case (Cons e es)
  obtain t x where e: "e = (t, x)" by fastforce
  obtain o1 m1 o2 where s: "chat_step (t, x) m = (o1, m1)" "chat_run es m1 = (o2, m')" "os = o1 @ o2"
    using Cons.prems(3) by (auto simp: e split: prod.splits)
  have "remembers p t A m" using remembers_later [OF Cons.prems(1)] Cons.prems(2) by (simp add: e)
  from Cons.IH [OF chat_step_remembers [OF this s(1)] _ s(2)] show ?case
    using Cons.prems(2) by (simp add: e s(3))
qed

text \<open>C16: Nobody floods the chat of the lobby. As long as the clock does not go back, at most ten messages of
  a player are sent to anybody, publicly, privately or as a notice, within any ten seconds, over any
  requests of all players and any clean-ups of the map, also when it is overfull.\<close>

theorem chat_rate_bounded:
  assumes "sorted (map fst es)"
  shows "in_window w (sent_times p (fst (chat_run es []))) \<le> 10"
proof (cases es)
  case Nil
  then show ?thesis by (simp add: in_window_def)
next
  case (Cons e es')
  have "remembers p (fst e) [] []" by (simp add: remembers_def map_ok_def in_window_def)
  moreover have "sorted (fst e # map fst es)" using assms by (simp add: Cons)
  ultimately have "in_window w ([] @ sent_times p (fst (chat_run es []))) \<le> MAX_CHAT_RATE_MESSAGES"
    using chat_run_remembers [of p "fst e" "[]" "[]" es] by (metis prod.collapse)
  then show ?thesis by (simp add: MAX_CHAT_RATE_MESSAGES_def)
qed

text \<open>Fifteen messages within fifteen seconds: the eleventh comes ten seconds after the first and is refused.\<close>

definition hello :: chat_request where
  "hello = \<lparr>chattext = ''hello'', targetgameid = None, targetplayerid = None\<rparr>"

definition chatter :: "(int \<times> chat_event) list" where
  "chatter = map (\<lambda>i. (int i, ChatRequest (Some 7) \<lparr>canReceive = (\<lambda>q. False), isAdmin = False\<rparr> hello)) [0..<15]"

theorem chat_rate_bounded_witness:
  "sent_times 7 (fst (chat_run chatter [])) = [0, 1, 2, 3, 4, 5, 6, 7, 8, 9, 11, 12, 13, 14] \<and>
   in_window 1 (sent_times 7 (fst (chat_run chatter []))) \<le> 10"
proof
  show "sent_times 7 (fst (chat_run chatter [])) = [0, 1, 2, 3, 4, 5, 6, 7, 8, 9, 11, 12, 13, 14]" by code_simp
  have "sorted (map fst chatter)" by (simp add: chatter_def o_def sorted_wrt_map sorted_wrt_upt)
  then show "in_window 1 (sent_times 7 (fst (chat_run chatter []))) \<le> 10" by (rule chat_rate_bounded)
qed

end
