(* ===== verification/Spec2Isabelle.thy ===== *)
theory Spec2Isabelle
  imports Hand_Name Ranking Packet_Flow Client_View Hole_Cards Transport Chat_Rules Chat_Server Login_Rules Lobby_Chat
begin

text \<open>
  A model of a Texas hold'em program for two players: its engine (\<open>src/src/engine\<close>), the server that
  runs games and admits players (\<open>src/src/net\<close>), the client's copy of a hand and the chat cleaner
  (\<open>src/src/chatcleaner\<close>). File names below are relative to these directories.

  How the parts work together. A session logs in at the lobby and enters a game. The game of the
  server (\<open>servergame.cpp\<close>, \<open>servergamestate.cpp\<close>) owns a \<open>Game\<close>, which creates a \<open>LocalHand\<close> for every
  hand; the hand owns its \<open>LocalBoard\<close> with the players and the five betting rounds, and calls
  \<open>CardsValue\<close> when it deals. The engine loop advances the hand and sends messages over the
  connections of the players; the client repeats the bookkeeping of the hand from these messages.

  \<^bold>\<open>Evaluator.\<close>
  \<^item> \<open>Cards_Value\<close>: \<open>CardsValue::cardsValue\<close> and the codes of hole cards, test by test
    (\<open>local_engine/cardsvalue.cpp\<close>); its exchange sort is the locale of \<open>Exchange_Sort\<close>.
  \<^item> \<open>Hand_Reference\<close> states the hands of poker independently of the code. \<open>Rank_Patterns\<close>,
    \<open>Cards_Correct\<close>, \<open>Suit_Correct\<close> and \<open>Hand_Order\<close> prove that the evaluator returns the encoding of
    the reference hand, that the encoding is monotone, and that the order of the cards is irrelevant.
  \<^item> \<open>Hand_Name\<close>: the texts made from a value.

  \<^bold>\<open>Engine\<close> (\<open>local_engine\<close>, \<open>game.cpp\<close>).
  \<^item> \<open>Player\<close> (\<open>LocalPlayer\<close>): sets, cash, the evaluation of a move. \<open>Board\<close> (\<open>LocalBoard\<close>): collecting
    the sets, distributing the pot, compared with the rules of a showdown. \<open>Show_Cards\<close>: who shows.
  \<^item> \<open>Hand\<close> (\<open>LocalHand\<close>): dealing, buttons, blinds. \<open>Betting_Round\<close> (\<open>LocalBeRo\<close>, \<open>switchRounds\<close>): whose
    turn it is, the end of a round, the all in routine. \<open>Deal\<close>: dealing is fair.
  \<^item> \<open>Game\<close> (\<open>Game\<close>): constructor, start of a hand, the next dealer, the blinds; \<open>Blinds\<close> and \<open>Dealer\<close>
    prove the schedule of the blinds and the move of the button.

  \<^bold>\<open>A hand on the server.\<close>
  \<^item> \<open>Server_Actions\<close> (the requests of the players and their checks) and \<open>Engine_Loop\<close> (one run of the
    loop). \<open>Server_Hand\<close> and \<open>Hand_Start\<close> define the steps of a hand as an inductive relation: runs of
    the loop, requests with any content, timeouts. \<open>Chips\<close> and \<open>Hand_Chips\<close> prove with a locale of chip
    movers that no step changes the number of chips.
  \<^item> \<open>Hand_Opening\<close>, \<open>Heads_Up_Play\<close>, \<open>Hand_Progress\<close>: the invariant of a hand of two players; no step
    throws; with the all in condition the hand ends after four runs.
  \<^item> \<open>Server_Messages\<close>: the same steps with the messages they send, shown to reach the same states.
    \<open>Secrecy\<close>: what the messages reveal. \<open>Bets\<close>: the bets and limits that the steps keep.

  \<^bold>\<open>Games on the server.\<close>
  \<^item> \<open>Server_Game\<close> (sessions and places), \<open>Game_Settings\<close> (the settings in the protocol and their checks),
    \<open>Lineup\<close>, \<open>Hand_Flags\<close>, \<open>Game_Play\<close>: a whole game, with players who lose their connection, come
    back, or are kicked, goes on without an exception and keeps the chips; the one exception is an
    action request of a player who came back and is not seated yet. \<open>Membership\<close>: who joins, leaves
    and administers, and how an empty game can lose its admin. \<open>Ranking\<close>: the places. \<open>Vote_Kick\<close>:
    petitions.
  \<^item> \<open>Packet_Validator\<close> (\<open>netpacketvalidator.cpp\<close>): the messages as records, all validations.
    \<open>Packet_Flow\<close>: which packets of the server the clients parse and accept.

  \<^bold>\<open>Clients.\<close>
  \<^item> \<open>Client_Hand\<close> (\<open>clientstate.cpp\<close>, \<open>network_engine\<close>): the handlers of the messages of a hand. \<open>Client_Sync\<close>
    and \<open>Client_View\<close>: a client that hears the messages of a hand, from the start of the hand to its end,
    is a refinement of the hand of the server; only the minimum raise of the later rounds depends on
    the client's own count of the blinds.
  \<^item> \<open>Crypt_Helper\<close> (\<open>core/crypthelper.cpp\<close>): hash buffers, key derivation, padding and encryption under a
    password, over a record of the functions of the cryptographic library. \<open>Hole_Cards\<close>: the text
    that carries the hole cards, plain and encrypted, from the server to the client.

  \<^bold>\<open>Connections, login and chat.\<close>
  \<^item> \<open>Framing\<close>, \<open>Send_Buffer\<close> (\<open>asiosendbuffer.cpp\<close>), \<open>Receive_Buffer\<close> (\<open>asioreceivebuffer.cpp\<close>) and
    \<open>Transport\<close> (\<open>senderhelper.cpp\<close>): packets over a byte stream.
  \<^item> \<open>Login\<close> (\<open>serverlobbythread.cpp\<close>, \<open>sessiondata.cpp\<close>): one session up to the lobby and the games, the
    upload of an avatar, the answers of the database. \<open>Login_Rules\<close>: what is needed to get in.
    \<open>Ban_Manager\<close> (\<open>serverbanmanager.cpp\<close>): bans, their ids and timers, administrators.
  \<^item> \<open>Lobby_Chat\<close> (\<open>serverlobbythread.cpp\<close>): chat in the lobby and its limit. \<open>Chat_Cleaner\<close>
    (\<open>messagefilter.cpp\<close> and the checks), \<open>Chat_Rules\<close> (warnings before punishments) and \<open>Chat_Server\<close>
    (\<open>cleanerserver.cpp\<close>, \<open>chatcleanermanager.cpp\<close>, \<open>ConstantTimeStringCompare\<close>).

  \<^bold>\<open>Conventions.\<close> A class is a record, an object with several owners is part of one of them. An
  exception is the left value of a sum, or \<open>None\<close>. \<open>int\<close> and \<open>unsigned\<close> are \<open>int\<close> and \<open>nat\<close> with the casts of the
  source written out as \<open>mod 2 ^ 32\<close>; counters that wrap are \<open>32 word\<close>. Signed overflow, which is
  undefined in the source, is excluded by proof: a game of accepted settings has at most 2000000
  chips, and the evaluator and the blinds stay below \<open>2 ^ 31\<close>. Lists that are searched cyclically
  (\<open>next_active\<close>, \<open>former_running\<close>) take the number of seats as fuel, which visits each seat once; the
  loop of \<open>EncodeToBuf\<close> is \<open>while_option\<close> and proved to end; the loops over a receive buffer and the search for a
  ban id are functions with a measure. The properties of whole hands and games hold for every sequence of steps, so
  for every interleaving of the players, the timers and the loop; the events of a session are an
  over-approximation of what the network can do.

  \<^bold>\<open>Not modelled.\<close> The moves of computer players and their odds (floating point and random numbers);
  the user interface; the log and the database; threads, sockets, timers and name resolution, of which
  only the events they deliver occur; the lists of players and games of the lobby and its statistics;
  reading configuration files. Parameters of the model: the shuffled deck, the time, SHA-1 and
  AES-128-CBC of the cryptographic library (of which only is assumed that decryption undoes
  encryption), the serialization and parsing of protobuf messages, regular expressions, the
  functions of Qt on texts, and in \<open>StartNewHand\<close> whether the cards of a player can be encrypted.
\<close>

end
